(* ===== verification/LF_Prelude.thy ===== *)
theory LF_Prelude
  imports Main "HOL-Library.Word"
begin

text \<open>
  Shared vocabulary of the LiteForth development: the machine integer types of the C code,
  the collections of rewrite rules the component theories feed, generic facts about lists and
  words, and the error codes (iors) of \<^verbatim>\<open>src/src/errcodes.h\<close> that the modelled code returns.
\<close>

unbundle bit_operations_syntax

section \<open>Machine integers\<close>

type_synonym u8 = "8 word"
type_synonym u16 = "16 word"
type_synonym u32 = "32 word"
type_synonym u64 = "64 word"

text \<open>An ior is a C \<open>int32_t\<close>; the codes are small negative integers, 0 is success.\<close>

type_synonym ior = int

section \<open>Collections\<close>

named_theorems const_defs \<open>the numeric constants of the headers\<close>
named_theorems bounds \<open>index and length facts\<close>

section \<open>Lists updated by index\<close>

lemma nested_update_nth:
  "q < length xss \<Longrightarrow>
    (xss[p := (xss ! p)[i := v]]) ! q = (if q = p then (xss ! p)[i := v] else xss ! q)"
  by auto

lemma map_length_nested_update [simp]:
  "map length (xss[p := (xss ! p)[i := v]]) = map length xss"
  by (rule nth_equalityI) (simp_all add: nested_update_nth)

section \<open>Words\<close>

lemma unat_and_le_right: "unat (x AND m) \<le> unat (m :: 'a::len word)"
  by (simp add: word_and_le1 word_le_nat_alt [symmetric])

lemma unat_and_mask_less:
  assumes "unat m < n"
  shows "unat (x AND m) < n"
  using assms unat_and_le_right [of x m] by simp

lemma and_mask_idem [simp]: "(x AND m) AND m = x AND (m :: 'a::len word)"
  by (simp add: and.assoc)

lemma unat_drop_bit_less:
  assumes "LENGTH('a::len) = n + k"
  shows "unat (drop_bit n (x :: 'a word)) < 2 ^ k"
proof -
  have "unat x < 2 ^ (n + k)"
    using assms unsigned_less [of x] by simp
  then have "unat x div 2 ^ n < 2 ^ k"
    by (simp add: power_add less_mult_imp_div_less mult.commute)
  then show ?thesis
    by (subst unat_drop_bit_eq) (simp only: drop_bit_eq_div)
qed

lemma exp_minus_1_mask: "push_bit n 1 - 1 = (mask n :: 'a::len word)"
  by (simp add: mask_eq_exp_minus_1)

lemma word_le_nat: "(a :: 'a::len word) \<le> b \<longleftrightarrow> unat a \<le> unat b"
  by (rule word_le_nat_alt)

lemma word_less_nat: "(a :: 'a::len word) < b \<longleftrightarrow> unat a < unat b"
  by (rule word_less_nat_alt)

lemma unat_eq_iff: "unat x = unat y \<longleftrightarrow> x = (y :: 'a::len word)"
  by (rule word_unat_eq_iff [symmetric])

lemma bit32_beyond [simp]: "32 \<le> n \<Longrightarrow> \<not> bit (x :: u32) n"
  by (auto dest: bit_imp_le_length)

lemma small_take_bit: "unat x < 2 ^ n \<Longrightarrow> take_bit n x = (x :: 'a::len word)"
  by (simp add: word_unat_eq_iff unsigned_take_bit_eq take_bit_nat_eq_self)

lemma unat_bounds:
  "unat (a :: u8) < 2 ^ 8" "unat (b :: u16) < 2 ^ 16" "unat (c :: u32) < 2 ^ 32"
  "unat (d :: u64) < 2 ^ 64"
  using unsigned_less [of a] unsigned_less [of b] unsigned_less [of c] unsigned_less [of d]
  by simp_all

lemma unat_div_exp: "unat (drop_bit i (x :: 'a::len word)) = unat x div 2 ^ i"
  by (subst unat_drop_bit_eq) (simp only: drop_bit_eq_div)

lemma bit_unat_odd: "bit (x :: 'a::len word) k \<longleftrightarrow> odd (unat x div 2 ^ k)"
  by (simp add: bit_simps flip: bit_iff_odd)

lemma unat_ucast_wide: "LENGTH('a::len) \<le> LENGTH('b::len) \<Longrightarrow> unat (ucast (x :: 'a word) :: 'b word) = unat x"
  by (simp add: unsigned_ucast_eq take_bit_nat_eq_self unsigned_less [THEN order.strict_trans2])

lemma bit_word_length: "bit (x :: 'a::len word) n \<Longrightarrow> n < LENGTH('a)"
  by (rule bit_imp_le_length)

lemma unat_of_small: "n < 2 ^ 32 \<Longrightarrow> unat (word_of_nat n :: u32) = n"
  by (simp add: unsigned_of_nat take_bit_nat_eq_self)

lemma sint_small: "unat (r :: u32) < 2 ^ 31 \<Longrightarrow> sint r = uint r"
proof -
  assume h: "unat r < 2 ^ 31"
  then have "\<not> bit r 31"
    by (simp add: bit_unat_odd)
  moreover have "uint r < 2 ^ 31"
    using h by (simp only: unat_eq_nat_uint nat_less_iff uint_ge_0) simp
  ultimately show ?thesis
    by (simp add: sint_uint signed_take_bit_eq_if_positive bit_uint_iff take_bit_int_eq_self)
qed

section \<open>Error codes (errcodes.h)\<close>

definition ERR_ABORT :: ior where [simp]: "ERR_ABORT = - 1"
definition ERR_ABORT_QUOTE :: ior where [simp]: "ERR_ABORT_QUOTE = - 2"
definition ERR_STACK_OVERFLOW :: ior where [simp]: "ERR_STACK_OVERFLOW = - 3"
definition ERR_STACK_UNDERFLOW :: ior where [simp]: "ERR_STACK_UNDERFLOW = - 4"
definition ERR_RSTACK_OVERFLOW :: ior where [simp]: "ERR_RSTACK_OVERFLOW = - 5"
definition ERR_RSTACK_UNDERFLOW :: ior where [simp]: "ERR_RSTACK_UNDERFLOW = - 6"
definition ERR_DO_LOOPS_NESTED :: ior where [simp]: "ERR_DO_LOOPS_NESTED = - 7"
definition ERR_DICTIONARY_OVERFLOW :: ior where [simp]: "ERR_DICTIONARY_OVERFLOW = - 8"
definition ERR_INVALID_ADDRESS :: ior where [simp]: "ERR_INVALID_ADDRESS = - 9"
definition ERR_DIVISION_BY_ZERO :: ior where [simp]: "ERR_DIVISION_BY_ZERO = - 10"
definition ERR_RESULT_OUT_OF_RANGE :: ior where [simp]: "ERR_RESULT_OUT_OF_RANGE = - 11"
definition ERR_ARGUMENT_TYPE_MISMATCH :: ior where [simp]: "ERR_ARGUMENT_TYPE_MISMATCH = - 12"
definition ERR_UNDEFINED_WORD :: ior where [simp]: "ERR_UNDEFINED_WORD = - 13"
definition ERR_INTERPRET_COMPILE_ONLY :: ior where [simp]: "ERR_INTERPRET_COMPILE_ONLY = - 14"
definition ERR_INVALID_FORGET :: ior where [simp]: "ERR_INVALID_FORGET = - 15"
definition ERR_ZERO_LENGTH_NAME :: ior where [simp]: "ERR_ZERO_LENGTH_NAME = - 16"
definition ERR_PICTURED_NUM_OVERFLOW :: ior where [simp]: "ERR_PICTURED_NUM_OVERFLOW = - 17"
definition ERR_PARSED_STRING_OVERFLOW :: ior where [simp]: "ERR_PARSED_STRING_OVERFLOW = - 18"
definition ERR_DEFINITION_TOO_LONG :: ior where [simp]: "ERR_DEFINITION_TOO_LONG = - 19"
definition ERR_WRITE_PROTECTED :: ior where [simp]: "ERR_WRITE_PROTECTED = - 20"
definition ERR_UNSUPPORTED_OPERATION :: ior where [simp]: "ERR_UNSUPPORTED_OPERATION = - 21"
definition ERR_CONTROL_STRUCTURE :: ior where [simp]: "ERR_CONTROL_STRUCTURE = - 22"
definition ERR_ADDRESS_ALIGNMENT :: ior where [simp]: "ERR_ADDRESS_ALIGNMENT = - 23"
definition ERR_INVALID_NUMERIC :: ior where [simp]: "ERR_INVALID_NUMERIC = - 24"
definition ERR_RETURN_STACK_IMBALANCE :: ior where [simp]: "ERR_RETURN_STACK_IMBALANCE = - 25"
definition ERR_LOOP_PARAMETERS_INVALID :: ior where [simp]: "ERR_LOOP_PARAMETERS_INVALID = - 26"
definition ERR_INVALID_COMPUTE_PAD :: ior where [simp]: "ERR_INVALID_COMPUTE_PAD = - 27"
definition ERR_USER_INTERRUPT :: ior where [simp]: "ERR_USER_INTERRUPT = - 28"
definition ERR_COMPILER_NESTING :: ior where [simp]: "ERR_COMPILER_NESTING = - 29"
definition ERR_OBSOLETE_FEATURE :: ior where [simp]: "ERR_OBSOLETE_FEATURE = - 30"
definition ERR_BODY_ON_NON_CREATE :: ior where [simp]: "ERR_BODY_ON_NON_CREATE = - 31"
definition ERR_INVALID_NAME_ARGUMENT :: ior where [simp]: "ERR_INVALID_NAME_ARGUMENT = - 32"
definition ERR_BLOCK_READ_ERROR :: ior where [simp]: "ERR_BLOCK_READ_ERROR = - 33"
definition ERR_BLOCK_WRITE_ERROR :: ior where [simp]: "ERR_BLOCK_WRITE_ERROR = - 34"
definition ERR_INVALID_BLOCK_NUMBER :: ior where [simp]: "ERR_INVALID_BLOCK_NUMBER = - 35"
definition ERR_INVALID_FILE_POSITION :: ior where [simp]: "ERR_INVALID_FILE_POSITION = - 36"
definition ERR_FILE_IO_ERROR :: ior where [simp]: "ERR_FILE_IO_ERROR = - 37"
definition ERR_FILE_NOT_FOUND :: ior where [simp]: "ERR_FILE_NOT_FOUND = - 38"
definition ERR_UNEXPECTED_EOF :: ior where [simp]: "ERR_UNEXPECTED_EOF = - 39"
definition ERR_INVALID_BASE :: ior where [simp]: "ERR_INVALID_BASE = - 40"
definition ERR_LOSS_OF_PRECISION :: ior where [simp]: "ERR_LOSS_OF_PRECISION = - 41"
definition ERR_FP_DIVIDE_BY_ZERO :: ior where [simp]: "ERR_FP_DIVIDE_BY_ZERO = - 42"
definition ERR_FP_RESULT_OUT_OF_RANGE :: ior where [simp]: "ERR_FP_RESULT_OUT_OF_RANGE = - 43"
definition ERR_FP_STACK_OVERFLOW :: ior where [simp]: "ERR_FP_STACK_OVERFLOW = - 44"
definition ERR_FP_STACK_UNDERFLOW :: ior where [simp]: "ERR_FP_STACK_UNDERFLOW = - 45"
definition ERR_FP_INVALID_ARGUMENT :: ior where [simp]: "ERR_FP_INVALID_ARGUMENT = - 46"
definition ERR_COMPILATION_ONLY :: ior where [simp]: "ERR_COMPILATION_ONLY = - 47"
definition ERR_INVALID_POSTPONE :: ior where [simp]: "ERR_INVALID_POSTPONE = - 48"
definition ERR_SEARCH_ORDER_OVERFLOW :: ior where [simp]: "ERR_SEARCH_ORDER_OVERFLOW = - 49"
definition ERR_SEARCH_ORDER_UNDERFLOW :: ior where [simp]: "ERR_SEARCH_ORDER_UNDERFLOW = - 50"
definition ERR_COMPILATION_PASS_ERROR :: ior where [simp]: "ERR_COMPILATION_PASS_ERROR = - 51"
definition ERR_CONTROL_STRUCTURE_OVER :: ior where [simp]: "ERR_CONTROL_STRUCTURE_OVER = - 52"
definition ERR_EXCEPTION_STACK_OVERFLOW :: ior where [simp]: "ERR_EXCEPTION_STACK_OVERFLOW = - 53"
definition ERR_FLOATING_POINT_UNAVAIL :: ior where [simp]: "ERR_FLOATING_POINT_UNAVAIL = - 54"
definition ERR_FP_UNIDENTIFIED_FAULT :: ior where [simp]: "ERR_FP_UNIDENTIFIED_FAULT = - 55"
definition ERR_QUIT :: ior where [simp]: "ERR_QUIT = - 56"
definition ERR_EXCEPTION_IN_CHAR :: ior where [simp]: "ERR_EXCEPTION_IN_CHAR = - 57"
definition ERR_IF_NOT_FINISHED :: ior where [simp]: "ERR_IF_NOT_FINISHED = - 58"
definition ERR_ALLOCATE_FAILED :: ior where [simp]: "ERR_ALLOCATE_FAILED = - 59"
definition ERR_FREE_FAILED :: ior where [simp]: "ERR_FREE_FAILED = - 60"
definition ERR_RERESIZE_FAILED :: ior where [simp]: "ERR_RERESIZE_FAILED = - 61"
definition ERR_CLOSE_FILE_FAILED :: ior where [simp]: "ERR_CLOSE_FILE_FAILED = - 62"
definition ERR_CREATE_FILE_FAILED :: ior where [simp]: "ERR_CREATE_FILE_FAILED = - 63"
definition ERR_DELETE_FILE_FAILED :: ior where [simp]: "ERR_DELETE_FILE_FAILED = - 64"
definition ERR_FILE_POSITION_FAILED :: ior where [simp]: "ERR_FILE_POSITION_FAILED = - 65"
definition ERR_FILE_SIZE_FAILED :: ior where [simp]: "ERR_FILE_SIZE_FAILED = - 66"
definition ERR_INCLUDE_FILE_FAILED :: ior where [simp]: "ERR_INCLUDE_FILE_FAILED = - 67"
definition ERR_LINE_READ_FAILED :: ior where [simp]: "ERR_LINE_READ_FAILED = - 68"
definition ERR_FILE_READ_FAILED :: ior where [simp]: "ERR_FILE_READ_FAILED = - 69"
definition ERR_RENAME_FILE_FAILED :: ior where [simp]: "ERR_RENAME_FILE_FAILED = - 70"
definition ERR_SET_FILE_POS_FAILED :: ior where [simp]: "ERR_SET_FILE_POS_FAILED = - 71"
definition ERR_RESIZE_FILE_FAILED :: ior where [simp]: "ERR_RESIZE_FILE_FAILED = - 72"
definition ERR_FLUSH_FILE_FAILED :: ior where [simp]: "ERR_FLUSH_FILE_FAILED = - 73"
definition ERR_WRITE_FILE_FAILED :: ior where [simp]: "ERR_WRITE_FILE_FAILED = - 74"
definition ERR_WRITE_LINE_FAILED :: ior where [simp]: "ERR_WRITE_LINE_FAILED = - 75"
definition ERR_MALFORMED_UTF8 :: ior where [simp]: "ERR_MALFORMED_UTF8 = - 76"
definition ERR_INVALID_NAME :: ior where [simp]: "ERR_INVALID_NAME = - 77"
definition ERR_CALLBACK_FAILED :: ior where [simp]: "ERR_CALLBACK_FAILED = - 78"
definition ERR_RESERVED_FORTH2012 :: ior where [simp]: "ERR_RESERVED_FORTH2012 = - 79"
definition ERR_INVALID_HANDLE :: ior where [simp]: "ERR_INVALID_HANDLE = - 80"
definition ERR_TERM_NOT_A_TTY :: ior where [simp]: "ERR_TERM_NOT_A_TTY = - 81"
definition ERR_PORT_OPEN_FAILED :: ior where [simp]: "ERR_PORT_OPEN_FAILED = - 82"
definition ERR_GET_TERM_FAILED :: ior where [simp]: "ERR_GET_TERM_FAILED = - 83"
definition ERR_SET_TERM_FAILED :: ior where [simp]: "ERR_SET_TERM_FAILED = - 84"
definition ERR_IO_CHECK_FAILED :: ior where [simp]: "ERR_IO_CHECK_FAILED = - 85"
definition ERR_TERM_TX_FAILED :: ior where [simp]: "ERR_TERM_TX_FAILED = - 86"
definition ERR_TERM_RX_FAILED :: ior where [simp]: "ERR_TERM_RX_FAILED = - 87"
definition ERR_BLK_CREATE_FAIL :: ior where [simp]: "ERR_BLK_CREATE_FAIL = - 88"
definition ERR_BLK_WRITE_INIT :: ior where [simp]: "ERR_BLK_WRITE_INIT = - 89"
definition ERR_BLK_OPEN_FAIL :: ior where [simp]: "ERR_BLK_OPEN_FAIL = - 90"
definition ERR_BLK_PARSE_FAIL :: ior where [simp]: "ERR_BLK_PARSE_FAIL = - 91"
definition ERR_BLK_BOUNDS :: ior where [simp]: "ERR_BLK_BOUNDS = - 92"
definition ERR_BLK_SEEK_FAIL :: ior where [simp]: "ERR_BLK_SEEK_FAIL = - 93"
definition ERR_BLK_READ_FAIL :: ior where [simp]: "ERR_BLK_READ_FAIL = - 94"
definition ERR_BLK_WRITE_FAIL :: ior where [simp]: "ERR_BLK_WRITE_FAIL = - 95"
definition ERR_BLK_WRITE_PROTECTED :: ior where [simp]: "ERR_BLK_WRITE_PROTECTED = - 96"
definition ERR_FLASH_CREATE_FAIL :: ior where [simp]: "ERR_FLASH_CREATE_FAIL = - 97"
definition ERR_FLASH_WRITE_INIT :: ior where [simp]: "ERR_FLASH_WRITE_INIT = - 98"
definition ERR_FLASH_INVALID_SECTOR :: ior where [simp]: "ERR_FLASH_INVALID_SECTOR = - 99"
definition ERR_FLASH_OPEN_WRITE :: ior where [simp]: "ERR_FLASH_OPEN_WRITE = - 100"
definition ERR_FLASH_SEEK_FAIL :: ior where [simp]: "ERR_FLASH_SEEK_FAIL = - 101"
definition ERR_FLASH_WRITE_SECTOR :: ior where [simp]: "ERR_FLASH_WRITE_SECTOR = - 102"
definition ERR_EXEC_PROTECTED :: ior where [simp]: "ERR_EXEC_PROTECTED = - 103"
definition ERR_INVALID_API_CALL :: ior where [simp]: "ERR_INVALID_API_CALL = - 104"
definition ERR_INVALID_OPCODE :: ior where [simp]: "ERR_INVALID_OPCODE = - 105"
definition ERR_WRONG_RESULTS :: ior where [simp]: "ERR_WRONG_RESULTS = - 106"
definition ERR_WRONG_NUM_RESULTS :: ior where [simp]: "ERR_WRONG_NUM_RESULTS = - 107"
definition ERR_INVALID_MEMORY_PAGE :: ior where [simp]: "ERR_INVALID_MEMORY_PAGE = - 108"
definition ERR_TIB_OVERFLOW :: ior where [simp]: "ERR_TIB_OVERFLOW = - 109"
definition ERR_WID_OVERFLOW :: ior where [simp]: "ERR_WID_OVERFLOW = - 110"
definition ERR_TOO_MANY_BITS :: ior where [simp]: "ERR_TOO_MANY_BITS = - 111"
definition ERR_INTERPRETATION_ONLY :: ior where [simp]: "ERR_INTERPRETATION_ONLY = - 112"
definition ERR_POSTPONING_CONSTANT :: ior where [simp]: "ERR_POSTPONING_CONSTANT = - 113"
definition ERR_NO_API_CALL_ALLOWED :: ior where [simp]: "ERR_NO_API_CALL_ALLOWED = - 114"
definition ERR_VM_BREAK :: ior where [simp]: "ERR_VM_BREAK = - 115"
definition ERR_VM_TIMEOUT :: ior where [simp]: "ERR_VM_TIMEOUT = - 116"
definition ERR_BAD_BOOT_RECORD :: ior where [simp]: "ERR_BAD_BOOT_RECORD = - 117"
definition ERR_BAD_STACK_ALLOCATION :: ior where [simp]: "ERR_BAD_STACK_ALLOCATION = - 118"
definition ERR_UNRESOLVED_LATER :: ior where [simp]: "ERR_UNRESOLVED_LATER = - 119"
definition ERR_CANNOT_DOES :: ior where [simp]: "ERR_CANNOT_DOES = - 120"
definition ERR_EMPTY_TASKER :: ior where [simp]: "ERR_EMPTY_TASKER = - 121"
definition ERR_MUST_HAVE_HEADS :: ior where [simp]: "ERR_MUST_HAVE_HEADS = - 122"
definition ERR_YMODEM_TRANSFER :: ior where [simp]: "ERR_YMODEM_TRANSFER = - 123"
definition ERR_YMODEM_SOURCE :: ior where [simp]: "ERR_YMODEM_SOURCE = - 124"
definition ERR_BLK_BUSY :: ior where [simp]: "ERR_BLK_BUSY = - 125"
definition ERR_BLK_TIMEOUT :: ior where [simp]: "ERR_BLK_TIMEOUT = - 126"
definition ERR_BUS_FAULT :: ior where [simp]: "ERR_BUS_FAULT = - 127"
definition ERR_CPU_EXCEPTION :: ior where [simp]: "ERR_CPU_EXCEPTION = - 128"

end
