(* ===== verification/VM_Memory.thy ===== *)
theory VM_Memory
  imports LF_Prelude
begin

text \<open>
  The cell-addressed memory of the LiteForth VM: \<^verbatim>\<open>vmFieldPlus\<close>, \<^verbatim>\<open>vmGuarded\<close>, \<^verbatim>\<open>vmFetch\<close> and
  \<^verbatim>\<open>vmStore\<close> of \<^verbatim>\<open>src/src/vm.c\<close>, over the page tables declared there.

  A 32-bit address holds a slice width in bits 31:27 (0 for a whole cell), a bit position in
  bits 26:22, and a 22-bit cell address, of which the top \<open>VM_LOG2_PAGES\<close> bits select a page.
  The pages are lists of cells; an index past the end of a list would be an access outside the
  C array, and \<open>wf_mem\<close> with the bounds lemmas shows that no successful access has one.
\<close>

section \<open>Page tables\<close>

definition VM_LOG2_PAGES :: nat where [const_defs]: "VM_LOG2_PAGES = 3"
definition VM_MEM_PAGES :: u32 where [const_defs]: "VM_MEM_PAGES = push_bit VM_LOG2_PAGES 1"
definition VM_PAGE_MASK :: u32 where
  [const_defs]: "VM_PAGE_MASK = push_bit (22 - VM_LOG2_PAGES) 1 - 1"
definition VM_IO_READ :: u32 where [const_defs]: "VM_IO_READ = 1"
definition VM_IO_WRITE :: u32 where [const_defs]: "VM_IO_WRITE = 2"

record vm_io_range =
  rg_first :: u32
  rg_end :: u32
  rg_flags :: u32

record vm_mem =
  vm_memory :: "u32 list list"
  vm_memory_rd_limit :: "u32 list"
  vm_memory_wp_limit :: "u32 list"
  vm_memory_executable :: "u32 list"
  vm_io_page :: u32
  vm_io_ranges :: "vm_io_range list"

text \<open>The fields of an address.\<close>

definition addr_width :: "u32 \<Rightarrow> u32" where
  "addr_width addr = drop_bit 27 addr"

definition addr_shift :: "u32 \<Rightarrow> u32" where
  "addr_shift addr = drop_bit 22 addr AND 0x1F"

definition addr_page :: "u32 \<Rightarrow> u32" where
  "addr_page addr = drop_bit (22 - VM_LOG2_PAGES) addr AND (VM_MEM_PAGES - 1)"

definition addr_cell :: "u32 \<Rightarrow> u32" where
  "addr_cell addr = addr AND VM_PAGE_MASK"

definition rd_limit :: "vm_mem \<Rightarrow> u32 \<Rightarrow> u32" where
  "rd_limit m page = vm_memory_rd_limit m ! unat page"

definition wp_limit :: "vm_mem \<Rightarrow> u32 \<Rightarrow> u32" where
  "wp_limit m page = vm_memory_wp_limit m ! unat page"

definition get_cell :: "vm_mem \<Rightarrow> u32 \<Rightarrow> u32 \<Rightarrow> u32" where
  "get_cell m page a = vm_memory m ! unat page ! unat a"

definition set_cell :: "vm_mem \<Rightarrow> u32 \<Rightarrow> u32 \<Rightarrow> u32 \<Rightarrow> vm_mem" where
  "set_cell m page a v =
     m\<lparr>vm_memory := (vm_memory m)[unat page := (vm_memory m ! unat page)[unat a := v]]\<rparr>"

section \<open>Operations\<close>

definition vmFieldPlus :: "u32 \<Rightarrow> u32" where
  "vmFieldPlus addr =
     (let bsize = drop_bit 27 addr AND 0x1F in
      if bsize = 0 then addr + 1
      else
        let bshift = (drop_bit 22 addr AND 0x1F) + bsize;
            wraps = bshift + bsize > 32;
            bshift' = (if wraps then (bshift - 32) AND 0x1F else bshift);
            addr' = (if wraps then addr + 1 else addr)
        in push_bit 27 bsize OR push_bit 22 bshift' OR (addr' AND 0x3FFFFF))"

text \<open>The loop over the allowlist: a range whose end is 0 terminates the C array.\<close>

fun guard_loop :: "vm_io_range list \<Rightarrow> u32 \<Rightarrow> u32 \<Rightarrow> ior" where
  "guard_loop [] a need = ERR_INVALID_ADDRESS"
| "guard_loop (r # rs) a need =
     (if rg_end r = 0 then ERR_INVALID_ADDRESS
      else if rg_end r \<le> a \<or> a < rg_first r then guard_loop rs a need
      else if rg_flags r AND need \<noteq> 0 then 0
      else if need = VM_IO_WRITE then ERR_WRITE_PROTECTED else ERR_INVALID_ADDRESS)"

definition vmGuarded :: "vm_mem \<Rightarrow> u32 \<Rightarrow> u32 \<Rightarrow> u32 \<Rightarrow> ior" where
  "vmGuarded m page a need =
     (if page \<noteq> vm_io_page m then ERR_INVALID_ADDRESS
      else guard_loop (vm_io_ranges m) a need)"

text \<open>\<open>vmFetch\<close> returns its ior and the value it leaves in \<open>*data\<close>.\<close>

definition vmFetch :: "vm_mem \<Rightarrow> u32 \<Rightarrow> ior \<times> u32" where
  "vmFetch m addr =
     (let bitfield_size = addr_width addr; page = addr_page addr; a = addr_cell addr;
          ior = (if rd_limit m page \<le> a then vmGuarded m page a VM_IO_READ else 0)
      in if ior \<noteq> 0 then (ior, 0)
         else let res = get_cell m page a in
           (0, if bitfield_size \<noteq> 0
               then drop_bit (unat (addr_shift addr)) res AND
                    (push_bit (unat bitfield_size) 1 - 1)
               else res))"

text \<open>The protection checks of \<open>vmStore\<close>, and the cell it writes when they pass.\<close>

definition store_check :: "vm_mem \<Rightarrow> u32 \<Rightarrow> u32 \<Rightarrow> ior" where
  "store_check m page a =
     (if rd_limit m page \<le> a then vmGuarded m page a VM_IO_WRITE
      else if a < wp_limit m page then ERR_WRITE_PROTECTED else 0)"

definition merge_field :: "u32 \<Rightarrow> u32 \<Rightarrow> u32 \<Rightarrow> u32 \<Rightarrow> u32" where
  "merge_field bitfield_size bshift old data =
     (if bitfield_size \<noteq> 0 then
        let mask = push_bit (unat bitfield_size) 1 - 1 in
        push_bit (unat bshift) (data AND mask) OR (old AND NOT (push_bit (unat bshift) mask))
      else data)"

definition vmStore :: "vm_mem \<Rightarrow> u32 \<Rightarrow> u32 \<Rightarrow> ior \<times> vm_mem" where
  "vmStore m addr data =
     (let page = addr_page addr; a = addr_cell addr; ior = store_check m page a
      in if ior \<noteq> 0 then (ior, m)
         else (0, set_cell m page a
                (merge_field (addr_width addr) (addr_shift addr) (get_cell m page a) data)))"

section \<open>Index bounds\<close>

lemma mem_consts [simp]:
  "VM_LOG2_PAGES = 3" "VM_MEM_PAGES = 8" "VM_PAGE_MASK = 0x7FFFF"
  "VM_IO_READ = 1" "VM_IO_WRITE = 2"
  by (simp_all add: const_defs push_bit_eq_mult)

lemma addr_page_less [bounds]: "unat (addr_page addr) < 8"
  unfolding addr_page_def by (rule unat_and_mask_less) simp

lemma addr_cell_less [bounds]: "unat (addr_cell addr) < 2 ^ 19"
  unfolding addr_cell_def by (rule unat_and_mask_less) simp

lemma addr_shift_less [bounds]: "unat (addr_shift addr) < 32"
  unfolding addr_shift_def by (rule unat_and_mask_less) simp

lemma addr_width_less [bounds]: "unat (addr_width addr) < 32"
  unfolding addr_width_def using unat_drop_bit_less [of 27 5 addr] by simp

text \<open>
  A memory configuration is well formed when the eight pages and their limit tables exist, no
  read, code or allowlist limit of a page runs past the cells behind its pointer, and a page is
  no larger than the address field that selects its cells.
\<close>

definition page_ok :: "vm_mem \<Rightarrow> nat \<Rightarrow> bool" where
  "page_ok m p \<longleftrightarrow>
     length (vm_memory m ! p) \<le> 2 ^ 19 \<and>
     unat (vm_memory_rd_limit m ! p) \<le> length (vm_memory m ! p) \<and>
     unat (vm_memory_executable m ! p) \<le> length (vm_memory m ! p)"

definition wf_mem :: "vm_mem \<Rightarrow> bool" where
  "wf_mem m \<longleftrightarrow>
     length (vm_memory m) = 8 \<and> length (vm_memory_rd_limit m) = 8 \<and>
     length (vm_memory_wp_limit m) = 8 \<and> length (vm_memory_executable m) = 8 \<and>
     (\<forall>p \<in> set [0..<8]. page_ok m p) \<and>
     (vm_io_page m < 8 \<longrightarrow>
       (\<forall>r \<in> set (vm_io_ranges m). unat (rg_end r) \<le> length (vm_memory m ! unat (vm_io_page m))))"

lemma wf_mem_page: "wf_mem m \<Longrightarrow> p < 8 \<Longrightarrow> page_ok m p"
  by (simp add: wf_mem_def)

lemma guard_loop_zero:
  "guard_loop rs a need = 0 \<Longrightarrow>
    \<exists>r \<in> set rs. rg_first r \<le> a \<and> a < rg_end r \<and> rg_flags r AND need \<noteq> 0"
  by (induction rs) (auto split: if_splits)

lemma guarded_in_page:
  assumes "wf_mem m" "unat page < 8" "vmGuarded m page a need = 0"
  shows "unat a < length (vm_memory m ! unat page)"
proof -
  from assms(3) have page: "page = vm_io_page m" and "guard_loop (vm_io_ranges m) a need = 0"
    by (auto simp: vmGuarded_def split: if_splits)
  then obtain r where "r \<in> set (vm_io_ranges m)" "a < rg_end r"
    using guard_loop_zero by blast
  moreover have "vm_io_page m < 8"
    using assms(2) page by (simp add: word_less_nat)
  ultimately show ?thesis
    using assms(1) page by (fastforce simp: wf_mem_def word_less_nat)
qed

lemma below_limit_in_page:
  assumes "wf_mem m" "unat page < 8" "\<not> rd_limit m page \<le> a"
  shows "unat a < length (vm_memory m ! unat page)"
  using assms wf_mem_page [of m "unat page"]
  by (simp add: page_ok_def rd_limit_def word_less_nat not_le)

section \<open>Permissions\<close>

text \<open>What a page allows at a cell: the read limit, the write-protect limit and the allowlist.\<close>

definition may_read :: "vm_mem \<Rightarrow> u32 \<Rightarrow> u32 \<Rightarrow> bool" where
  "may_read m page a \<longleftrightarrow> a < rd_limit m page \<or> vmGuarded m page a VM_IO_READ = 0"

definition may_write :: "vm_mem \<Rightarrow> u32 \<Rightarrow> u32 \<Rightarrow> bool" where
  "may_write m page a \<longleftrightarrow>
     (a < rd_limit m page \<and> wp_limit m page \<le> a) \<or>
     (rd_limit m page \<le> a \<and> vmGuarded m page a VM_IO_WRITE = 0)"

lemma store_check_zero_iff: "store_check m page a = 0 \<longleftrightarrow> may_write m page a"
  by (auto simp: store_check_def may_write_def not_le)

lemma vmFetch_ok_iff: "fst (vmFetch m addr) = 0 \<longleftrightarrow> may_read m (addr_page addr) (addr_cell addr)"
  by (auto simp: vmFetch_def may_read_def Let_def not_le)

lemma vmStore_ok_iff: "fst (vmStore m addr d) = 0 \<longleftrightarrow> may_write m (addr_page addr) (addr_cell addr)"
  by (auto simp: vmStore_def Let_def store_check_zero_iff)

lemma vmFetch_fail_zero: "fst (vmFetch m addr) \<noteq> 0 \<Longrightarrow> snd (vmFetch m addr) = 0"
  by (auto simp: vmFetch_def Let_def split: if_splits)

lemma vmStore_fail_same: "fst (vmStore m addr d) \<noteq> 0 \<Longrightarrow> snd (vmStore m addr d) = m"
  by (auto simp: vmStore_def Let_def split: if_splits)

lemma may_read_in_page:
  "wf_mem m \<Longrightarrow> unat page < 8 \<Longrightarrow> may_read m page a \<Longrightarrow> unat a < length (vm_memory m ! unat page)"
  by (auto simp: may_read_def not_le intro: below_limit_in_page guarded_in_page)

lemma may_write_in_page:
  "wf_mem m \<Longrightarrow> unat page < 8 \<Longrightarrow> may_write m page a \<Longrightarrow> unat a < length (vm_memory m ! unat page)"
  by (auto simp: may_write_def not_le intro: below_limit_in_page guarded_in_page)

section \<open>What a store changes\<close>

definition same_limits :: "vm_mem \<Rightarrow> vm_mem \<Rightarrow> bool" where
  "same_limits m m' \<longleftrightarrow>
     vm_memory_rd_limit m' = vm_memory_rd_limit m \<and>
     vm_memory_wp_limit m' = vm_memory_wp_limit m \<and>
     vm_memory_executable m' = vm_memory_executable m \<and>
     vm_io_page m' = vm_io_page m \<and> vm_io_ranges m' = vm_io_ranges m \<and>
     map length (vm_memory m') = map length (vm_memory m)"

lemma same_limits_refl [simp]: "same_limits m m"
  by (simp add: same_limits_def)

lemma same_limits_trans: "same_limits a b \<Longrightarrow> same_limits b c \<Longrightarrow> same_limits a c"
  by (simp add: same_limits_def)

lemma same_limits_guarded: "same_limits m m' \<Longrightarrow> vmGuarded m' = vmGuarded m"
  by (simp add: same_limits_def vmGuarded_def fun_eq_iff)

lemma same_limits_may_write: "same_limits m m' \<Longrightarrow> may_write m' = may_write m"
  by (simp add: fun_eq_iff may_write_def same_limits_guarded)
     (simp add: same_limits_def rd_limit_def wp_limit_def)

lemma same_limits_may_read: "same_limits m m' \<Longrightarrow> may_read m' = may_read m"
  by (simp add: fun_eq_iff may_read_def same_limits_guarded)
     (simp add: same_limits_def rd_limit_def)

lemma same_limits_length:
  assumes "same_limits m m'"
  shows "length (vm_memory m') = length (vm_memory m)"
    and "p < length (vm_memory m) \<Longrightarrow> length (vm_memory m' ! p) = length (vm_memory m ! p)"
proof -
  have eq: "map length (vm_memory m') = map length (vm_memory m)"
    using assms by (simp add: same_limits_def)
  then show l: "length (vm_memory m') = length (vm_memory m)"
    by (metis length_map)
  show "p < length (vm_memory m) \<Longrightarrow> length (vm_memory m' ! p) = length (vm_memory m ! p)"
    using eq l by (metis nth_map)
qed

lemma same_limits_wf: "same_limits m m' \<Longrightarrow> wf_mem m \<Longrightarrow> wf_mem m'"
  by (simp add: wf_mem_def page_ok_def same_limits_length word_less_nat)
     (simp add: same_limits_def)

lemma same_limits_set_cell: "same_limits m (set_cell m page a v)"
  by (simp add: same_limits_def set_cell_def)

lemma vmStore_same_limits: "same_limits m (snd (vmStore m addr d))"
  by (simp add: vmStore_def Let_def same_limits_set_cell)

text \<open>The cells a store may alter are those the page table lets it write.\<close>

definition protected_same :: "vm_mem \<Rightarrow> vm_mem \<Rightarrow> bool" where
  "protected_same m m' \<longleftrightarrow>
     (\<forall>page a. \<not> may_write m page a \<longrightarrow> get_cell m' page a = get_cell m page a)"

lemma get_set_cell:
  "get_cell (set_cell m page a v) page' a' =
     (if page' = page \<and> a' = a \<and> unat page < length (vm_memory m) \<and>
         unat a < length (vm_memory m ! unat page)
      then v else get_cell m page' a')"
proof (cases "unat page < length (vm_memory m) \<and> unat a < length (vm_memory m ! unat page)")
  case True
  then show ?thesis
    by (simp add: get_cell_def set_cell_def nth_list_update unat_eq_iff)
next
  case False
  then have "(vm_memory m)[unat page := (vm_memory m ! unat page)[unat a := v]] = vm_memory m"
    by (cases "unat page < length (vm_memory m)") (simp_all add: list_update_beyond)
  with False show ?thesis
    by (auto simp: get_cell_def set_cell_def)
qed

lemma vmStore_protected: "protected_same m (snd (vmStore m addr d))"
  by (auto simp: protected_same_def vmStore_def Let_def get_set_cell store_check_zero_iff)

lemma protected_same_refl [simp]: "protected_same m m"
  by (simp add: protected_same_def)

lemma protected_same_trans:
  "protected_same a b \<Longrightarrow> same_limits a b \<Longrightarrow> protected_same b c \<Longrightarrow> protected_same a c"
  by (simp add: protected_same_def same_limits_may_write)

section \<open>Reading back what was stored\<close>

lemma bit_merge_field:
  assumes "w \<noteq> 0"
  shows "bit (merge_field w sh old d) k =
    (if unat sh \<le> k \<and> k < unat sh + unat w \<and> k < 32 then bit d (k - unat sh) else bit old k)"
proof -
  have "merge_field w sh old d =
      push_bit (unat sh) (d AND mask (unat w)) OR (old AND NOT (push_bit (unat sh) (mask (unat w))))"
    using assms by (simp add: merge_field_def Let_def exp_minus_1_mask del: push_bit_of_1)
  then show ?thesis
    by (cases "k < 32") (auto simp: bit_simps)
qed

lemma read_merged_field:
  assumes "w \<noteq> 0"
  shows "drop_bit (unat sh) (merge_field w sh old d) AND (push_bit (unat w) 1 - 1) =
    take_bit (min (unat w) (32 - unat sh)) d"
proof (rule bit_word_eqI)
  fix n assume "n < LENGTH(32)"
  then show "bit (drop_bit (unat sh) (merge_field w sh old d) AND (push_bit (unat w) 1 - 1)) n =
      bit (take_bit (min (unat w) (32 - unat sh)) d) n"
    by (cases "unat sh + n < 32")
       (auto simp: bit_merge_field assms exp_minus_1_mask bit_simps simp del: push_bit_of_1)
qed

lemma read_other_field:
  assumes "unat sh + unat w \<le> unat sh' \<or> unat sh' + unat w' \<le> unat sh" "w \<noteq> 0"
  shows "drop_bit (unat sh') (merge_field w sh old d) AND (push_bit (unat w') 1 - 1) =
    drop_bit (unat sh') old AND (push_bit (unat w') 1 - 1)"
proof (rule bit_word_eqI)
  fix n assume "n < LENGTH(32)"
  then show "bit (drop_bit (unat sh') (merge_field w sh old d) AND (push_bit (unat w') 1 - 1)) n =
      bit (drop_bit (unat sh') old AND (push_bit (unat w') 1 - 1)) n"
    using assms(1)
    by (auto simp: bit_merge_field assms(2) exp_minus_1_mask bit_simps simp del: push_bit_of_1)
qed

section \<open>Properties of fetch and store\<close>

lemma vmFetch_eq:
  "may_read m (addr_page addr) (addr_cell addr) \<Longrightarrow>
    vmFetch m addr =
      (0, if addr_width addr = 0 then get_cell m (addr_page addr) (addr_cell addr)
          else drop_bit (unat (addr_shift addr)) (get_cell m (addr_page addr) (addr_cell addr)) AND
            (push_bit (unat (addr_width addr)) 1 - 1))"
  by (auto simp: vmFetch_def may_read_def Let_def)

lemma vmStore_eq:
  "may_write m (addr_page addr) (addr_cell addr) \<Longrightarrow>
    vmStore m addr d = (0, set_cell m (addr_page addr) (addr_cell addr)
      (merge_field (addr_width addr) (addr_shift addr)
        (get_cell m (addr_page addr) (addr_cell addr)) d))"
  by (simp add: vmStore_def Let_def store_check_zero_iff)

lemma wf_mem_pages: "wf_mem m \<Longrightarrow> length (vm_memory m) = 8"
  by (simp add: wf_mem_def)

text \<open>A small memory for concrete runs: page 0 has four cells, the first one write-protected.\<close>

definition tiny_mem :: "u32 list \<Rightarrow> vm_mem" where
  "tiny_mem cells =
     \<lparr>vm_memory = [cells, [], [], [], [], [], [], []],
      vm_memory_rd_limit = [4, 0, 0, 0, 0, 0, 0, 0],
      vm_memory_wp_limit = [1, 0, 0, 0, 0, 0, 0, 0],
      vm_memory_executable = [4, 0, 0, 0, 0, 0, 0, 0],
      vm_io_page = 8, vm_io_ranges = []\<rparr>"

lemma wf_tiny_mem: "length cells = 4 \<Longrightarrow> wf_mem (tiny_mem cells)"
proof -
  assume l: "length cells = 4"
  have u: "[0..<8] = [0, 1, 2, 3, 4, 5, 6, 7 :: nat]" by (simp add: upt_rec)
  have "page_ok (tiny_mem cells) p" if "p \<in> {0, 1, 2, 3, 4, 5, 6, 7}" for p
    using that l by (auto simp: page_ok_def tiny_mem_def)
  then show ?thesis unfolding wf_mem_def u by (simp add: tiny_mem_def)
qed

lemma tiny_addr [simp]:
  "addr_page 0x42000001 = 0" "addr_cell 0x42000001 = 1" "addr_width 0x42000001 = 8"
  "addr_shift 0x42000001 = 8" "addr_page 0x44000001 = 0" "addr_cell 0x44000001 = 1"
  "addr_width 0x44000001 = 8" "addr_shift 0x44000001 = 16"
  by (simp_all add: addr_page_def addr_cell_def addr_width_def addr_shift_def)

lemma tiny_may [simp]:
  "may_read (tiny_mem cells) 0 1" "may_write (tiny_mem cells) 0 1"
  by (simp_all add: may_read_def may_write_def rd_limit_def wp_limit_def tiny_mem_def)

text \<open>C1: a cell or slice that may be written and read gives back what was stored in it: a whole
  cell the value itself, a slice of width w at bit position s the low bits of the value, w of
  them unless the slice runs past the cell's top bit.\<close>

theorem fetch_after_store:
  assumes wf: "wf_mem m"
    and w: "may_write m (addr_page addr) (addr_cell addr)"
    and r: "may_read m (addr_page addr) (addr_cell addr)"
  shows "vmFetch (snd (vmStore m addr d)) addr =
    (0, if addr_width addr = 0 then d
        else take_bit (min (unat (addr_width addr)) (32 - unat (addr_shift addr))) d)"
proof -
  let ?m' = "snd (vmStore m addr d)"
  have "may_read ?m' (addr_page addr) (addr_cell addr)"
    using r same_limits_may_read [OF vmStore_same_limits] by simp
  moreover have "merge_field 0 s old d = d" for s old
    by (simp add: merge_field_def)
  ultimately show ?thesis
    using may_write_in_page [OF wf addr_page_less w] wf addr_page_less [of addr] vmStore_eq [OF w]
    by (simp add: vmFetch_eq get_set_cell wf_mem_pages read_merged_field del: push_bit_of_1)
qed

lemma fetch_after_store_witness:
  "vmFetch (snd (vmStore (tiny_mem [1, 2, 3, 4]) 0x42000001 0x1234)) 0x42000001 = (0, 0x34)"
  using fetch_after_store [OF wf_tiny_mem, of "[1, 2, 3, 4]" "0x42000001" "0x1234"] by simp

text \<open>C2: a store to one slice leaves what is read through any other address alone, when that
  address names another cell or a slice of the same cell that does not overlap it.\<close>

definition slices_apart :: "u32 \<Rightarrow> u32 \<Rightarrow> bool" where
  "slices_apart p q \<longleftrightarrow>
     addr_page p \<noteq> addr_page q \<or> addr_cell p \<noteq> addr_cell q \<or>
     (addr_width p \<noteq> 0 \<and> addr_width q \<noteq> 0 \<and>
       (unat (addr_shift p) + unat (addr_width p) \<le> unat (addr_shift q) \<or>
        unat (addr_shift q) + unat (addr_width q) \<le> unat (addr_shift p)))"

theorem fetch_other_slice:
  assumes "slices_apart p q"
  shows "vmFetch (snd (vmStore m p d)) q = vmFetch m q"
proof (cases "may_write m (addr_page p) (addr_cell p) \<and> may_read m (addr_page q) (addr_cell q)")
  case True
  have "may_read (snd (vmStore m p d)) (addr_page q) (addr_cell q)"
    using True same_limits_may_read [OF vmStore_same_limits] by simp
  with True assms show ?thesis
    by (auto simp: vmFetch_eq vmStore_eq get_set_cell slices_apart_def read_other_field
        simp del: push_bit_of_1)
next
  case False
  then show ?thesis
  proof (cases "may_write m (addr_page p) (addr_cell p)")
    case True
    with False have no: "\<not> may_read m (addr_page q) (addr_cell q)" by simp
    then have "\<not> may_read (snd (vmStore m p d)) (addr_page q) (addr_cell q)"
      using same_limits_may_read [OF vmStore_same_limits] by simp
    with no show ?thesis
      using vmStore_same_limits [of m p d]
      by (auto simp: vmFetch_def Let_def may_read_def same_limits_guarded not_less)
  next
    case no: False
    then have "fst (vmStore m p d) \<noteq> 0" by (simp add: vmStore_ok_iff)
    then show ?thesis by (simp add: vmStore_fail_same)
  qed
qed

lemma fetch_other_slice_witness:
  "vmFetch (snd (vmStore (tiny_mem [1, 2, 3, 4]) 0x42000001 0x1234)) 0x44000001 =
    vmFetch (tiny_mem [1, 2, 3, 4]) 0x44000001"
  using fetch_other_slice [of "0x42000001" "0x44000001"] by (simp add: slices_apart_def)

text \<open>C3: every cell a successful fetch or store touches exists: its page is one of the eight and
  its index is below the number of cells behind the page's pointer.\<close>

theorem access_in_bounds:
  assumes "wf_mem m" and "fst (vmFetch m addr) = 0 \<or> fst (vmStore m addr d) = 0"
  shows "unat (addr_page addr) < length (vm_memory m) \<and>
    unat (addr_cell addr) < length (vm_memory m ! unat (addr_page addr))"
  using assms addr_page_less [of addr]
  by (auto simp: vmFetch_ok_iff vmStore_ok_iff wf_mem_pages
      intro: may_read_in_page may_write_in_page)

lemma access_in_bounds_witness:
  "unat (addr_page 0x42000001) < length (vm_memory (tiny_mem [1, 2, 3, 4])) \<and>
    unat (addr_cell 0x42000001) < length (vm_memory (tiny_mem [1, 2, 3, 4]) ! unat (addr_page 0x42000001))"
  using access_in_bounds [OF wf_tiny_mem, of "[1, 2, 3, 4]" "0x42000001" 0]
  by (simp add: vmFetch_ok_iff)

section \<open>Stepping through slices\<close>

text \<open>The position of an address as a count of bits from the start of memory.\<close>

definition bit_index :: "u32 \<Rightarrow> nat" where
  "bit_index addr = 32 * unat (addr AND 0x3FFFFF) + unat (addr_shift addr)"

definition pack_addr :: "u32 \<Rightarrow> u32 \<Rightarrow> u32 \<Rightarrow> u32" where
  "pack_addr w sh c = push_bit 27 w OR push_bit 22 sh OR (c AND 0x3FFFFF)"

lemma mask22: "(0x3FFFFF :: u32) = mask 22"
  by (simp add: mask_eq_exp_minus_1)

lemma mask5: "(0x1F :: u32) = mask 5"
  by (simp add: mask_eq_exp_minus_1)

lemma pack_fields:
  assumes "unat w < 32" "unat sh < 32"
  shows width_pack: "addr_width (pack_addr w sh c) = w"
    and shift_pack: "addr_shift (pack_addr w sh c) = sh"
proof -
  have "w = take_bit 5 w" "sh = take_bit 5 sh"
    using assms by (simp_all add: small_take_bit)
  moreover have "addr_width (pack_addr (take_bit 5 w) (take_bit 5 sh) c) = take_bit 5 w"
    by (rule bit_word_eqI) (auto simp: addr_width_def pack_addr_def mask22 bit_simps)
  moreover have "addr_shift (pack_addr (take_bit 5 w) (take_bit 5 sh) c) = take_bit 5 sh"
    by (rule bit_word_eqI) (auto simp: addr_shift_def pack_addr_def mask22 mask5 bit_simps)
  ultimately show "addr_width (pack_addr w sh c) = w" "addr_shift (pack_addr w sh c) = sh"
    by metis+
qed

lemma cell_pack: "pack_addr w sh c AND 0x3FFFFF = c AND 0x3FFFFF"
  by (rule bit_word_eqI) (auto simp: pack_addr_def mask22 bit_simps)

lemma width_field5: "drop_bit 27 addr AND 0x1F = addr_width addr"
  using small_take_bit [of "addr_width addr" 5] addr_width_less [of addr]
  by (simp add: addr_width_def mask5 take_bit_eq_mask [symmetric])

lemma vmFieldPlus_alt:
  "vmFieldPlus addr =
    (if addr_width addr = 0 then addr + 1
     else let sh = addr_shift addr + addr_width addr in
       if sh + addr_width addr > 32
       then pack_addr (addr_width addr) ((sh - 32) AND 0x1F) (addr + 1)
       else pack_addr (addr_width addr) sh addr)"
  by (simp add: vmFieldPlus_def Let_def pack_addr_def width_field5 addr_shift_def)

lemma unat_cell22: "unat (c AND 0x3FFFFF) = unat (c :: u32) mod 2 ^ 22"
  by (simp add: mask22 take_bit_eq_mask [symmetric] unsigned_take_bit_eq take_bit_eq_mod unat_mod)

lemma unat_cell22_Suc: "unat ((c + 1) AND 0x3FFFFF) = Suc (unat (c :: u32)) mod 2 ^ 22"
proof -
  have "unat (c + 1) mod 2 ^ 22 = Suc (unat c) mod 2 ^ 22"
    by (simp add: unat_word_ariths mod_mod_cancel)
  then show ?thesis by (simp only: unat_cell22)
qed

text \<open>for the widths that divide a cell (1, 2, 4, 8 and 16 bits) an aligned slice address
  steps to the next slice: the width stays, the position advances by exactly the width (modulo
  the 22-bit address space), stays aligned, and the new slice lies inside its cell.\<close>

theorem vmFieldPlus_next:
  assumes "addr_width addr \<in> {1, 2, 4, 8, 16}"
    and "unat (addr_width addr) dvd unat (addr_shift addr)"
  shows "addr_width (vmFieldPlus addr) = addr_width addr \<and>
    bit_index (vmFieldPlus addr) = (bit_index addr + unat (addr_width addr)) mod 2 ^ 27 \<and>
    unat (addr_width addr) dvd unat (addr_shift (vmFieldPlus addr)) \<and>
    unat (addr_shift (vmFieldPlus addr)) + unat (addr_width addr) \<le> 32"
proof -
  define w where "w = addr_width addr"
  define s where "s = addr_shift addr"
  define c where "c = unat addr mod 2 ^ 22"
  have w: "w = 1 \<or> w = 2 \<or> w = 4 \<or> w = 8 \<or> w = 16" using assms(1) by (auto simp: w_def)
  have wn: "unat w \<in> {1, 2, 4, 8, 16}" and w0: "w \<noteq> 0" using w by auto
  have s32: "unat s < 32" unfolding s_def by (rule addr_shift_less)
  have dv: "unat w dvd unat s" using assms(2) by (simp add: w_def s_def)
  obtain k where k: "unat s = unat w * k" using dv by (elim dvdE)
  have fit: "unat s + unat w \<le> 32" using wn k s32 by auto
  have sum: "unat (s + w) = unat s + unat w"
    using fit by (simp add: unat_word_ariths)
  have sum2: "unat (s + w + w) = unat s + unat w + unat w"
    using fit wn by (auto simp: unat_word_ariths)
  have c22: "c < 2 ^ 22" by (simp add: c_def)
  have bi: "bit_index addr = 32 * c + unat s"
    by (simp add: bit_index_def unat_cell22 c_def s_def)
  have dv2: "unat w dvd unat s + unat w" using dv by simp
  show ?thesis
  proof (cases "unat s + unat w = 32")
    case True
    then have sw: "s + w = 32" using sum by (simp add: word_unat_eq_iff)
    have gt: "s + w + w > 32" using True sum2 wn by (auto simp: word_less_nat)
    have fp: "vmFieldPlus addr = pack_addr w 0 (addr + 1)"
      using w0 gt by (simp add: vmFieldPlus_alt Let_def w_def [symmetric] s_def [symmetric] sw)
    have cm: "unat ((addr + 1) AND 0x3FFFFF) = Suc c mod 2 ^ 22"
      unfolding unat_cell22_Suc c_def by (rule mod_Suc_eq [symmetric])
    have "unat w < 32" using wn by auto
    then have f: "addr_width (vmFieldPlus addr) = w" "addr_shift (vmFieldPlus addr) = 0"
      by (simp_all add: fp width_pack shift_pack)
    have "bit_index (vmFieldPlus addr) = 32 * (Suc c mod 2 ^ 22)"
      using f by (simp add: bit_index_def) (simp add: fp cell_pack cm)
    also have "\<dots> = (32 * c + unat s + unat w) mod 2 ^ 27"
      using True by (simp add: mult_mod_right add.assoc) (simp add: add.commute)
    finally show ?thesis
      using wn f bi by (auto simp flip: w_def)
  next
    case False
    then have lt: "unat s + unat w < 32" using fit by simp
    have "unat s + unat w + unat w \<le> 32" using lt k wn by auto
    then have le: "\<not> s + w + w > 32" using sum2 by (simp add: word_less_nat)
    have fp: "vmFieldPlus addr = pack_addr w (s + w) addr"
      using w0 le by (simp add: vmFieldPlus_alt Let_def w_def [symmetric] s_def [symmetric])
    have "unat w < 32" using wn by auto
    then have f: "addr_width (vmFieldPlus addr) = w" "addr_shift (vmFieldPlus addr) = s + w"
      using lt sum by (simp_all add: fp width_pack shift_pack)
    have "bit_index (vmFieldPlus addr) = 32 * c + (unat s + unat w)"
      using f sum by (simp add: bit_index_def) (simp add: fp cell_pack unat_cell22 c_def)
    then show ?thesis
      using f bi sum dv2 c22 lt \<open>unat s + unat w + unat w \<le> 32\<close> by (simp flip: w_def)
  qed
qed

theorem vmFieldPlus_next_witness:
  "addr_shift (vmFieldPlus (pack_addr 8 24 5)) = 0 \<and> addr_width (pack_addr 8 24 5) = 8 \<and>
    bit_index (vmFieldPlus (pack_addr 8 24 5)) = (bit_index (pack_addr 8 24 5) + 8) mod 2 ^ 27"
proof -
  have w: "addr_width (pack_addr 8 24 5) = 8" and s: "addr_shift (pack_addr 8 24 5) = 24"
    by (simp_all add: width_pack shift_pack)
  have h1: "addr_width (pack_addr 8 24 5) \<in> {1, 2, 4, 8, 16}" by (simp add: w)
  have h2: "unat (addr_width (pack_addr 8 24 5)) dvd unat (addr_shift (pack_addr 8 24 5))"
    by (simp add: w s)
  show ?thesis
    using vmFieldPlus_next [OF h1 h2] w by (auto simp: vmFieldPlus_alt shift_pack s)
qed

text \<open>A width that does not divide 32 can step to a slice that does not fit its cell.\<close>

lemma vmFieldPlus_width_12:
  "vmFieldPlus (pack_addr 12 12 100) = pack_addr 12 24 101" "(24 :: u32) + 12 > 32"
  by (simp_all add: vmFieldPlus_alt Let_def width_pack shift_pack)
     (simp add: pack_addr_def push_bit_eq_mult)

end
