(* ===== verification/VM_Math.thy ===== *)
theory VM_Math
  imports LF_Prelude "HOL-Library.Signed_Division"
begin

text \<open>
  The arithmetic of \<^verbatim>\<open>src/src/tools.c\<close> (\<^verbatim>\<open>divide64by32\<close>) and the math unit of
  \<^verbatim>\<open>src/src/iomap.c\<close> (um*, m*, mu/mod and */mod on the registers A0, A1 and Y0 to Y2), with
  the proofs that the shift-and-subtract loop divides and that the signed operations round as
  their comments say.
\<close>

section \<open>Division by shift and subtract (tools.c)\<close>

text \<open>The body for bit i: one more dividend bit into the remainder, one quotient bit out.\<close>

definition div_step :: "u64 \<Rightarrow> u64 \<Rightarrow> nat \<Rightarrow> u64 \<times> u64 \<Rightarrow> u64 \<times> u64" where
  "div_step dividend divisor i qr =
     (let rem = push_bit 1 (snd qr) OR (drop_bit i dividend AND 1) in
      if divisor \<le> rem then (fst qr OR push_bit i 1, rem - divisor) else (fst qr, rem))"

fun div_loop :: "nat \<Rightarrow> u64 \<Rightarrow> u64 \<Rightarrow> u64 \<times> u64 \<Rightarrow> u64 \<times> u64" where
  "div_loop 0 dividend divisor qr = qr"
| "div_loop (Suc i) dividend divisor qr =
     div_loop i dividend divisor (div_step dividend divisor i qr)"

text \<open>The result and the value left in \<open>*remainder\<close>.\<close>

definition divide64by32 :: "u64 \<Rightarrow> u32 \<Rightarrow> u64 \<times> u32" where
  "divide64by32 dividend divisor =
     (let qr = div_loop 64 dividend (ucast divisor) (0, 0) in (fst qr, ucast (snd qr)))"

text \<open>After the bits from i up are done, the quotient and remainder are those of the dividend's
  top part.\<close>

definition div_inv :: "nat \<Rightarrow> u64 \<Rightarrow> u64 \<Rightarrow> u64 \<times> u64 \<Rightarrow> bool" where
  "div_inv i dividend divisor qr \<longleftrightarrow>
     unat (fst qr) = 2 ^ i * ((unat dividend div 2 ^ i) div unat divisor) \<and>
     unat (snd qr) = (unat dividend div 2 ^ i) mod unat divisor"

lemma unat_shift_in:
  assumes "unat (r :: u64) < 2 ^ 32"
  shows "unat (push_bit 1 r OR (drop_bit i x AND 1)) = 2 * unat r + (unat x div 2 ^ i) mod 2"
proof -
  have "push_bit 1 r OR (drop_bit i x AND 1) = push_bit 1 r + (drop_bit i x AND 1)"
  proof (rule disjunctive_add [symmetric])
    fix n show "\<not> bit (push_bit 1 r) n \<or> \<not> bit (drop_bit i x AND 1) n"
      by (cases n) (simp_all add: bit_simps bit_0)
  qed
  moreover have "unat (push_bit 1 r) = 2 * unat r"
    using assms by (simp add: unat_word_ariths)
  moreover have "unat (drop_bit i x AND 1) = (unat x div 2 ^ i) mod 2"
    by (simp only: and_one_eq unat_mod unat_div_exp) simp
  moreover have "2 * unat r + (unat x div 2 ^ i) mod 2 < 2 ^ 64"
    using assms by simp
  ultimately show ?thesis
    by (simp add: unat_word_ariths)
qed

lemma div_nat_double:
  fixes x d :: nat
  assumes "0 < d" "b < 2"
  shows "(2 * x + b) div d = 2 * (x div d) + (if d \<le> 2 * (x mod d) + b then 1 else 0)"
    and "(2 * x + b) mod d = (if d \<le> 2 * (x mod d) + b then 2 * (x mod d) + b - d else 2 * (x mod d) + b)"
proof -
  have eq: "2 * x + b = (2 * (x mod d) + b) + d * (2 * (x div d))"
    by (metis add.commute add.left_commute add_mult_distrib2 mult.left_commute mult_div_mod_eq)
  have lt: "2 * (x mod d) + b < 2 * d"
    using assms mod_less_divisor [of d x] by linarith
  have q: "(2 * (x mod d) + b) div d = (if d \<le> 2 * (x mod d) + b then 1 else 0)"
    using lt assms(1) by (simp add: le_div_geq)
  have m: "(2 * (x mod d) + b) mod d =
      (if d \<le> 2 * (x mod d) + b then 2 * (x mod d) + b - d else 2 * (x mod d) + b)"
    using lt by (cases "d \<le> 2 * (x mod d) + b") (simp_all add: le_mod_geq)
  have "(2 * x + b) div d = 2 * (x div d) + (2 * (x mod d) + b) div d"
    using assms(1) by (subst eq) (simp only: div_mult_self2)
  with q show "(2 * x + b) div d = 2 * (x div d) + (if d \<le> 2 * (x mod d) + b then 1 else 0)"
    by simp
  have "(2 * x + b) mod d = (2 * (x mod d) + b) mod d"
    by (subst eq) (simp only: mod_mult_self2)
  with m show "(2 * x + b) mod d =
      (if d \<le> 2 * (x mod d) + b then 2 * (x mod d) + b - d else 2 * (x mod d) + b)"
    by simp
qed

lemma div_step_inv:
  assumes "div_inv (Suc i) dividend divisor qr" "0 < unat divisor" "unat divisor < 2 ^ 32" "i < 64"
  shows "div_inv i dividend divisor (div_step dividend divisor i qr)"
proof -
  define D where "D = unat dividend div 2 ^ Suc i"
  define b where "b = (unat dividend div 2 ^ i) mod 2"
  define d where "d = unat divisor"
  define rm where "rm = push_bit 1 (snd qr) OR (drop_bit i dividend AND 1)"
  have q: "unat (fst qr) = 2 ^ Suc i * (D div d)" and r: "unat (snd qr) = D mod d"
    using assms(1) by (simp_all add: div_inv_def D_def d_def)
  have "unat (snd qr) < 2 ^ 32"
    using r assms(2,3) mod_less_divisor [of d D] unfolding d_def by linarith
  then have rem: "unat rm = 2 * (D mod d) + b"
    using unat_shift_in [of "snd qr" i dividend] r by (simp add: rm_def b_def)
  have "unat dividend div 2 ^ i = 2 * D + b"
    unfolding D_def b_def power_Suc2 div_mult2_eq by simp
  moreover have "b < 2" by (simp add: b_def)
  ultimately have split:
    "(unat dividend div 2 ^ i) div d = 2 * (D div d) + (if d \<le> unat rm then 1 else 0)"
    "(unat dividend div 2 ^ i) mod d = (if d \<le> unat rm then unat rm - d else unat rm)"
    using div_nat_double [of d b D] assms(2) by (simp_all add: rem d_def)
  have step: "div_step dividend divisor i qr =
      (if divisor \<le> rm then (fst qr OR push_bit i 1, rm - divisor) else (fst qr, rm))"
    by (simp only: div_step_def Let_def rm_def)
  show ?thesis
  proof (cases "divisor \<le> rm")
    case True
    have "\<not> bit (fst qr) i"
    proof -
      have "even (unat (fst qr) div 2 ^ i)" unfolding q by simp
      then show ?thesis by (simp only: bit_unat_odd not_not)
    qed
    then have "fst qr OR push_bit i 1 = fst qr + push_bit i 1"
      by (intro disjunctive_add [symmetric]) (auto simp: bit_simps)
    moreover have "unat (push_bit i (1 :: u64)) = 2 ^ i"
      using assms(4) by (simp only: unsigned_push_bit_eq) (simp add: take_bit_nat_eq_self push_bit_eq_mult)
    moreover have le: "2 ^ i * ((unat dividend div 2 ^ i) div d) \<le> unat dividend"
      by (metis div_le_dividend mult.commute le_trans div_times_less_eq_dividend mult_le_mono2)
    have "2 ^ Suc i * (D div d) + 2 ^ i = 2 ^ i * ((unat dividend div 2 ^ i) div d)"
      using split(1) True by (simp add: d_def word_le_nat algebra_simps)
    moreover from this have "2 ^ Suc i * (D div d) + 2 ^ i < 2 ^ 64"
      using le unat_bounds(4) [of dividend] by simp
    ultimately have "unat (fst qr OR push_bit i 1) = 2 ^ i * ((unat dividend div 2 ^ i) div d)"
      using q by (simp add: unat_word_ariths)
    moreover have "unat (rm - divisor) = unat rm - d"
      using True by (simp add: unat_sub d_def)
    ultimately show ?thesis
      using True split(2)
      by (simp add: div_inv_def step d_def [symmetric] word_le_nat)
  next
    case False
    then show ?thesis
      using split q
      by (simp add: div_inv_def step d_def [symmetric] word_le_nat)
  qed
qed

lemma div_loop_inv:
  "div_inv i dividend divisor qr \<Longrightarrow> 0 < unat divisor \<Longrightarrow> unat divisor < 2 ^ 32 \<Longrightarrow> i \<le> 64 \<Longrightarrow>
    div_inv 0 dividend divisor (div_loop i dividend divisor qr)"
  by (induction i arbitrary: qr) (simp_all add: div_step_inv)

lemma division:
  assumes "divisor \<noteq> 0"
  shows "unat (fst (divide64by32 dividend divisor)) = unat dividend div unat divisor \<and>
    unat (snd (divide64by32 dividend divisor)) = unat dividend mod unat divisor"
proof -
  let ?d = "ucast divisor :: u64"
  have d: "unat ?d = unat divisor" by (simp add: unat_ucast_wide)
  have d32: "unat divisor < 2 ^ 32" using unat_bounds(3) [of divisor] by simp
  have d0: "0 < unat divisor" using assms by (simp add: unat_gt_0)
  have id: "take_bit 64 (unat divisor) = unat divisor"
    using d32 by (simp add: take_bit_nat_eq_self)
  have "div_inv 64 dividend ?d (0, 0)"
    using unat_bounds(4) [of dividend] by (simp add: div_inv_def)
  from div_loop_inv [OF this] have "div_inv 0 dividend ?d (div_loop 64 dividend ?d (0, 0))"
    using d d0 d32 by simp
  moreover have "unat dividend mod unat divisor < 2 ^ 32"
    using mod_less_divisor [OF d0, of "unat dividend"] d32 by linarith
  ultimately show ?thesis
    by (simp add: div_inv_def divide64by32_def Let_def id unsigned_ucast_eq take_bit_nat_eq_self)
qed

text \<open>C4: the loop divides: for a divisor other than 0 it returns the quotient and leaves the
  remainder.\<close>

theorem divide64by32_correct:
  assumes "divisor \<noteq> 0"
  shows "unat (fst (divide64by32 dividend divisor)) = unat dividend div unat divisor \<and>
    unat (snd (divide64by32 dividend divisor)) = unat dividend mod unat divisor"
  using assms by (rule division)

theorem divide64by32_correct_witness:
  "(7 :: u32) \<noteq> 0 \<and> unat (fst (divide64by32 100 7)) = 14 \<and> unat (snd (divide64by32 100 7)) = 2"
  using divide64by32_correct [of 7 100] by simp

section \<open>The math unit (iomap.c)\<close>

record math_unit =
  mu_a :: "u32 list"
  mu_y :: "u32 list"
  mu_busy :: int
  mu_latency :: int

definition math_reset :: math_unit where
  "math_reset = \<lparr>mu_a = [0, 0], mu_y = [0, 0, 0], mu_busy = 0, mu_latency = 0\<rparr>"

definition wf_math :: "math_unit \<Rightarrow> bool" where
  "wf_math u \<longleftrightarrow> length (mu_a u) = 2 \<and> length (mu_y u) = 3 \<and> 0 \<le> mu_busy u \<and> 0 \<le> mu_latency u"

definition result :: "math_unit \<Rightarrow> u32 \<Rightarrow> u32 \<Rightarrow> u32 \<Rightarrow> math_unit" where
  "result u y0 y1 y2 = u\<lparr>mu_y := [y0, y1, y2], mu_busy := mu_latency u\<rparr>"

text \<open>The 64-bit product of \<open>um*\<close> (sign false) and \<open>m*\<close> (sign true).\<close>

definition product64 :: "u32 \<Rightarrow> u32 \<Rightarrow> bool \<Rightarrow> u64" where
  "product64 a0 tos sign =
     (let invert = sign \<and> (a0 XOR tos) AND 0x80000000 \<noteq> 0;
          m = (if sign \<and> a0 AND 0x80000000 \<noteq> 0 then 0 - a0 else a0);
          n = (if sign \<and> tos AND 0x80000000 \<noteq> 0 then 0 - tos else tos);
          p = (ucast m :: u64) * ucast n
      in if invert then 0 - p else p)"

definition math_multiply :: "math_unit \<Rightarrow> u32 \<Rightarrow> bool \<Rightarrow> math_unit" where
  "math_multiply u tos sign =
     (let p = product64 (mu_a u ! 0) tos sign
      in result u (ucast p) (ucast (drop_bit 32 p)) (mu_y u ! 2))"

definition mudivmod :: "math_unit \<Rightarrow> u32 \<Rightarrow> ior \<times> math_unit" where
  "mudivmod u tos =
     (let divisor = mu_a u ! 1 in
      if divisor = 0 then (ERR_DIVISION_BY_ZERO, u)
      else
        let dividend = push_bit 32 (ucast (mu_a u ! 0)) OR (ucast tos :: u64);
            (q, rem) = divide64by32 dividend divisor
        in (0, result u (ucast q) (ucast (drop_bit 32 q)) rem))"

definition stardivmod :: "math_unit \<Rightarrow> u32 \<Rightarrow> ior \<times> math_unit" where
  "stardivmod u tos =
     (let divisor = mu_a u ! 1 in
      if divisor = 0 then (ERR_DIVISION_BY_ZERO, u)
      else
        let d = (scast (mu_a u ! 0) :: u64) * scast tos;
            dividend_negative = sint d < 0;
            quot_negative = (dividend_negative \<noteq> (sint divisor < 0));
            u_dividend = (if dividend_negative then 0 - d else d);
            u_divisor = (if sint divisor < 0 then 0 - divisor else divisor);
            (u_quot, u_rem) = divide64by32 u_dividend u_divisor;
            quot = (if quot_negative then 0 - ucast u_quot else ucast u_quot);
            rem = (if dividend_negative then 0 - u_rem else u_rem)
        in (0, result u quot (mu_y u ! 1) rem))"

lemma wf_result [simp]: "wf_math u \<Longrightarrow> wf_math (result u y0 y1 y2)"
  by (simp add: wf_math_def result_def)

lemma wf_multiply: "wf_math u \<Longrightarrow> wf_math (math_multiply u tos sign)"
  by (simp add: math_multiply_def Let_def)

lemma wf_mudivmod: "wf_math u \<Longrightarrow> wf_math (snd (mudivmod u tos))"
  by (simp add: mudivmod_def Let_def split: prod.split)

lemma wf_stardivmod: "wf_math u \<Longrightarrow> wf_math (snd (stardivmod u tos))"
  by (simp add: stardivmod_def Let_def split: prod.split)

section \<open>What the operations compute\<close>

lemma sign_bit_iff: "(x AND 0x80000000 \<noteq> 0) = (sint (x :: u32) < 0)"
proof -
  have "(0x80000000 :: u32) = 2 ^ 31" by simp
  then have "(x AND 0x80000000 \<noteq> 0) = bit x 31"
    by (simp only: and_exp_eq_0_iff_not_bit not_not)
  also have "\<dots> = (sint x < 0)"
    using bit_last_iff [of x] by simp
  finally show ?thesis .
qed

lemma sint32_bounds: "- (2 ^ 31) \<le> sint (x :: u32)" "sint (x :: u32) < 2 ^ 31"
  using sint_range_size [of x] by (simp_all add: word_size)

lemma abs_word32:
  "(if sint (x :: u32) < 0 then 0 - x else x) = word_of_int \<bar>sint x\<bar>"
  by (simp add: abs_if)

lemma abs_sint32_uint:
  "uint (word_of_int \<bar>sint (x :: u32)\<bar> :: u32) = \<bar>sint x\<bar>"
  using sint32_bounds [of x] by (simp add: uint_word_of_int abs_if)

lemma ucast_abs32: "(ucast (word_of_int \<bar>sint (x :: u32)\<bar> :: u32) :: u64) = word_of_int \<bar>sint x\<bar>"
  using abs_sint32_uint [of x] by (metis word_of_int_uint ucast_eq)

lemma xor_sign: "((x XOR y) AND 0x80000000 \<noteq> 0) = ((sint (x :: u32) < 0) \<noteq> (sint y < 0))"
proof -
  have "(0x80000000 :: u32) = 2 ^ 31" by simp
  then have "((x XOR y) AND 0x80000000 \<noteq> 0) = (bit x 31 \<noteq> bit y 31)"
    by (simp only: and_exp_eq_0_iff_not_bit not_not bit_xor_iff)
  then show ?thesis
    using bit_last_iff [of x] bit_last_iff [of y] by simp
qed

lemmas xor_sint = xor_sign [unfolded sign_bit_iff]

text \<open>The multiplier's product, of the operands as unsigned or as signed numbers.\<close>

lemma product64_value:
  "product64 a0 tos sign =
    (if sign then word_of_int (sint a0 * sint tos) else word_of_int (uint a0 * uint tos))"
proof (cases sign)
  case True
  have "product64 a0 tos sign =
      (if (sint a0 < 0) \<noteq> (sint tos < 0)
       then 0 - word_of_int \<bar>sint a0\<bar> * word_of_int \<bar>sint tos\<bar>
       else word_of_int \<bar>sint a0\<bar> * word_of_int \<bar>sint tos\<bar>)"
    using True by (simp only: product64_def Let_def sign_bit_iff xor_sint abs_word32 ucast_abs32 simp_thms)
  also have "\<dots> = word_of_int (sint a0 * sint tos)"
    by (auto simp: abs_if)
  finally show ?thesis using True by simp
next
  case False
  then have "product64 a0 tos sign = ucast a0 * ucast tos"
    by (simp add: product64_def Let_def)
  also have "\<dots> = word_of_int (uint a0 * uint tos)"
    by (simp only: ucast_eq of_int_mult)
  finally show ?thesis using False by simp
qed

lemma unat_pair64: "unat (push_bit 32 (ucast (h :: u32)) OR (ucast (l :: u32) :: u64)) = unat h * 2 ^ 32 + unat l"
proof -
  have "push_bit 32 (ucast h) OR (ucast l :: u64) = push_bit 32 (ucast h) + ucast l"
  proof (rule disjunctive_add [symmetric])
    fix n show "\<not> bit (push_bit 32 (ucast h) :: u64) n \<or> \<not> bit (ucast l :: u64) n"
      by (cases "n < 32") (simp_all add: bit_simps not_less)
  qed
  moreover have "unat (push_bit 32 (ucast h :: u64)) = unat h * 2 ^ 32"
    using unat_bounds(3) [of h]
    by (simp only: unsigned_push_bit_eq) (simp add: unat_ucast_wide push_bit_eq_mult take_bit_nat_eq_self)
  ultimately show ?thesis
    using unat_bounds(3) [of h] unat_bounds(3) [of l]
    by (simp add: unat_word_ariths unat_ucast_wide)
qed

lemma unat_halves64:
  "unat (ucast (drop_bit 32 q) :: u32) * 2 ^ 32 + unat (ucast (q :: u64) :: u32) = unat q"
proof -
  have "unat q div 2 ^ 32 < 2 ^ 32"
    using unat_bounds(4) [of q] by (simp add: less_mult_imp_div_less)
  then have "unat (ucast (drop_bit 32 q) :: u32) = unat q div 2 ^ 32"
    by (simp add: unsigned_ucast_eq unat_div_exp take_bit_nat_eq_self)
  moreover have "unat (ucast q :: u32) = unat q mod 2 ^ 32"
    by (simp add: unsigned_ucast_eq take_bit_eq_mod)
  ultimately show ?thesis by simp
qed

text \<open>the multiplier leaves the full 64-bit product in Y1:Y0: of the operands as unsigned numbers
  for \<open>um*\<close>, and as signed numbers, in two's complement, for \<open>m*\<close>; Y2 and the arguments are kept, and
  the unit is busy for the set latency.\<close>

theorem multiply_correct:
  "mu_y (math_multiply u tos sign) ! 2 = mu_y u ! 2 \<and> mu_a (math_multiply u tos sign) = mu_a u \<and>
    mu_busy (math_multiply u tos sign) = mu_latency u \<and>
    uint (mu_y (math_multiply u tos sign) ! 1) * 2 ^ 32 + uint (mu_y (math_multiply u tos sign) ! 0) =
      (if sign then sint (mu_a u ! 0) * sint tos else uint (mu_a u ! 0) * uint tos) mod 2 ^ 64"
proof -
  define p where "p = product64 (mu_a u ! 0) tos sign"
  have "int (unat (ucast (drop_bit 32 p) :: u32) * 2 ^ 32 + unat (ucast p :: u32)) = int (unat p)"
    by (simp only: unat_halves64)
  then have "uint (ucast (drop_bit 32 p) :: u32) * 2 ^ 32 + uint (ucast p :: u32) = uint p"
    by (simp only: of_nat_add of_nat_mult of_nat_power uint_nat [symmetric]) simp
  moreover have "uint p = (if sign then sint (mu_a u ! 0) * sint tos else uint (mu_a u ! 0) * uint tos) mod 2 ^ 64"
    unfolding p_def product64_value by (simp only: uint_word_of_int if_distrib) simp
  ultimately show ?thesis
    unfolding math_multiply_def Let_def result_def p_def [symmetric] by simp
qed

text \<open>\<open>mu/mod\<close> divides the 64-bit number A0:tos by A1, leaving the quotient in Y1:Y0 and the
  remainder in Y2; with A1 zero it fails with the division error and leaves the unit alone.\<close>

theorem mudivmod_correct:
  "mudivmod u tos =
    (if mu_a u ! 1 = 0 then (ERR_DIVISION_BY_ZERO, u) else (0, snd (mudivmod u tos))) \<and>
   (mu_a u ! 1 = 0 \<or>
    (let y = mu_y (snd (mudivmod u tos)); n = unat (mu_a u ! 0) * 2 ^ 32 + unat tos
     in unat (y ! 1) * 2 ^ 32 + unat (y ! 0) = n div unat (mu_a u ! 1) \<and>
        unat (y ! 2) = n mod unat (mu_a u ! 1)))"
proof (cases "mu_a u ! 1 = 0")
  case True
  then show ?thesis by (simp add: mudivmod_def)
next
  case False
  define a1 where "a1 = mu_a u ! 1"
  define dd where "dd = push_bit 32 (ucast (mu_a u ! 0)) OR (ucast tos :: u64)"
  define q where "q = fst (divide64by32 dd a1)"
  define r where "r = snd (divide64by32 dd a1)"
  have eq: "mudivmod u tos = (0, result u (ucast q) (ucast (drop_bit 32 q)) r)"
    using False by (simp add: mudivmod_def Let_def dd_def q_def r_def a1_def split: prod.split)
  have n: "unat dd = unat (mu_a u ! 0) * 2 ^ 32 + unat tos"
    unfolding dd_def by (rule unat_pair64)
  have "unat q = unat dd div unat a1" "unat r = unat dd mod unat a1"
    unfolding q_def r_def using division [of a1] False by (auto simp: a1_def)
  then show ?thesis
    using False unat_halves64 [of q] n
    by (simp add: eq result_def Let_def flip: a1_def One_nat_def)
qed

lemma product_bound:
  assumes "\<bar>a\<bar> \<le> (2 ^ 31 :: int)" "\<bar>b\<bar> \<le> 2 ^ 31"
  shows "\<bar>a * b\<bar> \<le> 2 ^ 62"
proof -
  have "\<bar>a * b\<bar> \<le> 2 ^ 31 * 2 ^ 31"
    unfolding abs_mult using assms by (intro mult_mono) auto
  then show ?thesis by simp
qed

lemma sint_product64:
  "sint ((scast (x :: u32) :: u64) * scast (y :: u32)) = sint x * sint y"
proof -
  have "\<bar>sint x\<bar> \<le> 2 ^ 31" "\<bar>sint y\<bar> \<le> 2 ^ 31"
    using sint32_bounds [of x] sint32_bounds [of y] by (simp_all add: abs_le_iff)
  from product_bound [OF this] have b: "\<bar>sint x * sint y\<bar> \<le> 2 ^ 62" .
  have "(scast x :: u64) * scast y = word_of_int (sint x * sint y)"
    by (simp only: scast_eq of_int_mult)
  moreover have "signed_take_bit 63 (sint x * sint y) = sint x * sint y"
    using b by (intro signed_take_bit_int_eq_self) (simp_all add: abs_le_iff)
  then have "sint (word_of_int (sint x * sint y) :: u64) = sint x * sint y"
    by (simp only: sint_sbintrunc') simp
  ultimately show ?thesis by (simp only:)
qed

lemma unat_abs32: "unat (if sint (x :: u32) < 0 then 0 - x else x) = nat \<bar>sint x\<bar>"
  unfolding abs_word32 using abs_sint32_uint [of x] by (simp add: unat_eq_nat_uint)

lemma unat_abs64:
  assumes "\<bar>D\<bar> \<le> (2 ^ 62 :: int)" "d = (word_of_int D :: u64)"
  shows "unat (if D < 0 then 0 - d else d) = nat \<bar>D\<bar>"
proof -
  have "(if D < 0 then 0 - d else d) = word_of_int \<bar>D\<bar>"
    using assms(2) by (simp add: abs_if)
  moreover have "uint (word_of_int \<bar>D\<bar> :: u64) = \<bar>D\<bar>"
    using assms(1) by (simp add: uint_word_of_int)
  ultimately show ?thesis by (simp add: unat_eq_nat_uint)
qed

lemma of_nat_ucast32: "(ucast (q :: u64) :: u32) = word_of_int (int (unat q))"
  by (simp only: ucast_eq uint_nat)

text \<open>\<open>*/mod\<close> computes A0 * tos / A1 on signed numbers, rounding towards zero: Y0 holds the
  quotient (its low 32 bits) and Y2 the remainder, which takes the dividend's sign; with A1 zero
  it fails with the division error and leaves the unit alone.\<close>

theorem stardivmod_correct:
  "if mu_a u ! 1 = 0 then stardivmod u tos = (ERR_DIVISION_BY_ZERO, u)
   else fst (stardivmod u tos) = 0 \<and>
     mu_y (snd (stardivmod u tos)) =
       [word_of_int ((sint (mu_a u ! 0) * sint tos) sdiv sint (mu_a u ! 1)), mu_y u ! 1,
        word_of_int ((sint (mu_a u ! 0) * sint tos) smod sint (mu_a u ! 1))]"
proof (cases "mu_a u ! 1 = 0")
  case True
  then show ?thesis by (simp add: stardivmod_def)
next
  case False
  define b where "b = mu_a u ! 1"
  define D where "D = sint (mu_a u ! 0) * sint tos"
  define d where "d = (scast (mu_a u ! 0) :: u64) * scast tos"
  define ud where "ud = (if sint d < 0 then 0 - d else d)"
  define ub where "ub = (if sint b < 0 then 0 - b else b)"
  define q where "q = fst (divide64by32 ud ub)"
  define r where "r = snd (divide64by32 ud ub)"
  have b0: "b \<noteq> 0" using False by (simp add: b_def)
  have sd: "sint d = D" unfolding d_def D_def by (rule sint_product64)
  have "\<bar>D\<bar> \<le> 2 ^ 62"
    unfolding D_def using sint32_bounds [of "mu_a u ! 0"] sint32_bounds [of tos]
    by (intro product_bound) (simp_all add: abs_le_iff)
  moreover have "d = word_of_int D" unfolding sd [symmetric] by simp
  ultimately have ud: "unat ud = nat \<bar>D\<bar>"
    unfolding ud_def sd by (rule unat_abs64)
  have ub: "unat ub = nat \<bar>sint b\<bar>" unfolding ub_def by (rule unat_abs32)
  have "ub \<noteq> 0" using b0 unfolding ub_def by auto
  from division [OF this, of ud] have qr: "unat q = nat \<bar>D\<bar> div nat \<bar>sint b\<bar>" "unat r = nat \<bar>D\<bar> mod nat \<bar>sint b\<bar>"
    by (simp_all add: q_def r_def ud ub)
  have q: "(ucast q :: u32) = word_of_int (\<bar>D\<bar> div \<bar>sint b\<bar>)"
    unfolding of_nat_ucast32 qr by (simp add: zdiv_int)
  have "r = word_of_int (int (unat r))" by simp
  then have r: "r = word_of_int (\<bar>D\<bar> mod \<bar>sint b\<bar>)"
    unfolding qr by (simp add: zmod_int)
  have "stardivmod u tos = (0, result u (if (D < 0) \<noteq> (sint b < 0) then 0 - ucast q else ucast q)
      (mu_y u ! 1) (if D < 0 then 0 - r else r))"
    using b0 unfolding stardivmod_def Let_def case_prod_unfold
    by (simp only: b_def [symmetric] d_def [symmetric] ud_def [symmetric] ub_def [symmetric]
        q_def [symmetric] r_def [symmetric] if_False) (simp only: sd)
  moreover have "(if (D < 0) \<noteq> (sint b < 0) then 0 - ucast q else ucast q :: u32) = word_of_int (D sdiv sint b)"
    using b0 unfolding q by (auto simp: signed_divide_int_def sgn_if)
  moreover have "(if D < 0 then 0 - r else r) = word_of_int (D smod sint b)"
    using b0 unfolding r by (auto simp: smod_int_alt_def sgn_if)
  ultimately show ?thesis
    using False by (simp add: result_def D_def b_def)
qed

end
