(* ===== verification/VM_State.thy ===== *)
theory VM_State
  imports VM_Memory VM_Math
begin

text \<open>
  The state of the LiteForth VM (\<^verbatim>\<open>vm_state_t\<close> of \<^verbatim>\<open>src/src/vm.h\<close>, the stack macros of
  \<^verbatim>\<open>src/src/vm_labels.h\<close>) with the access functions \<^verbatim>\<open>vmPeek\<close>, \<^verbatim>\<open>vmPoke\<close> and \<^verbatim>\<open>vmReset\<close> of
  \<^verbatim>\<open>src/src/vm.c\<close>, for the one-register build (\<open>TWO_REGISTER_TOS\<close> is not defined, so the field N
  is unused) and the desktop's \<open>STACK_CAPACITY\<close> of 128. The machine the VM runs in adds its memory,
  the math unit and whatever the terminal, display, clock and API functions keep (\<open>env\<close>).
\<close>

section \<open>State\<close>

definition STACK_CAPACITY :: u32 where [const_defs]: "STACK_CAPACITY = 128"
definition STACK_MASK :: u32 where [const_defs]: "STACK_MASK = STACK_CAPACITY - 1"
definition VM_EMPTYSTACK :: u32 where [const_defs]: "VM_EMPTYSTACK = 0xAAAAAAAA"
definition TERMINATOR :: u32 where [const_defs]: "TERMINATOR = 0xDEADC0DE"
definition VM_YEET_ADDRESS :: u32 where [const_defs]: "VM_YEET_ADDRESS = 2"

record vm_state =
  vT :: u32
  vPC :: u32
  vR :: u32
  vA :: u32
  vB :: u32
  vU :: u32
  vX :: u32
  vY :: u32
  vprefix :: u32
  vshift_size :: u32
  vsp :: u32
  vrp :: u32
  vcy :: u32
  datastack :: "u32 list"
  returnstack :: "u32 list"

lemma stack_consts [simp]: "STACK_CAPACITY = 128" "STACK_MASK = 127"
  by (simp_all add: const_defs)

text \<open>Push room for a new T, and pop T (\<open>VM_DDUP\<close>, \<open>VM_DDROP\<close>).\<close>

definition VM_DDUP :: "vm_state \<Rightarrow> vm_state" where
  "VM_DDUP v =
     (let sp = (vsp v + 1) AND STACK_MASK
      in v\<lparr>vsp := sp, datastack := (datastack v)[unat sp := vT v]\<rparr>)"

definition VM_DDROP :: "vm_state \<Rightarrow> vm_state" where
  "VM_DDROP v =
     v\<lparr>vT := datastack v ! unat (vsp v), vsp := (vsp v - 1) AND STACK_MASK\<rparr>"

section \<open>Access from C\<close>

definition VM_REG_PC :: int where [const_defs]: "VM_REG_PC = 0x100"
definition VM_REG_R :: int where [const_defs]: "VM_REG_R = 0x101"
definition VM_REG_A :: int where [const_defs]: "VM_REG_A = 0x102"
definition VM_REG_B :: int where [const_defs]: "VM_REG_B = 0x103"
definition VM_REG_U :: int where [const_defs]: "VM_REG_U = 0x104"
definition VM_REG_Y :: int where [const_defs]: "VM_REG_Y = 0x105"
definition VM_REG_cy :: int where [const_defs]: "VM_REG_cy = 0x106"
definition VM_REG_sp :: int where [const_defs]: "VM_REG_sp = 0x107"
definition VM_REG_rp :: int where [const_defs]: "VM_REG_rp = 0x108"

text \<open>The index of the item \<open>reg\<close> places below the top, for \<open>reg\<close> from 1.\<close>

definition stack_index :: "vm_state \<Rightarrow> int \<Rightarrow> nat" where
  "stack_index v reg = unat ((vsp v + 1 - word_of_int reg) AND STACK_MASK)"

text \<open>\<open>vmPeek\<close> returns the cell as a bit pattern (the C casts it to \<open>int32_t\<close>).\<close>

definition vmPeek :: "int \<Rightarrow> vm_state \<Rightarrow> u32 \<times> vm_state" where
  "vmPeek reg v =
     (if reg < 0 then (vT v, VM_DDROP v)
      else if reg = 0 then (vT v, v)
      else if reg = VM_REG_PC then (vPC v, v)
      else if reg = VM_REG_R then (vR v, v)
      else if reg = VM_REG_A then (vA v, v)
      else if reg = VM_REG_B then (vB v, v)
      else if reg = VM_REG_U then (vU v, v)
      else if reg = VM_REG_cy then (vcy v, v)
      else if reg = VM_REG_sp then (vsp v, v)
      else if reg = VM_REG_rp then (vrp v, v)
      else if reg < uint STACK_MASK then (datastack v ! stack_index v reg, v)
      else (- 1, v))"

definition vmPoke :: "int \<Rightarrow> u32 \<Rightarrow> vm_state \<Rightarrow> ior \<times> vm_state" where
  "vmPoke reg data v =
     (if reg < 0 then (0, (VM_DDUP v)\<lparr>vT := data\<rparr>)
      else if reg = 0 then (0, v\<lparr>vT := data\<rparr>)
      else if reg = VM_REG_PC then (0, v\<lparr>vPC := data\<rparr>)
      else if reg = VM_REG_R then (0, v\<lparr>vR := data\<rparr>)
      else if reg = VM_REG_A then (0, v\<lparr>vA := data\<rparr>)
      else if reg = VM_REG_B then (0, v\<lparr>vB := data\<rparr>)
      else if reg = VM_REG_U then (0, v\<lparr>vU := data\<rparr>)
      else if reg = VM_REG_cy then (0, v\<lparr>vcy := data AND 1\<rparr>)
      else if reg = VM_REG_sp then (0, v\<lparr>vsp := data AND STACK_MASK\<rparr>)
      else if reg = VM_REG_rp then (0, v\<lparr>vrp := data AND STACK_MASK\<rparr>)
      else if reg < uint STACK_MASK
        then (0, v\<lparr>datastack := (datastack v)[stack_index v reg := data]\<rparr>)
      else (- 1, v))"

definition vmReset :: "vm_state \<Rightarrow> ior \<times> vm_state" where
  "vmReset v =
     (let v1 = foldl (\<lambda>s i. snd (vmPoke i 0 s)) v [VM_REG_PC..VM_REG_rp]
      in (0, v1\<lparr>vR := TERMINATOR, vT := VM_EMPTYSTACK\<rparr>))"

definition vmPush :: "u32 \<Rightarrow> vm_state \<Rightarrow> ior \<times> vm_state" where
  "vmPush x v = vmPoke (- 1) x v"

definition vmPop :: "vm_state \<Rightarrow> u32 \<times> vm_state" where
  "vmPop v = vmPeek (- 1) v"

section \<open>The machine around the VM\<close>

record 'e machine =
  lf_vm :: vm_state
  vmem :: vm_mem
  math :: math_unit
  sys_options :: u32
  vm_running :: int
  trap_jump :: "int option"
  env :: 'e

definition SYS_OPTION_NO_API :: u32 where [const_defs]: "SYS_OPTION_NO_API = 0x4000"
definition SYS_OPTION_RUNNING :: u32 where [const_defs]: "SYS_OPTION_RUNNING = 0x0010"

text \<open>An API function returns an ior, unless a CPU exception in it is routed to the VM
  (\<^verbatim>\<open>vmTrap\<close>), which abandons it with the machine as it then is.\<close>

datatype 'e api_result = ApiReturn ior "'e machine" | ApiTrap ior "'e machine"

text \<open>What the VM calls in the target: serial port, LCD bus, clock, watchdog and API tables.\<close>

record 'e env_ops =
  serial_getc :: "'e \<Rightarrow> u32 \<times> 'e"
  serial_ready :: "'e \<Rightarrow> u32 \<times> 'e"
  serial_busy :: "'e \<Rightarrow> u32 \<times> 'e"
  serial_putc :: "u8 \<Rightarrow> 'e \<Rightarrow> ior \<times> 'e"
  lcd_tx :: "u16 \<Rightarrow> 'e \<Rightarrow> ior \<times> 'e"
  lfGetTimeMicroSec :: "'e \<Rightarrow> u64 \<times> 'e"
  lfWatchdogPing :: "'e \<Rightarrow> 'e"
  VMapi0Call :: "u32 \<Rightarrow> 'e machine \<Rightarrow> 'e api_result"
  VMapi1Call :: "u32 \<Rightarrow> 'e machine \<Rightarrow> 'e api_result"

section \<open>Well-formed states\<close>

definition wf_vm :: "vm_state \<Rightarrow> bool" where
  "wf_vm v \<longleftrightarrow> length (datastack v) = 128 \<and> length (returnstack v) = 128 \<and>
     vsp v < 128 \<and> vrp v < 128 \<and> vcy v < 2 \<and> vshift_size v < 32"

lemma and_127_less [simp]: "(x :: u32) AND 127 < 128"
  using unat_and_mask_less [of 127 128 x] by (simp add: word_less_nat)

lemma unat_and_127 [simp]: "unat ((x :: u32) AND 127) < 128"
  by (rule unat_and_mask_less) simp

lemma and_1_less [simp]: "(x :: u32) AND 1 < 2"
  using unat_and_mask_less [of 1 2 x] by (simp add: word_less_nat)

lemma wf_VM_DDUP: "wf_vm v \<Longrightarrow> wf_vm (VM_DDUP v)"
  by (simp add: wf_vm_def VM_DDUP_def Let_def)

lemma wf_VM_DDROP: "wf_vm v \<Longrightarrow> wf_vm (VM_DDROP v)"
  by (simp add: wf_vm_def VM_DDROP_def)

lemma wf_vmPeek: "wf_vm v \<Longrightarrow> wf_vm (snd (vmPeek reg v))"
  by (simp add: vmPeek_def wf_VM_DDROP)

lemma wf_vmPoke: "wf_vm v \<Longrightarrow> wf_vm (snd (vmPoke reg data v))"
  by (simp add: vmPoke_def wf_vm_def VM_DDUP_def Let_def)

lemma wf_vmReset: "wf_vm v \<Longrightarrow> wf_vm (snd (vmReset v))"
proof -
  assume "wf_vm v"
  then have "wf_vm (foldl (\<lambda>s i. snd (vmPoke i 0 s)) v regs)" for regs
    by (induction regs rule: rev_induct) (simp_all add: wf_vmPoke)
  then show ?thesis by (simp add: vmReset_def wf_vm_def)
qed

end
