(* ===== verification/VM_Ports.thy ===== *)
theory VM_Ports
  imports VM_State
begin

text \<open>
  The VM's I/O space: \<^verbatim>\<open>iomap_rd\<close> and \<^verbatim>\<open>iomap_wr\<close> of \<^verbatim>\<open>src/src/iomap.c\<close>, reached by \<open>sys>\<close> and
  \<open>>sys\<close> with an index of \<open>IOMAP_FIRST\<close> or more. The terminal and the LCD are the target's
  (\<open>env_ops\<close>); the math unit is that of \<open>VM_Math\<close>.
\<close>

definition IOMAP_FIRST :: u32 where [const_defs]: "IOMAP_FIRST = 16"
definition IO_TERM_DATA :: u32 where [const_defs]: "IO_TERM_DATA = 16"
definition IO_TERM_RXQ :: u32 where [const_defs]: "IO_TERM_RXQ = 17"
definition IO_TERM_TXQ :: u32 where [const_defs]: "IO_TERM_TXQ = 18"
definition IO_LCD_TX :: u32 where [const_defs]: "IO_LCD_TX = 24"
definition IO_MATH_UMSTAR :: u32 where [const_defs]: "IO_MATH_UMSTAR = 32"
definition IO_MATH_MSTAR :: u32 where [const_defs]: "IO_MATH_MSTAR = 33"
definition IO_MATH_MUDIVMOD :: u32 where [const_defs]: "IO_MATH_MUDIVMOD = 34"
definition IO_MATH_STARDIVMOD :: u32 where [const_defs]: "IO_MATH_STARDIVMOD = 35"
definition IO_MATH_ARG :: u32 where [const_defs]: "IO_MATH_ARG = 40"
definition IO_MATH_RES :: u32 where [const_defs]: "IO_MATH_RES = 40"
definition IO_MATH_STATUS :: u32 where [const_defs]: "IO_MATH_STATUS = 43"

text \<open>\<open>iomap_rd\<close> returns its ior and the value left in \<open>*tos\<close>.\<close>

definition iomap_rd :: "'e env_ops \<Rightarrow> u32 \<Rightarrow> 'e machine \<Rightarrow> ior \<times> u32 \<times> 'e machine" where
  "iomap_rd ops addr m =
     (if addr = IO_TERM_DATA then
        let (c, e) = serial_getc ops (env m) in (0, c, m\<lparr>env := e\<rparr>)
      else if addr = IO_TERM_RXQ then
        let (c, e) = serial_ready ops (env m) in (0, c, m\<lparr>env := e\<rparr>)
      else if addr = IO_TERM_TXQ then
        let (c, e) = serial_busy ops (env m) in (0, c, m\<lparr>env := e\<rparr>)
      else if addr = IO_MATH_STATUS then
        (if mu_busy (math m) \<noteq> 0
         then (0, 1, m\<lparr>math := (math m)\<lparr>mu_busy := mu_busy (math m) - 1\<rparr>\<rparr>)
         else (0, 0, m))
      else if addr = IO_MATH_RES \<or> addr = IO_MATH_RES + 1 \<or> addr = IO_MATH_RES + 2 then
        (if mu_busy (math m) \<noteq> 0 then (ERR_UNSUPPORTED_OPERATION, 0, m)
         else (0, mu_y (math m) ! unat (addr - IO_MATH_RES), m))
      else (ERR_INVALID_ADDRESS, 0, m))"

text \<open>
  \<open>lf_putc\<close> as the VM reaches it: inside \<open>vmRun\<close> the count of runs under way is not zero, so the
  branch of \<^verbatim>\<open>src/src/tools.c\<close> that steps the app while the port is busy is not taken.
\<close>

definition putc_in_vm :: "'e env_ops \<Rightarrow> u8 \<Rightarrow> 'e machine \<Rightarrow> ior \<times> 'e machine" where
  "putc_in_vm ops c m =
     (let (busy, e1) = serial_busy ops (env m); (ior, e2) = serial_putc ops c e1
      in (ior, m\<lparr>env := e2\<rparr>))"

definition iomap_wr :: "'e env_ops \<Rightarrow> u32 \<Rightarrow> u32 \<Rightarrow> 'e machine \<Rightarrow> ior \<times> 'e machine" where
  "iomap_wr ops addr tos m =
     (if addr = IO_TERM_DATA then putc_in_vm ops (ucast tos) m
      else if addr = IO_LCD_TX then
        let (ior, e) = lcd_tx ops (ucast tos) (env m) in (ior, m\<lparr>env := e\<rparr>)
      else if addr = IO_MATH_ARG \<or> addr = IO_MATH_ARG + 1 then
        (0, m\<lparr>math := (math m)\<lparr>mu_a := (mu_a (math m))[unat (addr - IO_MATH_ARG) := tos]\<rparr>\<rparr>)
      else if addr = IO_MATH_UMSTAR \<or> addr = IO_MATH_MSTAR then
        (0, m\<lparr>math := math_multiply (math m) tos (addr = IO_MATH_MSTAR)\<rparr>)
      else if addr = IO_MATH_MUDIVMOD then
        let (ior, u) = mudivmod (math m) tos in (ior, m\<lparr>math := u\<rparr>)
      else if addr = IO_MATH_STARDIVMOD then
        let (ior, u) = stardivmod (math m) tos in (ior, m\<lparr>math := u\<rparr>)
      else (ERR_INVALID_ADDRESS, m))"

section \<open>What a port access leaves alone\<close>

text \<open>Ports reach the math unit and the environment only.\<close>

lemma iomap_rd_frame:
  "lf_vm (snd (snd (iomap_rd ops addr m))) = lf_vm m"
  "vmem (snd (snd (iomap_rd ops addr m))) = vmem m"
  "sys_options (snd (snd (iomap_rd ops addr m))) = sys_options m"
  "vm_running (snd (snd (iomap_rd ops addr m))) = vm_running m"
  "trap_jump (snd (snd (iomap_rd ops addr m))) = trap_jump m"
  by (simp_all add: iomap_rd_def case_prod_unfold Let_def)

lemma iomap_wr_frame:
  "lf_vm (snd (iomap_wr ops addr tos m)) = lf_vm m"
  "vmem (snd (iomap_wr ops addr tos m)) = vmem m"
  "sys_options (snd (iomap_wr ops addr tos m)) = sys_options m"
  "vm_running (snd (iomap_wr ops addr tos m)) = vm_running m"
  "trap_jump (snd (iomap_wr ops addr tos m)) = trap_jump m"
  by (simp_all add: iomap_wr_def putc_in_vm_def case_prod_unfold Let_def)

lemma iomap_rd_wf_math: "wf_math (math m) \<Longrightarrow> wf_math (math (snd (snd (iomap_rd ops addr m))))"
  by (auto simp: iomap_rd_def case_prod_unfold Let_def wf_math_def)

lemma iomap_wr_wf_math: "wf_math (math m) \<Longrightarrow> wf_math (math (snd (iomap_wr ops addr tos m)))"
  by (simp add: iomap_wr_def putc_in_vm_def case_prod_unfold Let_def wf_multiply wf_mudivmod
      wf_stardivmod) (simp add: wf_math_def)

lemma iomap_rd_fail_zero: "fst (iomap_rd ops addr m) \<noteq> 0 \<Longrightarrow> fst (snd (iomap_rd ops addr m)) = 0"
  by (auto simp: iomap_rd_def case_prod_unfold Let_def split: if_splits)

end
