(* ===== verification/VM_Exec.thy ===== *)
theory VM_Exec
  imports VM_Ports
begin

text \<open>
  The interpreter of \<^verbatim>\<open>src/src/vm.c\<close>: \<open>vmExec\<close> with its registers in local variables and its cached
  code page, the 32 micro-ops, the 9-bit-immediate group, and \<open>vmRun\<close> around it, which saves and
  restores the PC and catches CPU exceptions. The loops take fuel: a micro-op group can repeat itself
  with \<open>unext\<close> for ever, and code from memory can loop, so not returning is the value \<open>None\<close>.
\<close>

section \<open>Instruction formats (vm_labels.h)\<close>

definition VM_UOPS :: u32 where [const_defs]: "VM_UOPS = 0x8000"
definition VM_RET :: u32 where [const_defs]: "VM_RET = 0x4000"
definition SLOT0_POSITION :: nat where [const_defs]: "SLOT0_POSITION = 9"
definition LAST_SLOT_WIDTH :: nat where [const_defs]: "LAST_SLOT_WIDTH = 14 mod 5"
definition LAST_SLOT_MASK :: u32 where [const_defs]: "LAST_SLOT_MASK = push_bit LAST_SLOT_WIDTH 1 - 1"
definition VM_LIMM_BITS :: nat where [const_defs]: "VM_LIMM_BITS = 13"
definition VM_LIMM_MASK :: u32 where [const_defs]: "VM_LIMM_MASK = push_bit VM_LIMM_BITS 1 - 1"
definition VM_IMM_BITS :: nat where [const_defs]: "VM_IMM_BITS = 9"
definition VM_IMM_MASK :: u32 where [const_defs]: "VM_IMM_MASK = push_bit VM_IMM_BITS 1 - 1"

lemma format_consts [simp]:
  "VM_UOPS = 0x8000" "VM_RET = 0x4000" "LAST_SLOT_MASK = 0xF" "VM_LIMM_MASK = 0x1FFF"
  "VM_IMM_MASK = 0x1FF" "VM_LIMM_BITS = 13" "VM_IMM_BITS = 9" "SLOT0_POSITION = 9"
  "LAST_SLOT_WIDTH = 4"
  by (simp_all add: const_defs push_bit_eq_mult)

datatype uop =
    VMU_NOP | VMU_INV | VMU_OVER | VMU_ASTORE | VMU_XOR | VMU_PLUS | VMU_AND | VMU_PUSH
  | VMU_UNEXT | VMU_TWOSTAR | VMU_DUP | VMU_DROP | VMU_FETCHA | VMU_FETCHAPLUS | VMU_R | VMU_POP
  | VMU_TWODIVC | VMU_TWODIV | VMU_FETCHASIGN | VMU_PXSTORE | VMU_STOREA | VMU_STOREAPLUS
  | VMU_STOREB | VMU_STOREBPLUS | VMU_SWAP | VMU_PLUSSTAR | VMU_B | VMU_BSTORE | VMU_FETCHB
  | VMU_FETCHBPLUS | VMU_A | VMU_CY

text \<open>The micro-ops in the order of their codes 0 to 0x1F.\<close>

definition uop_codes :: "uop list" where
  "uop_codes =
    [VMU_NOP, VMU_INV, VMU_OVER, VMU_ASTORE, VMU_XOR, VMU_PLUS, VMU_AND, VMU_PUSH,
     VMU_UNEXT, VMU_TWOSTAR, VMU_DUP, VMU_DROP, VMU_FETCHA, VMU_FETCHAPLUS, VMU_R, VMU_POP,
     VMU_TWODIVC, VMU_TWODIV, VMU_FETCHASIGN, VMU_PXSTORE, VMU_STOREA, VMU_STOREAPLUS,
     VMU_STOREB, VMU_STOREBPLUS, VMU_SWAP, VMU_PLUSSTAR, VMU_B, VMU_BSTORE, VMU_FETCHB,
     VMU_FETCHBPLUS, VMU_A, VMU_CY]"

definition decode_uop :: "u32 \<Rightarrow> uop" where
  "decode_uop code = uop_codes ! unat code"

text \<open>The 4-bit opcodes of the group with 9-bit immediate data; 5, 7 and 11 are unused.\<close>

datatype imm_op =
    VMO_ZBRAN | VMO_BRAN | VMO_PBRAN | VMO_RCALL | VMO_NEXT | VMO_SYS | VMO_TOSYS | VMO_USER
  | VMO_FROMSYS | VMO_PFX | VMO_PFX1 | VMO_API0 | VMO_API1 | VMO_INVALID

definition imm_codes :: "imm_op list" where
  "imm_codes =
    [VMO_ZBRAN, VMO_BRAN, VMO_PBRAN, VMO_RCALL, VMO_NEXT, VMO_INVALID, VMO_SYS, VMO_INVALID,
     VMO_TOSYS, VMO_USER, VMO_FROMSYS, VMO_INVALID, VMO_PFX, VMO_PFX1, VMO_API0, VMO_API1]"

definition decode_imm :: "u32 \<Rightarrow> imm_op" where
  "decode_imm inst = imm_codes ! unat (drop_bit VM_IMM_BITS inst AND 0x0F)"

section \<open>Local state of vmExec\<close>

text \<open>The local copies of the VM registers, the code page being run, and the machine.\<close>

record 'e exec =
  xt :: u32
  xr :: u32
  xa :: u32
  xb :: u32
  xu :: u32
  xpc :: u32
  xpfx :: u32
  xdsp :: u32
  xrsp :: u32
  xc :: u32
  xcode :: u32
  xcbase :: u32
  xcspan :: u32
  xm :: "'e machine"

definition VM_LOAD :: "'e machine \<Rightarrow> 'e exec \<Rightarrow> 'e exec" where
  "VM_LOAD m x =
     (let v = lf_vm m in
      x\<lparr>xt := vT v, xr := vR v, xpc := vPC v, xa := vA v, xb := vB v, xu := vU v,
        xdsp := vsp v AND STACK_MASK, xrsp := vrp v AND STACK_MASK, xc := vcy v AND 1,
        xpfx := vprefix v, xm := m\<rparr>)"

definition VM_SAVE :: "'e exec \<Rightarrow> 'e machine" where
  "VM_SAVE x =
     (xm x)\<lparr>lf_vm := (lf_vm (xm x))\<lparr>vT := xt x, vR := xr x, vPC := xpc x, vA := xa x, vB := xb x,
       vU := xu x, vsp := xdsp x, vrp := xrsp x, vcy := xc x, vprefix := xpfx x\<rparr>\<rparr>"

text \<open>The locals as they start: registers from the machine, no code page (\<open>cspan\<close> 0).\<close>

definition exec_start :: "'e machine \<Rightarrow> 'e exec" where
  "exec_start m = VM_LOAD m \<lparr>xt = 0, xr = 0, xa = 0, xb = 0, xu = 0, xpc = 0, xpfx = 0, xdsp = 0,
     xrsp = 0, xc = 0, xcode = 0, xcbase = 0, xcspan = 0, xm = m\<rparr>"

text \<open>The second data stack item, and the stack moves on the locals.\<close>

definition nos :: "'e exec \<Rightarrow> u32" where
  "nos x = datastack (lf_vm (xm x)) ! unat (xdsp x)"

definition upd_vm :: "(vm_state \<Rightarrow> vm_state) \<Rightarrow> 'e exec \<Rightarrow> 'e exec" where
  "upd_vm f x = x\<lparr>xm := (xm x)\<lparr>lf_vm := f (lf_vm (xm x))\<rparr>\<rparr>"

definition set_ds :: "u32 \<Rightarrow> u32 \<Rightarrow> 'e exec \<Rightarrow> 'e exec" where
  "set_ds i d x = upd_vm (\<lambda>v. v\<lparr>datastack := (datastack v)[unat i := d]\<rparr>) x"

definition set_rs :: "u32 \<Rightarrow> u32 \<Rightarrow> 'e exec \<Rightarrow> 'e exec" where
  "set_rs i d x = upd_vm (\<lambda>v. v\<lparr>returnstack := (returnstack v)[unat i := d]\<rparr>) x"

definition DDUP :: "'e exec \<Rightarrow> 'e exec" where
  "DDUP x = (let dsp = (xdsp x + 1) AND STACK_MASK in set_ds dsp (xt x) (x\<lparr>xdsp := dsp\<rparr>))"

definition DDROP :: "'e exec \<Rightarrow> 'e exec" where
  "DDROP x = x\<lparr>xt := nos x, xdsp := (xdsp x - 1) AND STACK_MASK\<rparr>"

definition NIP :: "'e exec \<Rightarrow> 'e exec" where
  "NIP x = x\<lparr>xdsp := (xdsp x - 1) AND STACK_MASK\<rparr>"

definition RDUP :: "'e exec \<Rightarrow> 'e exec" where
  "RDUP x = (let rsp = (xrsp x + 1) AND STACK_MASK in set_rs rsp (xr x) (x\<lparr>xrsp := rsp\<rparr>))"

definition RDROP :: "'e exec \<Rightarrow> 'e exec" where
  "RDROP x = x\<lparr>xr := returnstack (lf_vm (xm x)) ! unat (xrsp x), xrsp := (xrsp x - 1) AND STACK_MASK\<rparr>"

text \<open>Push a value; take T into a local and pop.\<close>

definition PUSHT :: "u32 \<Rightarrow> 'e exec \<Rightarrow> 'e exec" where
  "PUSHT d x = (DDUP x)\<lparr>xt := d\<rparr>"

definition fetch_to_T :: "u32 \<Rightarrow> 'e exec \<Rightarrow> ior \<times> 'e exec" where
  "fetch_to_T addr x =
     (let x1 = DDUP x; (ior, n) = vmFetch (vmem (xm x1)) addr in (ior, x1\<lparr>xt := n\<rparr>))"

definition store_T :: "u32 \<Rightarrow> 'e exec \<Rightarrow> ior \<times> 'e exec" where
  "store_T addr x =
     (let n = xt x; x1 = DDROP x; (ior, mem) = vmStore (vmem (xm x1)) addr n
      in (ior, x1\<lparr>xm := (xm x1)\<lparr>vmem := mem\<rparr>\<rparr>))"

text \<open>Sign extension of a slice (\<open>@as\<close>).\<close>

definition sign_extend_slice :: "u32 \<Rightarrow> u32 \<Rightarrow> u32" where
  "sign_extend_slice addr n =
     (let bsize = drop_bit 27 addr in
      if bsize \<noteq> 0 then
        let sign = push_bit (unat (bsize - 1)) 1 in
        if n AND sign \<noteq> 0 then n OR NOT (sign - 1) else n
      else n)"

section \<open>Micro-ops\<close>

text \<open>Every micro-op but \<open>unext\<close>, which the group loop below handles: the ior of a memory access
  (0 for the others) and the new locals.\<close>

fun exec_uop :: "uop \<Rightarrow> 'e exec \<Rightarrow> ior \<times> 'e exec" where
  "exec_uop VMU_NOP x = (0, x)"
| "exec_uop VMU_INV x = (0, x\<lparr>xt := NOT (xt x)\<rparr>)"
| "exec_uop VMU_OVER x = (0, PUSHT (nos x) x)"
| "exec_uop VMU_ASTORE x = (0, (DDROP x)\<lparr>xa := xt x\<rparr>)"
| "exec_uop VMU_XOR x = (let x1 = DDROP x in (0, x1\<lparr>xt := xt x1 XOR xt x\<rparr>))"
| "exec_uop VMU_PLUS x =
     (let sum = xt x + nos x; c = (if sum < xt x then 1 else 0)
      in (0, (NIP (x\<lparr>xc := c\<rparr>))\<lparr>xt := sum\<rparr>))"
| "exec_uop VMU_AND x = (let x1 = DDROP x in (0, x1\<lparr>xt := xt x1 AND xt x\<rparr>))"
| "exec_uop VMU_PUSH x = (0, (RDUP (DDROP x))\<lparr>xr := xt x\<rparr>)"
| "exec_uop VMU_UNEXT x = (0, x)"
| "exec_uop VMU_TWOSTAR x = (0, x\<lparr>xt := push_bit 1 (xt x)\<rparr>)"
| "exec_uop VMU_DUP x = (0, DDUP x)"
| "exec_uop VMU_DROP x = (0, DDROP x)"
| "exec_uop VMU_FETCHA x = fetch_to_T (xa x) x"
| "exec_uop VMU_FETCHAPLUS x =
     (let (ior, x1) = fetch_to_T (xa x) x in (ior, x1\<lparr>xa := vmFieldPlus (xa x1)\<rparr>))"
| "exec_uop VMU_R x = (0, PUSHT (xr x) x)"
| "exec_uop VMU_POP x = (0, RDROP (PUSHT (xr x) x))"
| "exec_uop VMU_TWODIVC x =
     (0, x\<lparr>xt := push_bit 31 (xc x) OR drop_bit 1 (xt x), xc := xt x AND 1\<rparr>)"
| "exec_uop VMU_TWODIV x = (0, x\<lparr>xt := drop_bit 1 (xt x) OR (xt x AND 0x80000000)\<rparr>)"
| "exec_uop VMU_FETCHASIGN x =
     (let (ior, x1) = fetch_to_T (xa x) x
      in (ior, x1\<lparr>xt := sign_extend_slice (xa x1) (xt x1)\<rparr>))"
| "exec_uop VMU_PXSTORE x = (0, DDROP x)"
| "exec_uop VMU_STOREA x = store_T (xa x) x"
| "exec_uop VMU_STOREAPLUS x =
     (let (ior, x1) = store_T (xa x) x in (ior, x1\<lparr>xa := vmFieldPlus (xa x1)\<rparr>))"
| "exec_uop VMU_STOREB x = store_T (xb x) x"
| "exec_uop VMU_STOREBPLUS x =
     (let (ior, x1) = store_T (xb x) x in (ior, x1\<lparr>xb := vmFieldPlus (xb x1)\<rparr>))"
| "exec_uop VMU_SWAP x = (0, (set_ds (xdsp x) (xt x) x)\<lparr>xt := nos x\<rparr>)"
| "exec_uop VMU_PLUSSTAR x =
     (let sum = (ucast (xt x) :: u64) + (if xa x AND 1 \<noteq> 0 then ucast (nos x) else 0)
      in (0, x\<lparr>xt := ucast (drop_bit 1 sum), xa := push_bit 31 (ucast sum) OR drop_bit 1 (xa x)\<rparr>))"
| "exec_uop VMU_B x = (0, PUSHT (xb x) x)"
| "exec_uop VMU_BSTORE x = (0, (DDROP x)\<lparr>xb := xt x\<rparr>)"
| "exec_uop VMU_FETCHB x = fetch_to_T (xb x) x"
| "exec_uop VMU_FETCHBPLUS x =
     (let (ior, x1) = fetch_to_T (xb x) x in (ior, x1\<lparr>xb := vmFieldPlus (xb x1)\<rparr>))"
| "exec_uop VMU_A x = (0, PUSHT (xa x) x)"
| "exec_uop VMU_CY x = (0, PUSHT (xc x) x)"

text \<open>The three slots of an instruction, lined up as 5-bit fields at the top of a word.\<close>

definition start_slots :: "u32 \<Rightarrow> u32" where
  "start_slots inst =
     (push_bit 18 inst AND 0xFFC00000) OR push_bit 17 (inst AND LAST_SLOT_MASK)"

text \<open>The group: one micro-op per unit of fuel. \<open>unext\<close> counts R down and starts the group again
  unless R reaches 0; a failed memory access ends the group, and so do the trailing nops.\<close>

fun group_loop :: "nat \<Rightarrow> u32 \<Rightarrow> u32 \<Rightarrow> 'e exec \<Rightarrow> (ior \<times> 'e exec) option" where
  "group_loop 0 inst slots x = None"
| "group_loop (Suc f) inst slots x =
     (let uop = decode_uop (drop_bit 27 slots); rest = push_bit 5 slots in
      if uop = VMU_UNEXT then
        let x1 = x\<lparr>xr := xr x - 1\<rparr> in
        if xr x1 \<noteq> 0 then group_loop f inst (start_slots inst) x1
        else if rest \<noteq> 0 then group_loop f inst rest (RDROP x1)
        else Some (0, RDROP x1)
      else
        let (ior, x1) = exec_uop uop x; rest' = (if ior \<noteq> 0 then 0 else rest) in
        if rest' \<noteq> 0 then group_loop f inst rest' x1 else Some (ior, x1))"

section \<open>One instruction\<close>

text \<open>An instruction leaves its ior and the new locals, or a CPU exception in an API function
  abandons the run.\<close>

datatype 'e insn_result = Done ior "'e exec" | Trapped ior "'e machine"

text \<open>The signed 9-bit offset of a branch.\<close>

definition branch_offset :: "u32 \<Rightarrow> u32" where
  "branch_offset inst = signed_drop_bit (32 - VM_IMM_BITS) (push_bit (32 - VM_IMM_BITS) inst)"

definition branch :: "u32 \<Rightarrow> 'e exec \<Rightarrow> 'e exec" where
  "branch inst x = x\<lparr>xpc := xpc x + branch_offset inst\<rparr>"

definition exec_sys :: "'e env_ops \<Rightarrow> u32 \<Rightarrow> 'e exec \<Rightarrow> ior \<times> 'e exec" where
  "exec_sys ops imm x =
     (let sh = unat (vshift_size (lf_vm (xm x))) in
      if imm = 2 then (0, x\<lparr>xt := drop_bit sh (xt x)\<rparr>)
      else if imm = 3 then (0, x\<lparr>xt := push_bit sh (xt x)\<rparr>)
      else if imm = 6 then (0, x\<lparr>xt := signed_drop_bit sh (xt x)\<rparr>)
      else if imm = 1 then (0, x\<lparr>xt := vmFieldPlus (xt x)\<rparr>)
      else if imm = 4 then
        let (usec, e) = lfGetTimeMicroSec ops (env (xm x)); x1 = x\<lparr>xm := (xm x)\<lparr>env := e\<rparr>\<rparr>
        in (0, upd_vm (\<lambda>v. v\<lparr>vY := ucast (drop_bit 32 usec), vX := ucast usec\<rparr>) x1)
      else if imm = 0 then
        (0, x\<lparr>xdsp := xt x AND STACK_MASK, xrsp := drop_bit 16 (xt x) AND STACK_MASK\<rparr>)
      else if imm = 5 then
        (ERR_VM_BREAK, x\<lparr>xm := (xm x)\<lparr>env := lfWatchdogPing ops (env (xm x))\<rparr>\<rparr>)
      else (0, x))"

definition exec_tosys :: "'e env_ops \<Rightarrow> u32 \<Rightarrow> 'e exec \<Rightarrow> ior \<times> 'e exec" where
  "exec_tosys ops imm x =
     (let tos = xt x; x1 = DDROP x in
      if IOMAP_FIRST \<le> imm then
        let (ior, m) = iomap_wr ops imm tos (xm x1) in (ior, x1\<lparr>xm := m\<rparr>)
      else if imm = 1 then ((if tos \<noteq> 0 then sint tos else 0), x1)
      else if imm = 0 then (0, upd_vm (\<lambda>v. v\<lparr>vshift_size := tos AND 0x1F\<rparr>) x1)
      else if imm = 2 then (0, x1\<lparr>xu := tos\<rparr>)
      else (0, x1))"

definition exec_fromsys :: "'e env_ops \<Rightarrow> u32 \<Rightarrow> 'e exec \<Rightarrow> ior \<times> 'e exec" where
  "exec_fromsys ops imm x =
     (let x1 = DDUP x in
      if IOMAP_FIRST \<le> imm then
        let (ior, data, m) = iomap_rd ops imm (xm x1) in (ior, x1\<lparr>xm := m, xt := data\<rparr>)
      else if imm = 0 then
        let x2 = RDUP x1 in (0, x2\<lparr>xt := push_bit 16 (xrsp x2) OR xdsp x2\<rparr>)
      else if imm = 1 then (0, x1\<lparr>xt := vX (lf_vm (xm x1))\<rparr>)
      else if imm = 2 then (0, x1\<lparr>xt := vY (lf_vm (xm x1))\<rparr>)
      else (0, x1))"

definition vmApiCall :: "'e env_ops \<Rightarrow> u32 \<Rightarrow> 'e machine \<Rightarrow> 'e api_result" where
  "vmApiCall ops inst m =
     (let imm = inst AND VM_IMM_MASK; api0 = (drop_bit VM_IMM_BITS inst AND 0x0F = 14) in
      if sys_options m AND SYS_OPTION_NO_API \<noteq> 0 then ApiReturn ERR_NO_API_CALL_ALLOWED m
      else if api0 then VMapi0Call ops imm m else VMapi1Call ops imm m)"

text \<open>An API call: the registers are saved for it and reloaded after, and the code page is looked
  up again.\<close>

definition exec_api :: "'e env_ops \<Rightarrow> u32 \<Rightarrow> 'e exec \<Rightarrow> 'e insn_result" where
  "exec_api ops inst x =
     (case vmApiCall ops inst (VM_SAVE x) of
        ApiReturn ior m \<Rightarrow> Done ior ((VM_LOAD m x)\<lparr>xcspan := 0\<rparr>)
      | ApiTrap ior m \<Rightarrow> Trapped ior m)"

text \<open>The group with 9-bit immediate data.\<close>

fun exec_imm :: "'e env_ops \<Rightarrow> u32 \<Rightarrow> imm_op \<Rightarrow> 'e exec \<Rightarrow> 'e insn_result" where
  "exec_imm ops inst VMO_ZBRAN x =
     (let x1 = DDROP x in Done 0 (if xt x = 0 then branch inst x1 else x1))"
| "exec_imm ops inst VMO_BRAN x = Done 0 (branch inst x)"
| "exec_imm ops inst VMO_PBRAN x = Done 0 (if 0 \<le> sint (xt x) then branch inst x else x)"
| "exec_imm ops inst VMO_RCALL x = Done 0 (branch inst ((RDUP x)\<lparr>xr := xpc x\<rparr>))"
| "exec_imm ops inst VMO_NEXT x =
     (let x1 = x\<lparr>xr := xr x - 1\<rparr> in Done 0 (if xr x1 \<noteq> 0 then branch inst x1 else RDROP x1))"
| "exec_imm ops inst VMO_SYS x =
     (let (ior, x1) = exec_sys ops (inst AND VM_IMM_MASK) x in Done ior x1)"
| "exec_imm ops inst VMO_TOSYS x =
     (let (ior, x1) = exec_tosys ops (inst AND VM_IMM_MASK) x in Done ior x1)"
| "exec_imm ops inst VMO_USER x = Done 0 (x\<lparr>xa := xu x + (inst AND VM_IMM_MASK)\<rparr>)"
| "exec_imm ops inst VMO_FROMSYS x =
     (let (ior, x1) = exec_fromsys ops (inst AND VM_IMM_MASK) x in Done ior x1)"
| "exec_imm ops inst VMO_PFX x =
     Done 0 (x\<lparr>xpfx := push_bit (VM_IMM_BITS + 1) (xpfx x) OR (inst AND VM_IMM_MASK)\<rparr>)"
| "exec_imm ops inst VMO_PFX1 x =
     Done 0 (x\<lparr>xpfx := push_bit (VM_IMM_BITS + 1) (xpfx x) OR (inst AND VM_IMM_MASK) OR
       push_bit VM_IMM_BITS 1\<rparr>)"
| "exec_imm ops inst VMO_API0 x = exec_api ops inst x"
| "exec_imm ops inst VMO_API1 x = exec_api ops inst x"
| "exec_imm ops inst VMO_INVALID x = Done ERR_INVALID_OPCODE x"

text \<open>An instruction: a micro-op group, a jump or call, a literal, or the immediate group. Only the
  group can run out of fuel.\<close>

definition exec_insn :: "nat \<Rightarrow> 'e env_ops \<Rightarrow> u32 \<Rightarrow> 'e exec \<Rightarrow> 'e insn_result option" where
  "exec_insn gf ops inst x =
     (if inst AND VM_UOPS \<noteq> 0 then
        let x1 = (if inst AND VM_RET \<noteq> 0 then RDROP (x\<lparr>xpc := xr x\<rparr>) else x)
        in map_option (\<lambda>(ior, x2). Done ior x2) (group_loop gf inst (start_slots inst) x1)
      else if inst AND 0x4000 = 0 then
        let immex = push_bit 13 (xpfx x) OR (inst AND 0x1FFF);
            x1 = (if inst AND 0x2000 \<noteq> 0 then (RDUP x)\<lparr>xr := xpc x\<rparr> else x)
        in Some (Done 0 (x1\<lparr>xpc := immex, xpfx := 0\<rparr>))
      else if inst AND 0x2000 = 0 then
        let immex = push_bit 13 (xpfx x) OR (inst AND 0x1FFF)
        in Some (Done 0 ((PUSHT immex x)\<lparr>xpfx := 0\<rparr>))
      else Some (exec_imm ops inst (decode_imm inst) x))"

section \<open>Instruction fetch\<close>

datatype 'e fetched = FetchReturn "'e exec" | FetchFault "'e exec" | FetchInst u32 "'e exec"

text \<open>Two instructions per cell, the even one in the lower half.\<close>

definition read_inst :: "'e exec \<Rightarrow> 'e fetched" where
  "read_inst x =
     FetchInst (drop_bit (if xpc x AND 1 \<noteq> 0 then 16 else 0)
         (get_cell (vmem (xm x)) (xcode x) (drop_bit 1 (xpc x - xcbase x))))
       (x\<lparr>xpc := xpc x + 1\<rparr>)"

definition fetch_inst :: "'e exec \<Rightarrow> 'e fetched" where
  "fetch_inst x =
     (if xpc x - xcbase x \<ge> xcspan x then
        if xpc x = TERMINATOR then FetchReturn x
        else
          let page = drop_bit (23 - VM_LOG2_PAGES) (xpc x) in
          if page \<ge> VM_MEM_PAGES then FetchFault x
          else
            let x1 = x\<lparr>xcode := page, xcbase := push_bit (23 - VM_LOG2_PAGES) page,
                  xcspan := push_bit 1 (vm_memory_executable (vmem (xm x)) ! unat page)\<rparr>
            in if xpc x1 - xcbase x1 \<ge> xcspan x1 then FetchFault x1 else read_inst x1
      else read_inst x)"

section \<open>vmExec and vmRun\<close>

datatype 'e run_result = Returned ior "'e machine" | RunTrapped ior "'e machine"

text \<open>An error ends the run; a stepped app (\<open>steps\<close> not 0) is sent to its yeet handler first.\<close>

definition end_run :: "ior \<Rightarrow> u32 \<Rightarrow> 'e exec \<Rightarrow> 'e run_result" where
  "end_run ior steps x =
     (if ior \<noteq> ERR_VM_BREAK \<and> steps \<noteq> 0
      then Returned ior (VM_SAVE
        ((upd_vm (\<lambda>v. v\<lparr>vX := xpc x, vY := word_of_int ior\<rparr>) x)\<lparr>xpc := push_bit 1 VM_YEET_ADDRESS\<rparr>))
      else Returned ior (VM_SAVE x))"

text \<open>The outer loop for code from memory: one instruction per unit of fuel \<open>f\<close>; \<open>gf\<close> is the fuel
  each micro-op group gets. \<open>steps\<close> is 0 for a word call.\<close>

fun vm_loop :: "nat \<Rightarrow> nat \<Rightarrow> 'e env_ops \<Rightarrow> u32 \<Rightarrow> 'e exec \<Rightarrow> 'e run_result option" where
  "vm_loop 0 gf ops steps x = None"
| "vm_loop (Suc f) gf ops steps x =
     (case fetch_inst x of
        FetchReturn x1 \<Rightarrow> Some (Returned 0 (VM_SAVE x1))
      | FetchFault x1 \<Rightarrow> Some (end_run ERR_EXEC_PROTECTED steps x1)
      | FetchInst inst x1 \<Rightarrow>
          (case exec_insn gf ops inst x1 of
             None \<Rightarrow> None
           | Some (Trapped ior m) \<Rightarrow> Some (RunTrapped ior m)
           | Some (Done ior x2) \<Rightarrow>
               if ior = 0 \<and> steps = 0 then vm_loop f gf ops steps x2
               else if steps = 1 then Some (Returned ERR_VM_TIMEOUT (VM_SAVE x2))
               else
                 let steps' = (if steps \<noteq> 0 then steps - 1 else 0) in
                 if ior \<noteq> 0 then Some (end_run ior steps' x2) else vm_loop f gf ops steps' x2))"

definition vmExec ::
  "nat \<Rightarrow> nat \<Rightarrow> 'e env_ops \<Rightarrow> bool \<Rightarrow> u32 \<Rightarrow> u32 \<Rightarrow> 'e machine \<Rightarrow> 'e run_result option" where
  "vmExec f gf ops once inst address m =
     (let x = exec_start m in
      if once then
        (case exec_insn gf ops inst x of
           None \<Rightarrow> None
         | Some (Trapped ior m1) \<Rightarrow> Some (RunTrapped ior m1)
         | Some (Done ior x1) \<Rightarrow> Some (Returned ior (VM_SAVE x1)))
      else if inst = 0 then
        vm_loop f gf ops 0 ((RDUP x)\<lparr>xr := TERMINATOR, xpc := address\<rparr>)
      else vm_loop f gf ops inst x)"

text \<open>\<open>vmRun\<close>: a CPU exception comes back here with the VM registers as last saved; a word call gets
  the app's PC back whatever happened. \<open>here\<close> (the jump buffer) is named by the depth of the run.\<close>

definition vmRun ::
  "nat \<Rightarrow> nat \<Rightarrow> 'e env_ops \<Rightarrow> bool \<Rightarrow> u32 \<Rightarrow> u32 \<Rightarrow> 'e machine \<Rightarrow> (ior \<times> 'e machine) option" where
  "vmRun f gf ops once inst address m =
     (let pc = vPC (lf_vm m); depth = vm_running m; outer = trap_jump m;
          m0 = m\<lparr>vm_running := depth + 1, trap_jump := Some (depth + 1)\<rparr>
      in case vmExec f gf ops once inst address m0 of
           None \<Rightarrow> None
         | Some res \<Rightarrow>
             let (ior, m1) =
                   (case res of
                      Returned ior m1 \<Rightarrow> (ior, m1)
                    | RunTrapped ior m1 \<Rightarrow>
                        (ior, if \<not> once \<and> inst \<noteq> 0
                              then m1\<lparr>lf_vm := (lf_vm m1)\<lparr>vX := vPC (lf_vm m1), vY := word_of_int ior,
                                     vPC := push_bit 1 VM_YEET_ADDRESS\<rparr>\<rparr>
                              else m1));
                 m2 = (if \<not> once \<and> inst = 0 then m1\<lparr>lf_vm := (lf_vm m1)\<lparr>vPC := pc\<rparr>\<rparr> else m1)
             in Some (ior, m2\<lparr>trap_jump := outer, vm_running := depth\<rparr>))"

section \<open>A small machine\<close>

text \<open>A machine over \<open>tiny_mem\<close> with API calls locked and T = 7, for concrete runs.\<close>

definition tiny_vm :: vm_state where
  "tiny_vm = \<lparr>vT = 7, vPC = 0, vR = 0, vA = 0, vB = 0, vU = 0, vX = 0, vY = 0, vprefix = 0,
     vshift_size = 0, vsp = 0, vrp = 0, vcy = 0, datastack = replicate 128 0,
     returnstack = replicate 128 0\<rparr>"

definition tiny_ops :: "unit env_ops" where
  "tiny_ops = \<lparr>serial_getc = \<lambda>e. (0, e), serial_ready = \<lambda>e. (0, e), serial_busy = \<lambda>e. (0, e),
     serial_putc = \<lambda>c e. (0, e), lcd_tx = \<lambda>d e. (0, e), lfGetTimeMicroSec = \<lambda>e. (0, e),
     lfWatchdogPing = \<lambda>e. e, VMapi0Call = \<lambda>i m. ApiReturn 0 m, VMapi1Call = \<lambda>i m. ApiReturn 0 m\<rparr>"

definition tiny_machine :: "u32 list \<Rightarrow> unit machine" where
  "tiny_machine cells = \<lparr>lf_vm = tiny_vm, vmem = tiny_mem cells, math = math_reset,
     sys_options = SYS_OPTION_NO_API, vm_running = 0, trap_jump = None, env = ()\<rparr>"

lemma wf_tiny_vm: "wf_vm tiny_vm"
  by (simp add: wf_vm_def tiny_vm_def)

end
