(* ===== verification/VM_Stack.thy ===== *)
theory VM_Stack
  imports VM_Exec
begin

text \<open>
  The stacks of the VM as lists. A stack is a register for the top and a circular array of 128 cells
  below it, so 129 items are always there: a push loses the oldest one, and a pop repeats the new top
  at the far end. The locale \<open>ring_stack\<close> states that contract for one array with its pointer; it is
  interpreted on the C access functions (\<open>vmPush\<close>, \<open>vmPop\<close>, \<open>vmPeek\<close>, \<open>vmPoke\<close> on \<^verbatim>\<open>vm_state_t\<close>) and
  on the data and return stacks in the local variables of \<open>vmExec\<close>.
\<close>

section \<open>The ring below the top\<close>

text \<open>The cell of a 128-cell ring that a stack pointer value names.\<close>

definition slot :: "int \<Rightarrow> nat" where "slot k = nat (k mod 128)"

lemma slot_less [simp]: "slot k < 128"
  by (simp add: slot_def nat_less_iff)

lemma unat_and_127_slot: "unat (x AND 127 :: u32) = slot (uint x)"
proof -
  have "x AND 127 = take_bit 7 x" by (simp add: take_bit_eq_mask mask_eq_exp_minus_1)
  then have "uint (x AND 127) = take_bit 7 (uint x)" by (simp only: unsigned_take_bit_eq)
  then have "uint (x AND 127) = uint x mod 128" by (simp add: take_bit_eq_mod)
  then show ?thesis by (simp add: slot_def unat_eq_nat_uint)
qed

lemma slot_mod: "slot (k mod 2 ^ 32) = slot k" "slot (k mod 128) = slot k" "slot (k mod 4294967296) = slot k"
  by (simp_all add: slot_def mod_mod_cancel)

lemma slot_outer:
  "slot (k mod 4294967296 + d) = slot (k + d)" "slot (k mod 4294967296 - d) = slot (k - d)"
proof -
  have "(k mod 4294967296 + d) mod 128 = ((k mod 4294967296) mod 128 + d) mod 128" for d
    by (rule mod_add_left_eq [symmetric])
  then have r: "(k mod 4294967296 + d) mod 128 = (k + d) mod 128" for d
    by (simp add: mod_mod_cancel mod_add_left_eq)
  show "slot (k mod 4294967296 + d) = slot (k + d)" "slot (k mod 4294967296 - d) = slot (k - d)"
    using r [of d] r [of "- d"] by (simp_all add: slot_def)
qed

lemma slot_uint:
  "slot (uint (a - b)) = slot (uint a - uint b)" "slot (uint (a + b)) = slot (uint a + uint b)"
  for a b :: u32
  by (simp_all add: uint_word_ariths uint_word_of_int slot_mod)

lemma slot_cong: "slot i = slot j \<longleftrightarrow> i mod 128 = j mod 128"
  by (simp add: slot_def eq_nat_nat_iff)
lemma slot_and: "slot (uint (x AND 127 :: u32) + d) = slot (uint x + d)"
proof -
  have "uint (x AND 127) = int (slot (uint x))"
    by (simp flip: unat_and_127_slot)
  then show ?thesis by (simp add: slot_def mod_add_left_eq)
qed

definition ring :: "u32 \<Rightarrow> u32 list \<Rightarrow> u32 list" where
  "ring sp cells = map (\<lambda>i. cells ! slot (uint sp - int i)) [0..<128]"

lemma length_ring [simp]: "length (ring sp cells) = 128"
  by (simp add: ring_def)

lemma ring_nth: "i < 128 \<Longrightarrow> ring sp cells ! i = cells ! slot (uint sp - int i)"
  by (simp add: ring_def)

lemma slot_back_eq: "i < 128 \<Longrightarrow> j < 128 \<Longrightarrow> slot (k - int i) = slot (k - int j) \<Longrightarrow> i = j"
proof -
  assume ij: "i < 128" "j < 128" "slot (k - int i) = slot (k - int j)"
  then have "(k - int i) mod 128 = (k - int j) mod 128" by (simp only: slot_cong)
  with mod_diff_cong [OF refl this, of k] have "int i mod 128 = int j mod 128" by simp
  then show "i = j" using ij(1,2) by simp
qed

lemma ring_push:
  assumes "length cells = 128"
  shows "ring ((sp + 1) AND 127) (cells[unat ((sp + 1) AND 127) := d]) = d # butlast (ring sp cells)"
proof (rule nth_equalityI)
  fix i assume "i < length (ring ((sp + 1) AND 127) (cells[unat ((sp + 1) AND 127) := d]))"
  then have i: "i < 128" by simp
  have ix: "slot (uint ((sp + 1) AND 127) - int i) = slot (uint sp + 1 - int i)"
    using slot_and [of "sp + 1" "- int i"] by (simp add: uint_word_ariths slot_outer)
  have top: "unat ((sp + 1) AND 127) = slot (uint sp + 1 - int 0)"
    by (simp add: unat_and_127_slot slot_uint)
  show "ring ((sp + 1) AND 127) (cells[unat ((sp + 1) AND 127) := d]) ! i = (d # butlast (ring sp cells)) ! i"
  proof (cases i)
    case 0
    then show ?thesis using assms ix by (simp add: ring_nth top)
  next
    case (Suc j)
    then have "slot (uint sp + 1 - int i) \<noteq> slot (uint sp + 1 - int 0)"
      using i slot_back_eq [of i 0 "uint sp + 1"] by auto
    then show ?thesis using Suc i ix
      by (simp add: ring_nth top nth_butlast)
  qed
qed simp

lemma ring_pop: "ring ((sp - 1) AND 127) cells = tl (ring sp cells) @ [hd (ring sp cells)]"
proof (rule nth_equalityI)
  fix i assume "i < length (ring ((sp - 1) AND 127) cells)"
  then have i: "i < 128" by simp
  have ix: "slot (uint ((sp - 1) AND 127) - int i) = slot (uint sp - int (i + 1))"
    using slot_and [of "sp - 1" "- int i"] by (simp add: uint_word_ariths slot_outer algebra_simps)
  have hd: "hd (ring sp cells) = cells ! slot (uint sp)"
    using ring_nth [of 0 sp cells] by (simp add: hd_conv_nth flip: length_greater_0_conv)
  show "ring ((sp - 1) AND 127) cells ! i = (tl (ring sp cells) @ [hd (ring sp cells)]) ! i"
  proof (cases "i = 127")
    case True
    have "slot (uint sp - 128) = slot (uint sp)" by (simp add: slot_cong)
    then show ?thesis using True ix by (simp add: ring_nth nth_append hd)
  next
    case False
    then show ?thesis using i ix by (simp add: ring_nth nth_append nth_tl)
  qed
qed simp
text \<open>A stack: its top register on its ring.\<close>

lemma ring_hd_tl:
  "hd (ring sp cells) = ring sp cells ! 0" "tl (ring sp cells) @ xs = drop 1 (ring sp cells) @ xs"
  by (simp_all add: hd_conv_nth drop_Suc flip: length_greater_0_conv)

section \<open>The contract\<close>

text \<open>Pushing a list, first element first; popping n items, the top one first.\<close>

definition push_all :: "(u32 \<Rightarrow> 's \<Rightarrow> 's) \<Rightarrow> u32 list \<Rightarrow> 's \<Rightarrow> 's" where
  "push_all push ds s = fold push ds s"

primrec pop_n :: "('s \<Rightarrow> u32 \<times> 's) \<Rightarrow> nat \<Rightarrow> 's \<Rightarrow> u32 list \<times> 's" where
  "pop_n pop 0 s = ([], s)"
| "pop_n pop (Suc n) s =
     (let (d, s1) = pop s; (ds, s2) = pop_n pop n s1 in (d # ds, s2))"

locale ring_stack =
  fixes ok :: "'s \<Rightarrow> bool"
    and items :: "'s \<Rightarrow> u32 list"
    and push :: "u32 \<Rightarrow> 's \<Rightarrow> 's"
    and pop :: "'s \<Rightarrow> u32 \<times> 's"
  assumes len: "ok s \<Longrightarrow> length (items s) = 129"
    and ok_push: "ok s \<Longrightarrow> ok (push d s)"
    and ok_pop: "ok s \<Longrightarrow> ok (snd (pop s))"
    and items_push: "ok s \<Longrightarrow> items (push d s) = d # butlast (items s)"
    and pop_top: "ok s \<Longrightarrow> fst (pop s) = hd (items s)"
    and items_pop: "ok s \<Longrightarrow> items (snd (pop s)) = tl (items s) @ [items s ! 1]"
begin

lemma push_pop:
  "ok s \<Longrightarrow> fst (pop (push d s)) = d \<and> take 128 (items (snd (pop (push d s)))) = take 128 (items s)"
  using len [of s] by (simp add: pop_top items_push items_pop ok_push butlast_conv_take)

lemma pop_push:
  assumes "ok s"
  shows "items (push (fst (pop s)) (snd (pop s))) = items s"
proof -
  from len [OF assms] obtain x xs where "items s = x # xs" by (cases "items s") auto
  then show ?thesis using assms by (simp add: items_push items_pop ok_pop pop_top)
qed

lemma push_all_items:
  "ok s \<Longrightarrow> length ds \<le> 129 \<Longrightarrow>
    ok (push_all push ds s) \<and> items (push_all push ds s) = rev ds @ take (129 - length ds) (items s)"
proof (induction ds arbitrary: s)
  case Nil
  then show ?case by (simp add: push_all_def len)
next
  case (Cons d ds)
  then have "ok (push d s)" by (simp add: ok_push)
  with Cons.IH [OF this] Cons.prems show ?case
    by (simp add: push_all_def items_push butlast_conv_take len take_Cons' min_def)
qed

lemma pop_n_items:
  "ok s \<Longrightarrow> n \<le> 129 \<Longrightarrow>
    fst (pop_n pop n s) = take n (items s) \<and> ok (snd (pop_n pop n s)) \<and>
    take (129 - n) (items (snd (pop_n pop n s))) = drop n (items s)"
proof (induction n arbitrary: s)
  case 0
  then show ?case by (simp add: len)
next
  case (Suc n)
  obtain d s1 where p: "pop s = (d, s1)" by fastforce
  with Suc.prems have s1: "ok s1" "d = hd (items s)" "items s1 = tl (items s) @ [items s ! 1]"
    using ok_pop [of s] pop_top [of s] items_pop [of s] by auto
  obtain x xs where xs: "items s = x # xs" using len [OF Suc.prems(1)] by (cases "items s") auto
  then have l: "length xs = 128" using len [OF Suc.prems(1)] by simp
  obtain es s2 where q: "pop_n pop n s1 = (es, s2)" by fastforce
  with Suc.IH [OF s1(1)] Suc.prems have
    "es = take n (items s1)" "ok s2" "take (129 - n) (items s2) = drop n (items s1)"
    by auto
  moreover have "take (128 - n) (take (129 - n) (items s2)) = take (128 - n) (items s2)"
    by (simp add: min_def)
  ultimately show ?case using p q xs l s1 Suc.prems by simp
qed

lemma pushed_back:
  assumes "ok s" "length ds \<le> 128"
  shows "fst (pop_n pop (length ds) (push_all push ds s)) = rev ds"
    and "take (129 - length ds) (items (snd (pop_n pop (length ds) (push_all push ds s)))) =
      take (129 - length ds) (items s)"
  using push_all_items [OF assms(1), of ds] pop_n_items [of "push_all push ds s" "length ds"] assms(2)
  by auto

end

section \<open>The C access functions\<close>

definition data_items :: "vm_state \<Rightarrow> u32 list" where
  "data_items v = vT v # ring (vsp v) (datastack v)"

lemma wf_lengths: "wf_vm v \<Longrightarrow> length (datastack v) = 128 \<and> length (returnstack v) = 128"
  by (simp add: wf_vm_def)

lemma unat_slot: "sp < 128 \<Longrightarrow> unat sp = slot (uint (sp :: u32))"
proof -
  assume "sp < 128"
  then have "unat sp < 128" by (simp add: word_less_nat)
  moreover have "uint sp = int (unat sp)" by simp
  ultimately show ?thesis unfolding slot_def by (metis mod_less nat_int zmod_int of_nat_numeral)
qed

lemma ring_0: "sp < 128 \<Longrightarrow> ring sp cells ! 0 = cells ! unat sp"
  by (simp add: ring_nth unat_slot)

lemma tl_ring: "tl (ring sp cells) @ [hd (ring sp cells)] = drop 1 (ring sp cells) @ [ring sp cells ! 0]"
  by (simp add: hd_conv_nth drop_Suc flip: length_greater_0_conv)

lemma data_pop:
  assumes "wf_vm v"
  shows "data_items (VM_DDROP v) = tl (data_items v) @ [data_items v ! 1]"
  using assms
  by (simp add: data_items_def VM_DDROP_def ring_pop tl_ring wf_vm_def)
     (simp add: Cons_nth_drop_Suc flip: ring_0)

lemma data_push: "wf_vm v \<Longrightarrow> data_items ((VM_DDUP v)\<lparr>vT := d\<rparr>) = d # butlast (data_items v)"
proof -
  assume "wf_vm v"
  moreover have "ring sp cells \<noteq> []" for sp cells
    by (metis length_ring list.size(3) zero_neq_numeral)
  ultimately show ?thesis
    by (simp add: data_items_def VM_DDUP_def Let_def wf_vm_def ring_push)
qed

interpretation cpu_stack: ring_stack wf_vm data_items "\<lambda>d v. snd (vmPush d v)" vmPop
proof unfold_locales
  show "wf_vm s \<Longrightarrow> wf_vm (snd (vmPush d s))" for s d
    by (simp add: vmPush_def wf_vmPoke)
  show "wf_vm s \<Longrightarrow> wf_vm (snd (vmPop s))" for s
    by (simp add: vmPop_def wf_vmPeek)
qed (simp_all add: vmPush_def vmPoke_def vmPop_def vmPeek_def data_pop data_push,
     simp_all add: data_items_def)

text \<open>Reading and writing below the top.\<close>

lemma stack_index_slot: "0 < k \<Longrightarrow> k < 127 \<Longrightarrow> stack_index v (int k) = slot (uint (vsp v) - int (k - 1))"
proof -
  assume k: "0 < k" "k < 127"
  have "stack_index v (int k) = slot (uint (vsp v + 1 - word_of_int (int k)))"
    by (simp add: stack_index_def unat_and_127_slot)
  also have "\<dots> = slot (uint (vsp v) + 1 - int k)"
  proof -
    have "uint (word_of_nat k :: u32) = int k"
      using k by (simp add: unsigned_of_nat take_bit_nat_eq_self)
    then show ?thesis by (simp add: uint_word_ariths slot_outer slot_mod)
  qed
  also have "uint (vsp v) + 1 - int k = uint (vsp v) - int (k - 1)"
    using k by simp
  finally show ?thesis .
qed

text \<open>The return stack and the data stack in the locals of \<open>vmExec\<close>.\<close>

definition exec_ok :: "'e exec \<Rightarrow> bool" where
  "exec_ok x = wf_vm (lf_vm (VM_SAVE x))"

definition exec_data :: "'e exec \<Rightarrow> u32 list" where
  "exec_data x = xt x # ring (xdsp x) (datastack (lf_vm (xm x)))"

definition exec_return :: "'e exec \<Rightarrow> u32 list" where
  "exec_return x = xr x # ring (xrsp x) (returnstack (lf_vm (xm x)))"

lemma exec_ok_iff: "exec_ok x \<longleftrightarrow>
    length (datastack (lf_vm (xm x))) = 128 \<and> length (returnstack (lf_vm (xm x))) = 128 \<and>
    xdsp x < 128 \<and> xrsp x < 128 \<and> xc x < 2 \<and> vshift_size (lf_vm (xm x)) < 32"
  by (simp add: exec_ok_def wf_vm_def VM_SAVE_def)

lemma ring_ne: "ring sp cells \<noteq> []"
  by (metis length_ring list.size(3) zero_neq_numeral)

lemma ring_tl_hd: "sp < 128 \<Longrightarrow>
    cells ! unat sp # tl (ring sp cells) @ [hd (ring sp cells)] = ring sp cells @ [ring sp cells ! 0]"
  by (simp add: tl_ring Cons_nth_drop_Suc flip: ring_0)

interpretation locals_data: ring_stack exec_ok exec_data PUSHT "\<lambda>x. (xt x, DDROP x)"
  by unfold_locales
    (auto simp: exec_ok_iff exec_data_def PUSHT_def DDUP_def DDROP_def set_ds_def upd_vm_def Let_def
       nos_def ring_push ring_pop ring_ne ring_tl_hd)

interpretation locals_return: ring_stack exec_ok exec_return "\<lambda>d x. (RDUP x)\<lparr>xr := d\<rparr>" "\<lambda>x. (xr x, RDROP x)"
  by unfold_locales
    (auto simp: exec_ok_iff exec_return_def RDUP_def RDROP_def set_rs_def upd_vm_def Let_def
       ring_push ring_pop ring_ne ring_tl_hd)

section \<open>Properties\<close>

text \<open>C7: the C functions that give arguments to VM code and take its results treat the data stack
  as a last-in-first-out list: up to 128 pushed values come back in reverse order and the items below
  them, less those the full ring lost, are as they were.\<close>

theorem cpu_stack_lifo:
  assumes "wf_vm v" "length ds \<le> 128"
  shows "fst (pop_n vmPop (length ds) (push_all (\<lambda>d v. snd (vmPush d v)) ds v)) = rev ds \<and>
    take (129 - length ds)
      (data_items (snd (pop_n vmPop (length ds) (push_all (\<lambda>d v. snd (vmPush d v)) ds v)))) =
    take (129 - length ds) (data_items v)"
  using cpu_stack.pushed_back [OF assms] by simp

lemma cpu_stack_lifo_witness:
  "fst (pop_n vmPop 3 (push_all (\<lambda>d v. snd (vmPush d v)) [1, 2, 3] tiny_vm)) = [3, 2, 1]"
  using cpu_stack_lifo [OF wf_tiny_vm, of "[1, 2, 3]"] by (simp add: numeral_3_eq_3)

lemma peek_item: "wf_vm v \<Longrightarrow> k < 127 \<Longrightarrow> vmPeek (int k) v = (data_items v ! k, v)"
proof (cases k)
  case (Suc j)
  assume "wf_vm v" "k < 127"
  then show ?thesis
    using Suc stack_index_slot [of k v] ring_nth [of j "vsp v" "datastack v"]
    by (simp add: vmPeek_def data_items_def const_defs)
qed (simp add: vmPeek_def data_items_def)

lemma ring_update:
  assumes "length cells = 128" "j < 128"
  shows "ring sp (cells[slot (uint sp - int j) := d]) = (ring sp cells)[j := d]"
proof (rule nth_equalityI)
  fix i assume "i < length (ring sp (cells[slot (uint sp - int j) := d]))"
  then have i: "i < 128" by simp
  show "ring sp (cells[slot (uint sp - int j) := d]) ! i = (ring sp cells)[j := d] ! i"
  proof (cases "i = j")
    case False
    then have "slot (uint sp - int i) \<noteq> slot (uint sp - int j)"
      using i assms(2) slot_back_eq by blast
    then show ?thesis using i False by (simp add: ring_nth)
  qed (use assms in \<open>simp add: ring_nth\<close>)
qed simp

text \<open>peeking at and poking register number k, for k below 127, reads and replaces exactly item
  k of the data stack, the top being item 0.\<close>

theorem peek_poke_items:
  assumes "wf_vm v" "k < 127"
  shows "vmPeek (int k) v = (data_items v ! k, v) \<and>
    data_items (snd (vmPoke (int k) d v)) = (data_items v)[k := d]"
proof (cases k)
  case (Suc j)
  then show ?thesis
    using assms peek_item [OF assms] stack_index_slot [of k v] ring_update [of "datastack v" j "vsp v" d]
    by (simp add: vmPoke_def data_items_def const_defs wf_vm_def)
qed (use assms peek_item [OF assms] in \<open>simp add: vmPoke_def data_items_def\<close>)

lemma peek_poke_items_witness:
  "vmPeek 2 (snd (vmPush 7 tiny_vm)) = (data_items (snd (vmPush 7 tiny_vm)) ! 2, snd (vmPush 7 tiny_vm))"
  using peek_poke_items [of "snd (vmPush 7 tiny_vm)" 2] wf_tiny_vm by (simp add: vmPush_def wf_vmPoke)

text \<open>moving T to the return stack and back (\<open>>r r>\<close>) restores the whole data stack, and the
  return stack except for the oldest of its 129 items.\<close>

theorem to_r_and_back:
  assumes "exec_ok x"
  shows "exec_data (snd (exec_uop VMU_POP (snd (exec_uop VMU_PUSH x)))) = exec_data x \<and>
    take 128 (exec_return (snd (exec_uop VMU_POP (snd (exec_uop VMU_PUSH x))))) =
      take 128 (exec_return x)"
proof -
  define y where "y = snd (exec_uop VMU_POP (snd (exec_uop VMU_PUSH x)))"
  define d where "d = DDROP x"
  define r where "r = (RDUP d)\<lparr>xr := xt x\<rparr>"
  have d: "exec_ok d" "exec_return d = exec_return x"
    using assms by (simp_all add: d_def exec_ok_iff exec_return_def DDROP_def)
  have r: "exec_ok r" "exec_data r = exec_data d"
    using d(1) by (simp_all add: r_def exec_ok_iff exec_data_def RDUP_def set_rs_def upd_vm_def Let_def)
  have p: "exec_ok (PUSHT (xt x) r)" "exec_data (PUSHT (xt x) r) = exec_data (PUSHT (xt x) d)"
      "exec_return (PUSHT (xt x) r) = exec_return r"
    using d(1) r(1) r(2)
    by (simp_all add: locals_data.ok_push locals_data.items_push)
       (simp add: exec_return_def PUSHT_def DDUP_def set_ds_def upd_vm_def Let_def)
  have y: "y = RDROP (PUSHT (xt x) r)"
    by (simp add: y_def r_def d_def Let_def)
  have "exec_data y = exec_data (PUSHT (xt x) r)"
    by (simp add: y exec_data_def RDROP_def)
  moreover have "take 128 (exec_return y) = take 128 (exec_return x)"
    using locals_return.push_pop [OF d(1), of "xt x"] locals_return.items_pop [OF p(1)]
      locals_return.items_pop [OF r(1)] d(2) p(3)
    by (simp add: y r_def)
  ultimately show ?thesis
    using locals_data.pop_push [OF assms(1)] p(2) by (simp add: d_def y_def)
qed

lemma to_r_and_back_witness:
  "exec_data (snd (exec_uop VMU_POP (snd (exec_uop VMU_PUSH (exec_start (tiny_machine [1, 2, 3, 4])))))) =
    exec_data (exec_start (tiny_machine [1, 2, 3, 4]))"
proof -
  have "exec_ok (exec_start (tiny_machine [1, 2, 3, 4]))"
    by (simp add: exec_ok_iff exec_start_def VM_LOAD_def Let_def tiny_machine_def tiny_vm_def)
  from to_r_and_back [OF this] show ?thesis by blast
qed

end
