(* ===== verification/VM_Props.thy ===== *)
theory VM_Props
  imports VM_Stack
begin

text \<open>
  What single instructions and runs do: micro-op groups that end and one that does not, the multiply
  step loop, arithmetic, and how \<open>vmRun\<close> hands the app's PC and errors back.
\<close>

section \<open>Micro-op groups\<close>

text \<open>The micro-op of the next slot.\<close>

definition next_uop :: "u32 \<Rightarrow> uop" where
  "next_uop slots = decode_uop (drop_bit 27 slots)"

lemma group_step:
  "next_uop slots \<noteq> VMU_UNEXT \<Longrightarrow>
    group_loop (Suc f) inst slots x =
      (let (ior, x1) = exec_uop (next_uop slots) x; rest = push_bit 5 slots in
       if ior = 0 \<and> rest \<noteq> 0 then group_loop f inst rest x1 else Some (ior, x1))"
  by (auto simp: next_uop_def Let_def split: prod.splits)

lemma start_slots_bits:
  "start_slots inst = (push_bit 18 inst AND NOT (mask 22)) OR push_bit 17 (inst AND mask 4)"
proof -
  have m: "0xFFC00000 = NOT (mask 22 :: u32)" "0xF = (mask 4 :: u32)"
    by (simp_all add: mask_eq_exp_minus_1)
  have "LAST_SLOT_MASK = mask 4" by (simp add: mask_eq_exp_minus_1)
  then show ?thesis unfolding start_slots_def m(1) by (simp only:)
qed

lemma push_bit_15_start: "push_bit 15 (start_slots inst) = 0"
  unfolding start_slots_bits
  by (rule bit_word_eqI) (auto simp: bit_simps simp del: push_bit_numeral)

text \<open>The slots depend on the low 16 bits of what was fetched.\<close>

lemma start_slots_low: "start_slots (inst AND 0xFFFF) = start_slots inst"
proof -
  have m: "0xFFFF = (mask 16 :: u32)" by (simp add: mask_eq_exp_minus_1)
  show ?thesis unfolding start_slots_bits m
    by (rule bit_word_eqI) (auto simp: bit_simps)
qed

lemma group_without_unext:
  assumes "next_uop (start_slots inst) \<noteq> VMU_UNEXT" "next_uop (push_bit 5 (start_slots inst)) \<noteq> VMU_UNEXT"
    "next_uop (push_bit 10 (start_slots inst)) \<noteq> VMU_UNEXT"
  shows "\<exists>r. group_loop (Suc (Suc (Suc f))) inst (start_slots inst) x = Some r"
proof -
  have p: "push_bit 5 (push_bit 5 s) = push_bit 10 s" "push_bit 5 (push_bit 10 s) = push_bit 15 s" for s :: u32
    by (simp_all only: push_bit_push_bit) simp_all
  show ?thesis
    using assms
    by (simp add: group_step p push_bit_15_start Let_def split: prod.splits del: group_loop.simps)
qed

section \<open>A group that repeats for ever\<close>

lemma spin_slots:
  assumes "inst AND 0xFFFF = 0x9478"
  shows "next_uop (start_slots inst) = VMU_DUP" "next_uop (push_bit 5 (start_slots inst)) = VMU_PUSH"
    "next_uop (push_bit 10 (start_slots inst)) = VMU_UNEXT"
    "push_bit 5 (start_slots inst) \<noteq> 0" "push_bit 10 (start_slots inst) \<noteq> 0"
proof -
  have s: "start_slots inst = 0x51D00000 OR 0"
    using start_slots_low [of inst] unfolding assms by (simp add: start_slots_def)
  show "next_uop (start_slots inst) = VMU_DUP" "next_uop (push_bit 5 (start_slots inst)) = VMU_PUSH"
    "next_uop (push_bit 10 (start_slots inst)) = VMU_UNEXT"
    "push_bit 5 (start_slots inst) \<noteq> 0" "push_bit 10 (start_slots inst) \<noteq> 0"
    unfolding s by (simp_all add: next_uop_def decode_uop_def uop_codes_def)
qed

lemma group_step_unext:
  "next_uop slots = VMU_UNEXT \<Longrightarrow> xr x - 1 \<noteq> 0 \<Longrightarrow>
    group_loop (Suc f) inst slots x = group_loop f inst (start_slots inst) (x\<lparr>xr := xr x - 1\<rparr>)"
  by (simp add: next_uop_def)

lemma spin:
  assumes "inst AND 0xFFFF = 0x9478"
  shows "xt x \<noteq> 1 \<Longrightarrow> exec_ok x \<Longrightarrow> group_loop f inst (start_slots inst) x = None"
proof (induction f arbitrary: x rule: less_induct)
  case (less f)
  have p: "push_bit 5 (push_bit 5 s) = push_bit 10 s" for s :: u32
    by (simp only: push_bit_push_bit) simp
  define y where "y = (RDUP (DDROP (DDUP x)))\<lparr>xr := xt x\<rparr>"
  have t: "xt y = xt x"
    using less.prems by (simp add: y_def RDUP_def set_rs_def upd_vm_def Let_def DDROP_def DDUP_def set_ds_def nos_def exec_ok_iff)
  have r: "xr y - 1 \<noteq> 0" using less.prems by (simp add: y_def)
  have ok: "exec_ok (y\<lparr>xr := xr y - 1\<rparr>)"
    using less.prems by (simp add: exec_ok_iff y_def RDUP_def set_rs_def upd_vm_def Let_def DDROP_def DDUP_def set_ds_def)
  have x: "xt (DDUP x) = xt x" by (simp add: DDUP_def set_ds_def upd_vm_def Let_def)
  show ?case
  proof (cases "f < 3")
    case True
    then consider "f = 0" | "f = 1" | "f = 2" by linarith
    then show ?thesis
      by cases (simp_all add: group_step spin_slots [OF assms] p numeral_2_eq_2 Let_def del: group_loop.simps(2))
  next
    case False
    then obtain g where f: "f = Suc (Suc (Suc g))" by (metis not_less_eq numeral_3_eq_3 less_imp_Suc_add add_Suc_right not_less_eq not_less add_Suc le_iff_add)
    have "group_loop f inst (start_slots inst) x = group_loop (Suc g) inst (push_bit 10 (start_slots inst)) y"
      by (simp add: f group_step spin_slots [OF assms] p Let_def y_def x del: group_loop.simps)
    also have "\<dots> = group_loop g inst (start_slots inst) (y\<lparr>xr := xr y - 1\<rparr>)"
      using r by (simp add: group_step_unext spin_slots [OF assms] del: group_loop.simps)
    also have "\<dots> = None"
      using less.IH [of g "y\<lparr>xr := xr y - 1\<rparr>"] f t ok less.prems by simp
    finally show ?thesis .
  qed
qed

lemma fetch_inst_regs:
  "fetch_inst x = FetchInst inst y \<Longrightarrow> xt y = xt x \<and> exec_ok y = exec_ok x"
  by (auto simp: fetch_inst_def read_inst_def Let_def exec_ok_iff split: if_splits)

text \<open>C8: an instruction word with the micro-ops \<open>dup >r unext\<close> and T other than 1 repeats its group
  for ever: no fuel makes the run return, and no step limit of a stepped app ends it.\<close>

theorem unext_ignores_step_limit:
  assumes "exec_ok x" "fetch_inst x = FetchInst inst y" "inst AND 0xFFFF = 0x9478" "xt x \<noteq> 1"
  shows "vm_loop f gf ops steps x = None"
proof (cases f)
  case (Suc g)
  have y: "xt y \<noteq> 1" "exec_ok y" using fetch_inst_regs [OF assms(2)] assms by auto
  have "bit (inst AND 0xFFFF) 15 = bit inst 15" "\<not> bit (inst AND 0xFFFF) 14 \<or> bit inst 14"
    "bit (inst AND 0xFFFF) 14 = bit inst 14"
    by (simp_all add: bit_simps)
  then have "bit inst 15" "\<not> bit inst 14" unfolding assms(3) by simp_all
  then have "inst AND 0x8000 \<noteq> 0" "inst AND 0x4000 = 0"
    using and_exp_eq_0_iff_not_bit [of inst 15] and_exp_eq_0_iff_not_bit [of inst 14] by simp_all
  then have "exec_insn gf ops inst y = None"
    using spin [OF assms(3) y] by (simp add: exec_insn_def)
  then show ?thesis using Suc assms(2) by simp
qed simp

lemma unext_ignores_step_limit_witness:
  "vm_loop 9 9 tiny_ops 1 (exec_start (tiny_machine [0x9478, 0, 0, 0])) = None"
proof -
  have ok: "exec_ok (exec_start (tiny_machine [0x9478, 0, 0, 0]))"
    by (simp add: exec_ok_iff exec_start_def VM_LOAD_def Let_def tiny_machine_def tiny_vm_def)
  have "fetch_inst (exec_start (tiny_machine [0x9478, 0, 0, 0])) = FetchInst 0x9478
      ((exec_start (tiny_machine [0x9478, 0, 0, 0]))\<lparr>xpc := 1, xcode := 0, xcbase := 0, xcspan := 8\<rparr>)"
    by (simp add: fetch_inst_def read_inst_def exec_start_def VM_LOAD_def Let_def tiny_machine_def
        tiny_vm_def tiny_mem_def get_cell_def TERMINATOR_def)
  from unext_ignores_step_limit [OF ok this] show ?thesis
    by (simp add: exec_start_def VM_LOAD_def Let_def tiny_machine_def tiny_vm_def)
qed

text \<open>C9: a group whose three slots hold no \<open>unext\<close> always ends, after at most three micro-ops.\<close>

theorem group_terminates:
  assumes "VMU_UNEXT \<notin> next_uop ` {start_slots inst, push_bit 5 (start_slots inst), push_bit 10 (start_slots inst)}"
    and "3 \<le> gf"
  shows "\<exists>r. group_loop gf inst (start_slots inst) x = Some r"
proof -
  obtain f where "gf = Suc (Suc (Suc f))"
    using assms(2) by (metis add.commute add_Suc_right le_iff_add numeral_3_eq_3 plus_nat.add_0)
  then show ?thesis using group_without_unext [of inst f x] assms(1) by auto
qed

lemma group_terminates_witness: "\<exists>r. group_loop 3 0x9470 (start_slots 0x9470) (exec_start (tiny_machine [1, 2, 3, 4])) = Some r"
  by (rule group_terminates)
    (simp_all add: start_slots_def next_uop_def decode_uop_def uop_codes_def)

section \<open>The multiply loop\<close>

text \<open>T:A as one 64-bit number.\<close>

definition pair64 :: "'e exec \<Rightarrow> nat" where
  "pair64 x = unat (xt x) * 2 ^ 32 + unat (xa x)"

lemma unat_and_one: "(x :: u32) AND 1 \<noteq> 0 \<longleftrightarrow> unat x mod 2 = 1"
proof -
  have "x AND 1 \<noteq> 0 \<longleftrightarrow> bit x 0"
    by (auto simp: and_one_eq bit_0 odd_iff_mod_2_eq_one even_iff_mod_2_eq_zero)
  also have "\<dots> \<longleftrightarrow> odd (unat x)" using bit_unat_odd [of x 0] by simp
  finally show ?thesis by (simp add: odd_iff_mod_2_eq_one)
qed

lemma unat_top_bit: "unat (push_bit 31 (ucast (s :: u64)) OR drop_bit 1 (a :: u32)) =
    (unat s mod 2) * 2 ^ 31 + unat a div 2"
proof -
  have "push_bit 31 (ucast s) OR drop_bit 1 a = push_bit 31 (ucast s) + drop_bit 1 a"
    by (rule disjunctive_add [symmetric]) (auto simp: bit_simps)
  moreover have "unat (push_bit 31 (ucast s :: u32)) = (unat s mod 2) * 2 ^ 31"
  proof -
    have "unat (push_bit 31 (ucast s :: u32)) = (unat s * 2 ^ 31) mod (2 * 2 ^ 31)"
      by (simp add: unat_word_ariths push_bit_eq_mult unsigned_ucast_eq take_bit_eq_mod mod_mult_left_eq)
    then show ?thesis by (simp only: mod_mult_mult2)
  qed
  moreover have "unat (drop_bit 1 a) = unat a div 2" using unat_div_exp [of 1 a] by simp
  moreover have "unat a div 2 < 2 ^ 31" using unat_bounds(3) [of a] by simp
  moreover have "(unat s mod 2) * 2 ^ 31 \<le> 2 ^ 31" by simp
  ultimately show ?thesis by (simp add: unat_word_ariths)
qed

lemma shift_pair: "(s div 2) * 2 ^ 32 + ((s mod 2) * 2 ^ 31 + a div 2) = (s * 2 ^ 32 + a) div (2 :: nat)"
proof -
  have "(s div 2) * 2 ^ 32 + (s mod 2) * 2 ^ 31 = ((s div 2) * 2 + s mod 2) * 2 ^ 31"
    by (simp only: distrib_right) simp
  moreover have "s * 2 ^ 32 + a = a + 2 * (s * 2 ^ 31)" by simp
  then have "(s * 2 ^ 32 + a) div 2 = s * 2 ^ 31 + a div 2" by (simp only: div_mult_self2)
  moreover have "(s div 2) * 2 + s mod 2 = s" by simp
  ultimately show ?thesis by (simp only: add.assoc [symmetric])
qed

lemma plusstar_step:
  "pair64 (snd (exec_uop VMU_PLUSSTAR x)) =
    (pair64 x + (unat (xa x) mod 2) * unat (nos x) * 2 ^ 32) div 2"
proof -
  define n where "n = (if xa x AND 1 \<noteq> 0 then nos x else 0)"
  define sum where "sum = (ucast (xt x) :: u64) + ucast n"
  have n: "unat n = (unat (xa x) mod 2) * unat (nos x)"
  proof (cases "xa x AND 1 = 0")
    case True
    then have "unat (xa x) mod 2 = 0" using unat_and_one [of "xa x"] by (simp add: not_mod_2_eq_1_eq_0)
    with True show ?thesis by (simp add: n_def)
  next
    case False
    then have "unat (xa x) mod 2 = 1" using unat_and_one [of "xa x"] by blast
    with False show ?thesis unfolding n_def by (simp only: if_True not_False_eq_True if_False mult_1)
  qed
  have us: "unat sum = unat (xt x) + unat n"
    unfolding sum_def using unat_bounds(3) [of "xt x"] unat_bounds(3) [of n]
    by (simp add: unat_word_ariths unat_ucast_wide)
  have e: "snd (exec_uop VMU_PLUSSTAR x) =
      x\<lparr>xt := ucast (drop_bit 1 sum), xa := push_bit 31 (ucast sum) OR drop_bit 1 (xa x)\<rparr>"
    by (auto simp: sum_def n_def Let_def)
  have t: "unat (ucast (drop_bit 1 sum) :: u32) = unat sum div 2"
    using unat_div_exp [of 1 sum] us unat_bounds(3) [of "xt x"] unat_bounds(3) [of n]
    by (simp add: unsigned_ucast_eq take_bit_nat_eq_self)
  have "pair64 (snd (exec_uop VMU_PLUSSTAR x)) =
      (unat sum div 2) * 2 ^ 32 + ((unat sum mod 2) * 2 ^ 31 + unat (xa x) div 2)"
  proof -
    have "xt (snd (exec_uop VMU_PLUSSTAR x)) = ucast (drop_bit 1 sum)"
      "xa (snd (exec_uop VMU_PLUSSTAR x)) = push_bit 31 (ucast sum) OR drop_bit 1 (xa x)"
      unfolding e by simp_all
    then show ?thesis by (simp only: pair64_def t unat_top_bit)
  qed
  also have "\<dots> = (unat sum * 2 ^ 32 + unat (xa x)) div 2" by (rule shift_pair)
  also have "\<dots> = (pair64 x + unat n * 2 ^ 32) div 2"
    by (simp add: us pair64_def algebra_simps)
  finally show ?thesis by (simp only: n)
qed

lemma plusstar_keeps:
  "nos (snd (exec_uop VMU_PLUSSTAR x)) = nos x" "xr (snd (exec_uop VMU_PLUSSTAR x)) = xr x"
  by (simp_all add: nos_def Let_def)

text \<open>After k steps: the product of N and the low k bits of the multiplier, above its other bits.\<close>

definition mul_inv :: "nat \<Rightarrow> nat \<Rightarrow> nat \<Rightarrow> nat" where
  "mul_inv n a k = n * (a mod 2 ^ k) * 2 ^ (32 - k) + a div 2 ^ k"

lemma mul_inv_step:
  assumes "k < 32"
  shows "(mul_inv n a k + (mul_inv n a k mod 2) * n * 2 ^ 32) div 2 = mul_inv n a (Suc k)"
proof -
  obtain j where j: "32 - k = Suc j" "32 - Suc k = j" "k + Suc j = 32"
    using assms by (metis Suc_diff_Suc add_diff_inverse_nat less_imp_not_less)
  define b where "b = (a div 2 ^ k) mod 2"
  have V: "mul_inv n a k = 2 * (n * (a mod 2 ^ k) * 2 ^ j) + a div 2 ^ k"
    by (simp add: mul_inv_def j)
  have odd: "mul_inv n a k mod 2 = b" by (simp add: V b_def)
  have low: "a mod 2 ^ Suc k = 2 ^ k * b + a mod 2 ^ k"
    unfolding b_def by (simp only: power_Suc2 mod_mult2_eq)
  have big: "b * n * 2 ^ 32 = 2 * (n * (2 ^ k * b) * 2 ^ j)"
  proof -
    have "(2 :: nat) ^ 32 = 2 ^ k * (2 ^ j * 2)" by (metis j(3) power_add power_Suc2)
    then show ?thesis by (simp only: mult_ac)
  qed
  have "mul_inv n a k + b * n * 2 ^ 32 = a div 2 ^ k + 2 * (n * (a mod 2 ^ Suc k) * 2 ^ j)"
    unfolding V big low by (simp only: algebra_simps)
  then have "(mul_inv n a k + b * n * 2 ^ 32) div 2 = n * (a mod 2 ^ Suc k) * 2 ^ j + (a div 2 ^ k) div 2"
    by (simp only: div_mult_self2 add.commute)
  then show ?thesis
    unfolding odd by (simp only: mul_inv_def j(2) power_Suc2 div_mult2_eq)
qed

text \<open>The group \<open>+* unext\<close>.\<close>

lemma mul_slots:
  "next_uop (start_slots 0xB280) = VMU_PLUSSTAR" "push_bit 5 (start_slots 0xB280) \<noteq> 0"
  "next_uop (push_bit 5 (start_slots 0xB280)) = VMU_UNEXT" "push_bit 5 (push_bit 5 (start_slots 0xB280)) = 0"
  by (simp_all add: start_slots_def next_uop_def decode_uop_def uop_codes_def)

lemma mul_round:
  "group_loop (Suc (Suc f)) 0xB280 (start_slots 0xB280) x =
    (let y = snd (exec_uop VMU_PLUSSTAR x); z = y\<lparr>xr := xr x - 1\<rparr> in
     if xr x - 1 \<noteq> 0 then group_loop f 0xB280 (start_slots 0xB280) z else Some (0, RDROP z))"
proof -
  obtain y where y: "exec_uop VMU_PLUSSTAR x = (0, y)" by (simp add: Let_def)
  then have r: "xr y = xr x" using plusstar_keeps(2) [of x] by simp
  have "group_loop (Suc (Suc f)) 0xB280 (start_slots 0xB280) x =
      group_loop (Suc f) 0xB280 (push_bit 5 (start_slots 0xB280)) y"
    by (simp add: group_step mul_slots y Let_def del: group_loop.simps exec_uop.simps)
  also have "\<dots> = (if xr y - 1 \<noteq> 0 then group_loop f 0xB280 (start_slots 0xB280) (y\<lparr>xr := xr y - 1\<rparr>)
      else Some (0, RDROP (y\<lparr>xr := xr y - 1\<rparr>)))"
    using mul_slots(3,4) by (simp add: next_uop_def Let_def)
  finally show ?thesis by (simp only: y r snd_conv Let_def)
qed

text \<open>Two locals that agree but for T, A and R.\<close>

definition tar :: "'e exec \<Rightarrow> 'e exec" where
  "tar x = x\<lparr>xt := 0, xa := 0, xr := 0\<rparr>"

lemma mul_loop:
  "k < 32 \<Longrightarrow> pair64 x = mul_inv n a k \<Longrightarrow> unat (nos x) = n \<Longrightarrow> unat (xr x) = 32 - k \<Longrightarrow>
    a < 2 ^ 32 \<Longrightarrow>
    \<exists>z. group_loop (2 * (32 - k)) 0xB280 (start_slots 0xB280) x = Some (0, RDROP z) \<and>
      pair64 z = n * a \<and> tar z = tar x"
proof (induction "32 - k" arbitrary: k x)
  case 0
  then show ?case by simp
next
  case (Suc i)
  define z where "z = (snd (exec_uop VMU_PLUSSTAR x))\<lparr>xr := xr x - 1\<rparr>"
  have "pair64 x = unat (xa x) + 2 * (unat (xt x) * 2 ^ 31)" by (simp add: pair64_def)
  then have "pair64 x mod 2 = unat (xa x) mod 2" by (simp only: mod_mult_self2)
  then have "unat (xa x) mod 2 = mul_inv n a k mod 2" by (simp add: Suc.prems(2))
  then have pz: "pair64 z = mul_inv n a (Suc k)"
    using plusstar_step [of x] mul_inv_step [OF Suc.prems(1), of n a] Suc.prems(2,3)
    by (simp add: z_def pair64_def)
  have tz: "tar z = tar x" and nz: "nos z = nos x"
    by (simp_all add: z_def tar_def Let_def nos_def)
  have f: "2 * (32 - k) = Suc (Suc (2 * (32 - Suc k)))" using Suc.prems(1) by linarith
  have round: "group_loop (2 * (32 - k)) 0xB280 (start_slots 0xB280) x =
      (if xr x - 1 \<noteq> 0 then group_loop (2 * (32 - Suc k)) 0xB280 (start_slots 0xB280) z
       else Some (0, RDROP z))"
    unfolding f mul_round z_def Let_def ..
  have ur: "unat (xr x - 1) = 32 - Suc k"
    using Suc.prems(1,4) by (subst unat_minus_one) auto
  show ?case
  proof (cases "Suc k < 32")
    case True
    then have "xr x - 1 \<noteq> 0" using ur by auto
    moreover have "unat (xr z) = 32 - Suc k" by (simp add: z_def ur)
    ultimately show ?thesis
      using Suc.hyps(1) [of "Suc k" z] Suc.hyps(2) True pz tz nz Suc.prems round by simp
  next
    case False
    with Suc.prems(1) have k: "Suc k = 32" by simp
    then have "xr x - 1 = 0" using ur by (simp add: unat_eq_zero)
    moreover have "pair64 z = n * a" using pz Suc.prems(5) by (simp add: mul_inv_def k)
    ultimately show ?thesis using round tz by auto
  qed
qed

text \<open>C10: with T = 0 and R = 32 the group \<open>+* unext\<close> leaves in T:A the full 64-bit product of the
  second stack item and A, drops R, and changes nothing else.\<close>

theorem multiply_loop:
  assumes "xt x = 0" "xr x = 32"
  shows "\<exists>z. group_loop 64 0xB280 (start_slots 0xB280) x = Some (0, RDROP z) \<and>
    unat (xt z) * 2 ^ 32 + unat (xa z) = unat (nos x) * unat (xa x) \<and>
    z = x\<lparr>xt := xt z, xa := xa z, xr := xr z\<rparr>"
proof -
  have p: "pair64 x = mul_inv (unat (nos x)) (unat (xa x)) 0"
    by (simp add: pair64_def mul_inv_def assms)
  have "unat (xr x) = 32 - 0" by (simp add: assms)
  note mul_loop [OF _ p refl this unat_bounds(3)]
  then obtain z where z: "group_loop (2 * (32 - 0)) 0xB280 (start_slots 0xB280) x = Some (0, RDROP z)"
      "pair64 z = unat (nos x) * unat (xa x)" "tar z = tar x"
    by auto
  have "z = (tar z)\<lparr>xt := xt z, xa := xa z, xr := xr z\<rparr>" by (simp add: tar_def)
  also have "\<dots> = x\<lparr>xt := xt z, xa := xa z, xr := xr z\<rparr>" unfolding z(3) by (simp add: tar_def)
  finally show ?thesis using z(1,2) by (auto simp: pair64_def)
qed

lemma multiply_loop_witness:
  "\<exists>z. group_loop 64 0xB280 (start_slots 0xB280)
      ((exec_start (tiny_machine [1, 2, 3, 4]))\<lparr>xt := 0, xr := 32, xa := 6\<rparr>) = Some (0, RDROP z)"
  using multiply_loop [of "(exec_start (tiny_machine [1, 2, 3, 4]))\<lparr>xt := 0, xr := 32, xa := 6\<rparr>"]
  by auto

section \<open>Arithmetic\<close>

lemma plus_carry:
  "unat (xc (snd (exec_uop VMU_PLUS x))) * 2 ^ 32 + unat (xt (snd (exec_uop VMU_PLUS x))) =
    unat (xt x) + unat (nos x)"
proof -
  have s: "unat (xt x + nos x) = (unat (xt x) + unat (nos x)) mod 2 ^ 32"
    by (simp add: unat_word_ariths)
  have xs: "xt (snd (exec_uop VMU_PLUS x)) = xt x + nos x"
    "xc (snd (exec_uop VMU_PLUS x)) = (if xt x + nos x < xt x then 1 else 0)"
    by (simp_all add: Let_def NIP_def)
  show ?thesis
  proof (cases "unat (xt x) + unat (nos x) < 2 ^ 32")
    case True
    then show ?thesis unfolding xs by (simp add: s word_less_nat)
  next
    case False
    then have "unat (xt x + nos x) = unat (xt x) + unat (nos x) - 2 ^ 32"
      using s unat_bounds(3) [of "xt x"] unat_bounds(3) [of "nos x"]
      by (simp add: le_mod_geq)
    then show ?thesis unfolding xs using False unat_bounds(3) [of "nos x"]
      by (simp add: word_less_nat)
  qed
qed

lemma twodiv_signed: "drop_bit 1 t OR (t AND 0x80000000) = signed_drop_bit 1 (t :: u32)"
proof -
  have m: "(0x80000000 :: u32) = push_bit 31 1" by (simp add: push_bit_eq_mult)
  show ?thesis unfolding m
    by (rule bit_word_eqI) (auto simp: bit_simps bit_signed_drop_bit_iff less_Suc_eq not_le
        simp del: push_bit_of_1 dest: bit_imp_le_length le_less_Suc_eq)
qed

lemma unat_rotate: "c < 2 \<Longrightarrow> unat (push_bit 31 c OR drop_bit 1 (t :: u32)) = unat c * 2 ^ 31 + unat t div 2"
proof -
  assume c: "c < 2"
  then have "unat c < 2" by (simp add: word_less_nat)
  then have "unat (ucast c :: u64) mod 2 = unat c" by (simp add: unat_ucast_wide)
  moreover have "ucast (ucast c :: u64) = c" by (rule bit_word_eqI) (simp add: bit_simps)
  ultimately show ?thesis using unat_top_bit [of "ucast c" t] by simp
qed

text \<open>\<open>+\<close> leaves the sum in T and its carry out in the carry flag, so that together they are the
  33-bit sum; \<open>2/\<close> halves T as a signed number, rounding down; \<open>2/c\<close> halves the 33-bit number with
  the carry on top of T, its remainder going to the carry.\<close>

theorem alu_arithmetic:
  assumes "xc x < 2"
  shows "unat (xc (snd (exec_uop VMU_PLUS x))) * 2 ^ 32 + unat (xt (snd (exec_uop VMU_PLUS x))) =
      unat (xt x) + unat (nos x) \<and>
    sint (xt (snd (exec_uop VMU_TWODIV x))) = sint (xt x) div 2 \<and>
    2 * unat (xt (snd (exec_uop VMU_TWODIVC x))) + unat (xc (snd (exec_uop VMU_TWODIVC x))) =
      unat (xc x) * 2 ^ 32 + unat (xt x)"
proof -
  have "unat (xt x AND 1) = unat (xt x) mod 2"
    by (simp add: and_one_eq unat_mod)
  then have "2 * unat (xt (snd (exec_uop VMU_TWODIVC x))) + unat (xc (snd (exec_uop VMU_TWODIVC x))) =
      unat (xc x) * 2 ^ 32 + unat (xt x)"
    using unat_rotate [OF assms, of "xt x"] by simp
  moreover have "sint (xt (snd (exec_uop VMU_TWODIV x))) = sint (xt x) div 2"
  proof -
    have "xt (snd (exec_uop VMU_TWODIV x)) = drop_bit 1 (xt x) OR (xt x AND 0x80000000)" by simp
    also have "\<dots> = signed_drop_bit 1 (xt x)" by (rule twodiv_signed)
    finally show ?thesis by (simp only: sint_signed_drop_bit_eq drop_bit_eq_div) simp
  qed
  ultimately show ?thesis using plus_carry [of x] by blast
qed

lemma alu_arithmetic_witness:
  "sint (xt (snd (exec_uop VMU_TWODIV ((exec_start (tiny_machine [1, 2, 3, 4]))\<lparr>xt := - 7, xc := 0\<rparr>)))) = - 4"
proof -
  have "xc ((exec_start (tiny_machine [1, 2, 3, 4]))\<lparr>xt := - 7, xc := 0\<rparr>) < 2" by simp
  from alu_arithmetic [OF this] have
    "sint (xt (snd (exec_uop VMU_TWODIV ((exec_start (tiny_machine [1, 2, 3, 4]))\<lparr>xt := - 7, xc := 0\<rparr>)))) =
      sint (- 7 :: u32) div 2" by (simp del: exec_uop.simps)
  then show ?thesis by simp
qed

section \<open>Runs\<close>

text \<open>C11: a word call returns with the app's PC, the run depth and the jump buffer as they were,
  whether it returned, failed or was abandoned by a CPU exception.\<close>

theorem word_call_restores:
  assumes "vmRun f gf ops False 0 address m = Some (ior, m')"
  shows "vPC (lf_vm m') = vPC (lf_vm m) \<and> vm_running m' = vm_running m \<and> trap_jump m' = trap_jump m"
  using assms by (auto simp: vmRun_def Let_def split: option.splits run_result.splits)

text \<open>A word at cell 0, \<open>dup\<close> with a return, run from an app stopped at PC 77.\<close>

lemma word_call_restores_witness:
  "map_option (\<lambda>(ior, m). (ior, vPC (lf_vm m)))
     (vmRun 3 3 tiny_ops False 0 0
       ((tiny_machine [0xD400, 0, 0, 0])\<lparr>lf_vm := tiny_vm\<lparr>vPC := 77\<rparr>\<rparr>)) = Some (0, 77)"
proof -
  let ?m = "(tiny_machine [0xD400, 0, 0, 0])\<lparr>lf_vm := tiny_vm\<lparr>vPC := 77\<rparr>\<rparr>"
  have "map_option fst (vmRun 3 3 tiny_ops False 0 0 ?m) = Some 0" by code_simp
  then obtain m' where m': "vmRun 3 3 tiny_ops False 0 0 ?m = Some (0, m')" by auto
  from word_call_restores [OF m'] m' show ?thesis by (simp add: tiny_machine_def)
qed

text \<open>Instructions that a stepped app gets through, and one that ends the run with an error: the last
  argument of \<open>app_fails\<close> is the PC after it, or the one saved at a CPU exception.\<close>

inductive app_steps :: "nat \<Rightarrow> 'e env_ops \<Rightarrow> nat \<Rightarrow> 'e exec \<Rightarrow> 'e exec \<Rightarrow> bool" for gf ops where
  app_start: "app_steps gf ops 0 x x"
| app_next: "fetch_inst x = FetchInst inst y \<Longrightarrow> exec_insn gf ops inst y = Some (Done 0 z) \<Longrightarrow>
    app_steps gf ops n z w \<Longrightarrow> app_steps gf ops (Suc n) x w"

definition app_fails :: "nat \<Rightarrow> 'e env_ops \<Rightarrow> 'e exec \<Rightarrow> ior \<Rightarrow> u32 \<Rightarrow> bool" where
  "app_fails gf ops x ior pc =
     (case fetch_inst x of
        FetchReturn y \<Rightarrow> False
      | FetchFault y \<Rightarrow> ior = ERR_EXEC_PROTECTED \<and> pc = xpc y
      | FetchInst inst y \<Rightarrow>
          (case exec_insn gf ops inst y of
             None \<Rightarrow> False
           | Some (Done i z) \<Rightarrow> i \<noteq> 0 \<and> ior = i \<and> pc = xpc z
           | Some (Trapped i m) \<Rightarrow> ior = i \<and> pc = vPC (lf_vm m)))"

definition failed_after :: "nat \<Rightarrow> 'e env_ops \<Rightarrow> u32 \<Rightarrow> 'e exec \<Rightarrow> ior \<Rightarrow> u32 \<Rightarrow> bool" where
  "failed_after gf ops steps x ior pc \<longleftrightarrow>
     (\<exists>n y. n < unat steps \<and> app_steps gf ops n x y \<and> app_fails gf ops y ior pc)"

definition to_handler :: "ior \<Rightarrow> 'e machine \<Rightarrow> bool" where
  "to_handler ior m \<longleftrightarrow> vPC (lf_vm m) = push_bit 1 VM_YEET_ADDRESS \<and> vY (lf_vm m) = word_of_int ior"

lemma failed_now: "steps \<noteq> 0 \<Longrightarrow> app_fails gf ops x ior pc \<Longrightarrow> failed_after gf ops steps x ior pc"
  unfolding failed_after_def by (metis app_start unat_gt_0)

lemma failed_later:
  assumes "fetch_inst x = FetchInst inst y" "exec_insn gf ops inst y = Some (Done 0 z)"
    "failed_after gf ops (steps - 1) z ior pc" "steps \<noteq> 0"
  shows "failed_after gf ops steps x ior pc"
proof -
  obtain n w where "n < unat (steps - 1)" "app_steps gf ops n z w" "app_fails gf ops w ior pc"
    using assms(3) by (auto simp: failed_after_def)
  moreover have "unat (steps - 1) = unat steps - 1" using assms(4) by (rule unat_minus_one)
  ultimately show ?thesis
    unfolding failed_after_def using app_next [OF assms(1,2)] by (metis less_diff_conv Suc_eq_plus1)
qed

lemma end_run_handler:
  "steps \<noteq> 0 \<Longrightarrow> ior \<noteq> ERR_VM_BREAK \<Longrightarrow> \<exists>m. end_run ior steps x = Returned ior m \<and>
    to_handler ior m \<and> vX (lf_vm m) = xpc x"
  by (simp add: end_run_def to_handler_def VM_SAVE_def upd_vm_def)

lemma stepped_errors:
  "steps \<noteq> 0 \<Longrightarrow> vm_loop f gf ops steps x = Some res \<Longrightarrow>
    (case res of
       Returned ior m \<Rightarrow> ior \<notin> {0, ERR_VM_BREAK, ERR_VM_TIMEOUT} \<longrightarrow>
         to_handler ior m \<and> failed_after gf ops steps x ior (vX (lf_vm m))
     | RunTrapped ior m \<Rightarrow> failed_after gf ops steps x ior (vPC (lf_vm m)))"
proof (induction f arbitrary: x steps)
  case 0
  then show ?case by simp
next
  case (Suc f)
  show ?case
  proof (cases "fetch_inst x")
    case (FetchReturn y)
    with Suc.prems show ?thesis by auto
  next
    case (FetchFault y)
    have "app_fails gf ops x ERR_EXEC_PROTECTED (xpc y)" by (simp add: app_fails_def FetchFault)
    with failed_now [OF Suc.prems(1) this] Suc.prems FetchFault
      end_run_handler [OF Suc.prems(1), of ERR_EXEC_PROTECTED y]
    show ?thesis by (auto simp: ERR_EXEC_PROTECTED_def ERR_VM_BREAK_def)
  next
    case (FetchInst i y)
    obtain r where r: "exec_insn gf ops i y = Some r"
      using Suc.prems FetchInst by (auto split: option.splits)
    show ?thesis
    proof (cases r)
      case (Trapped j m)
      then have "app_fails gf ops x j (vPC (lf_vm m))" by (simp add: app_fails_def FetchInst r)
      with failed_now [OF Suc.prems(1) this] Suc.prems FetchInst r Trapped show ?thesis by auto
    next
      case (Done j z)
      have f: "app_fails gf ops x j (xpc z)" if "j \<noteq> 0"
        using that by (simp add: app_fails_def FetchInst r Done)
      show ?thesis
      proof (cases "steps = 1")
        case True
        with Suc.prems FetchInst r Done show ?thesis by auto
      next
        case False
        then have s: "steps - 1 \<noteq> 0" by simp
        show ?thesis
        proof (cases "j = 0")
          case True
          then have "vm_loop f gf ops (steps - 1) z = Some res"
            using Suc.prems FetchInst r Done False by (simp add: Let_def)
          from Suc.IH [OF s this] failed_later [OF FetchInst, of gf ops z steps] r Done True Suc.prems(1)
          show ?thesis by (auto split: run_result.splits)
        next
          case err: False
          then have "res = end_run j (steps - 1) z"
            using Suc.prems FetchInst r Done False by (simp add: Let_def)
          with end_run_handler [OF s, of j z] failed_now [OF Suc.prems(1) f [OF err]]
          show ?thesis by (cases "j = ERR_VM_BREAK") (auto simp: end_run_def)
        qed
      qed
    qed
  qed
qed

text \<open>C12: an app's errors reach its handler. When stepping the app for up to \<open>steps\<close> instructions
  ends with an error (any other than \<open>break\<close> and the step limit's \<open>ERR_VM_TIMEOUT\<close>), the app gets
  through fewer than \<open>steps\<close> instructions and the next one fails with that error, be it a fetch
  outside the code, an instruction's own error, an API function's or a CPU exception in one; and
  the PC is left at the yeet handler, with the error code in Y and in X the PC after the failing
  instruction (for a CPU exception, the PC last saved), the run depth and jump buffer restored. An
  error of the last instruction allowed is not among these: the run reports \<open>ERR_VM_TIMEOUT\<close>.\<close>

theorem app_errors_reach_handler:
  assumes "vmRun f gf ops False steps address m = Some (ior, m')" "steps \<noteq> 0"
    "ior \<notin> {0, ERR_VM_BREAK, ERR_VM_TIMEOUT}"
  shows "vPC (lf_vm m') = push_bit 1 VM_YEET_ADDRESS \<and> vY (lf_vm m') = word_of_int ior \<and>
    vm_running m' = vm_running m \<and> trap_jump m' = trap_jump m \<and>
    (\<exists>n x. n < unat steps \<and>
       app_steps gf ops n (exec_start
         (m\<lparr>vm_running := vm_running m + 1, trap_jump := Some (vm_running m + 1)\<rparr>)) x \<and>
       app_fails gf ops x ior (vX (lf_vm m')))"
proof -
  let ?m = "m\<lparr>vm_running := vm_running m + 1, trap_jump := Some (vm_running m + 1)\<rparr>"
  obtain res where res: "vm_loop f gf ops steps (exec_start ?m) = Some res"
    using assms(1,2) by (auto simp: vmRun_def vmExec_def Let_def split: option.splits)
  show ?thesis
    using stepped_errors [OF assms(2) res] assms res unfolding failed_after_def [symmetric]
    by (cases res) (auto simp: vmRun_def vmExec_def Let_def to_handler_def)
qed

text \<open>\<open>dup +\<close>, then an invalid opcode (5 of the immediate group), of 5 steps.\<close>

lemma app_errors_reach_handler_witness:
  "map_option (\<lambda>(ior, m). vPC (lf_vm m))
    (vmRun 5 5 tiny_ops False 5 0 (tiny_machine [0x6A009400, 0, 0, 0])) = Some 4"
proof -
  have "map_option fst (vmRun 5 5 tiny_ops False 5 0 (tiny_machine [0x6A009400, 0, 0, 0])) =
      Some ERR_INVALID_OPCODE"
    by code_simp
  then obtain m' where m': "vmRun 5 5 tiny_ops False 5 0 (tiny_machine [0x6A009400, 0, 0, 0]) =
      Some (ERR_INVALID_OPCODE, m')" by auto
  have "ERR_INVALID_OPCODE \<notin> {0, ERR_VM_BREAK, ERR_VM_TIMEOUT}"
    by (simp add: ERR_INVALID_OPCODE_def ERR_VM_BREAK_def ERR_VM_TIMEOUT_def)
  with app_errors_reach_handler [OF m'] m' show ?thesis by (simp add: VM_YEET_ADDRESS_def)
qed

end
