(* ===== verification/VM_Safety.thy ===== *)
theory VM_Safety
  imports VM_Exec
begin

text \<open>
  Safety of the interpreter: what any code the VM runs keeps. The relation \<open>keeps\<close> says that the
  stacks, stack pointers, carry and shift count stay in range, that every cell the page tables
  protect is unchanged, and that the page tables and system options are unchanged. Each micro-op and
  instruction has it; API functions must promise it, which is the locale \<open>vm_api\<close>.
\<close>

section \<open>The relation\<close>

definition keeps :: "'e machine \<Rightarrow> 'e machine \<Rightarrow> bool" where
  "keeps m m' \<longleftrightarrow>
     (wf_vm (lf_vm m) \<longrightarrow> wf_vm (lf_vm m')) \<and> (wf_math (math m) \<longrightarrow> wf_math (math m')) \<and>
     same_limits (vmem m) (vmem m') \<and> protected_same (vmem m) (vmem m') \<and>
     sys_options m' = sys_options m"

lemma keeps_refl [simp]: "keeps m m"
  by (simp add: keeps_def)

lemma keeps_trans: "keeps a b \<Longrightarrow> keeps b c \<Longrightarrow> keeps a c"
  by (auto simp: keeps_def intro: same_limits_trans protected_same_trans)

lemma keeps_wf_mem: "keeps m m' \<Longrightarrow> wf_mem (vmem m) \<Longrightarrow> wf_mem (vmem m')"
  by (auto simp: keeps_def intro: same_limits_wf)

text \<open>The same for the locals of \<open>vmExec\<close>, as they would be saved.\<close>

definition keepx :: "'e exec \<Rightarrow> 'e exec \<Rightarrow> bool" where
  "keepx x y \<longleftrightarrow> keeps (VM_SAVE x) (VM_SAVE y)"

lemma keepx_refl [simp]: "keepx x x"
  by (simp add: keepx_def)

lemma keepx_trans: "keepx x y \<Longrightarrow> keepx y z \<Longrightarrow> keepx x z"
  unfolding keepx_def by (rule keeps_trans)

lemma keepx_simp:
  "keepx x y \<longleftrightarrow>
     (wf_vm (lf_vm (VM_SAVE x)) \<longrightarrow> wf_vm (lf_vm (VM_SAVE y))) \<and>
     (wf_math (math (xm x)) \<longrightarrow> wf_math (math (xm y))) \<and>
     same_limits (vmem (xm x)) (vmem (xm y)) \<and> protected_same (vmem (xm x)) (vmem (xm y)) \<and>
     sys_options (xm y) = sys_options (xm x)"
  by (simp add: keepx_def keeps_def VM_SAVE_def)

lemma wf_saved:
  "wf_vm (lf_vm (VM_SAVE x)) \<longleftrightarrow>
     length (datastack (lf_vm (xm x))) = 128 \<and> length (returnstack (lf_vm (xm x))) = 128 \<and>
     xdsp x < 128 \<and> xrsp x < 128 \<and> xc x < 2 \<and> vshift_size (lf_vm (xm x)) < 32"
  by (simp add: wf_vm_def VM_SAVE_def)

lemmas exec_defs = upd_vm_def set_ds_def set_rs_def DDUP_def DDROP_def NIP_def RDUP_def RDROP_def
  PUSHT_def Let_def

text \<open>Changing registers other than the stack pointers and carry.\<close>

lemma keepx_regs [simp]:
  "keepx x (x\<lparr>xt := a\<rparr>)" "keepx x (x\<lparr>xr := a\<rparr>)" "keepx x (x\<lparr>xa := a\<rparr>)" "keepx x (x\<lparr>xb := a\<rparr>)"
  "keepx x (x\<lparr>xu := a\<rparr>)" "keepx x (x\<lparr>xpc := a\<rparr>)" "keepx x (x\<lparr>xpfx := a\<rparr>)"
  "keepx x (x\<lparr>xcspan := a\<rparr>)"
  by (simp_all add: keepx_simp wf_saved)

lemma keepx_upd [simp]:
  "keepx x (y\<lparr>xt := a\<rparr>) = keepx x y" "keepx x (y\<lparr>xr := a\<rparr>) = keepx x y"
  "keepx x (y\<lparr>xa := a\<rparr>) = keepx x y" "keepx x (y\<lparr>xb := a\<rparr>) = keepx x y"
  "keepx x (y\<lparr>xu := a\<rparr>) = keepx x y" "keepx x (y\<lparr>xpc := a\<rparr>) = keepx x y"
  "keepx x (y\<lparr>xpfx := a\<rparr>) = keepx x y" "keepx x (y\<lparr>xcspan := a\<rparr>) = keepx x y"
  "keepx x (y\<lparr>xcode := a\<rparr>) = keepx x y" "keepx x (y\<lparr>xcbase := a\<rparr>) = keepx x y"
  by (simp_all add: keepx_simp wf_saved)

lemma keepx_stack [simp]:
  "keepx x (DDUP x)" "keepx x (DDROP x)" "keepx x (NIP x)" "keepx x (RDUP x)" "keepx x (RDROP x)"
  "keepx x (PUSHT a x)"
  by (simp_all add: keepx_simp wf_saved exec_defs)

lemma keepx_stack_after [intro]:
  "keepx x y \<Longrightarrow> keepx x (DDUP y)" "keepx x y \<Longrightarrow> keepx x (DDROP y)" "keepx x y \<Longrightarrow> keepx x (NIP y)"
  "keepx x y \<Longrightarrow> keepx x (RDUP y)" "keepx x y \<Longrightarrow> keepx x (RDROP y)" "keepx x y \<Longrightarrow> keepx x (PUSHT a y)"
  by (rule keepx_trans, assumption, simp)+

lemma keepx_carry [simp]: "c < 2 \<Longrightarrow> keepx x (x\<lparr>xc := c\<rparr>)"
  by (simp add: keepx_simp wf_saved)

lemma keepx_set_ds [simp]: "keepx x (set_ds i d x)"
  by (simp add: keepx_simp wf_saved exec_defs)

section \<open>Micro-ops\<close>

lemma keepx_fetch: "keepx x (snd (fetch_to_T addr x))"
  by (simp add: fetch_to_T_def case_prod_unfold Let_def)

lemma keepx_store: "keepx x (snd (store_T addr x))"
proof -
  have "keepx y (y\<lparr>xm := (xm y)\<lparr>vmem := snd (vmStore (vmem (xm y)) addr n)\<rparr>\<rparr>)" for y :: "'a exec" and n
    by (simp add: keepx_simp wf_saved vmStore_same_limits vmStore_protected)
  then have "keepx (DDROP x) (snd (store_T addr x))"
    by (simp add: store_T_def case_prod_unfold Let_def)
  then show ?thesis by (rule keepx_trans [OF keepx_stack(2)])
qed

lemma keepx_uop: "keepx x (snd (exec_uop uop x))"
proof (cases uop)
  case VMU_PUSH
  then show ?thesis by (auto simp: Let_def)
next
  case VMU_POP
  then show ?thesis by auto
next
  case VMU_PLUS
  have "keepx x (NIP (x\<lparr>xc := c\<rparr>))" if "c < 2" for c
    using that by auto
  then show ?thesis using VMU_PLUS by (simp add: Let_def)
next
  case VMU_TWODIVC
  have "keepx x (x\<lparr>xt := a, xc := xt x AND 1\<rparr>)" for a
    by (simp add: keepx_simp wf_saved)
  then show ?thesis using VMU_TWODIVC by simp
qed (simp_all add: Let_def case_prod_unfold keepx_fetch keepx_store)

lemma keepx_group: "group_loop f inst slots x = Some (ior, y) \<Longrightarrow> keepx x y"
proof (induction f arbitrary: slots x)
  case 0
  then show ?case by simp
next
  case (Suc f)
  let ?uop = "decode_uop (drop_bit 27 slots)"
  show ?case
  proof (cases "?uop = VMU_UNEXT")
    case True
    define z where "z = x\<lparr>xr := xr x - 1\<rparr>"
    have z: "keepx x z" "keepx x (RDROP z)" by (auto simp: z_def)
    have "keepx z y \<or> keepx (RDROP z) y"
      using Suc.prems True by (auto simp: z_def Let_def split: if_splits dest: Suc.IH)
    with z show ?thesis by (meson keepx_trans)
  next
    case False
    obtain i z where z: "exec_uop ?uop x = (i, z)" by fastforce
    then have "keepx x z" using keepx_uop [of x ?uop] by simp
    with Suc False z show ?thesis
      by (auto simp: Let_def split: if_splits intro: keepx_trans)
  qed
qed

section \<open>Instructions\<close>

fun result_keeps :: "'e exec \<Rightarrow> 'e insn_result \<Rightarrow> bool" where
  "result_keeps x (Done ior y) = keepx x y"
| "result_keeps x (Trapped ior m) = keeps (VM_SAVE x) m"

lemma load_keeps:
  assumes "keeps (VM_SAVE x) m"
  shows "keepx x (VM_LOAD m x)"
  using assms
  by (auto simp: keepx_simp wf_saved VM_LOAD_def Let_def keeps_def) (simp_all add: VM_SAVE_def wf_vm_def)

text \<open>
  What the interpreter asks of the API functions: \<open>good\<close> is a class of machines, closed under what
  the VM itself does, in which every API call that returns, or is abandoned by a CPU exception,
  keeps the machine safe.
\<close>

locale vm_api =
  fixes ops :: "'e env_ops"
    and good :: "'e machine \<Rightarrow> bool"
  assumes api_return: "good m \<Longrightarrow> vmApiCall ops inst m = ApiReturn ior m' \<Longrightarrow> keeps m m'"
    and api_trap: "good m \<Longrightarrow> vmApiCall ops inst m = ApiTrap ior m' \<Longrightarrow> keeps m m'"
    and good_keeps: "good m \<Longrightarrow> keeps m m' \<Longrightarrow> good m'"
begin

lemma exec_api_keeps: "good (VM_SAVE x) \<Longrightarrow> result_keeps x (exec_api ops inst x)"
  by (cases "vmApiCall ops inst (VM_SAVE x)")
     (auto simp: exec_api_def load_keeps api_return dest: api_return api_trap)

end

lemma keepx_env [simp]: "keepx x (x\<lparr>xm := (xm x)\<lparr>env := e\<rparr>\<rparr>)"
  by (simp add: keepx_simp wf_saved)

lemma keepx_sys: "keepx x (snd (exec_sys ops imm x))"
  by (simp add: exec_sys_def Let_def case_prod_unfold) (simp add: keepx_simp wf_saved upd_vm_def)

lemma keepx_ports:
  "keepx x (x\<lparr>xm := snd (iomap_wr ops imm tos (xm x))\<rparr>)"
  "keepx x (x\<lparr>xm := snd (snd (iomap_rd ops imm (xm x)))\<rparr>)"
  by (simp_all add: keepx_simp wf_saved iomap_wr_frame iomap_rd_frame iomap_wr_wf_math iomap_rd_wf_math)

lemma and_1f_less [simp]: "(x :: u32) AND 0x1F < 32"
  using unat_and_mask_less [of 31 32 x] by (simp add: word_less_nat)

lemma keepx_tosys: "keepx x (snd (exec_tosys ops imm x))"
proof -
  have "keepx x ((DDROP x)\<lparr>xm := snd (iomap_wr ops imm (xt x) (xm (DDROP x)))\<rparr>)"
    by (rule keepx_trans [OF keepx_stack(2) keepx_ports(1)])
  moreover have "keepx x (upd_vm (\<lambda>v. v\<lparr>vshift_size := n AND 0x1F\<rparr>) (DDROP x))" for n
    by (rule keepx_trans [OF keepx_stack(2)]) (simp add: keepx_simp wf_saved upd_vm_def)
  ultimately show ?thesis
    by (simp add: exec_tosys_def Let_def case_prod_unfold)
qed

lemma keepx_fromsys: "keepx x (snd (exec_fromsys ops imm x))"
proof -
  have "keepx x ((DDUP x)\<lparr>xm := snd (snd (iomap_rd ops imm (xm (DDUP x))))\<rparr>)"
    by (rule keepx_trans [OF keepx_stack(1) keepx_ports(2)])
  then show ?thesis
    by (auto simp: exec_fromsys_def Let_def case_prod_unfold)
qed

lemma keepx_branch [simp]: "keepx x (branch inst y) = keepx x y"
  by (simp add: branch_def)

lemma fetch_keeps:
  "(case fetch_inst x of FetchReturn y \<Rightarrow> keepx x y | FetchFault y \<Rightarrow> keepx x y
    | FetchInst i y \<Rightarrow> keepx x y)"
  by (simp add: fetch_inst_def read_inst_def Let_def)

lemma end_run_keeps: "end_run ior steps x = Returned i m \<Longrightarrow> keeps (VM_SAVE x) m"
proof -
  have "keepx x ((upd_vm (\<lambda>v. v\<lparr>vX := a, vY := b\<rparr>) x)\<lparr>xpc := c\<rparr>)" for a b c
    by (simp add: keepx_simp wf_saved upd_vm_def)
  then show "end_run ior steps x = Returned i m \<Longrightarrow> keeps (VM_SAVE x) m"
    by (auto simp: end_run_def keepx_def split: if_splits)
qed

lemma end_run_returned: "\<exists>m. end_run ior steps x = Returned ior m"
  by (simp add: end_run_def)

definition run_keeps :: "'e machine \<Rightarrow> 'e run_result \<Rightarrow> bool" where
  "run_keeps m res = (case res of Returned ior m' \<Rightarrow> keeps m m' | RunTrapped ior m' \<Rightarrow> keeps m m')"

lemma run_keeps_trans: "keeps m m1 \<Longrightarrow> run_keeps m1 res \<Longrightarrow> run_keeps m res"
  by (cases res) (auto simp: run_keeps_def intro: keeps_trans)

lemma end_run_run_keeps: "run_keeps (VM_SAVE x) (end_run ior steps x)"
  using end_run_returned [of ior steps x] by (auto simp: run_keeps_def dest: end_run_keeps)

context vm_api begin

lemma exec_imm_keeps: "good (VM_SAVE x) \<Longrightarrow> result_keeps x (exec_imm ops inst iop x)"
  by (cases iop)
     (auto simp: Let_def case_prod_unfold keepx_sys keepx_tosys keepx_fromsys exec_api_keeps)

lemma exec_insn_keeps:
  assumes "good (VM_SAVE x)" "exec_insn gf ops inst x = Some res"
  shows "result_keeps x res"
proof -
  have ret: "keepx x (RDROP (x\<lparr>xpc := p\<rparr>))" for p
    by (rule keepx_stack_after) simp
  show ?thesis
    using assms(2) exec_imm_keeps [OF assms(1)]
    by (auto simp: exec_insn_def Let_def split: if_splits dest!: keepx_group
        intro: keepx_trans [OF ret])
qed

lemma vm_loop_keeps:
  "good (VM_SAVE x) \<Longrightarrow> vm_loop f gf ops steps x = Some res \<Longrightarrow> run_keeps (VM_SAVE x) res"
proof (induction f arbitrary: x steps)
  case 0
  then show ?case by simp
next
  case (Suc f)
  show ?case
  proof (cases "fetch_inst x")
    case (FetchReturn y)
    with Suc.prems fetch_keeps [of x] show ?thesis
      by (auto simp: keepx_def run_keeps_def)
  next
    case (FetchFault y)
    with Suc.prems fetch_keeps [of x] show ?thesis
      by (auto simp: keepx_def intro: run_keeps_trans end_run_run_keeps)
  next
    case (FetchInst i y)
    have ky: "keeps (VM_SAVE x) (VM_SAVE y)"
      using FetchInst fetch_keeps [of x] by (simp add: keepx_def)
    then have gy: "good (VM_SAVE y)" using Suc.prems good_keeps by blast
    obtain r where r: "exec_insn gf ops i y = Some r"
      using Suc.prems FetchInst by (auto split: option.splits)
    show ?thesis
    proof (cases r)
      case (Trapped ior m)
      with r FetchInst Suc.prems exec_insn_keeps [OF gy r] ky show ?thesis
        by (auto simp: run_keeps_def intro: keeps_trans)
    next
      case (Done ior z)
      have kz: "keeps (VM_SAVE x) (VM_SAVE z)"
        using exec_insn_keeps [OF gy r] ky Done by (auto simp: keepx_def intro: keeps_trans)
      then have gz: "good (VM_SAVE z)" using Suc.prems good_keeps by blast
      have "run_keeps (VM_SAVE z) res"
        using Suc.prems FetchInst r Done Suc.IH [OF gz]
        by (auto simp: Let_def run_keeps_def end_run_run_keeps [unfolded run_keeps_def]
            split: if_splits)
      with kz show ?thesis by (rule run_keeps_trans)
    qed
  qed
qed

lemma vmRun_keeps:
  assumes "good m" "vmRun f gf ops once inst address m = Some (ior, m')"
  shows "keeps m m'"
proof -
  let ?m0 = "m\<lparr>vm_running := vm_running m + 1, trap_jump := Some (vm_running m + 1)\<rparr>"
  have k0: "keeps m ?m0" by (simp add: keeps_def)
  then have g0: "good ?m0" using assms(1) good_keeps by blast
  have ks: "keeps ?m0 (VM_SAVE (exec_start ?m0))"
    by (auto simp: keeps_def VM_SAVE_def exec_start_def VM_LOAD_def Let_def wf_vm_def)
  then have gs: "good (VM_SAVE (exec_start ?m0))" using g0 good_keeps by blast
  obtain res where res: "vmExec f gf ops once inst address ?m0 = Some res"
    using assms(2) by (auto simp: vmRun_def Let_def split: option.splits)
  have "run_keeps (VM_SAVE (exec_start ?m0)) res"
  proof (cases once)
    case True
    then obtain r where r: "exec_insn gf ops inst (exec_start ?m0) = Some r"
      using res by (auto simp: vmExec_def Let_def split: option.splits)
    show ?thesis
      using res True r exec_insn_keeps [OF gs r]
      by (cases r) (auto simp: vmExec_def Let_def run_keeps_def keepx_def)
  next
    case False
    let ?x = "(RDUP (exec_start ?m0))\<lparr>xr := TERMINATOR, xpc := address\<rparr>"
    have kx: "keeps (VM_SAVE (exec_start ?m0)) (VM_SAVE ?x)"
      using keepx_def [of "exec_start ?m0" ?x] by simp
    then have "good (VM_SAVE ?x)" using gs good_keeps by blast
    then show ?thesis
      using res False gs kx vm_loop_keeps
      by (auto simp: vmExec_def Let_def split: if_splits intro: run_keeps_trans)
  qed
  with ks have rk: "run_keeps ?m0 res" by (rule run_keeps_trans)
  have fix_vm: "keeps a (b\<lparr>lf_vm := (lf_vm b)\<lparr>vX := x, vY := y, vPC := p\<rparr>\<rparr>)"
    "keeps a (b\<lparr>lf_vm := (lf_vm b)\<lparr>vPC := p\<rparr>\<rparr>)"
    "keeps a (b\<lparr>trap_jump := j, vm_running := d\<rparr>)" if "keeps a b" for a b x y p j d
    using that by (auto simp: keeps_def wf_vm_def)
  show ?thesis
    using assms(2) res rk k0
    by (auto simp: vmRun_def Let_def run_keeps_def split: run_result.splits if_splits
        intro!: fix_vm intro: keeps_trans)
qed

end

section \<open>The locked machine\<close>

text \<open>With \<open>SYS_OPTION_NO_API\<close> set, \<open>vmApiCall\<close> refuses every call: the code of the VM alone decides
  what happens, and the interface holds for any environment.\<close>

definition api_locked :: "'e machine \<Rightarrow> bool" where
  "api_locked m \<longleftrightarrow> sys_options m AND SYS_OPTION_NO_API \<noteq> 0"

interpretation locked: vm_api ops api_locked for ops :: "'e env_ops"
  by unfold_locales (auto simp: api_locked_def vmApiCall_def Let_def keeps_def)

lemma api_locked_tiny: "api_locked (tiny_machine cells)"
  by (simp add: api_locked_def tiny_machine_def SYS_OPTION_NO_API_def)

text \<open>C5: the sandbox. Whatever code the VM is given to run (one instruction, steps of the app or a
  word call), while API calls are locked out, a run that ends leaves every cell that the page tables
  protect as it was, and the page tables and options themselves; a state with its stacks in range
  stays so, and memory stays well formed.\<close>

theorem vmRun_sandbox:
  assumes "api_locked m" "vmRun f gf ops once inst address m = Some (ior, m')"
  shows "(\<forall>page a. \<not> may_write (vmem m) page a \<longrightarrow>
        get_cell (vmem m') page a = get_cell (vmem m) page a) \<and>
    same_limits (vmem m) (vmem m') \<and> sys_options m' = sys_options m \<and>
    (wf_vm (lf_vm m) \<longrightarrow> wf_vm (lf_vm m')) \<and> (wf_mem (vmem m) \<longrightarrow> wf_mem (vmem m'))"
proof -
  have "keeps m m'" using assms by (rule locked.vmRun_keeps)
  then show ?thesis using keeps_wf_mem by (auto simp: keeps_def protected_same_def)
qed

text \<open>A store through A = 0, a write-protected cell.\<close>

lemma protected_store_run:
  "\<exists>m'. vmRun 1 1 tiny_ops True 0xA800 0 (tiny_machine [1, 2, 3, 4]) = Some (ERR_WRITE_PROTECTED, m')"
proof -
  have "map_option fst (vmRun 1 1 tiny_ops True 0xA800 0 (tiny_machine [1, 2, 3, 4])) =
      Some ERR_WRITE_PROTECTED"
    by code_simp
  then show ?thesis by auto
qed

lemma vmRun_sandbox_witness:
  "\<exists>m'. vmRun 1 1 tiny_ops True 0xA800 0 (tiny_machine [1, 2, 3, 4]) = Some (ERR_WRITE_PROTECTED, m') \<and>
     get_cell (vmem m') 0 0 = 1"
proof -
  obtain m' where m': "vmRun 1 1 tiny_ops True 0xA800 0 (tiny_machine [1, 2, 3, 4]) =
      Some (ERR_WRITE_PROTECTED, m')"
    using protected_store_run by auto
  have "\<not> may_write (vmem (tiny_machine [1, 2, 3, 4])) 0 0"
    by (simp add: tiny_machine_def tiny_mem_def may_write_def rd_limit_def wp_limit_def)
  with vmRun_sandbox [OF api_locked_tiny m']
  have "get_cell (vmem m') 0 0 = get_cell (vmem (tiny_machine [1, 2, 3, 4])) 0 0" by blast
  then show ?thesis using m' by (simp add: tiny_machine_def tiny_mem_def get_cell_def)
qed

end
