(* ===== verification/VM_Cache.thy ===== *)
theory VM_Cache
  imports VM_Safety
begin

text \<open>
  The cached code page of \<open>vmExec\<close> (\<open>code\<close>, \<open>cbase\<close>, \<open>cspan\<close>): running with the cache is the same as
  looking the page up for every instruction. The reference loop \<open>vm_loop_ref\<close> drops the cache before
  each fetch.
\<close>

fun vm_loop_ref :: "nat \<Rightarrow> nat \<Rightarrow> 'e env_ops \<Rightarrow> u32 \<Rightarrow> 'e exec \<Rightarrow> 'e run_result option" where
  "vm_loop_ref 0 gf ops steps x = None"
| "vm_loop_ref (Suc f) gf ops steps x =
     (case fetch_inst (x\<lparr>xcspan := 0\<rparr>) of
        FetchReturn x1 \<Rightarrow> Some (Returned 0 (VM_SAVE x1))
      | FetchFault x1 \<Rightarrow> Some (end_run ERR_EXEC_PROTECTED steps x1)
      | FetchInst inst x1 \<Rightarrow>
          (case exec_insn gf ops inst x1 of
             None \<Rightarrow> None
           | Some (Trapped ior m) \<Rightarrow> Some (RunTrapped ior m)
           | Some (Done ior x2) \<Rightarrow>
               if ior = 0 \<and> steps = 0 then vm_loop_ref f gf ops steps x2
               else if steps = 1 then Some (Returned ERR_VM_TIMEOUT (VM_SAVE x2))
               else
                 let steps' = (if steps \<noteq> 0 then steps - 1 else 0) in
                 if ior \<noteq> 0 then Some (end_run ior steps' x2)
                 else vm_loop_ref f gf ops steps' x2))"

section \<open>Execution does not look at the cache\<close>

definition recache :: "'e exec \<Rightarrow> 'e exec \<Rightarrow> 'e exec" where
  "recache k x = x\<lparr>xcode := xcode k, xcbase := xcbase k, xcspan := xcspan k\<rparr>"

definition same_but_cache :: "'e exec \<Rightarrow> 'e exec \<Rightarrow> bool" where
  "same_but_cache x y \<longleftrightarrow> y = recache y x"

lemma recache_sel [simp]:
  "xt (recache k x) = xt x" "xr (recache k x) = xr x" "xa (recache k x) = xa x"
  "xb (recache k x) = xb x" "xu (recache k x) = xu x" "xpc (recache k x) = xpc x"
  "xpfx (recache k x) = xpfx x" "xdsp (recache k x) = xdsp x" "xrsp (recache k x) = xrsp x"
  "xc (recache k x) = xc x" "xm (recache k x) = xm x" "xcode (recache k x) = xcode k"
  "xcbase (recache k x) = xcbase k" "xcspan (recache k x) = xcspan k"
  "nos (recache k x) = nos x" "VM_SAVE (recache k x) = VM_SAVE x"
  by (simp_all add: recache_def nos_def VM_SAVE_def)

lemma recache_upd [simp]:
  "(recache k x)\<lparr>xt := a\<rparr> = recache k (x\<lparr>xt := a\<rparr>)" "(recache k x)\<lparr>xr := a\<rparr> = recache k (x\<lparr>xr := a\<rparr>)"
  "(recache k x)\<lparr>xa := a\<rparr> = recache k (x\<lparr>xa := a\<rparr>)" "(recache k x)\<lparr>xb := a\<rparr> = recache k (x\<lparr>xb := a\<rparr>)"
  "(recache k x)\<lparr>xu := a\<rparr> = recache k (x\<lparr>xu := a\<rparr>)" "(recache k x)\<lparr>xpc := a\<rparr> = recache k (x\<lparr>xpc := a\<rparr>)"
  "(recache k x)\<lparr>xpfx := a\<rparr> = recache k (x\<lparr>xpfx := a\<rparr>)" "(recache k x)\<lparr>xc := a\<rparr> = recache k (x\<lparr>xc := a\<rparr>)"
  "(recache k x)\<lparr>xdsp := a\<rparr> = recache k (x\<lparr>xdsp := a\<rparr>)" "(recache k x)\<lparr>xrsp := a\<rparr> = recache k (x\<lparr>xrsp := a\<rparr>)"
  "(recache k x)\<lparr>xm := m\<rparr> = recache k (x\<lparr>xm := m\<rparr>)"
  "upd_vm f (recache k x) = recache k (upd_vm f x)"
  by (simp_all add: recache_def upd_vm_def)

lemma recache_stack [simp]:
  "set_ds i d (recache k x) = recache k (set_ds i d x)" "set_rs i d (recache k x) = recache k (set_rs i d x)"
  "DDUP (recache k x) = recache k (DDUP x)" "DDROP (recache k x) = recache k (DDROP x)"
  "NIP (recache k x) = recache k (NIP x)" "RDUP (recache k x) = recache k (RDUP x)"
  "RDROP (recache k x) = recache k (RDROP x)" "PUSHT a (recache k x) = recache k (PUSHT a x)"
  "branch i (recache k x) = recache k (branch i x)"
  by (simp_all add: set_ds_def set_rs_def DDUP_def DDROP_def NIP_def RDUP_def RDROP_def PUSHT_def
      branch_def Let_def)

lemma recache_fetch_to_T: "fetch_to_T a (recache k x) = map_prod id (recache k) (fetch_to_T a x)"
  by (simp add: fetch_to_T_def Let_def case_prod_unfold)

lemma recache_store_T: "store_T a (recache k x) = map_prod id (recache k) (store_T a x)"
  by (simp add: store_T_def Let_def case_prod_unfold)

lemma recache_uop: "exec_uop u (recache k x) = map_prod id (recache k) (exec_uop u x)"
  by (cases u) (simp_all add: Let_def case_prod_unfold recache_fetch_to_T recache_store_T)

lemma recache_group:
  "group_loop f inst slots (recache k x) = map_option (map_prod id (recache k)) (group_loop f inst slots x)"
  by (induction f arbitrary: slots x) (simp_all add: Let_def case_prod_unfold recache_uop map_prod_def)

lemma recache_sys: "exec_sys ops imm (recache k x) = map_prod id (recache k) (exec_sys ops imm x)"
  by (simp add: exec_sys_def Let_def case_prod_unfold)

lemma recache_tosys: "exec_tosys ops imm (recache k x) = map_prod id (recache k) (exec_tosys ops imm x)"
  by (simp add: exec_tosys_def Let_def case_prod_unfold)

lemma recache_fromsys:
  "exec_fromsys ops imm (recache k x) = map_prod id (recache k) (exec_fromsys ops imm x)"
  by (simp add: exec_fromsys_def Let_def case_prod_unfold)

text \<open>Results alike but for the cache.\<close>

fun result_alike :: "'e insn_result \<Rightarrow> 'e insn_result \<Rightarrow> bool" where
  "result_alike (Done i x) (Done j y) = (i = j \<and> (\<exists>k. y = recache k x))"
| "result_alike (Trapped i m) (Trapped j n) = (i = j \<and> m = n)"
| "result_alike _ _ = False"

lemma recache_api: "result_alike (exec_api ops inst x) (exec_api ops inst (recache k x))"
proof (cases "vmApiCall ops inst (VM_SAVE x)")
  case (ApiReturn i m)
  have "(VM_LOAD m (recache k x))\<lparr>xcspan := 0\<rparr> = recache (k\<lparr>xcspan := 0\<rparr>) ((VM_LOAD m x)\<lparr>xcspan := 0\<rparr>)"
    by (simp add: VM_LOAD_def recache_def Let_def)
  with ApiReturn show ?thesis by (auto simp: exec_api_def)
next
  case (ApiTrap i m)
  then show ?thesis by (simp add: exec_api_def)
qed

lemma recache_imm: "result_alike (exec_imm ops inst iop x) (exec_imm ops inst iop (recache k x))"
  using recache_api [of ops inst x k]
  by (cases iop) (auto simp: Let_def case_prod_unfold recache_sys recache_tosys recache_fromsys)

lemma recache_insn:
  "rel_option result_alike (exec_insn gf ops inst x) (exec_insn gf ops inst (recache k x))"
  using recache_imm [of ops inst _ x k]
  by (auto simp: exec_insn_def Let_def recache_group option.rel_map case_prod_unfold
      intro!: option.rel_refl_strong)

section \<open>The cache invariant\<close>

text \<open>A nonempty cache is the page table entry of its page.\<close>

definition cache_ok :: "'e exec \<Rightarrow> bool" where
  "cache_ok x \<longleftrightarrow> xcspan x = 0 \<or>
     xcode x < 8 \<and> xcbase x = push_bit 20 (xcode x) \<and>
     xcspan x = push_bit 1 (vm_memory_executable (vmem (xm x)) ! unat (xcode x))"

text \<open>No page's code limit exceeds the page: the instruction addresses of two pages are apart.\<close>

definition exec_limits_ok :: "vm_mem \<Rightarrow> bool" where
  "exec_limits_ok m \<longleftrightarrow> (\<forall>p < 8. unat (vm_memory_executable m ! p) \<le> 2 ^ 19)"

lemma wf_mem_exec_limits: "wf_mem m \<Longrightarrow> exec_limits_ok m"
  using wf_mem_page by (fastforce simp: exec_limits_ok_def page_ok_def)

lemma same_limits_exec_limits: "same_limits m m' \<Longrightarrow> exec_limits_ok m \<Longrightarrow> exec_limits_ok m'"
  by (simp add: same_limits_def exec_limits_ok_def)

lemma page_of_cached_pc:
  assumes "page < (8 :: u32)" "unat lim \<le> 2 ^ 19" "pc - push_bit 20 page < push_bit 1 lim"
  shows "drop_bit 20 pc = page"
proof -
  have p: "unat page < 8" using assms(1) by (simp add: word_less_nat)
  have "unat (push_bit 1 lim) = 2 * unat lim"
    using assms(2) by (simp add: unat_word_ariths)
  then have off: "unat (pc - push_bit 20 page) < 2 ^ 20"
    using assms(2,3) by (simp add: word_less_nat)
  have base: "unat (push_bit 20 page) = unat page * 2 ^ 20"
    using p by (simp only: unsigned_push_bit_eq) (simp add: push_bit_eq_mult take_bit_nat_eq_self)
  define d where "d = pc - push_bit 20 page"
  define b where "b = push_bit 20 page"
  have "unat d + unat b < 2 ^ 32" using off base p by (simp add: d_def b_def)
  then have "unat (d + b) = unat d + unat b" by (simp add: unat_word_ariths)
  moreover have "d + b = pc" by (simp add: d_def b_def)
  ultimately have "unat pc = unat (pc - push_bit 20 page) + unat page * 2 ^ 20"
    using base by (simp add: d_def b_def)
  then have "unat pc div 2 ^ 20 = unat page" using off by simp
  then show ?thesis by (simp only: word_unat_eq_iff unat_div_exp)
qed

lemma fetch_uncached:
  assumes "cache_ok x" "exec_limits_ok (vmem (xm x))"
  shows "(case (fetch_inst x, fetch_inst ((recache k x)\<lparr>xcspan := 0\<rparr>)) of
      (FetchReturn y, FetchReturn z) \<Rightarrow> z = recache z y \<and> cache_ok y
    | (FetchFault y, FetchFault z) \<Rightarrow> z = recache z y \<and> cache_ok y
    | (FetchInst i y, FetchInst j z) \<Rightarrow> i = j \<and> z = recache z y \<and> cache_ok y
    | _ \<Rightarrow> False)"
proof (cases "xpc x - xcbase x \<ge> xcspan x")
  case True
  then show ?thesis
    using assms by (auto simp: fetch_inst_def read_inst_def Let_def recache_def cache_ok_def)
next
  case False
  then have c: "xcode x < 8" "xcbase x = push_bit 20 (xcode x)"
    "xcspan x = push_bit 1 (vm_memory_executable (vmem (xm x)) ! unat (xcode x))"
    using assms(1) by (auto simp: cache_ok_def)
  have lim: "unat (vm_memory_executable (vmem (xm x)) ! unat (xcode x)) \<le> 2 ^ 19"
    using assms(2) c(1) by (simp add: exec_limits_ok_def word_less_nat)
  have page: "drop_bit 20 (xpc x) = xcode x"
    using page_of_cached_pc [OF c(1) lim, of "xpc x"] False c by (simp add: not_le)
  have "drop_bit 20 TERMINATOR = 0xDEA"
    by (simp add: TERMINATOR_def drop_bit_eq_div word_unat_eq_iff unat_div)
  then have "xpc x \<noteq> TERMINATOR" using page c(1) by auto
  then show ?thesis
    using False c page assms(1)
    by (auto simp: fetch_inst_def read_inst_def Let_def recache_def cache_ok_def not_le)
qed

section \<open>Instructions keep the cache or drop it\<close>

definition same_cache :: "'e exec \<Rightarrow> 'e exec \<Rightarrow> bool" where
  "same_cache x y \<longleftrightarrow> xcode y = xcode x \<and> xcbase y = xcbase x \<and> xcspan y = xcspan x"

lemma same_cache_stack [simp]:
  "same_cache x (DDUP y) = same_cache x y" "same_cache x (DDROP y) = same_cache x y"
  "same_cache x (NIP y) = same_cache x y" "same_cache x (RDUP y) = same_cache x y"
  "same_cache x (RDROP y) = same_cache x y" "same_cache x (PUSHT a y) = same_cache x y"
  "same_cache x (set_ds i d y) = same_cache x y" "same_cache x (branch inst y) = same_cache x y"
  "same_cache x (upd_vm f y) = same_cache x y" "same_cache x x"
  by (simp_all add: same_cache_def exec_defs branch_def)

lemma same_cache_upd [simp]:
  "same_cache x (y\<lparr>xt := a\<rparr>) = same_cache x y" "same_cache x (y\<lparr>xr := a\<rparr>) = same_cache x y"
  "same_cache x (y\<lparr>xa := a\<rparr>) = same_cache x y" "same_cache x (y\<lparr>xb := a\<rparr>) = same_cache x y"
  "same_cache x (y\<lparr>xu := a\<rparr>) = same_cache x y" "same_cache x (y\<lparr>xpc := a\<rparr>) = same_cache x y"
  "same_cache x (y\<lparr>xpfx := a\<rparr>) = same_cache x y" "same_cache x (y\<lparr>xc := a\<rparr>) = same_cache x y"
  "same_cache x (y\<lparr>xdsp := a\<rparr>) = same_cache x y" "same_cache x (y\<lparr>xrsp := a\<rparr>) = same_cache x y"
  "same_cache x (y\<lparr>xm := m\<rparr>) = same_cache x y"
  by (simp_all add: same_cache_def)

lemma same_cache_left [simp]:
  "same_cache (RDROP y) z = same_cache y z" "same_cache (y\<lparr>xpc := a\<rparr>) z = same_cache y z"
  by (simp_all add: same_cache_def exec_defs)

lemma same_cache_trans: "same_cache x y \<Longrightarrow> same_cache y z \<Longrightarrow> same_cache x z"
  by (simp add: same_cache_def)

lemma same_cache_uop: "same_cache x (snd (exec_uop u x))"
  by (cases u) (simp_all add: Let_def case_prod_unfold fetch_to_T_def store_T_def)

lemma same_cache_group: "group_loop f inst slots x = Some (ior, y) \<Longrightarrow> same_cache x y"
proof (induction f arbitrary: slots x)
  case 0
  then show ?case by simp
next
  case (Suc f)
  define u where "u = decode_uop (drop_bit 27 slots)"
  define z where "z = (if u = VMU_UNEXT then x\<lparr>xr := xr x - 1\<rparr> else snd (exec_uop u x))"
  have z: "same_cache x z" "same_cache x (RDROP z)"
    using same_cache_uop [of x u] by (auto simp: z_def)
  have "same_cache z y \<or> same_cache (RDROP z) y"
    using Suc.prems
    by (cases "u = VMU_UNEXT")
       (auto simp: z_def u_def [symmetric] Let_def case_prod_unfold split: if_splits dest: Suc.IH)
  with z show ?case by (meson same_cache_trans)
qed

fun result_cache :: "'e exec \<Rightarrow> 'e insn_result \<Rightarrow> bool" where
  "result_cache x (Done i y) = (same_cache x y \<or> xcspan y = 0)"
| "result_cache x (Trapped i m) = True"

lemma result_cache_imm: "result_cache x (exec_imm ops inst iop x)"
  by (cases iop)
     (auto simp: Let_def case_prod_unfold exec_sys_def exec_tosys_def exec_fromsys_def exec_api_def
       split: api_result.splits)

lemma result_cache_insn: "exec_insn gf ops inst x = Some r \<Longrightarrow> result_cache x r"
  using result_cache_imm [of x ops inst]
  by (auto simp: exec_insn_def Let_def split: if_splits dest!: same_cache_group)

lemma cache_ok_after:
  assumes "cache_ok x" "result_cache x (Done i y)" "same_limits (vmem (xm x)) (vmem (xm y))"
  shows "cache_ok y"
  using assms by (auto simp: cache_ok_def same_cache_def same_limits_def)

lemma end_run_recache: "end_run ior steps (recache k x) = end_run ior steps x"
  by (simp add: end_run_def)

section \<open>Code limits through API calls\<close>

text \<open>What is asked of the API functions: a call that returns leaves no page's code limit beyond the
  page. It may change the limits (and everything else) otherwise.\<close>

definition api_keeps_code_limits :: "'e env_ops \<Rightarrow> bool" where
  "api_keeps_code_limits ops \<longleftrightarrow>
     (\<forall>i m ior m'. exec_limits_ok (vmem m) \<longrightarrow>
       VMapi0Call ops i m = ApiReturn ior m' \<or> VMapi1Call ops i m = ApiReturn ior m' \<longrightarrow>
       exec_limits_ok (vmem m'))"

text \<open>The other instructions do not look at the API tables: they run alike with tables that do
  nothing, and so keep the limits.\<close>

definition inert_api :: "'e env_ops \<Rightarrow> 'e env_ops" where
  "inert_api ops = ops\<lparr>VMapi0Call := \<lambda>i m. ApiReturn 0 m, VMapi1Call := \<lambda>i m. ApiReturn 0 m\<rparr>"

interpretation inert: vm_api "inert_api ops" "\<lambda>m. True" for ops :: "'e env_ops"
  by unfold_locales (auto simp: inert_api_def vmApiCall_def Let_def split: if_splits)

lemma inert_sel:
  "serial_getc (inert_api ops) = serial_getc ops" "serial_ready (inert_api ops) = serial_ready ops"
  "serial_busy (inert_api ops) = serial_busy ops" "serial_putc (inert_api ops) = serial_putc ops"
  "lcd_tx (inert_api ops) = lcd_tx ops" "lfGetTimeMicroSec (inert_api ops) = lfGetTimeMicroSec ops"
  "lfWatchdogPing (inert_api ops) = lfWatchdogPing ops"
  by (simp_all add: inert_api_def)

lemma inert_ports: "iomap_rd (inert_api ops) = iomap_rd ops" "iomap_wr (inert_api ops) = iomap_wr ops"
  by (intro ext, simp only: iomap_rd_def iomap_wr_def putc_in_vm_def inert_sel)+

lemma inert_sys: "exec_sys (inert_api ops) = exec_sys ops" "exec_tosys (inert_api ops) = exec_tosys ops"
  "exec_fromsys (inert_api ops) = exec_fromsys ops"
  by (intro ext, simp only: exec_sys_def exec_tosys_def exec_fromsys_def inert_sel inert_ports)+

lemma inert_imm: "iop \<noteq> VMO_API0 \<Longrightarrow> iop \<noteq> VMO_API1 \<Longrightarrow>
    exec_imm ops inst iop x = exec_imm (inert_api ops) inst iop x"
  by (cases iop) (simp_all only: exec_imm.simps inert_sys simp_thms)

definition limits_after :: "'e exec \<Rightarrow> 'e insn_result \<Rightarrow> bool" where
  "limits_after x r = (case r of
       Done i y \<Rightarrow> same_limits (vmem (xm x)) (vmem (xm y)) \<or>
         xcspan y = 0 \<and> (exec_limits_ok (vmem (xm x)) \<longrightarrow> exec_limits_ok (vmem (xm y)))
     | Trapped i m \<Rightarrow> True)"

lemma limits_api: "api_keeps_code_limits ops \<Longrightarrow> limits_after x (exec_api ops inst x)"
proof (cases "vmApiCall ops inst (VM_SAVE x)")
  case (ApiReturn i m)
  assume "api_keeps_code_limits ops"
  then have "exec_limits_ok (vmem (VM_SAVE x)) \<longrightarrow> exec_limits_ok (vmem m)"
    using ApiReturn unfolding vmApiCall_def Let_def api_keeps_code_limits_def
    by (metis api_result.inject(1))
  then show ?thesis
    by (simp add: exec_api_def ApiReturn limits_after_def VM_LOAD_def Let_def) (simp add: VM_SAVE_def)
qed (simp add: exec_api_def limits_after_def)

lemma limits_keeps: "result_keeps x r \<Longrightarrow> limits_after x r"
  by (cases r) (auto simp: limits_after_def keepx_def keeps_def VM_SAVE_def)

lemma limits_imm: "api_keeps_code_limits ops \<Longrightarrow> limits_after x (exec_imm ops inst iop x)"
proof (cases "iop = VMO_API0 \<or> iop = VMO_API1")
  case False
  then have "exec_imm ops inst iop x = exec_imm (inert_api ops) inst iop x" by (intro inert_imm) auto
  then show ?thesis using limits_keeps [OF inert.exec_imm_keeps] by simp
qed (auto simp: limits_api)

lemma limits_insn:
  assumes "api_keeps_code_limits ops" "exec_insn gf ops inst x = Some r"
  shows "limits_after x r"
proof (cases "inst AND VM_UOPS = 0 \<and> inst AND 0x4000 \<noteq> 0 \<and> inst AND 0x2000 \<noteq> 0")
  case True
  then show ?thesis using assms limits_imm by (auto simp: exec_insn_def)
next
  case False
  then have "exec_insn gf (inert_api ops) inst x = Some r"
    using assms(2) by (auto simp: exec_insn_def)
  then show ?thesis using limits_keeps [OF inert.exec_insn_keeps] by simp
qed

section \<open>The two loops agree\<close>

lemma recache_same: "recache x x = x"
  by (cases x) (simp add: recache_def)

lemma fetch_cases_alike:
  assumes "case (a, b) of
      (FetchReturn y, FetchReturn z) \<Rightarrow> z = recache z y \<and> cache_ok y
    | (FetchFault y, FetchFault z) \<Rightarrow> z = recache z y \<and> cache_ok y
    | (FetchInst i y, FetchInst j z) \<Rightarrow> i = j \<and> z = recache z y \<and> cache_ok y
    | _ \<Rightarrow> False"
  obtains y z where "a = FetchReturn y" "b = FetchReturn z" "z = recache z y"
    | y z where "a = FetchFault y" "b = FetchFault z" "z = recache z y"
    | i y z where "a = FetchInst i y" "b = FetchInst i z" "z = recache z y" "cache_ok y"
  using assms by (cases a; cases b) auto

lemma vm_loop_cache:
  assumes api: "api_keeps_code_limits ops"
  shows "cache_ok x \<Longrightarrow> exec_limits_ok (vmem (xm x)) \<Longrightarrow>
    vm_loop_ref f gf ops steps (recache k x) = vm_loop f gf ops steps x"
proof (induction f arbitrary: x steps k)
  case 0
  then show ?case by simp
next
  case (Suc f)
  show ?case
  proof (rule fetch_cases_alike [OF fetch_uncached [OF Suc.prems, of k]], goal_cases)
    case (1 y z)
    then have "VM_SAVE z = VM_SAVE y" by (metis recache_sel(16))
    with 1 show ?thesis by simp
  next
    case (2 y z)
    then have "end_run e steps z = end_run e steps y" for e by (metis end_run_recache)
    with 2 show ?thesis by simp
  next
    case (3 i y z)
    have xy: "same_limits (vmem (xm x)) (vmem (xm y))"
      using fetch_keeps [of x] 3(1) by (auto simp: keepx_def keeps_def VM_SAVE_def)
    have "rel_option result_alike (exec_insn gf ops i y) (exec_insn gf ops i z)"
      using recache_insn [of gf ops i y z] 3(3) by simp
    then consider "exec_insn gf ops i y = None" "exec_insn gf ops i z = None"
      | r q where "exec_insn gf ops i y = Some r" "exec_insn gf ops i z = Some q" "result_alike r q"
      by (cases rule: option.rel_cases) auto
    then show ?thesis
    proof cases
      case 1
      then show ?thesis using 3 by simp
    next
      case (2 r q)
      show ?thesis
      proof (cases r)
        case (Trapped j m)
        with 2 3 show ?thesis by (cases q) auto
      next
        case (Done j w)
        then obtain k' where q: "q = Done j (recache k' w)" using 2(3) by (cases q) auto
        have la: "limits_after y (Done j w)" using limits_insn [OF api 2(1)] Done by simp
        then have "cache_ok w"
          using cache_ok_after [OF 3(4), of j w] result_cache_insn [OF 2(1)] Done
          by (auto simp: limits_after_def cache_ok_def [of w])
        moreover have "exec_limits_ok (vmem (xm w))"
          using la same_limits_exec_limits [OF xy] same_limits_exec_limits Suc.prems
          by (auto simp: limits_after_def)
        ultimately show ?thesis
          using Suc.IH [of w] 3 2 Done q
          by (simp add: Let_def end_run_recache)
      qed
    qed
  qed
qed

text \<open>\<open>vmExec\<close> over the reference loop.\<close>

definition vmExec_ref ::
  "nat \<Rightarrow> nat \<Rightarrow> 'e env_ops \<Rightarrow> bool \<Rightarrow> u32 \<Rightarrow> u32 \<Rightarrow> 'e machine \<Rightarrow> 'e run_result option" where
  "vmExec_ref f gf ops once inst address m =
     (let x = exec_start m in
      if once then vmExec f gf ops once inst address m
      else if inst = 0 then
        vm_loop_ref f gf ops 0 ((RDUP x)\<lparr>xr := TERMINATOR, xpc := address\<rparr>)
      else vm_loop_ref f gf ops inst x)"

text \<open>C6: caching the code page does not change what a run does. From a machine whose code limits
  stay within their pages, and with API functions that return with such limits but may otherwise do
  anything, a change of the limits or of the program included, a word call or stepped run gives the
  error code and machine of one that looks the page up in the page tables for every instruction.\<close>

theorem code_cache_transparent:
  assumes "api_keeps_code_limits ops" "exec_limits_ok (vmem m)"
  shows "vmExec f gf ops once inst address m = vmExec_ref f gf ops once inst address m"
proof -
  have loop: "vm_loop_ref f gf ops steps x = vm_loop f gf ops steps x"
    if "xcspan x = 0" "xm x = upd (exec_start m)" "vmem (upd (exec_start m)) = vmem m" for x steps upd
    using vm_loop_cache [OF assms(1), of x f gf steps x] that assms(2)
    by (simp add: cache_ok_def recache_same)
  show ?thesis
    using loop [of "(RDUP (exec_start m))\<lparr>xr := TERMINATOR, xpc := address\<rparr>"
        "\<lambda>y. xm (RDUP y)"] loop [of "exec_start m" xm]
    by (simp add: vmExec_def vmExec_ref_def Let_def exec_start_def VM_LOAD_def exec_defs)
qed

text \<open>An API function that takes the right to run code away from every page, called by the first
  instruction of a word on an unlocked machine: the second instruction is refused.\<close>

definition closing_ops :: "unit env_ops" where
  "closing_ops = tiny_ops\<lparr>VMapi0Call := \<lambda>i m.
     ApiReturn 0 (m\<lparr>vmem := (vmem m)\<lparr>vm_memory_executable := replicate 8 0\<rparr>\<rparr>)\<rparr>"

lemma code_cache_transparent_witness:
  "map_option (\<lambda>r. case r of Returned i m \<Rightarrow> i | RunTrapped i m \<Rightarrow> i)
     (vmExec 3 3 closing_ops False 0 0 ((tiny_machine [0x94007C00, 0, 0, 0])\<lparr>sys_options := 0\<rparr>))
   = Some ERR_EXEC_PROTECTED"
proof -
  let ?m = "(tiny_machine [0x94007C00, 0, 0, 0])\<lparr>sys_options := 0\<rparr>"
  have "exec_limits_ok (vmem ?m)"
    by (rule wf_mem_exec_limits) (simp add: tiny_machine_def wf_tiny_mem)
  moreover have "api_keeps_code_limits closing_ops"
    by (auto simp: api_keeps_code_limits_def closing_ops_def tiny_ops_def exec_limits_ok_def word_less_nat)
  moreover have "map_option (\<lambda>r. case r of Returned i m \<Rightarrow> i | RunTrapped i m \<Rightarrow> i)
     (vmExec_ref 3 3 closing_ops False 0 0 ?m) = Some ERR_EXEC_PROTECTED"
    by code_simp
  ultimately show ?thesis using code_cache_transparent [of closing_ops ?m 3 3 False 0 0] by simp
qed

end
