(* ===== verification/LF_Pool.thy ===== *)
theory LF_Pool
  imports LF_Prelude
begin

text \<open>
  The bump allocator of \<^verbatim>\<open>src/src/memalloc.c\<close>: blocks are taken from a static array of cells, each
  followed by a cell that holds its size, and freed in reverse order. A pointer into the array is
  the index of its cell, and \<open>NULL\<close> is \<open>None\<close>. The abstract specification is a stack of blocks.
\<close>

section \<open>The allocator\<close>

definition POOL_CAPACITY :: nat where [const_defs]: "POOL_CAPACITY = 28672"

record pool_state =
  pool :: "u32 list"
  stack_top :: nat

definition pool_alloc :: "int \<Rightarrow> pool_state \<Rightarrow> nat option \<times> pool_state" where
  "pool_alloc sz p =
     (if sz \<le> 0 \<or> stack_top p + nat sz + 1 > POOL_CAPACITY then (None, p)
      else
        let ptr = stack_top p; top = stack_top p + nat sz
        in (Some ptr, p\<lparr>pool := (pool p)[top := word_of_int sz], stack_top := top + 1\<rparr>))"

text \<open>Where the newest block starts, from the size in the cell below the top. The index is an
  integer: with a broken size cell it could lie before the array.\<close>

definition newest_start :: "pool_state \<Rightarrow> int" where
  "newest_start p = int (stack_top p) - 1 - uint (pool p ! (stack_top p - 1))"

definition pool_free :: "nat option \<Rightarrow> pool_state \<Rightarrow> ior \<times> pool_state" where
  "pool_free ptr p =
     (case ptr of
        None \<Rightarrow> (0, p)
      | Some i \<Rightarrow>
          if stack_top p = 0 then (ERR_FREE_FAILED, p)
          else if int i \<noteq> newest_start p then (ERR_FREE_FAILED, p)
          else (0, p\<lparr>stack_top := nat (newest_start p)\<rparr>))"

definition pool_is_newest :: "nat option \<Rightarrow> pool_state \<Rightarrow> bool" where
  "pool_is_newest ptr p =
     (case ptr of None \<Rightarrow> False | Some i \<Rightarrow> stack_top p \<noteq> 0 \<and> int i = newest_start p)"

definition pool_reset :: "pool_state \<Rightarrow> pool_state" where
  "pool_reset p = p\<lparr>stack_top := 0\<rparr>"

definition pool_unused :: "pool_state \<Rightarrow> int" where
  "pool_unused p = int (POOL_CAPACITY - stack_top p)"

text \<open>The owner of a block writes one of its cells.\<close>

definition pool_write :: "nat \<Rightarrow> u32 \<Rightarrow> pool_state \<Rightarrow> pool_state" where
  "pool_write i d p = p\<lparr>pool := (pool p)[i := d]\<rparr>"

section \<open>A stack of blocks\<close>

text \<open>The live blocks, newest first, as start and size.\<close>

type_synonym blocks = "(nat \<times> nat) list"

fun top_of :: "blocks \<Rightarrow> nat" where
  "top_of [] = 0"
| "top_of ((s, n) # bs) = s + n + 1"

definition spec_alloc :: "int \<Rightarrow> blocks \<Rightarrow> nat option \<times> blocks" where
  "spec_alloc sz bs =
     (if sz \<le> 0 \<or> top_of bs + nat sz + 1 > POOL_CAPACITY then (None, bs)
      else (Some (top_of bs), (top_of bs, nat sz) # bs))"

fun spec_free :: "nat option \<Rightarrow> blocks \<Rightarrow> ior \<times> blocks" where
  "spec_free None bs = (0, bs)"
| "spec_free (Some i) [] = (ERR_FREE_FAILED, [])"
| "spec_free (Some i) ((s, n) # bs) = (if i = s then (0, bs) else (ERR_FREE_FAILED, (s, n) # bs))"

text \<open>A cell inside a live block.\<close>

definition owned :: "nat \<Rightarrow> blocks \<Rightarrow> bool" where
  "owned i bs \<longleftrightarrow> (\<exists>(s, n) \<in> set bs. s \<le> i \<and> i < s + n)"

section \<open>The representation\<close>

fun chain :: "blocks \<Rightarrow> bool" where
  "chain [] = True"
| "chain ((s, n) # bs) = (0 < n \<and> s = top_of bs \<and> chain bs)"

definition pool_rep :: "pool_state \<Rightarrow> blocks \<Rightarrow> bool" where
  "pool_rep p bs \<longleftrightarrow> length (pool p) = POOL_CAPACITY \<and> stack_top p = top_of bs \<and>
     top_of bs \<le> POOL_CAPACITY \<and> chain bs \<and>
     (\<forall>(s, n) \<in> set bs. pool p ! (s + n) = word_of_nat n)"

lemma chain_below: "chain bs \<Longrightarrow> (s, n) \<in> set bs \<Longrightarrow> s + n + 1 \<le> top_of bs"
proof (induction bs)
  case (Cons b bs)
  then show ?case by (cases b) auto
qed simp

text \<open>The size cells are outside every block, and the blocks are apart.\<close>

lemma chain_sizes_apart:
  "chain bs \<Longrightarrow> (s, n) \<in> set bs \<Longrightarrow> (t, k) \<in> set bs \<Longrightarrow>
    \<not> (s \<le> t + k \<and> t + k < s + n)"
proof (induction bs)
  case (Cons b bs)
  obtain u j where b: "b = (u, j)" by (cases b) auto
  then have u: "u = top_of bs" "chain bs" using Cons.prems(1) by auto
  consider "(s, n) = (u, j)" "(t, k) = (u, j)" | "(s, n) = (u, j)" "(t, k) \<in> set bs"
    | "(s, n) \<in> set bs" "(t, k) = (u, j)" | "(s, n) \<in> set bs" "(t, k) \<in> set bs"
    using Cons.prems(2,3) b by auto
  then show ?case
  proof cases
    case 2
    then show ?thesis using chain_below [OF u(2), of t k] u(1) by auto
  next
    case 3
    then show ?thesis using chain_below [OF u(2), of s n] u(1) by auto
  qed (use Cons.IH u(2) in auto)
qed simp

lemma chain_apart:
  "chain bs \<Longrightarrow> (s, n) \<in> set bs \<Longrightarrow> (t, k) \<in> set bs \<Longrightarrow> (s, n) \<noteq> (t, k) \<Longrightarrow>
    s + n < t \<or> t + k < s"
proof (induction bs)
  case (Cons b bs)
  obtain u j where b: "b = (u, j)" by (cases b) auto
  then have "u = top_of bs" "chain bs" using Cons.prems(1) by auto
  then show ?case
    using Cons.prems(2-4) Cons.IH b chain_below [of bs s n] chain_below [of bs t k] by auto
qed simp

lemma uint_size: "n \<le> POOL_CAPACITY \<Longrightarrow> uint (word_of_nat n :: u32) = int n"
  by (simp add: POOL_CAPACITY_def unsigned_of_nat take_bit_nat_eq_self)

lemma newest_start_rep:
  assumes "pool_rep p ((s, n) # bs)"
  shows "newest_start p = int s" "stack_top p \<noteq> 0"
  using assms uint_size [of n] by (auto simp: pool_rep_def newest_start_def)

lemma rep_alloc:
  assumes "pool_rep p bs"
  shows "fst (pool_alloc sz p) = fst (spec_alloc sz bs)"
    "pool_rep (snd (pool_alloc sz p)) (snd (spec_alloc sz bs))"
proof -
  have t: "stack_top p = top_of bs" using assms by (simp add: pool_rep_def)
  show "fst (pool_alloc sz p) = fst (spec_alloc sz bs)"
    by (simp add: pool_alloc_def spec_alloc_def t Let_def)
  show "pool_rep (snd (pool_alloc sz p)) (snd (spec_alloc sz bs))"
  proof (cases "sz \<le> 0 \<or> top_of bs + nat sz + 1 > POOL_CAPACITY")
    case True
    then show ?thesis using assms by (auto simp: pool_alloc_def spec_alloc_def t)
  next
    case False
    define top where "top = top_of bs + nat sz"
    have e: "snd (pool_alloc sz p) = p\<lparr>pool := (pool p)[top := word_of_nat (nat sz)], stack_top := top + 1\<rparr>"
      "snd (spec_alloc sz bs) = (top_of bs, nat sz) # bs"
      using False by (simp_all add: pool_alloc_def spec_alloc_def t Let_def top_def)
    have keep: "(pool p)[top := d] ! (s + n) = word_of_nat n" if "(s, n) \<in> set bs" for s n d
      using chain_below [of bs s n] that assms by (auto simp: pool_rep_def top_def)
    have "top < POOL_CAPACITY" "0 < nat sz" using False by (simp_all add: top_def)
    with assms show ?thesis
      unfolding e by (auto simp: pool_rep_def keep simp flip: top_def)
  qed
qed

lemma rep_free:
  assumes "pool_rep p bs"
  shows "fst (pool_free ptr p) = fst (spec_free ptr bs)"
    "pool_rep (snd (pool_free ptr p)) (snd (spec_free ptr bs))"
proof -
  have "fst (pool_free ptr p) = fst (spec_free ptr bs) \<and>
    pool_rep (snd (pool_free ptr p)) (snd (spec_free ptr bs))"
  proof (cases ptr)
    case None
    then show ?thesis using assms by (simp add: pool_free_def)
  next
    case (Some i)
    show ?thesis
    proof (cases bs)
      case Nil
      then show ?thesis using assms Some by (simp add: pool_free_def pool_rep_def)
    next
      case (Cons b r)
      obtain s n where b: "b = (s, n)" by (cases b) auto
      have "newest_start p = int s" "stack_top p \<noteq> 0"
        using newest_start_rep assms Cons b by auto
      moreover have "pool_rep (p\<lparr>stack_top := s\<rparr>) r"
        using assms Cons b by (auto simp: pool_rep_def)
      ultimately show ?thesis using Some Cons b assms by (simp add: pool_free_def)
    qed
  qed
  then show "fst (pool_free ptr p) = fst (spec_free ptr bs)"
    "pool_rep (snd (pool_free ptr p)) (snd (spec_free ptr bs))" by simp_all
qed

lemma rep_write:
  assumes "pool_rep p bs" "owned i bs"
  shows "pool_rep (pool_write i d p) bs"
proof -
  have "pool p ! (s + n) = (pool p)[i := d] ! (s + n)" if "(s, n) \<in> set bs" for s n
  proof -
    obtain a b where "(a, b) \<in> set bs" "a \<le> i" "i < a + b" using assms(2) by (auto simp: owned_def)
    then have "s + n \<noteq> i" using chain_sizes_apart [of bs a b s n] that assms(1) by (auto simp: pool_rep_def)
    then show ?thesis by simp
  qed
  then show ?thesis using assms(1) by (auto simp: pool_rep_def pool_write_def)
qed

section \<open>Sequences of operations\<close>

datatype pool_op = Alloc int | Free "nat option" | Write nat u32 | IsNewest "nat option" | Unused | Reset

datatype pool_answer = Ptr "nat option" | Ior ior | Flag bool | Count int | Ok

fun pool_step :: "pool_op \<Rightarrow> pool_state \<Rightarrow> pool_answer \<times> pool_state" where
  "pool_step (Alloc n) p = (let (q, p1) = pool_alloc n p in (Ptr q, p1))"
| "pool_step (Free ptr) p = (let (e, p1) = pool_free ptr p in (Ior e, p1))"
| "pool_step (Write i d) p = (Ok, pool_write i d p)"
| "pool_step (IsNewest ptr) p = (Flag (pool_is_newest ptr p), p)"
| "pool_step Unused p = (Count (pool_unused p), p)"
| "pool_step Reset p = (Ok, pool_reset p)"

fun spec_step :: "pool_op \<Rightarrow> blocks \<Rightarrow> pool_answer \<times> blocks" where
  "spec_step (Alloc n) bs = (let (q, r) = spec_alloc n bs in (Ptr q, r))"
| "spec_step (Free ptr) bs = (let (e, r) = spec_free ptr bs in (Ior e, r))"
| "spec_step (Write i d) bs = (Ok, bs)"
| "spec_step (IsNewest ptr) bs =
     (Flag (case ptr of None \<Rightarrow> False | Some i \<Rightarrow> bs \<noteq> [] \<and> i = fst (hd bs)), bs)"
| "spec_step Unused bs = (Count (int POOL_CAPACITY - int (top_of bs)), bs)"
| "spec_step Reset bs = (Ok, [])"

fun run_steps :: "('o \<Rightarrow> 's \<Rightarrow> 'a \<times> 's) \<Rightarrow> 'o list \<Rightarrow> 's \<Rightarrow> 'a list \<times> 's" where
  "run_steps f [] s = ([], s)"
| "run_steps f (x # xs) s = (let (a, s1) = f x s; (as, s2) = run_steps f xs s1 in (a # as, s2))"

text \<open>Owners write only inside their live blocks.\<close>

fun writes_owned :: "pool_op list \<Rightarrow> blocks \<Rightarrow> bool" where
  "writes_owned [] bs = True"
| "writes_owned (x # xs) bs =
     ((case x of Write i d \<Rightarrow> owned i bs | _ \<Rightarrow> True) \<and> writes_owned xs (snd (spec_step x bs)))"

lemma step_refines:
  assumes "pool_rep p bs" "writes_owned [x] bs"
  shows "fst (pool_step x p) = fst (spec_step x bs) \<and> pool_rep (snd (pool_step x p)) (snd (spec_step x bs))"
proof (cases x)
  case (IsNewest ptr)
  show ?thesis
  proof (cases bs)
    case Nil
    then show ?thesis using assms IsNewest by (auto simp: pool_is_newest_def pool_rep_def split: option.split)
  next
    case (Cons b r)
    obtain s n where b: "b = (s, n)" by (cases b) auto
    have "newest_start p = int s" "stack_top p \<noteq> 0"
      using newest_start_rep assms(1) Cons b by auto
    then show ?thesis using IsNewest Cons b assms(1) by (auto simp: pool_is_newest_def split: option.split)
  qed
next
  case (Alloc n)
  then show ?thesis using rep_alloc [OF assms(1), of n] by (simp add: case_prod_unfold Let_def)
next
  case (Free ptr)
  then show ?thesis using rep_free [OF assms(1), of ptr] by (simp add: case_prod_unfold Let_def)
next
  case (Write i d)
  then show ?thesis using rep_write [OF assms(1), of i d] assms(2) by simp
next
  case Unused
  then show ?thesis using assms(1) by (simp add: pool_unused_def pool_rep_def of_nat_diff)
next
  case Reset
  then show ?thesis using assms(1) by (simp add: pool_reset_def pool_rep_def)
qed

text \<open>C13: for every sequence of operations whose writes stay inside live blocks, the allocator
  answers exactly as a stack of blocks does: what it allocates, which frees it accepts or refuses as
  misordered, which block is the newest and what is left; and the size cells survive it all.\<close>

theorem pool_refines_stack:
  assumes "pool_rep p bs" "writes_owned xs bs"
  shows "fst (run_steps pool_step xs p) = fst (run_steps spec_step xs bs) \<and>
    pool_rep (snd (run_steps pool_step xs p)) (snd (run_steps spec_step xs bs))"
  using assms
proof (induction xs arbitrary: p bs)
  case (Cons x xs)
  have "writes_owned [x] bs" using Cons.prems(2) by simp
  with Cons.prems(1) have "fst (pool_step x p) = fst (spec_step x bs) \<and>
      pool_rep (snd (pool_step x p)) (snd (spec_step x bs))"
    by (rule step_refines)
  with Cons.IH [of "snd (pool_step x p)" "snd (spec_step x bs)"] Cons.prems(2) show ?case
    by (auto simp: case_prod_unfold Let_def)
qed simp

definition empty_pool :: pool_state where
  "empty_pool = \<lparr>pool = replicate POOL_CAPACITY 0, stack_top = 0\<rparr>"

lemma pool_rep_empty: "pool_rep empty_pool []"
  by (simp add: pool_rep_def empty_pool_def)

text \<open>Two blocks, a write, a misordered free and the two frees in order.\<close>

lemma pool_refines_stack_witness:
  "fst (run_steps pool_step
     [Alloc 3, Alloc 2, Write 5 9, Free (Some 0), Free (Some 4), Free (Some 0)] empty_pool) =
    [Ptr (Some 0), Ptr (Some 4), Ok, Ior ERR_FREE_FAILED, Ior 0, Ior 0]"
  using pool_refines_stack [OF pool_rep_empty,
      of "[Alloc 3, Alloc 2, Write 5 9, Free (Some 0), Free (Some 4), Free (Some 0)]"]
  by (simp add: spec_alloc_def POOL_CAPACITY_def owned_def)

section \<open>What an owner may rely on\<close>

text \<open>The blocks a client holds, from the answers it got: a block it was given, until the free that
  the allocator accepted.\<close>

fun live_step :: "pool_op \<Rightarrow> pool_answer \<Rightarrow> blocks \<Rightarrow> blocks" where
  "live_step (Alloc n) (Ptr (Some i)) bs = (i, nat n) # bs"
| "live_step (Free (Some i)) (Ior e) bs = (if e = 0 then filter (\<lambda>b. fst b \<noteq> i) bs else bs)"
| "live_step Reset a bs = []"
| "live_step x a bs = bs"

inductive held :: "pool_state \<Rightarrow> blocks \<Rightarrow> bool" where
  held_start: "held empty_pool []"
| held_step: "held p bs \<Longrightarrow> writes_owned [x] bs \<Longrightarrow> pool_step x p = (a, q) \<Longrightarrow>
    held q (live_step x a bs)"

lemma live_step_spec: "chain bs \<Longrightarrow> live_step x (fst (spec_step x bs)) bs = snd (spec_step x bs)"
proof (cases x)
  case (Free ptr)
  assume c: "chain bs"
  have f: "filter (\<lambda>b. fst b \<noteq> top_of r) r = r" if "chain r" for r
    using chain_below [OF that] by (force simp: filter_id_conv)
  show ?thesis
  proof (cases ptr)
    case (Some i)
    show ?thesis
    proof (cases bs)
      case (Cons b r)
      then obtain n where "b = (top_of r, n)" "chain r" using c by (cases b) auto
      then show ?thesis using Free Some Cons f by (simp add: ERR_FREE_FAILED_def)
    qed (simp add: Free Some ERR_FREE_FAILED_def)
  qed (simp add: Free)
qed (auto simp: spec_alloc_def Let_def)

lemma held_rep: "held p bs \<Longrightarrow> pool_rep p bs"
proof (induction rule: held.induct)
  case held_start
  then show ?case by (rule pool_rep_empty)
next
  case (held_step p bs x a q)
  then have "a = fst (spec_step x bs)" "pool_rep q (snd (spec_step x bs))"
    using step_refines [of p bs x] by auto
  then show ?case using live_step_spec [of bs x] held_step.IH by (simp add: pool_rep_def)
qed

text \<open>The cells an operation changes: the one written, or the size cell of a new block.\<close>

lemma step_cells:
  assumes "pool_rep p bs" "pool_step x p = (a, q)" "(s, n) \<in> set bs" "s \<le> j" "j < s + n"
    and "\<forall>d. x \<noteq> Write j d"
  shows "pool q ! j = pool p ! j"
proof -
  have j: "j < stack_top p" using chain_below [of bs s n] assms by (auto simp: pool_rep_def)
  show ?thesis
  proof (cases x)
    case (Alloc sz)
    then show ?thesis using assms(2) j by (auto simp: pool_alloc_def Let_def split: if_splits)
  next
    case (Free ptr)
    then show ?thesis using assms(2) by (auto simp: pool_free_def split: option.splits if_splits)
  qed (use assms in \<open>auto simp: pool_write_def pool_reset_def\<close>)
qed

text \<open>C14: owners do not disturb each other. After any operations from an empty pool in which
  clients write only inside blocks they hold, and for any next operation: every block then held lies
  inside the array, with its size cell, and apart from every other (a block just allocated
  included); and every cell of a block held before keeps its contents unless the operation is a
  client's write to that very cell.\<close>

theorem pool_blocks_apart:
  assumes "held p bs" "writes_owned [x] bs" "pool_step x p = (a, q)"
  shows "(\<forall>(s, n) \<in> set (live_step x a bs). s + n < length (pool q) \<and>
      (\<forall>(t, k) \<in> set (live_step x a bs). (s, n) \<noteq> (t, k) \<longrightarrow> s + n < t \<or> t + k < s)) \<and>
    (\<forall>(s, n) \<in> set bs. \<forall>j. s \<le> j \<and> j < s + n \<and> (\<forall>d. x \<noteq> Write j d) \<longrightarrow> pool q ! j = pool p ! j)"
proof -
  have "pool_rep q (live_step x a bs)" using held_rep held_step [OF assms] by blast
  then have q: "chain (live_step x a bs)" "length (pool q) = POOL_CAPACITY"
    "top_of (live_step x a bs) \<le> POOL_CAPACITY" by (auto simp: pool_rep_def)
  have "s + n < length (pool q)" if "(s, n) \<in> set (live_step x a bs)" for s n
    using chain_below [OF q(1) that] q by linarith
  moreover have "s + n < t \<or> t + k < s" if "(s, n) \<in> set (live_step x a bs)"
    "(t, k) \<in> set (live_step x a bs)" "(s, n) \<noteq> (t, k)" for s n t k
    using chain_apart [OF q(1) that] .
  moreover have "pool q ! j = pool p ! j"
    if "(s, n) \<in> set bs" "s \<le> j" "j < s + n" "\<forall>d. x \<noteq> Write j d" for s n j
    using step_cells [OF held_rep [OF assms(1)] assms(3) that] .
  ultimately show ?thesis by (simp only: split_def prod.collapse) (metis prod.collapse)
qed

text \<open>A block of three cells, the last written, then a second block: it starts after the size cell.\<close>

lemma pool_blocks_apart_witness:
  "pool (snd (run_steps pool_step [Alloc 3, Write 2 9, Alloc 2] empty_pool)) ! 2 = 9"
proof -
  let ?p = "snd (run_steps pool_step [Alloc 3, Write 2 9] empty_pool)"
  have "held (snd (pool_step (Alloc 3) empty_pool)) [(0, 3)]"
    using held_step [OF held_start, of "Alloc 3"]
    by (simp add: pool_alloc_def empty_pool_def POOL_CAPACITY_def Let_def)
  from held_step [OF this, of "Write 2 9"] have p: "held ?p [(0, 3)]"
    by (simp add: owned_def case_prod_unfold Let_def)
  have "snd (pool_step (Alloc 2) ?p) = snd (run_steps pool_step [Alloc 3, Write 2 9, Alloc 2] empty_pool)"
    by (simp add: case_prod_unfold Let_def)
  moreover have "pool ?p ! 2 = 9"
    by (simp add: pool_alloc_def empty_pool_def POOL_CAPACITY_def Let_def pool_write_def)
  moreover have "pool (snd (pool_step (Alloc 2) ?p)) ! 2 = pool ?p ! 2"
    using pool_blocks_apart [OF p, of "Alloc 2" "fst (pool_step (Alloc 2) ?p)" "snd (pool_step (Alloc 2) ?p)"]
    by (simp del: pool_step.simps)
  ultimately show ?thesis by simp
qed

end
