(* ===== verification/LF_Errors.thy ===== *)
theory LF_Errors
  imports LF_Prelude
begin

text \<open>
  The error messages of \<^verbatim>\<open>src/src/utils.c\<close>: the table and the lookup, which tries the position an
  error code has in a table without gaps before it searches.
\<close>

definition error_table :: "(ior \<times> string) list" where
  "error_table =
   [(ERR_ABORT, ''ABORT''),
    (ERR_ABORT_QUOTE, ''ABORT'' @ [CHR 0x22]),
    (ERR_STACK_OVERFLOW, ''stack overflow''),
    (ERR_STACK_UNDERFLOW, ''stack underflow''),
    (ERR_RSTACK_OVERFLOW, ''return stack overflow''),
    (ERR_RSTACK_UNDERFLOW, ''return stack underflow''),
    (ERR_DO_LOOPS_NESTED, ''do-loops nested too deeply''),
    (ERR_DICTIONARY_OVERFLOW, ''dictionary overflow''),
    (ERR_INVALID_ADDRESS, ''invalid memory address''),
    (ERR_DIVISION_BY_ZERO, ''division by zero''),
    (ERR_RESULT_OUT_OF_RANGE, ''result out of range''),
    (ERR_ARGUMENT_TYPE_MISMATCH, ''argument type mismatch''),
    (ERR_UNDEFINED_WORD, ''undefined word''),
    (ERR_INTERPRET_COMPILE_ONLY, ''interpreting a compile-only word''),
    (ERR_INVALID_FORGET, ''invalid FORGET''),
    (ERR_ZERO_LENGTH_NAME, ''attempt to use zero-length string as a name''),
    (ERR_PICTURED_NUM_OVERFLOW, ''pictured numeric output string overflow''),
    (ERR_PARSED_STRING_OVERFLOW, ''parsed string overflow''),
    (ERR_DEFINITION_TOO_LONG, ''definition name too long''),
    (ERR_WRITE_PROTECTED, ''write address prohibited''),
    (ERR_UNSUPPORTED_OPERATION, ''unsupported operation''),
    (ERR_CONTROL_STRUCTURE, ''control structure mismatch''),
    (ERR_ADDRESS_ALIGNMENT, ''address alignment exception''),
    (ERR_INVALID_NUMERIC, ''invalid numeric argument''),
    (ERR_RETURN_STACK_IMBALANCE, ''return stack imbalance''),
    (ERR_LOOP_PARAMETERS_INVALID, ''loop parameters unavailable''),
    (ERR_INVALID_COMPUTE_PAD, ''invalid recursion / PAD overflow''),
    (ERR_USER_INTERRUPT, ''user interrupt / break''),
    (ERR_COMPILER_NESTING, ''compiler nesting error''),
    (ERR_OBSOLETE_FEATURE, ''obsolete feature''),
    (ERR_BODY_ON_NON_CREATE, ''>BODY used on non-CREATEd definition''),
    (ERR_INVALID_NAME_ARGUMENT, ''invalid name argument (e.g. TO name)''),
    (ERR_BLOCK_READ_ERROR, ''block read exception''),
    (ERR_BLOCK_WRITE_ERROR, ''block write exception''),
    (ERR_INVALID_BLOCK_NUMBER, ''invalid block number''),
    (ERR_INVALID_FILE_POSITION, ''invalid file position''),
    (ERR_FILE_IO_ERROR, ''file I/O exception''),
    (ERR_FILE_NOT_FOUND, ''non-existent file''),
    (ERR_UNEXPECTED_EOF, ''unexpected end of file''),
    (ERR_INVALID_BASE, ''invalid BASE''),
    (ERR_LOSS_OF_PRECISION, ''loss of precision''),
    (ERR_FP_DIVIDE_BY_ZERO, ''floating-point divide by zero''),
    (ERR_FP_RESULT_OUT_OF_RANGE, ''floating-point result out of range''),
    (ERR_FP_STACK_OVERFLOW, ''floating-point stack overflow''),
    (ERR_FP_STACK_UNDERFLOW, ''floating-point stack underflow''),
    (ERR_FP_INVALID_ARGUMENT, ''floating-point invalid argument''),
    (ERR_COMPILATION_ONLY, ''compilation-only word''),
    (ERR_INVALID_POSTPONE, ''invalid POSTPONE''),
    (ERR_SEARCH_ORDER_OVERFLOW, ''search-order overflow''),
    (ERR_SEARCH_ORDER_UNDERFLOW, ''search-order underflow''),
    (ERR_COMPILATION_PASS_ERROR, ''compilation monitor error''),
    (ERR_CONTROL_STRUCTURE_OVER, ''control-structure stack overflow''),
    (ERR_EXCEPTION_STACK_OVERFLOW, ''exception stack overflow''),
    (ERR_FLOATING_POINT_UNAVAIL, ''floating-point exception''),
    (ERR_FP_UNIDENTIFIED_FAULT, ''floating-point unknown error''),
    (ERR_QUIT, ''QUIT''),
    (ERR_EXCEPTION_IN_CHAR, ''exception in sending or receiving a character''),
    (ERR_IF_NOT_FINISHED, ''[IF], [ELSE], or [THEN] exception''),
    (ERR_ALLOCATE_FAILED, ''ALLOCATE failed''),
    (ERR_FREE_FAILED, ''FREE failed''),
    (ERR_RERESIZE_FAILED, ''RESIZE failed''),
    (ERR_CLOSE_FILE_FAILED, ''CLOSE-FILE failed''),
    (ERR_CREATE_FILE_FAILED, ''CREATE-FILE failed''),
    (ERR_DELETE_FILE_FAILED, ''DELETE-FILE failed''),
    (ERR_FILE_POSITION_FAILED, ''FILE-POSITION failed''),
    (ERR_FILE_SIZE_FAILED, ''FILE-SIZE failed''),
    (ERR_INCLUDE_FILE_FAILED, ''INCLUDE-FILE failed''),
    (ERR_LINE_READ_FAILED, ''READ-LINE failed''),
    (ERR_FILE_READ_FAILED, ''READ-FILE failed''),
    (ERR_RENAME_FILE_FAILED, ''RENAME-FILE failed''),
    (ERR_SET_FILE_POS_FAILED, ''REPOSITION-FILE failed''),
    (ERR_RESIZE_FILE_FAILED, ''RESIZE-FILE failed''),
    (ERR_FLUSH_FILE_FAILED, ''FLUSH-FILE failed''),
    (ERR_WRITE_FILE_FAILED, ''WRITE-FILE failed''),
    (ERR_WRITE_LINE_FAILED, ''WRITE-LINE failed''),
    (ERR_MALFORMED_UTF8, ''malformed UTF-8 string''),
    (ERR_INVALID_NAME, ''System definition name error''),
    (ERR_CALLBACK_FAILED, ''CALLBACK failed''),
    (ERR_RESERVED_FORTH2012, ''ERASE error / invalid memory region''),
    (ERR_INVALID_HANDLE, ''The active port handle is invalid or uninitialized''),
    (ERR_TERM_NOT_A_TTY, ''Device is not an interactive terminal''),
    (ERR_PORT_OPEN_FAILED, ''OS failed to open the serial port''),
    (ERR_GET_TERM_FAILED, ''Failed to read port/terminal capabilities''),
    (ERR_SET_TERM_FAILED, ''Failed to write new configurations''),
    (ERR_IO_CHECK_FAILED, ''Driver query or select() polling failed''),
    (ERR_TERM_TX_FAILED, ''TTY transmission failed''),
    (ERR_TERM_RX_FAILED, ''TTY reception failed''),
    (ERR_BLK_CREATE_FAIL, ''Failed to create the binary simulation file''),
    (ERR_BLK_WRITE_INIT, ''Failed to format initial blank file template''),
    (ERR_BLK_OPEN_FAIL, ''Failed to open the mass storage file''),
    (ERR_BLK_PARSE_FAIL, ''Block 0 header missing signature or parsing failed''),
    (ERR_BLK_BOUNDS, ''Target block index exceeds allocated file capacity''),
    (ERR_BLK_SEEK_FAIL, ''Failed to seek to target block offset''),
    (ERR_BLK_READ_FAIL, ''Disk read failed to yield full 4KB payload''),
    (ERR_BLK_WRITE_FAIL, ''Disk write failed to persist full 4KB payload''),
    (ERR_BLK_WRITE_PROTECTED, ''Attempted write onto a write-protected block range''),
    (ERR_FLASH_CREATE_FAIL, ''Failed to create the binary simulation file''),
    (ERR_FLASH_WRITE_INIT, ''Failed to write the full initial blank state to disk''),
    (ERR_FLASH_INVALID_SECTOR, ''The requested sector index falls outside valid bounds''),
    (ERR_FLASH_OPEN_WRITE, ''Failed to open the simulation file for writing/updating''),
    (ERR_FLASH_SEEK_FAIL, ''Failed to seek to the start offset of the requested sector''),
    (ERR_FLASH_WRITE_SECTOR, ''Failed to write the complete block data to the sector slot''),
    (ERR_EXEC_PROTECTED, ''execution address prohibited''),
    (ERR_INVALID_API_CALL, ''invalid API call''),
    (ERR_INVALID_OPCODE, ''invalid VM opcode''),
    (ERR_WRONG_RESULTS, ''assertion - wrong results''),
    (ERR_WRONG_NUM_RESULTS, ''assertion - wrong number of results''),
    (ERR_INVALID_MEMORY_PAGE, ''invalid memory page (>= `pages`)''),
    (ERR_TIB_OVERFLOW, ''TIB filled up before EOL was seen''),
    (ERR_WID_OVERFLOW, ''Wordlist allocation overflowed''),
    (ERR_TOO_MANY_BITS, ''Only 1 to 32 bits are allowed in a bit field''),
    (ERR_INTERPRETATION_ONLY, ''Word may not be compiled''),
    (ERR_POSTPONING_CONSTANT, ''a constant cannot be postponed''),
    (ERR_NO_API_CALL_ALLOWED, ''API call attempted while all API calls are disabled''),
    (ERR_VM_BREAK, ''VM break instruction executed''),
    (ERR_VM_TIMEOUT, ''VM ran too long before `break`''),
    (ERR_BAD_BOOT_RECORD, ''no valid `save-wids` boot record in flash''),
    (ERR_BAD_STACK_ALLOCATION, ''Not enough stack for requested task usage''),
    (ERR_UNRESOLVED_LATER, ''Unresolved `later` found''),
    (ERR_CANNOT_DOES, ''Cannot resolve the CREATE of DOES>''),
    (ERR_EMPTY_TASKER, ''Attempt to `activate` a task before `multitask`''),
    (ERR_MUST_HAVE_HEADS, ''Missing `-heads`, cannot save heads''),
    (ERR_YMODEM_TRANSFER, ''YMODEM transfer failed or cancelled''),
    (ERR_YMODEM_SOURCE, ''Bad file in a YMODEM transfer''),
    (ERR_BLK_BUSY, ''A block transfer is still in progress''),
    (ERR_BLK_TIMEOUT, ''A block transfer took too long''),
    (ERR_BUS_FAULT, ''CPU access fault: no memory or peripheral there''),
    (ERR_CPU_EXCEPTION, ''Other CPU exception (illegal instruction etc.)'')]"

text \<open>The search for codes that are out of order.\<close>

fun search_table :: "(ior \<times> string) list \<Rightarrow> ior \<Rightarrow> string" where
  "search_table [] err_code = ''Unknown error code''"
| "search_table ((code, msg) # rest) err_code =
     (if code = err_code then msg else search_table rest err_code)"

definition get_error_message :: "ior \<Rightarrow> string" where
  "get_error_message err_code =
     (if err_code = 0 then ''No error''
      else
        let index = - err_code - 1 in
        if 0 \<le> index \<and> index < int (length error_table) \<and> fst (error_table ! nat index) = err_code
        then snd (error_table ! nat index)
        else search_table error_table err_code)"

lemma error_codes: "map fst error_table = map (\<lambda>i. - (int i + 1)) [0..<128]"
  by (simp add: error_table_def upt_rec)

lemma length_error_table [simp]: "length error_table = 128"
  using arg_cong [OF error_codes, of length] by simp

lemma error_code_at: "i < 128 \<Longrightarrow> fst (error_table ! i) = - (int i + 1)"
  using arg_cong [OF error_codes, of "\<lambda>xs. xs ! i"] by simp

lemma search_other: "err_code \<notin> fst ` set t \<Longrightarrow> search_table t err_code = ''Unknown error code''"
  by (induction t err_code rule: search_table.induct) auto

lemma table_codes: "fst ` set error_table = {- 128..- 1}"
proof -
  have "fst ` set error_table = (\<lambda>i. - (int i + 1)) ` {0..<128}"
    using arg_cong [OF error_codes, of set] by simp
  also have "\<dots> = {- 128..- 1}"
  proof
    show "{- 128..- 1} \<subseteq> (\<lambda>i. - (int i + 1)) ` {0..<128}"
    proof
      fix e :: int assume "e \<in> {- 128..- 1}"
      then show "e \<in> (\<lambda>i. - (int i + 1)) ` {0..<128}"
        by (intro image_eqI [where x = "nat (- e - 1)"]) auto
    qed
  qed auto
  finally show ?thesis .
qed

text \<open>every error code of the system, -1 to -128, has its message at its own place in the table,
  so the fast lookup always finds it; any other code but 0 is reported as unknown.\<close>

theorem error_message_lookup:
  "get_error_message err_code =
    (if err_code = 0 then ''No error''
     else if err_code \<in> {- 128..- 1} then snd (error_table ! nat (- err_code - 1))
     else ''Unknown error code'')"
proof (cases "err_code \<in> {- 128..- 1}")
  case True
  then have "fst (error_table ! nat (- err_code - 1)) = err_code"
    using error_code_at [of "nat (- err_code - 1)"] by auto
  with True show ?thesis by (auto simp: get_error_message_def Let_def)
next
  case False
  then have "\<not> (0 \<le> - err_code - 1 \<and> - err_code - 1 < 128)" by auto
  then show ?thesis
    using False search_other [of err_code error_table]
    by (auto simp: get_error_message_def Let_def table_codes)
qed

end
