(* ===== verification/LF_Blocks.thy ===== *)
theory LF_Blocks
  imports VM_State
begin

text \<open>
  The block buffers of \<^verbatim>\<open>src/src/lfblocks.c\<close>: a write-back cache of the block device with
  least-recently-used eviction, and the Forth words over it. The device functions \<open>blk_read\<close> and
  \<open>blk_write\<close> are the target's; what the cache relies on is the locale \<open>block_device\<close>. The buffers'
  4 KB payloads (in the RAM page from \<open>F_BLOCKBUFS\<close> on) are a list of blocks.
\<close>

section \<open>State\<close>

definition SYSTEM_BLOCKS :: nat where [const_defs]: "SYSTEM_BLOCKS = 2"
definition BLOCK_SIZE_CELLS :: nat where [const_defs]: "BLOCK_SIZE_CELLS = 1024"
definition UNASSIGNED_BLOCK :: u32 where [const_defs]: "UNASSIGNED_BLOCK = 0xFFFFFFFF"
definition LF_BLOCKBUFS :: u32 where [const_defs]: "LF_BLOCKBUFS = push_bit 19 4 OR 48"

record BlockBufferState =
  block_id :: u32
  is_dirty :: bool
  last_used :: u32

record 'd block_ops =
  blk_read :: "u32 \<Rightarrow> u32 list \<Rightarrow> 'd \<Rightarrow> ior \<times> u32 list \<times> 'd"
  blk_write :: "u32 \<Rightarrow> u32 list \<Rightarrow> 'd \<Rightarrow> ior \<times> 'd"

record 'd block_sys =
  buf_state :: "BlockBufferState list"
  payload :: "u32 list list"
  lru_clock :: u32
  active_buf_idx :: int
  initialized :: bool
  device :: 'd
  g_block_capacity :: u32

section \<open>Buffers\<close>

definition unassigned_buf :: BlockBufferState where
  "unassigned_buf = \<lparr>block_id = UNASSIGNED_BLOCK, is_dirty = False, last_used = 0\<rparr>"

definition init_buffer_system :: "'d block_sys \<Rightarrow> 'd block_sys" where
  "init_buffer_system s =
     s\<lparr>buf_state := replicate SYSTEM_BLOCKS unassigned_buf, lru_clock := 0, active_buf_idx := - 1,
       initialized := True\<rparr>"

definition upd_buf :: "nat \<Rightarrow> (BlockBufferState \<Rightarrow> BlockBufferState) \<Rightarrow> 'd block_sys \<Rightarrow> 'd block_sys" where
  "upd_buf i f s = s\<lparr>buf_state := (buf_state s)[i := f (buf_state s ! i)]\<rparr>"

text \<open>The first buffer with a property, as the search loops find it.\<close>

definition find_buf :: "(BlockBufferState \<Rightarrow> bool) \<Rightarrow> 'd block_sys \<Rightarrow> nat option" where
  "find_buf P s = find (\<lambda>i. P (buf_state s ! i)) [0..<SYSTEM_BLOCKS]"

definition sync_buffer :: "'d block_ops \<Rightarrow> nat \<Rightarrow> 'd block_sys \<Rightarrow> ior \<times> 'd block_sys" where
  "sync_buffer ops i s =
     (let b = buf_state s ! i in
      if block_id b \<noteq> UNASSIGNED_BLOCK \<and> is_dirty b then
        let (err, d) = blk_write ops (block_id b) (payload s ! i) (device s); s1 = s\<lparr>device := d\<rparr>
        in if err \<noteq> 0 then (err, s1) else (0, upd_buf i (\<lambda>b. b\<lparr>is_dirty := False\<rparr>) s1)
      else (0, s))"

text \<open>The least recently used buffer: the first one with the smallest clock.\<close>

definition lru_index :: "'d block_sys \<Rightarrow> nat" where
  "lru_index s =
     fst (foldl (\<lambda>(idx, min_clock) i.
            if last_used (buf_state s ! i) < min_clock then (i, last_used (buf_state s ! i))
            else (idx, min_clock))
          (0, last_used (buf_state s ! 0)) [1..<SYSTEM_BLOCKS])"

definition find_or_allocate_buffer ::
  "'d block_ops \<Rightarrow> u32 \<Rightarrow> 'd block_sys \<Rightarrow> ior \<times> nat \<times> 'd block_sys" where
  "find_or_allocate_buffer ops blk s =
     (let s0 = (if initialized s then s else init_buffer_system s) in
      case find_buf (\<lambda>b. block_id b = blk) s0 of
        Some i \<Rightarrow> (0, i, s0)
      | None \<Rightarrow>
          (case find_buf (\<lambda>b. block_id b = UNASSIGNED_BLOCK) s0 of
             Some i \<Rightarrow> (0, i, s0)
           | None \<Rightarrow>
               let lru_idx = lru_index s0; (err, s1) = sync_buffer ops lru_idx s0
               in if err \<noteq> 0 then (err, lru_idx, s1)
                  else (0, lru_idx,
                        upd_buf lru_idx (\<lambda>b. b\<lparr>block_id := UNASSIGNED_BLOCK, is_dirty := False\<rparr>) s1)))"

definition buffer_address :: "nat \<Rightarrow> u32" where
  "buffer_address i = LF_BLOCKBUFS + word_of_nat (i * BLOCK_SIZE_CELLS)"

text \<open>Make buffer i the newest and the one \<open>update\<close> marks.\<close>

definition touch :: "nat \<Rightarrow> 'd block_sys \<Rightarrow> 'd block_sys" where
  "touch i s =
     (let clk = lru_clock s + 1
      in upd_buf i (\<lambda>b. b\<lparr>last_used := clk\<rparr>) (s\<lparr>lru_clock := clk, active_buf_idx := int i\<rparr>))"

definition lfAssignBlock ::
  "'d block_ops \<Rightarrow> u32 \<Rightarrow> u32 \<Rightarrow> 'd block_sys \<Rightarrow> ior \<times> u32 \<times> 'd block_sys" where
  "lfAssignBlock ops blk f_addr s =
     (if blk \<ge> g_block_capacity s then (ERR_BLK_BOUNDS, f_addr, s)
      else
        case (if initialized s then find_buf (\<lambda>b. block_id b = blk) s else None) of
          Some i \<Rightarrow> (0, buffer_address i, touch i s)
        | None \<Rightarrow>
            let (err, i, s1) = find_or_allocate_buffer ops blk s in
            if err \<noteq> 0 then (ERR_BLOCK_READ_ERROR, f_addr, s1)
            else
              let (err, data, d) = blk_read ops blk (payload s1 ! i) (device s1);
                  s2 = s1\<lparr>payload := (payload s1)[i := data], device := d\<rparr>
              in if err \<noteq> 0 then (err, f_addr, s2)
                 else (0, buffer_address i,
                       touch i (upd_buf i (\<lambda>b. b\<lparr>block_id := blk, is_dirty := False\<rparr>) s2)))"

definition assignBuffer :: "'d block_ops \<Rightarrow> u32 \<Rightarrow> 'd block_sys \<Rightarrow> ior \<times> nat \<times> 'd block_sys" where
  "assignBuffer ops blk s =
     (let (err, i, s1) = find_or_allocate_buffer ops blk s in
      if err \<noteq> 0 then (ERR_BLOCK_WRITE_ERROR, i, s1)
      else (0, i, touch i (upd_buf i (\<lambda>b. b\<lparr>block_id := blk\<rparr>) s1)))"

text \<open>The buffer \<open>lfBlockBuffer\<close> gives C a pointer to.\<close>

definition lfBlockBuffer :: "'d block_ops \<Rightarrow> u32 \<Rightarrow> 'd block_sys \<Rightarrow> ior \<times> nat \<times> 'd block_sys" where
  "lfBlockBuffer ops blk s =
     (if blk \<ge> g_block_capacity s then (ERR_BLK_BOUNDS, 0, s) else assignBuffer ops blk s)"

definition lfAPI_update :: "'d block_sys \<Rightarrow> ior \<times> 'd block_sys" where
  "lfAPI_update s =
     (if 0 \<le> active_buf_idx s \<and> active_buf_idx s < int SYSTEM_BLOCKS \<and>
         block_id (buf_state s ! nat (active_buf_idx s)) \<noteq> UNASSIGNED_BLOCK
      then (0, upd_buf (nat (active_buf_idx s)) (\<lambda>b. b\<lparr>is_dirty := True\<rparr>) s)
      else (0, s))"

fun save_loop :: "'d block_ops \<Rightarrow> nat list \<Rightarrow> 'd block_sys \<Rightarrow> ior \<times> 'd block_sys" where
  "save_loop ops [] s = (0, s)"
| "save_loop ops (i # is) s =
     (let (err, s1) = sync_buffer ops i s in
      if err \<noteq> 0 then (err, s1) else save_loop ops is s1)"

definition lfAPI_saveBuffers :: "'d block_ops \<Rightarrow> 'd block_sys \<Rightarrow> ior \<times> 'd block_sys" where
  "lfAPI_saveBuffers ops s =
     (if \<not> initialized s then (0, s) else save_loop ops [0..<SYSTEM_BLOCKS] s)"

definition lfAPI_emptyBuffers :: "'d block_sys \<Rightarrow> ior \<times> 'd block_sys" where
  "lfAPI_emptyBuffers s = (0, init_buffer_system s)"

definition lfAPI_flush :: "'d block_ops \<Rightarrow> 'd block_sys \<Rightarrow> ior \<times> 'd block_sys" where
  "lfAPI_flush ops s =
     (let (status, s1) = lfAPI_saveBuffers ops s in
      if status \<noteq> 0 then (status, s1) else lfAPI_emptyBuffers s1)"

text \<open>The words with stack arguments, on the VM state as well.\<close>

definition lfAPI_block :: "'d block_ops \<Rightarrow> vm_state \<Rightarrow> 'd block_sys \<Rightarrow> ior \<times> vm_state \<times> 'd block_sys" where
  "lfAPI_block ops v s =
     (let (blk, v1) = vmPop v; (ior, f_addr, s1) = lfAssignBlock ops blk 0 s
      in (ior, snd (vmPush f_addr v1), s1))"

definition lfAPI_buffer :: "'d block_ops \<Rightarrow> vm_state \<Rightarrow> 'd block_sys \<Rightarrow> ior \<times> vm_state \<times> 'd block_sys" where
  "lfAPI_buffer ops v s =
     (let (blk, v1) = vmPop v; (err, i, s1) = assignBuffer ops blk s
      in if err \<noteq> 0 then (err, v1, s1)
         else (0, snd (vmPush (buffer_address i) v1), s1))"

section \<open>What the cache keeps\<close>

definition bid :: "'d block_sys \<Rightarrow> nat \<Rightarrow> u32" where
  "bid s i = block_id (buf_state s ! i)"

definition dirty :: "'d block_sys \<Rightarrow> nat \<Rightarrow> bool" where
  "dirty s i = is_dirty (buf_state s ! i)"

lemma find_buf_Some:
  "find_buf P s = Some i \<Longrightarrow> i < SYSTEM_BLOCKS \<and> P (buf_state s ! i)"
  by (auto simp: find_buf_def find_Some_iff)

lemma find_buf_None: "find_buf P s = None \<longleftrightarrow> (\<forall>i < SYSTEM_BLOCKS. \<not> P (buf_state s ! i))"
  by (auto simp: find_buf_def find_None_iff)

lemma lru_index_less: "lru_index s < SYSTEM_BLOCKS"
proof -
  have "fst (foldl (\<lambda>(idx, m) i. if last_used (buf_state s ! i) < m then (i, last_used (buf_state s ! i))
      else (idx, m)) (k, m) is) < n" if "k < n" "\<forall>i \<in> set is. i < n" for k m "is" n
    using that by (induction "is" arbitrary: k m) auto
  then show ?thesis by (simp add: lru_index_def SYSTEM_BLOCKS_def)
qed

text \<open>Well-formed buffers: no block twice, and a clean buffer holds what the device holds.\<close>

definition buffers_ok :: "('d \<Rightarrow> bool) \<Rightarrow> ('d \<Rightarrow> u32 \<Rightarrow> u32 list) \<Rightarrow> 'd block_sys \<Rightarrow> bool" where
  "buffers_ok ok content s \<longleftrightarrow> ok (device s) \<and> length (payload s) = SYSTEM_BLOCKS \<and>
     (\<forall>i < SYSTEM_BLOCKS. length (payload s ! i) = BLOCK_SIZE_CELLS) \<and>
     (initialized s \<longrightarrow>
       length (buf_state s) = SYSTEM_BLOCKS \<and>
       (\<forall>i < SYSTEM_BLOCKS. \<forall>j < SYSTEM_BLOCKS.
          i \<noteq> j \<longrightarrow> bid s i = bid s j \<longrightarrow> bid s i = UNASSIGNED_BLOCK) \<and>
       (\<forall>i < SYSTEM_BLOCKS. bid s i = UNASSIGNED_BLOCK \<longrightarrow> \<not> dirty s i) \<and>
       (\<forall>i < SYSTEM_BLOCKS. bid s i \<noteq> UNASSIGNED_BLOCK \<longrightarrow> \<not> dirty s i \<longrightarrow>
          payload s ! i = content (device s) (bid s i)))"

text \<open>A block as the Forth system sees it: its buffer, or else the device.\<close>

definition block_view :: "('d \<Rightarrow> u32 \<Rightarrow> u32 list) \<Rightarrow> 'd block_sys \<Rightarrow> u32 \<Rightarrow> u32 list" where
  "block_view content s blk =
     (case (if initialized s then find_buf (\<lambda>b. block_id b = blk) s else None) of
        Some i \<Rightarrow> payload s ! i
      | None \<Rightarrow> content (device s) blk)"

text \<open>New data in the buffer \<open>update\<close> marks.\<close>

definition edit_active :: "u32 list \<Rightarrow> 'd block_sys \<Rightarrow> 'd block_sys" where
  "edit_active new s = s\<lparr>payload := (payload s)[nat (active_buf_idx s) := new]\<rparr>"

text \<open>
  The device as the cache sees it: \<open>content d blk\<close> is what the device holds for a block, and \<open>ok\<close> is
  whatever the device needs to keep. A failed transfer may leave anything in its own block or
  buffer.
\<close>

locale block_device =
  fixes ops :: "'d block_ops"
    and ok :: "'d \<Rightarrow> bool"
    and content :: "'d \<Rightarrow> u32 \<Rightarrow> u32 list"
  assumes read_keeps: "ok d \<Longrightarrow> length old = BLOCK_SIZE_CELLS \<Longrightarrow> blk_read ops blk old d = (err, data, d') \<Longrightarrow>
      ok d' \<and> content d' = content d \<and> length data = BLOCK_SIZE_CELLS"
    and read_content: "ok d \<Longrightarrow> length old = BLOCK_SIZE_CELLS \<Longrightarrow> blk_read ops blk old d = (0, data, d') \<Longrightarrow>
      data = content d blk"
    and write_keeps: "ok d \<Longrightarrow> length data = BLOCK_SIZE_CELLS \<Longrightarrow> blk_write ops blk data d = (err, d') \<Longrightarrow>
      ok d' \<and> (\<forall>b. b \<noteq> blk \<longrightarrow> content d' b = content d b)"
    and write_content: "ok d \<Longrightarrow> length data = BLOCK_SIZE_CELLS \<Longrightarrow> blk_write ops blk data d = (0, d') \<Longrightarrow>
      content d' blk = data"
begin

abbreviation cache_inv :: "'d block_sys \<Rightarrow> bool" where
  "cache_inv \<equiv> buffers_ok ok content"

abbreviation view :: "'d block_sys \<Rightarrow> u32 \<Rightarrow> u32 list" where
  "view \<equiv> block_view content"

lemmas cache_inv_def = buffers_ok_def
lemmas view_def = block_view_def

definition same_view :: "'d block_sys \<Rightarrow> 'd block_sys \<Rightarrow> bool" where
  "same_view s s' \<longleftrightarrow> (\<forall>blk. blk \<noteq> UNASSIGNED_BLOCK \<longrightarrow> view s' blk = view s blk)"

lemma same_view_refl [simp]: "same_view s s"
  by (simp add: same_view_def)

lemma same_view_trans: "same_view a b \<Longrightarrow> same_view b c \<Longrightarrow> same_view a c"
  by (simp add: same_view_def)

lemma view_buffer:
  assumes "cache_inv s" "initialized s" "i < SYSTEM_BLOCKS" "bid s i = blk" "blk \<noteq> UNASSIGNED_BLOCK"
  shows "view s blk = payload s ! i"
proof -
  obtain j where j: "find_buf (\<lambda>b. block_id b = blk) s = Some j"
    using assms(3,4) find_buf_None [of "\<lambda>b. block_id b = blk" s] by (fastforce simp: bid_def)
  then have "j < SYSTEM_BLOCKS" "bid s j = blk" using find_buf_Some [OF j] by (simp_all add: bid_def)
  then have "j = i" using assms by (auto simp: cache_inv_def)
  with j show ?thesis using assms(2) by (simp add: view_def)
qed

lemma view_device:
  assumes "\<not> initialized s \<or> (\<forall>i < SYSTEM_BLOCKS. bid s i \<noteq> blk)"
  shows "view s blk = content (device s) blk"
  using assms find_buf_None [of "\<lambda>b. block_id b = blk" s] by (auto simp: view_def bid_def)

text \<open>Two states whose buffers and device agree where it matters have the same view.\<close>

lemma view_cases:
  assumes "cache_inv s" "initialized s" "blk \<noteq> UNASSIGNED_BLOCK"
  obtains (buffer) i where "i < SYSTEM_BLOCKS" "bid s i = blk" "view s blk = payload s ! i"
  | (device) "\<forall>i < SYSTEM_BLOCKS. bid s i \<noteq> blk" "view s blk = content (device s) blk"
  using view_buffer [OF assms(1,2)] view_device [of s blk] assms(3) by metis

lemma bid_upd [simp]: "bid (s\<lparr>device := d\<rparr>) j = bid s j" "dirty (s\<lparr>device := d\<rparr>) j = dirty s j"
    "bid (s\<lparr>payload := p\<rparr>) j = bid s j" "dirty (s\<lparr>payload := p\<rparr>) j = dirty s j"
  by (simp_all add: bid_def dirty_def)

text \<open>Writing one block to the device changes no view: the block is in its buffer.\<close>

lemma device_write:
  assumes inv: "cache_inv s" "initialized s" and i: "i < SYSTEM_BLOCKS" "bid s i \<noteq> UNASSIGNED_BLOCK" "dirty s i"
    and w: "blk_write ops (bid s i) (payload s ! i) (device s) = (err, d)"
  shows "cache_inv (s\<lparr>device := d\<rparr>)" "same_view s (s\<lparr>device := d\<rparr>)"
    "err = 0 \<Longrightarrow> content d (bid s i) = payload s ! i"
proof -
  have l: "ok (device s)" "length (payload s ! i) = BLOCK_SIZE_CELLS"
    using inv i by (simp_all add: cache_inv_def)
  have k: "ok d" "\<And>b. b \<noteq> bid s i \<Longrightarrow> content d b = content (device s) b"
    using write_keeps [OF l w] by auto
  show c: "err = 0 \<Longrightarrow> content d (bid s i) = payload s ! i"
    using write_content [OF l] w by auto
  have clean: "payload s ! j = content d (bid s j)"
    if "j < SYSTEM_BLOCKS" "bid s j \<noteq> UNASSIGNED_BLOCK" "\<not> dirty s j" for j
  proof -
    have "bid s j \<noteq> bid s i" using inv i that by (auto simp: cache_inv_def)
    then show ?thesis using k(2) inv that by (auto simp: cache_inv_def)
  qed
  show inv': "cache_inv (s\<lparr>device := d\<rparr>)"
    using inv k(1) clean by (auto simp: cache_inv_def)
  show "same_view s (s\<lparr>device := d\<rparr>)"
    unfolding same_view_def
  proof (intro allI impI)
    fix blk :: u32 assume b: "blk \<noteq> UNASSIGNED_BLOCK"
    show "view (s\<lparr>device := d\<rparr>) blk = view s blk"
    proof (rule view_cases [OF inv b])
      fix j assume "j < SYSTEM_BLOCKS" "bid s j = blk" "view s blk = payload s ! j"
      then show ?thesis using view_buffer [OF inv', of j blk] inv(2) b by simp
    next
      assume "\<forall>j < SYSTEM_BLOCKS. bid s j \<noteq> blk" "view s blk = content (device s) blk"
      then show ?thesis using view_device [of "s\<lparr>device := d\<rparr>" blk] k(2) [of blk] i(1) by auto
    qed
  qed
qed

text \<open>Relabelling buffer i changes no view if the blocks concerned read the same on the device.\<close>

lemma relabel:
  assumes inv: "cache_inv s" "initialized s" and i: "i < SYSTEM_BLOCKS"
    and old: "bid s i = UNASSIGNED_BLOCK \<or> content (device s) (bid s i) = payload s ! i"
    and new: "block_id b = UNASSIGNED_BLOCK \<and> \<not> is_dirty b \<or>
      block_id b \<noteq> UNASSIGNED_BLOCK \<and> content (device s) (block_id b) = payload s ! i \<and>
        (\<forall>j < SYSTEM_BLOCKS. j \<noteq> i \<longrightarrow> bid s j \<noteq> block_id b)"
  shows "cache_inv (upd_buf i (\<lambda>_. b) s)" "same_view s (upd_buf i (\<lambda>_. b) s)"
proof -
  let ?t = "upd_buf i (\<lambda>_. b) s"
  have len: "length (buf_state s) = SYSTEM_BLOCKS" using inv by (simp add: cache_inv_def)
  have at: "bid ?t j = (if j = i then block_id b else bid s j)"
    "dirty ?t j = (if j = i then is_dirty b else dirty s j)" if "j < SYSTEM_BLOCKS" for j
    using that len i by (auto simp: upd_buf_def bid_def dirty_def nth_list_update)
  have rest: "payload ?t = payload s" "device ?t = device s" "initialized ?t"
    "length (buf_state ?t) = SYSTEM_BLOCKS"
    using inv len by (simp_all add: upd_buf_def)
  show inv': "cache_inv ?t"
    using inv new i unfolding cache_inv_def rest by (auto simp: at split: if_splits)
  show "same_view s ?t"
    unfolding same_view_def
  proof (intro allI impI)
    fix blk :: u32 assume u: "blk \<noteq> UNASSIGNED_BLOCK"
    show "view ?t blk = view s blk"
    proof (rule view_cases [OF inv' rest(3) u])
      fix j assume j: "j < SYSTEM_BLOCKS" "bid ?t j = blk" "view ?t blk = payload ?t ! j"
      show ?thesis
      proof (cases "j = i")
        case False
        then show ?thesis using j at [of j] view_buffer [OF inv, of j blk] u by (simp add: rest)
      next
        case True
        then have b: "block_id b = blk" using j at [of j] by simp
        show ?thesis
        proof (cases "bid s i = blk")
          case False
          then have "\<forall>k < SYSTEM_BLOCKS. bid s k \<noteq> blk" using new b u by auto
          then have "view s blk = content (device s) blk" by (intro view_device) simp
          then show ?thesis using new b u j True by (simp add: rest)
        qed (use view_buffer [OF inv i] u j True in \<open>simp add: rest\<close>)
      qed
    next
      assume n: "\<forall>j < SYSTEM_BLOCKS. bid ?t j \<noteq> blk" "view ?t blk = content (device ?t) blk"
      show ?thesis
      proof (cases "bid s i = blk")
        case True
        then show ?thesis using old u view_buffer [OF inv i True] n(2) by (simp add: rest)
      next
        case False
        then have "\<forall>j < SYSTEM_BLOCKS. bid s j \<noteq> blk" using n(1) at by metis
        then show ?thesis using view_device [of s blk] n(2) by (simp add: rest)
      qed
    qed
  qed
qed

text \<open>Only the clocks differ.\<close>

lemma clocks_only:
  assumes "initialized t = initialized s" "length (buf_state t) = length (buf_state s)"
    "\<And>j. j < SYSTEM_BLOCKS \<Longrightarrow> bid t j = bid s j \<and> dirty t j = dirty s j"
    "payload t = payload s" "device t = device s"
  shows "cache_inv t = cache_inv s" "same_view s t"
proof -
  show "cache_inv t = cache_inv s"
    using assms by (auto simp: cache_inv_def)
  have "find_buf (\<lambda>b. block_id b = blk) t = find_buf (\<lambda>b. block_id b = blk) s" for blk
    unfolding find_buf_def using assms(3) by (intro find_cong) (auto simp: bid_def)
  then show "same_view s t"
    using assms by (simp add: same_view_def view_def split: option.split)
qed

lemma touch_sel [simp]:
  "initialized (touch i s) = initialized s" "payload (touch i s) = payload s"
  "device (touch i s) = device s" "length (buf_state (touch i s)) = length (buf_state s)"
  "active_buf_idx (touch i s) = int i" "g_block_capacity (touch i s) = g_block_capacity s"
  by (simp_all add: touch_def upd_buf_def Let_def)

lemma touch_ids:
  "length (buf_state s) = SYSTEM_BLOCKS \<Longrightarrow> i < SYSTEM_BLOCKS \<Longrightarrow> bid (touch i s) j = bid s j"
  "length (buf_state s) = SYSTEM_BLOCKS \<Longrightarrow> i < SYSTEM_BLOCKS \<Longrightarrow> dirty (touch i s) j = dirty s j"
  by (cases "j = i"; simp add: touch_def upd_buf_def Let_def bid_def dirty_def)+

lemma touch_keeps:
  assumes "cache_inv s" "initialized s" "i < SYSTEM_BLOCKS"
  shows "cache_inv (touch i s)" "same_view s (touch i s)"
  using clocks_only [of "touch i s" s] touch_ids [of s i] assms by (auto simp: cache_inv_def)

lemma sync_keeps:
  assumes inv: "cache_inv s" "initialized s" and i: "i < SYSTEM_BLOCKS"
    and sync: "sync_buffer ops i s = (err, t)"
  shows "cache_inv t" "same_view s t" "initialized t" "payload t = payload s"
    "\<And>j. j < SYSTEM_BLOCKS \<Longrightarrow> bid t j = bid s j" "g_block_capacity t = g_block_capacity s"
    "err = 0 \<Longrightarrow> bid t i = UNASSIGNED_BLOCK \<or> content (device t) (bid t i) = payload t ! i"
    "err = 0 \<Longrightarrow> \<not> dirty t i" "\<And>j. j < SYSTEM_BLOCKS \<Longrightarrow> dirty t j \<Longrightarrow> dirty s j"
proof -
  have len: "length (buf_state s) = SYSTEM_BLOCKS" using inv by (simp add: cache_inv_def)
  have "cache_inv t \<and> same_view s t \<and> initialized t \<and> payload t = payload s \<and>
    (\<forall>j < SYSTEM_BLOCKS. bid t j = bid s j \<and> (dirty t j \<longrightarrow> dirty s j)) \<and>
    g_block_capacity t = g_block_capacity s \<and>
    (err = 0 \<longrightarrow> \<not> dirty t i \<and> (bid t i = UNASSIGNED_BLOCK \<or> content (device t) (bid t i) = payload t ! i))"
  proof (cases "bid s i \<noteq> UNASSIGNED_BLOCK \<and> dirty s i")
    case False
    then have "t = s" "err = 0" using sync by (auto simp: sync_buffer_def Let_def bid_def dirty_def)
    then show ?thesis using False inv i by (auto simp: cache_inv_def)
  next
    case True
    obtain e d where w: "blk_write ops (bid s i) (payload s ! i) (device s) = (e, d)" by fastforce
    let ?u = "s\<lparr>device := d\<rparr>"
    from device_write [OF inv i _ _ w] True
    have u: "cache_inv ?u" "same_view s ?u" "e = 0 \<Longrightarrow> content d (bid s i) = payload s ! i" by auto
    show ?thesis
    proof (cases "e = 0")
      case False
      then have "t = ?u" "err = e"
        using sync True w by (auto simp: sync_buffer_def Let_def bid_def dirty_def)
      then show ?thesis using u inv False by simp
    next
      case e0: True
      define b where "b = (buf_state s ! i)\<lparr>is_dirty := False\<rparr>"
      have t: "t = upd_buf i (\<lambda>_. b) ?u" "err = 0"
        using sync True w e0 by (auto simp: sync_buffer_def Let_def bid_def dirty_def upd_buf_def b_def)
      have bb: "block_id b = bid s i" by (simp add: b_def bid_def)
      have "\<forall>j < SYSTEM_BLOCKS. j \<noteq> i \<longrightarrow> bid ?u j \<noteq> block_id b"
        using inv i True by (auto simp: bb cache_inv_def)
      with relabel [OF u(1) _ i, of b] u(3) [OF e0] True inv
      have "cache_inv t" "same_view ?u t" by (auto simp: t bb)
      moreover have "bid t j = bid s j" "dirty t j \<longrightarrow> dirty s j" "\<not> dirty t i" for j
        using i len by (auto simp: t upd_buf_def bid_def dirty_def b_def nth_list_update)
      ultimately show ?thesis
        using u inv same_view_trans u(3) [OF e0] by (auto simp: t(2)) (auto simp: t(1) upd_buf_def)
    qed
  qed
  then show "cache_inv t" "same_view s t" "initialized t" "payload t = payload s"
    "\<And>j. j < SYSTEM_BLOCKS \<Longrightarrow> bid t j = bid s j" "g_block_capacity t = g_block_capacity s"
    "err = 0 \<Longrightarrow> bid t i = UNASSIGNED_BLOCK \<or> content (device t) (bid t i) = payload t ! i"
    "err = 0 \<Longrightarrow> \<not> dirty t i" "\<And>j. j < SYSTEM_BLOCKS \<Longrightarrow> dirty t j \<Longrightarrow> dirty s j"
    by blast+
qed

lemma init_ids: "i < SYSTEM_BLOCKS \<Longrightarrow> bid (init_buffer_system s) i = UNASSIGNED_BLOCK"
    "i < SYSTEM_BLOCKS \<Longrightarrow> \<not> dirty (init_buffer_system s) i"
  by (simp_all add: bid_def dirty_def init_buffer_system_def unassigned_buf_def)

lemma init_sel [simp]:
  "initialized (init_buffer_system s)" "payload (init_buffer_system s) = payload s"
  "device (init_buffer_system s) = device s" "g_block_capacity (init_buffer_system s) = g_block_capacity s"
  "length (buf_state (init_buffer_system s)) = SYSTEM_BLOCKS"
  by (simp_all add: init_buffer_system_def)

lemma init_keeps: "cache_inv s \<Longrightarrow> cache_inv (init_buffer_system s)"
  by (auto simp: cache_inv_def init_ids)

text \<open>Discarding the buffers uncovers the device.\<close>

lemma init_view: "blk \<noteq> UNASSIGNED_BLOCK \<Longrightarrow> view (init_buffer_system s) blk = content (device s) blk"
  using view_device [of "init_buffer_system s" blk] init_ids(1) by auto

text \<open>The first search of \<open>lfAssignBlock\<close>.\<close>

abbreviation lookup :: "u32 \<Rightarrow> 'd block_sys \<Rightarrow> nat option" where
  "lookup blk s \<equiv> (if initialized s then find_buf (\<lambda>b. block_id b = blk) s else None)"

definition present :: "u32 \<Rightarrow> 'd block_sys \<Rightarrow> bool" where
  "present blk s \<longleftrightarrow> lookup blk s \<noteq> None"

lemma init_present: "blk \<noteq> UNASSIGNED_BLOCK \<Longrightarrow> find_buf (\<lambda>b. block_id b = blk) (init_buffer_system s) = None"
  using init_ids(1) by (auto simp: find_buf_None bid_def)

text \<open>Loading a free buffer.\<close>

lemma fill_free:
  assumes inv: "cache_inv s" "initialized s" and i: "i < SYSTEM_BLOCKS" "bid s i = UNASSIGNED_BLOCK"
    and d: "ok d" "content d = content (device s)" "length data = BLOCK_SIZE_CELLS"
  shows "cache_inv (s\<lparr>payload := (payload s)[i := data], device := d\<rparr>)"
    "same_view s (s\<lparr>payload := (payload s)[i := data], device := d\<rparr>)"
proof -
  let ?t = "s\<lparr>payload := (payload s)[i := data], device := d\<rparr>"
  have at: "bid s j \<noteq> UNASSIGNED_BLOCK \<Longrightarrow> payload ?t ! j = payload s ! j" for j
    using i(2) by (cases "j = i") auto
  have len: "length (payload ?t ! j) = BLOCK_SIZE_CELLS" if "j < SYSTEM_BLOCKS" for j
    using that inv d(3) by (cases "j = i") (auto simp: cache_inv_def)
  show inv': "cache_inv ?t"
    using inv d(1,2) at len by (simp add: cache_inv_def)
  show "same_view s ?t"
    unfolding same_view_def
  proof (intro allI impI)
    fix blk :: u32 assume b: "blk \<noteq> UNASSIGNED_BLOCK"
    show "view ?t blk = view s blk"
    proof (rule view_cases [OF inv b])
      fix j assume "j < SYSTEM_BLOCKS" "bid s j = blk" "view s blk = payload s ! j"
      then show ?thesis using view_buffer [OF inv', of j blk] inv(2) b at [of j] by simp
    next
      assume "\<forall>j < SYSTEM_BLOCKS. bid s j \<noteq> blk" "view s blk = content (device s) blk"
      then show ?thesis using view_device [of ?t blk] d(2) by simp
    qed
  qed
qed

lemma alloc_keeps:
  assumes inv: "cache_inv s" and b: "blk \<noteq> UNASSIGNED_BLOCK"
    and alloc: "find_or_allocate_buffer ops blk s = (err, i, t)"
  shows "cache_inv t" "same_view s t" "initialized t" "i < SYSTEM_BLOCKS"
    "g_block_capacity t = g_block_capacity s"
    "err = 0 \<Longrightarrow> bid t i = blk \<and> present blk s \<or>
      bid t i = UNASSIGNED_BLOCK \<and> (\<forall>j < SYSTEM_BLOCKS. bid t j \<noteq> blk)"
proof -
  define s0 where "s0 = (if initialized s then s else init_buffer_system s)"
  have s0: "cache_inv s0" "initialized s0" "same_view s s0" "g_block_capacity s0 = g_block_capacity s"
    using inv init_keeps init_view view_device [of s] by (auto simp: s0_def same_view_def)
  have "cache_inv t \<and> same_view s0 t \<and> initialized t \<and> i < SYSTEM_BLOCKS \<and>
    g_block_capacity t = g_block_capacity s0 \<and>
    (err = 0 \<longrightarrow> bid t i = blk \<and> present blk s \<or>
      bid t i = UNASSIGNED_BLOCK \<and> (\<forall>j < SYSTEM_BLOCKS. bid t j \<noteq> blk))"
  proof (cases "find_buf (\<lambda>b. block_id b = blk) s0")
    case (Some j)
    then have "t = s0" "i = j" "err = 0"
      using alloc by (simp_all add: find_or_allocate_buffer_def Let_def s0_def)
    moreover have "present blk s"
      using Some init_present [OF b, of s] by (auto simp: present_def s0_def split: if_splits)
    ultimately show ?thesis using s0 find_buf_Some [OF Some] by (simp add: bid_def)
  next
    case none: None
    then have free: "\<forall>j < SYSTEM_BLOCKS. bid s0 j \<noteq> blk" by (simp add: find_buf_None bid_def)
    show ?thesis
    proof (cases "find_buf (\<lambda>b. block_id b = UNASSIGNED_BLOCK) s0")
      case (Some j)
      then have "t = s0" "i = j" "err = 0"
        using alloc none by (simp_all add: find_or_allocate_buffer_def Let_def s0_def)
      then show ?thesis using s0 find_buf_Some [OF Some] free by (simp add: bid_def)
    next
      case None
      define l where "l = lru_index s0"
      have l: "l < SYSTEM_BLOCKS" unfolding l_def by (rule lru_index_less)
      obtain e u where u: "sync_buffer ops l s0 = (e, u)" by fastforce
      note k = sync_keeps [OF s0(1,2) l u]
      show ?thesis
      proof (cases "e = 0")
        case False
        then have "t = u" "i = l" "err = e"
          using alloc none None u
          by (simp_all add: find_or_allocate_buffer_def Let_def flip: s0_def l_def)
        then show ?thesis using k s0 l False by simp
      next
        case True
        define b where "b = (buf_state u ! l)\<lparr>block_id := UNASSIGNED_BLOCK, is_dirty := False\<rparr>"
        have t: "t = upd_buf l (\<lambda>_. b) u" "i = l" "err = 0"
          using alloc none None u True
          by (auto simp: find_or_allocate_buffer_def Let_def upd_buf_def b_def simp flip: s0_def l_def)
        have "block_id b = UNASSIGNED_BLOCK \<and> \<not> is_dirty b" by (simp add: b_def)
        then have "cache_inv t" "same_view u t"
          using relabel [OF k(1,3) l, of b] k(7) [OF True] by (auto simp: t)
        moreover have "length (buf_state u) = SYSTEM_BLOCKS" using k(1,3) by (simp add: cache_inv_def)
        then have "bid t l = UNASSIGNED_BLOCK" "j < SYSTEM_BLOCKS \<Longrightarrow> bid t j \<noteq> blk" for j
          using l free k(5) [of j] \<open>blk \<noteq> UNASSIGNED_BLOCK\<close>
          by (auto simp: t(1) upd_buf_def bid_def b_def nth_list_update)
        ultimately show ?thesis
          using k(2,3,6) l same_view_trans t(2) by (auto simp: t(1) upd_buf_def)
      qed
    qed
  qed
  then show "cache_inv t" "same_view s t" "initialized t" "i < SYSTEM_BLOCKS"
    "g_block_capacity t = g_block_capacity s"
    "err = 0 \<Longrightarrow> bid t i = blk \<and> present blk s \<or>
      bid t i = UNASSIGNED_BLOCK \<and> (\<forall>j < SYSTEM_BLOCKS. bid t j \<noteq> blk)"
    using s0(3,4) same_view_trans by auto
qed

text \<open>Getting a block changes nobody's view; when it succeeds, the block is in the buffer it names.\<close>

lemma assign_keeps:
  assumes inv: "cache_inv s" and a: "lfAssignBlock ops blk f_addr s = (err, addr, t)"
  shows "cache_inv t \<and> same_view s t \<and>
    (err = 0 \<longrightarrow> (\<exists>i < SYSTEM_BLOCKS. addr = buffer_address i \<and> initialized t \<and> bid t i = blk \<and>
       blk \<noteq> UNASSIGNED_BLOCK \<and> payload t ! i = view s blk \<and> active_buf_idx t = int i))"
proof (cases "blk \<ge> g_block_capacity s")
  case True
  then show ?thesis using a inv by (auto simp: lfAssignBlock_def)
next
  case cap: False
  then have b: "blk \<noteq> UNASSIGNED_BLOCK"
    using cap unat_bounds(3) [of "g_block_capacity s"] by (auto simp: UNASSIGNED_BLOCK_def word_le_nat)
  show ?thesis
  proof (cases "if initialized s then find_buf (\<lambda>b. block_id b = blk) s else None")
    case (Some i)
    then have i: "initialized s" "i < SYSTEM_BLOCKS" "bid s i = blk"
      using find_buf_Some [of _ s i] by (auto simp: bid_def split: if_splits)
    then have "t = touch i s" "addr = buffer_address i" "err = 0"
      using a cap Some by (auto simp: lfAssignBlock_def)
    moreover have "bid (touch i s) i = blk"
      using touch_ids [of s i i] i inv by (simp add: cache_inv_def)
    ultimately show ?thesis
      using touch_keeps [OF inv i(1,2)] view_buffer [OF inv i b] i b by auto
  next
    case None
    obtain e i s1 where al: "find_or_allocate_buffer ops blk s = (e, i, s1)" by (metis prod_cases3)
    note k = alloc_keeps [OF inv b al]
    show ?thesis
    proof (cases "e = 0")
      case False
      then have "t = s1" "err \<noteq> 0" using a cap None al by (auto simp: lfAssignBlock_def)
      then show ?thesis using k by simp
    next
      case e0: True
      obtain f data d where rd: "blk_read ops blk (payload s1 ! i) (device s1) = (f, data, d)"
        by (metis prod_cases3)
      define s2 where "s2 = s1\<lparr>payload := (payload s1)[i := data], device := d\<rparr>"
      have res: "err = f" "f \<noteq> 0 \<Longrightarrow> t = s2"
        "f = 0 \<Longrightarrow> addr = buffer_address i \<and>
          t = touch i (upd_buf i (\<lambda>b. b\<lparr>block_id := blk, is_dirty := False\<rparr>) s2)"
        using a cap None al e0 rd
        by (simp_all add: lfAssignBlock_def Let_def flip: s2_def split: if_splits)
      have "\<not> present blk s" using None by (simp add: present_def)
      then have free: "bid s1 i = UNASSIGNED_BLOCK" "\<forall>j < SYSTEM_BLOCKS. bid s1 j \<noteq> blk"
        using k(6) [OF e0] by auto
      have l: "ok (device s1)" "length (payload s1 ! i) = BLOCK_SIZE_CELLS"
        using k(1,4) by (simp_all add: cache_inv_def)
      have d: "ok d" "content d = content (device s1)" "length data = BLOCK_SIZE_CELLS"
        using read_keeps [OF l rd] by auto
      have s2: "cache_inv s2" "same_view s1 s2"
        unfolding s2_def using fill_free [OF k(1,3,4) free(1) d] by simp_all
      have s2i: "initialized s2" "bid s2 j = bid s1 j" "payload s2 ! i = data" "device s2 = d" for j
        using k(1,3,4) by (simp_all add: s2_def bid_def cache_inv_def)
      show ?thesis
      proof (cases "f = 0")
        case False
        then show ?thesis using res s2 k(2) same_view_trans by auto
      next
        case True
        define b' where "b' = (buf_state s2 ! i)\<lparr>block_id := blk, is_dirty := False\<rparr>"
        define s3 where "s3 = upd_buf i (\<lambda>_. b') s2"
        have t: "t = touch i s3" "addr = buffer_address i"
          using res(3) [OF True] by (simp_all add: s3_def b'_def upd_buf_def)
        have rdc: "data = content (device s1) blk" using read_content [OF l] rd True by auto
        have s3: "cache_inv s3" "same_view s2 s3"
          unfolding s3_def using relabel [OF s2(1) s2i(1) k(4), of b'] free b rdc d(2)
          by (auto simp: s2i b'_def)
        have s3i: "initialized s3" "payload s3 = payload s2" "bid s3 i = blk"
          using s2(1) s2i(1) k(4) by (simp_all add: s3_def upd_buf_def bid_def b'_def cache_inv_def)
        have "bid t i = blk"
          using touch_ids(1) [of s3 i i] s3 s3i k(4) by (simp add: t cache_inv_def)
        moreover have "cache_inv t" "same_view s t"
          using touch_keeps [OF s3(1) s3i(1) k(4)] s3(2) s2(2) k(2) same_view_trans unfolding t(1) by blast+
        moreover have "payload t ! i = view s blk"
        proof -
          have "view s blk = view s1 blk" using k(2) b by (simp add: same_view_def)
          also have "\<dots> = data" using view_device [of s1 blk] free(2) rdc by simp
          finally show ?thesis by (simp add: t s3i s2i(3))
        qed
        ultimately show ?thesis using t k(4) s3i(1) b by auto
      qed
    qed
  qed
qed
text \<open>Giving block blk, in its own buffer or a free one, new data that is marked modified.\<close>

lemma overwrite:
  assumes inv: "cache_inv s" "initialized s" and i: "i < SYSTEM_BLOCKS" and b: "blk \<noteq> UNASSIGNED_BLOCK"
    and slot: "bid s i = blk \<or> bid s i = UNASSIGNED_BLOCK \<and> (\<forall>j < SYSTEM_BLOCKS. bid s j \<noteq> blk)"
    and new: "length new = BLOCK_SIZE_CELLS"
    and t: "initialized t" "device t = device s" "length (buf_state t) = SYSTEM_BLOCKS"
      "payload t = (payload s)[i := new]"
      "\<And>j. j < SYSTEM_BLOCKS \<Longrightarrow> bid t j = (if j = i then blk else bid s j)"
      "\<And>j. j < SYSTEM_BLOCKS \<Longrightarrow> dirty t j = (j = i \<or> dirty s j)"
  shows "cache_inv t" "view t blk = new"
    "\<And>other. other \<noteq> blk \<Longrightarrow> other \<noteq> UNASSIGNED_BLOCK \<Longrightarrow> view t other = view s other"
proof -
  have len: "length (payload s) = SYSTEM_BLOCKS" using inv by (simp add: cache_inv_def)
  have pay: "payload t ! j = (if j = i then new else payload s ! j)" if "j < SYSTEM_BLOCKS" for j
    using that len by (simp add: t nth_list_update)
  have unique: "bid s j \<noteq> blk" if "j < SYSTEM_BLOCKS" "j \<noteq> i" for j
    using slot inv i b that by (auto simp: cache_inv_def)
  show inv': "cache_inv t"
    using inv new b unique len unfolding cache_inv_def t(1-4)
    by (auto simp: t(5,6) pay [unfolded t(4)])
  show "view t blk = new"
    using view_buffer [OF inv' t(1) i, of blk] t(5) [OF i] pay [OF i] b by simp
  fix other :: u32 assume o: "other \<noteq> blk" "other \<noteq> UNASSIGNED_BLOCK"
  show "view t other = view s other"
  proof (rule view_cases [OF inv o(2)])
    fix j assume j: "j < SYSTEM_BLOCKS" "bid s j = other" "view s other = payload s ! j"
    then have "j \<noteq> i" using slot o by auto
    then show ?thesis using view_buffer [OF inv' t(1) j(1)] t(5) [of j] pay [of j] j o by simp
  next
    assume n: "\<forall>j < SYSTEM_BLOCKS. bid s j \<noteq> other" "view s other = content (device s) other"
    then have "\<forall>j < SYSTEM_BLOCKS. bid t j \<noteq> other" using t(5) o by auto
    then show ?thesis using view_device [of t other] n(2) t(2) by simp
  qed
qed

text \<open>\<open>update\<close> and the edit it announces.\<close>

lemma marked_edit:
  assumes "length (buf_state s) = SYSTEM_BLOCKS" "active_buf_idx s = int i" "i < SYSTEM_BLOCKS"
    "bid s i \<noteq> UNASSIGNED_BLOCK"
    and t: "t = edit_active new (snd (lfAPI_update s))"
  shows "initialized t = initialized s" "device t = device s" "length (buf_state t) = SYSTEM_BLOCKS"
    "payload t = (payload s)[i := new]" "bid t j = bid s j" "dirty t j = (j = i \<or> dirty s j)"
  using assms(1-4)
  by (cases "j = i"; simp add: t lfAPI_update_def edit_active_def upd_buf_def bid_def dirty_def)+

lemma edit_keeps:
  assumes inv: "cache_inv s" "initialized s" and act: "active_buf_idx s = int i" "i < SYSTEM_BLOCKS"
    and b: "bid s i = blk" "blk \<noteq> UNASSIGNED_BLOCK" and new: "length new = BLOCK_SIZE_CELLS"
  shows "cache_inv (edit_active new (snd (lfAPI_update s)))"
    "view (edit_active new (snd (lfAPI_update s))) blk = new"
    "\<And>other. other \<noteq> blk \<Longrightarrow> other \<noteq> UNASSIGNED_BLOCK \<Longrightarrow>
      view (edit_active new (snd (lfAPI_update s))) other = view s other"
proof -
  have l: "length (buf_state s) = SYSTEM_BLOCKS" "bid s i \<noteq> UNASSIGNED_BLOCK"
    using inv b by (simp_all add: cache_inv_def)
  note m = marked_edit [OF l(1) act l(2) refl, of new]
  note o = overwrite [OF inv act(2) b(2) _ new, of "edit_active new (snd (lfAPI_update s))"]
  show "cache_inv (edit_active new (snd (lfAPI_update s)))"
    "view (edit_active new (snd (lfAPI_update s))) blk = new"
    "\<And>other. other \<noteq> blk \<Longrightarrow> other \<noteq> UNASSIGNED_BLOCK \<Longrightarrow>
      view (edit_active new (snd (lfAPI_update s))) other = view s other"
    by (rule o; simp add: m b inv(2))+
qed

lemma save_loop_keeps:
  "cache_inv s \<Longrightarrow> initialized s \<Longrightarrow> \<forall>i \<in> set is. i < SYSTEM_BLOCKS \<Longrightarrow> save_loop ops is s = (err, t) \<Longrightarrow>
    cache_inv t \<and> same_view s t \<and> initialized t \<and> (\<forall>i < SYSTEM_BLOCKS. bid t i = bid s i) \<and>
    (\<forall>i < SYSTEM_BLOCKS. dirty t i \<longrightarrow> dirty s i) \<and> (err = 0 \<longrightarrow> (\<forall>i \<in> set is. \<not> dirty t i))"
proof (induction "is" arbitrary: s)
  case Nil
  then show ?case by simp
next
  case (Cons i "is")
  obtain e u where u: "sync_buffer ops i s = (e, u)" by fastforce
  have i: "i < SYSTEM_BLOCKS" using Cons.prems(3) by simp
  note k = sync_keeps [OF Cons.prems(1,2) i u]
  show ?case
  proof (cases "e = 0")
    case False
    then show ?thesis using Cons.prems(4) u k by auto
  next
    case True
    with Cons.prems u have "save_loop ops is u = (err, t)" "\<forall>i \<in> set is. i < SYSTEM_BLOCKS" by auto
    from Cons.IH [OF k(1,3) this(2,1)] show ?thesis
      using k(2,5,8,9) True i same_view_trans by auto
  qed
qed

text \<open>After a successful save the device holds every block's view.\<close>

lemma clean_device:
  assumes "cache_inv s" "\<forall>i < SYSTEM_BLOCKS. \<not> dirty s i" "blk \<noteq> UNASSIGNED_BLOCK"
  shows "content (device s) blk = view s blk"
proof (cases "initialized s")
  case True
  show ?thesis
  proof (rule view_cases [OF assms(1) True assms(3)])
    fix i assume "i < SYSTEM_BLOCKS" "bid s i = blk" "view s blk = payload s ! i"
    then show ?thesis using assms True by (auto simp: cache_inv_def)
  qed simp
qed (simp add: view_device)

lemma save_keeps:
  assumes "cache_inv s" "lfAPI_saveBuffers ops s = (err, t)"
  shows "cache_inv t" "same_view s t"
    "err = 0 \<Longrightarrow> blk \<noteq> UNASSIGNED_BLOCK \<Longrightarrow> content (device t) blk = view s blk"
proof -
  have "cache_inv t \<and> same_view s t \<and>
    (err = 0 \<longrightarrow> blk \<noteq> UNASSIGNED_BLOCK \<longrightarrow> content (device t) blk = view s blk)"
  proof (cases "initialized s")
    case False
    then show ?thesis using assms by (auto simp: lfAPI_saveBuffers_def view_device)
  next
    case True
    then have "save_loop ops [0..<SYSTEM_BLOCKS] s = (err, t)" using assms by (simp add: lfAPI_saveBuffers_def)
    from save_loop_keeps [OF assms(1) True _ this]
    have k: "cache_inv t" "same_view s t" "err = 0 \<Longrightarrow> \<forall>i < SYSTEM_BLOCKS. \<not> dirty t i" by auto
    then show ?thesis using clean_device [of t blk] by (auto simp: same_view_def)
  qed
  then show "cache_inv t" "same_view s t"
    "err = 0 \<Longrightarrow> blk \<noteq> UNASSIGNED_BLOCK \<Longrightarrow> content (device t) blk = view s blk" by auto
qed

lemma flush_keeps:
  assumes inv: "cache_inv s" and f: "lfAPI_flush ops s = (err, t)"
  shows "cache_inv t" "same_view s t"
    "err = 0 \<Longrightarrow> blk \<noteq> UNASSIGNED_BLOCK \<Longrightarrow> content (device t) blk = view s blk"
proof -
  obtain e u where u: "lfAPI_saveBuffers ops s = (e, u)" by fastforce
  note k = save_keeps [OF inv u]
  have "cache_inv t \<and> same_view s t \<and>
    (err = 0 \<longrightarrow> blk \<noteq> UNASSIGNED_BLOCK \<longrightarrow> content (device t) blk = view s blk)"
  proof (cases "e = 0")
    case False
    then show ?thesis using f u k by (simp add: lfAPI_flush_def)
  next
    case True
    then have t: "t = init_buffer_system u" "err = 0"
      using f u by (simp_all add: lfAPI_flush_def lfAPI_emptyBuffers_def)
    then show ?thesis
      using init_keeps [OF k(1)] init_view k(3) True by (auto simp: same_view_def)
  qed
  then show "cache_inv t" "same_view s t"
    "err = 0 \<Longrightarrow> blk \<noteq> UNASSIGNED_BLOCK \<Longrightarrow> content (device t) blk = view s blk" by auto
qed

text \<open>\<open>buffer\<close> gives block blk a buffer without reading it; with the data that is then put there and
  marked, the block's view is that data and no other view changes.\<close>

lemma buffer_keeps:
  assumes inv: "cache_inv s" and b: "blk \<noteq> UNASSIGNED_BLOCK"
    and a: "assignBuffer ops blk s = (err, i, t)"
    and new: "length new = BLOCK_SIZE_CELLS"
  shows "err \<noteq> 0 \<Longrightarrow> cache_inv t \<and> same_view s t"
    "err = 0 \<Longrightarrow> i < SYSTEM_BLOCKS \<and> active_buf_idx t = int i \<and>
      cache_inv (edit_active new (snd (lfAPI_update t))) \<and>
      view (edit_active new (snd (lfAPI_update t))) blk = new \<and>
      (\<forall>other. other \<noteq> blk \<longrightarrow> other \<noteq> UNASSIGNED_BLOCK \<longrightarrow>
        view (edit_active new (snd (lfAPI_update t))) other = view s other)"
proof -
  obtain e j u where al: "find_or_allocate_buffer ops blk s = (e, j, u)" by (metis prod_cases3)
  note k = alloc_keeps [OF inv b al]
  show "err \<noteq> 0 \<Longrightarrow> cache_inv t \<and> same_view s t"
    using a al k by (auto simp: assignBuffer_def split: if_splits)
  assume e0: "err = 0"
  then have e: "e = 0" "i = j" "t = touch i (upd_buf i (\<lambda>b. b\<lparr>block_id := blk\<rparr>) u)"
    using a al by (auto simp: assignBuffer_def split: if_splits)
  define v where "v = upd_buf i (\<lambda>b. b\<lparr>block_id := blk\<rparr>) u"
  have i: "i < SYSTEM_BLOCKS" using k(4) e by simp
  have l: "length (buf_state u) = SYSTEM_BLOCKS" "length (buf_state v) = SYSTEM_BLOCKS"
    using k(1,3) by (simp_all add: cache_inv_def v_def upd_buf_def)
  have t: "t = touch i v" using e by (simp add: v_def)
  have tid: "bid t m = (if m = i then blk else bid u m)" "dirty t m = dirty u m" if "m < SYSTEM_BLOCKS" for m
    using that touch_ids [OF l(2) i, of m] l(1) i
    by (cases "m = i"; simp add: t v_def upd_buf_def bid_def dirty_def)+
  have tsel: "initialized t" "device t = device u" "length (buf_state t) = SYSTEM_BLOCKS"
    "payload t = payload u" "active_buf_idx t = int i"
    using k(3) l by (simp_all add: t v_def upd_buf_def)
  have ne: "bid t i \<noteq> UNASSIGNED_BLOCK" using tid(1) [OF i] b by simp
  note m = marked_edit [OF tsel(3,5) i ne refl, of new]
  have "bid u i = blk \<or> bid u i = UNASSIGNED_BLOCK \<and> (\<forall>j < SYSTEM_BLOCKS. bid u j \<noteq> blk)"
    using k(6) e by auto
  note o = overwrite [OF k(1,3) i b this new, of "edit_active new (snd (lfAPI_update t))"]
  have "cache_inv (edit_active new (snd (lfAPI_update t)))"
    "view (edit_active new (snd (lfAPI_update t))) blk = new"
    "\<And>other. other \<noteq> blk \<Longrightarrow> other \<noteq> UNASSIGNED_BLOCK \<Longrightarrow>
      view (edit_active new (snd (lfAPI_update t))) other = view u other"
    by (rule o; simp add: m tsel tid)+
  then show "i < SYSTEM_BLOCKS \<and> active_buf_idx t = int i \<and>
      cache_inv (edit_active new (snd (lfAPI_update t))) \<and>
      view (edit_active new (snd (lfAPI_update t))) blk = new \<and>
      (\<forall>other. other \<noteq> blk \<longrightarrow> other \<noteq> UNASSIGNED_BLOCK \<longrightarrow>
        view (edit_active new (snd (lfAPI_update t))) other = view s other)"
    using i tsel(5) k(2) by (auto simp: same_view_def)
qed

end

end
