(* ===== verification/LF_Device.thy ===== *)
theory LF_Device
  imports LF_Blocks
begin

text \<open>
  The desktop's block device, \<^verbatim>\<open>src/src/target/desktop/blocks.c\<close>: transfers of sectors and blocks in
  a host file, with their bounds, write protection and write fence. The file is a list of 32-bit
  cells, 128 to a sector. What the C library does with an open, a seek or a transfer is taken from a
  list of faults the state carries; with that list arbitrary, every sequence of host errors and short
  transfers is covered. (A host that reports a write complete and then fails in \<open>fclose\<close> is not: the
  code ignores what \<open>fclose\<close> returns.)
\<close>

section \<open>The host file\<close>

datatype host_fault = NoFault | OpenFails | SeekFails | Short nat

record blk_dev =
  file_cells :: "u32 list"
  faults :: "host_fault list"
  mode_card :: bool
  map_mounted :: bool
  vol_start :: u32
  vol_sectors :: u32
  base :: u32
  dev_sectors :: u32
  actual_blocks :: u32
  writable :: bool
  space :: u32
  status :: ior

definition SECTOR_CELLS :: nat where [const_defs]: "SECTOR_CELLS = 128"
definition SECTORS_PER_BLOCK :: nat where [const_defs]: "SECTORS_PER_BLOCK = 8"
definition BLK_MAX_LENGTH :: int where [const_defs]: "BLK_MAX_LENGTH = 8"
definition BLK_MAX_SECTORS :: int where [const_defs]: "BLK_MAX_SECTORS = 64"

lemma dev_consts [simp]:
  "SECTOR_CELLS = 128" "SECTORS_PER_BLOCK = 8" "BLK_MAX_LENGTH = 8" "BLK_MAX_SECTORS = 64"
  by (simp_all add: const_defs)

definition next_fault :: "blk_dev \<Rightarrow> host_fault \<times> blk_dev" where
  "next_fault d = (case faults d of [] \<Rightarrow> (NoFault, d) | f # fs \<Rightarrow> (f, d\<lparr>faults := fs\<rparr>))"

text \<open>The start of \<open>xs\<close> that a transfer with this fault moves.\<close>

definition moved :: "host_fault \<Rightarrow> 'a list \<Rightarrow> 'a list" where
  "moved f xs = (case f of Short n \<Rightarrow> take n xs | _ \<Rightarrow> xs)"

text \<open>Putting data in a file at a position, past its end after a gap of zeros if need be.\<close>

definition overlay :: "nat \<Rightarrow> u32 list \<Rightarrow> u32 list \<Rightarrow> u32 list" where
  "overlay p xs file = take p (file @ replicate (p - length file) 0) @ xs @ drop (p + length xs) file"

section \<open>Transfers\<close>

definition read_now :: "u32 \<Rightarrow> u32 list \<Rightarrow> nat \<Rightarrow> blk_dev \<Rightarrow> ior \<times> u32 list \<times> blk_dev" where
  "read_now lba dest count d =
     (let (f, d1) = next_fault d in
      if f = OpenFails then (ERR_BLK_OPEN_FAIL, dest, d1)
      else if f = SeekFails then (ERR_BLK_SEEK_FAIL, dest, d1)
      else
        let want = count * SECTOR_CELLS;
            got = moved f (take want (drop (unat lba * SECTOR_CELLS) (file_cells d)))
        in ((if length got = want then 0 else ERR_BLK_READ_FAIL), got @ drop (length got) dest, d1))"

definition write_now :: "u32 \<Rightarrow> u32 list \<Rightarrow> nat \<Rightarrow> blk_dev \<Rightarrow> ior \<times> blk_dev" where
  "write_now lba src count d =
     (let (f, d1) = next_fault d in
      if f = OpenFails then (ERR_BLK_OPEN_FAIL, d1)
      else if f = SeekFails then (ERR_BLK_SEEK_FAIL, d1)
      else
        let want = count * SECTOR_CELLS; put = moved f (take want src)
        in ((if length put = want then 0 else ERR_BLK_WRITE_FAIL),
            d1\<lparr>file_cells := overlay (unat lba * SECTOR_CELLS) put (file_cells d)\<rparr>))"

definition check_run :: "u32 \<Rightarrow> int \<Rightarrow> blk_dev \<Rightarrow> ior" where
  "check_run blk len d =
     (if len < 1 \<or> len > BLK_MAX_LENGTH then ERR_INVALID_NUMERIC
      else if blk \<ge> actual_blocks d \<or> word_of_int len > actual_blocks d - blk then ERR_BLK_BOUNDS
      else 0)"

definition check_sectors :: "u32 \<Rightarrow> int \<Rightarrow> blk_dev \<Rightarrow> ior" where
  "check_sectors lba count d =
     (if count < 1 \<or> count > BLK_MAX_SECTORS then ERR_INVALID_NUMERIC
      else if lba \<ge> dev_sectors d \<or> word_of_int count > dev_sectors d - lba then ERR_BLK_BOUNDS
      else 0)"

definition blk_write_fence :: "u32 \<Rightarrow> int \<Rightarrow> blk_dev \<Rightarrow> ior" where
  "blk_write_fence lba count d =
     (if \<not> mode_card d \<or> \<not> map_mounted d \<or> lba < vol_start d \<or>
         (ucast lba :: u64) + ucast (word_of_int count :: u32) > ucast (vol_start d) + ucast (vol_sectors d)
      then ERR_BLK_WRITE_PROTECTED else 0)"

definition blk_sector_read_imm :: "u32 \<Rightarrow> u32 list \<Rightarrow> int \<Rightarrow> blk_dev \<Rightarrow> ior \<times> u32 list \<times> blk_dev" where
  "blk_sector_read_imm lba dest count d =
     (if status d > 0 then (ERR_BLK_BUSY, dest, d)
      else
        let err = check_sectors lba count d in
        if err \<noteq> 0 then (err, dest, d)
        else let (st, dest1, d1) = read_now lba dest (nat count) d in (0, dest1, d1\<lparr>status := st\<rparr>))"

definition blk_sector_write_imm :: "u32 \<Rightarrow> u32 list \<Rightarrow> int \<Rightarrow> blk_dev \<Rightarrow> ior \<times> blk_dev" where
  "blk_sector_write_imm lba src count d =
     (if status d > 0 then (ERR_BLK_BUSY, d)
      else
        let err = check_sectors lba count d;
            err = (if err = 0 then blk_write_fence lba count d else err) in
        if err \<noteq> 0 then (err, d)
        else let (st, d1) = write_now lba src (nat count) d in (0, d1\<lparr>status := st\<rparr>))"

text \<open>The first sector of a block.\<close>

definition block_sector :: "u32 \<Rightarrow> blk_dev \<Rightarrow> u32" where
  "block_sector blk d = base d + blk * word_of_nat SECTORS_PER_BLOCK"

definition blk_read_imm :: "u32 \<Rightarrow> u32 list \<Rightarrow> int \<Rightarrow> blk_dev \<Rightarrow> ior \<times> u32 list \<times> blk_dev" where
  "blk_read_imm blk dest len d =
     (if status d > 0 then (ERR_BLK_BUSY, dest, d)
      else
        let err = check_run blk len d in
        if err \<noteq> 0 then (err, dest, d)
        else let (st, dest1, d1) = read_now (block_sector blk d) dest (nat len * SECTORS_PER_BLOCK) d
             in (0, dest1, d1\<lparr>status := st\<rparr>))"

definition blk_write_imm :: "u32 \<Rightarrow> u32 list \<Rightarrow> int \<Rightarrow> blk_dev \<Rightarrow> ior \<times> blk_dev" where
  "blk_write_imm blk src len d =
     (if status d > 0 then (ERR_BLK_BUSY, d)
      else if \<not> writable d then (ERR_BLK_WRITE_PROTECTED, d)
      else
        let err = check_run blk len d in
        if err \<noteq> 0 then (err, d)
        else let (st, d1) = write_now (block_sector blk d) src (nat len * SECTORS_PER_BLOCK) d
             in (0, d1\<lparr>status := st\<rparr>))"

definition blk_status :: "blk_dev \<Rightarrow> ior" where
  "blk_status d = status d"

text \<open>The wait for the transfer in progress: on the desktop a transfer is over when the call that
  starts it returns, so the status is never positive (\<open>status_done\<close>) and the loop ends at once.\<close>

definition finish :: "blk_dev \<Rightarrow> ior" where
  "finish d = blk_status d"

text \<open>\<open>blk_read\<close>, \<open>blk_write\<close> and \<open>blk_sector_read\<close> of this device.\<close>

definition dev_read :: "u32 \<Rightarrow> u32 list \<Rightarrow> blk_dev \<Rightarrow> ior \<times> u32 list \<times> blk_dev" where
  "dev_read blk dest d =
     (let (err, dest1, d1) = blk_read_imm blk dest 1 d
      in ((if err \<noteq> 0 then err else finish d1), dest1, d1))"

definition dev_write :: "u32 \<Rightarrow> u32 list \<Rightarrow> blk_dev \<Rightarrow> ior \<times> blk_dev" where
  "dev_write blk src d =
     (let (err, d1) = blk_write_imm blk src 1 d in ((if err \<noteq> 0 then err else finish d1), d1))"

definition blk_sector_read :: "u32 \<Rightarrow> u32 list \<Rightarrow> int \<Rightarrow> blk_dev \<Rightarrow> ior \<times> u32 list \<times> blk_dev" where
  "blk_sector_read lba dest count d =
     (let (err, dest1, d1) = blk_sector_read_imm lba dest count d
      in ((if err \<noteq> 0 then err else finish d1), dest1, d1))"

section \<open>Installing an image\<close>

definition check_raw :: "u32 \<Rightarrow> int \<Rightarrow> blk_dev \<Rightarrow> ior \<times> u32" where
  "check_raw blk len d =
     (if len < 1 \<or> len > BLK_MAX_LENGTH then (ERR_INVALID_NUMERIC, 0)
      else if blk \<ge> space d \<or> word_of_int len > space d - blk then (ERR_BLK_BOUNDS, 0)
      else (0, block_sector blk d))"

definition blk_raw_read :: "u32 \<Rightarrow> u32 list \<Rightarrow> int \<Rightarrow> blk_dev \<Rightarrow> ior \<times> u32 list \<times> blk_dev" where
  "blk_raw_read blk dest len d =
     (let (err, lba) = check_raw blk len d in
      if err \<noteq> 0 then (err, dest, d) else read_now lba dest (nat len * SECTORS_PER_BLOCK) d)"

definition blk_raw_write :: "u32 \<Rightarrow> u32 list \<Rightarrow> int \<Rightarrow> blk_dev \<Rightarrow> ior \<times> blk_dev" where
  "blk_raw_write blk src len d =
     (let (err, lba) = check_raw blk len d;
          err = (if err = 0 \<and> mode_card d then blk_write_fence lba (len * int SECTORS_PER_BLOCK) d else err) in
      if err \<noteq> 0 then (err, d) else write_now lba src (nat len * SECTORS_PER_BLOCK) d)"

definition desktop_ops :: "blk_dev block_ops" where
  "desktop_ops = \<lparr>blk_read = dev_read, blk_write = dev_write\<rparr>"

section \<open>The file as blocks\<close>

definition dev_ok :: "blk_dev \<Rightarrow> bool" where
  "dev_ok d \<longleftrightarrow> status d \<le> 0 \<and> unat (base d) + unat (actual_blocks d) * 8 < 2 ^ 32 \<and>
     (unat (base d) + unat (actual_blocks d) * 8) * 128 \<le> length (file_cells d)"

definition content :: "blk_dev \<Rightarrow> u32 \<Rightarrow> u32 list" where
  "content d blk =
     (if blk < actual_blocks d
      then take 1024 (drop ((unat (base d) + unat blk * 8) * 128) (file_cells d)) else [])"

lemma overlay_length: "p + length xs \<le> length file \<Longrightarrow> length (overlay p xs file) = length file"
  by (simp add: overlay_def)

lemma overlay_in: "p + length xs \<le> length file \<Longrightarrow> take (length xs) (drop p (overlay p xs file)) = xs"
  by (simp add: overlay_def)

lemma overlay_nth:
  "p + length xs \<le> length file \<Longrightarrow> i < length file \<Longrightarrow> i < p \<or> p + length xs \<le> i \<Longrightarrow>
    overlay p xs file ! i = file ! i"
  by (auto simp: overlay_def nth_append)

lemma overlay_other:
  assumes "p + length xs \<le> length file" "q + k \<le> length file" "q + k \<le> p \<or> p + length xs \<le> q"
  shows "take k (drop q (overlay p xs file)) = take k (drop q file)"
  by (rule nth_equalityI) (use assms overlay_nth in \<open>auto simp: overlay_length\<close>)

lemma block_sector_unat:
  assumes "dev_ok d" "blk < actual_blocks d"
  shows "unat (block_sector blk d) = unat (base d) + unat blk * 8"
proof -
  have "unat blk < unat (actual_blocks d)" using assms(2) by (simp add: word_less_nat)
  moreover have "unat (base d) + unat (actual_blocks d) * 8 < 2 ^ 32" using assms(1) by (simp add: dev_ok_def)
  ultimately have b: "unat (base d) + unat blk * 8 < 2 ^ 32" by linarith
  then show ?thesis
    by (simp add: block_sector_def unat_word_ariths)
qed

lemma next_fault_sel [simp]:
  "file_cells (snd (next_fault d)) = file_cells d" "actual_blocks (snd (next_fault d)) = actual_blocks d"
  "base (snd (next_fault d)) = base d" "status (snd (next_fault d)) = status d"
  "writable (snd (next_fault d)) = writable d"
  by (simp_all add: next_fault_def split: list.split)

lemma moved_length: "length (moved f xs) \<le> length xs"
  by (simp add: moved_def split: host_fault.split)

lemma moved_full: "length (moved f xs) = length xs \<Longrightarrow> moved f xs = xs"
  by (simp add: moved_def split: host_fault.splits)

text \<open>Reading and writing keep what the device is.\<close>

lemma run_one: "check_run blk 1 d = 0 \<longleftrightarrow> blk < actual_blocks d"
proof -
  have "blk < actual_blocks d \<Longrightarrow> \<not> (1 :: u32) > actual_blocks d - blk"
    by (auto simp: word_less_nat unat_eq_zero)
  then show ?thesis by (auto simp: check_run_def)
qed

lemma read_now_shape:
  assumes "read_now lba dest count d = (err, dest1, d1)" "count * 128 \<le> length dest"
  shows "length dest1 = length dest" "d1 = snd (next_fault d)" "err \<le> 0"
    "err = 0 \<Longrightarrow> take (count * 128) dest1 = take (count * 128) (drop (unat lba * 128) (file_cells d)) \<and>
      drop (count * 128) dest1 = drop (count * 128) dest"
proof -
  define x where "x = take (count * 128) (drop (unat lba * 128) (file_cells d))"
  have l: "length x \<le> count * 128" by (simp add: x_def)
  have "length (moved f x) \<le> length dest" for f
    using moved_length [of f x] l assms(2) by linarith
  moreover have "moved f x = x" if "length (moved f x) = count * 128" for f
    using moved_full [of f x] moved_length [of f x] l that by simp
  ultimately show "length dest1 = length dest" "d1 = snd (next_fault d)" "err \<le> 0"
    "err = 0 \<Longrightarrow> take (count * 128) dest1 = take (count * 128) (drop (unat lba * 128) (file_cells d)) \<and>
      drop (count * 128) dest1 = drop (count * 128) dest"
    using assms by (auto simp: read_now_def Let_def case_prod_unfold simp flip: x_def split: if_splits)
qed

lemma write_now_shape:
  assumes "write_now lba src count d = (err, d1)" "count * 128 \<le> length src"
    "unat lba * 128 + count * 128 \<le> length (file_cells d)"
  shows "err \<le> 0" "length (file_cells d1) = length (file_cells d)"
    "base d1 = base d" "actual_blocks d1 = actual_blocks d" "status d1 = status d" "writable d1 = writable d"
    "\<And>q. q + k \<le> length (file_cells d) \<Longrightarrow> q + k \<le> unat lba * 128 \<or> unat lba * 128 + count * 128 \<le> q \<Longrightarrow>
      take k (drop q (file_cells d1)) = take k (drop q (file_cells d))"
    "err = 0 \<Longrightarrow> take (count * 128) (drop (unat lba * 128) (file_cells d1)) = take (count * 128) src"
proof -
  define x where "x = take (count * 128) src"
  have l: "length x = count * 128" using assms(2) by (simp add: x_def)
  have m: "length (moved f x) \<le> count * 128" for f
    using moved_length [of f x] l by simp
  define y where "y = (if fst (next_fault d) \<in> {OpenFails, SeekFails} then [] else moved (fst (next_fault d)) x)"
  have y: "length y \<le> count * 128" using m by (simp add: y_def)
  have fc: "file_cells d1 = (if fst (next_fault d) \<in> {OpenFails, SeekFails} then file_cells d
      else overlay (unat lba * 128) y (file_cells d))"
    using assms(1) by (auto simp: write_now_def Let_def case_prod_unfold y_def simp flip: x_def split: if_splits)
  show "err \<le> 0" "base d1 = base d" "actual_blocks d1 = actual_blocks d" "status d1 = status d"
    "writable d1 = writable d"
    using assms(1) by (auto simp: write_now_def Let_def case_prod_unfold split: if_splits)
  show "length (file_cells d1) = length (file_cells d)"
    unfolding fc using overlay_length [of "unat lba * 128" y "file_cells d"] y assms(3) by simp
  show "\<And>q. q + k \<le> length (file_cells d) \<Longrightarrow> q + k \<le> unat lba * 128 \<or> unat lba * 128 + count * 128 \<le> q \<Longrightarrow>
      take k (drop q (file_cells d1)) = take k (drop q (file_cells d))"
    unfolding fc using y assms(3) by (auto intro!: overlay_other)
  assume "err = 0"
  then have ok: "fst (next_fault d) \<notin> {OpenFails, SeekFails}" "length (moved (fst (next_fault d)) x) = count * 128"
    using assms(1) by (auto simp: write_now_def Let_def case_prod_unfold simp flip: x_def split: if_splits)
  then have "y = x" using moved_full [of _ x] l by (simp add: y_def)
  then show "take (count * 128) (drop (unat lba * 128) (file_cells d1)) = take (count * 128) src"
    using ok(1) overlay_in [of "unat lba * 128" x "file_cells d"] assms(3) l
    unfolding fc by (simp add: x_def)
qed

lemma content_slice:
  assumes "dev_ok d" "blk < actual_blocks d"
  shows "content d blk = take 1024 (drop (unat (block_sector blk d) * 128) (file_cells d))"
    "unat (block_sector blk d) * 128 + 1024 \<le> length (file_cells d)"
proof -
  show "content d blk = take 1024 (drop (unat (block_sector blk d) * 128) (file_cells d))"
    using assms by (simp add: content_def block_sector_unat)
  have "unat blk + 1 \<le> unat (actual_blocks d)" using assms(2) by (simp add: word_less_nat)
  then have "unat blk * 8 + 8 \<le> unat (actual_blocks d) * 8" by linarith
  moreover have "(unat (base d) + unat (actual_blocks d) * 8) * 128 \<le> length (file_cells d)"
    using assms(1) by (simp add: dev_ok_def)
  ultimately show "unat (block_sector blk d) * 128 + 1024 \<le> length (file_cells d)"
    unfolding block_sector_unat [OF assms] distrib_right by linarith
qed

lemma dev_read_law:
  assumes ok: "dev_ok d" and l: "length old = BLOCK_SIZE_CELLS" and r: "dev_read blk old d = (err, data, d')"
  shows "dev_ok d'" "content d' = content d" "length data = BLOCK_SIZE_CELLS"
    "err = 0 \<Longrightarrow> data = content d blk"
proof -
  have st: "\<not> status d > 0" using ok by (simp add: dev_ok_def)
  have "dev_ok d' \<and> content d' = content d \<and> length data = BLOCK_SIZE_CELLS \<and> (err = 0 \<longrightarrow> data = content d blk)"
  proof (cases "blk < actual_blocks d")
    case False
    then have "check_run blk 1 d = ERR_BLK_BOUNDS" by (auto simp: check_run_def)
    then show ?thesis using r ok l st by (auto simp: dev_read_def blk_read_imm_def)
  next
    case True
    obtain e dest1 d1 where rn: "read_now (block_sector blk d) old 8 d = (e, dest1, d1)" by (metis prod_cases3)
    have c: "check_run blk 1 d = 0" using True run_one by blast
    have res: "err = e" "data = dest1" "d' = d1\<lparr>status := e\<rparr>"
      using r st rn c by (auto simp: dev_read_def blk_read_imm_def finish_def blk_status_def)
    note s = read_now_shape [OF rn]
    have l8: "8 * 128 \<le> length old" using l by (simp add: BLOCK_SIZE_CELLS_def)
    have "dev_ok d'" "content d' = content d"
      using ok s(2,3) [OF l8] by (auto simp: res dev_ok_def content_def)
    moreover have "length data = BLOCK_SIZE_CELLS" using s(1) [OF l8] l by (simp add: res)
    moreover have "data = content d blk" if "err = 0"
      using s(4) [OF l8] s(1) [OF l8] that l content_slice [OF ok True]
      by (simp add: res BLOCK_SIZE_CELLS_def)
    ultimately show ?thesis by blast
  qed
  then show "dev_ok d'" "content d' = content d" "length data = BLOCK_SIZE_CELLS"
    "err = 0 \<Longrightarrow> data = content d blk" by auto
qed

lemma dev_write_law:
  assumes ok: "dev_ok d" and l: "length data = BLOCK_SIZE_CELLS" and w: "dev_write blk data d = (err, d')"
  shows "dev_ok d'" "b \<noteq> blk \<Longrightarrow> content d' b = content d b" "err = 0 \<Longrightarrow> content d' blk = data"
proof -
  have st: "\<not> status d > 0" using ok by (simp add: dev_ok_def)
  have "dev_ok d' \<and> (b \<noteq> blk \<longrightarrow> content d' b = content d b) \<and> (err = 0 \<longrightarrow> content d' blk = data)"
  proof (cases "writable d \<and> blk < actual_blocks d")
    case False
    then have "check_run blk 1 d = ERR_BLK_BOUNDS \<or> \<not> writable d" by (auto simp: check_run_def)
    then show ?thesis using w ok st
      by (cases "writable d") (auto simp: dev_write_def blk_write_imm_def)
  next
    case True
    then have c: "check_run blk 1 d = 0" and blk: "blk < actual_blocks d" using run_one by blast+
    obtain e d1 where wn: "write_now (block_sector blk d) data 8 d = (e, d1)" by fastforce
    have res: "err = e" "d' = d1\<lparr>status := e\<rparr>"
      using w st wn c True by (auto simp: dev_write_def blk_write_imm_def finish_def blk_status_def)
    have l8: "8 * 128 \<le> length data" using l by (simp add: BLOCK_SIZE_CELLS_def)
    have fit: "unat (block_sector blk d) * 128 + 8 * 128 \<le> length (file_cells d)"
      using content_slice(2) [OF ok blk] by simp
    note s = write_now_shape [OF wn l8 fit]
    have ok': "dev_ok d'" using ok s(1-4) by (simp add: res dev_ok_def)
    moreover have "content d' b = content d b" if "b \<noteq> blk"
    proof (cases "b < actual_blocks d")
      case bb: True
      have ne: "unat b \<noteq> unat blk" using that by (simp add: unat_eq_iff)
      have q: "unat (block_sector b d) = unat (base d) + unat b * 8"
        "unat (block_sector blk d) = unat (base d) + unat blk * 8"
        using block_sector_unat [OF ok] bb blk by blast+
      have apart: "unat (block_sector b d) * 128 + 1024 \<le> unat (block_sector blk d) * 128 \<or>
          unat (block_sector blk d) * 128 + 8 * 128 \<le> unat (block_sector b d) * 128"
        unfolding q distrib_right using ne by linarith
      have "content d' b = take 1024 (drop (unat (block_sector b d) * 128) (file_cells d1))"
        using bb s(3,4) by (simp add: content_def res q)
      also have "\<dots> = take 1024 (drop (unat (block_sector b d) * 128) (file_cells d))"
        by (rule s(7) [OF content_slice(2) [OF ok bb] apart])
      finally show ?thesis using content_slice(1) [OF ok bb] by simp
    qed (simp add: content_def res s(4))
    moreover have "content d' blk = data" if "err = 0"
    proof -
      have "content d' blk = take 1024 (drop (unat (block_sector blk d) * 128) (file_cells d1))"
        using blk s(3,4) block_sector_unat [OF ok blk] by (simp add: content_def res)
      then show ?thesis using s(8) that l by (simp add: res BLOCK_SIZE_CELLS_def)
    qed
    ultimately show ?thesis by blast
  qed
  then show "dev_ok d'" "b \<noteq> blk \<Longrightarrow> content d' b = content d b" "err = 0 \<Longrightarrow> content d' blk = data" by auto
qed

interpretation desktop: block_device desktop_ops dev_ok content
  by unfold_locales (auto simp: desktop_ops_def dest: dev_read_law dev_write_law)

section \<open>Properties\<close>

text \<open>C15: \<open>block\<close> and \<open>load\<close> get a block through the buffers without changing any block as the
  system sees it, evictions and device errors included, and on success the buffer whose address
  they give holds the block and is the one \<open>update\<close> will mark.\<close>

theorem block_read_coherent:
  assumes "buffers_ok dev_ok content s" "lfAssignBlock desktop_ops blk f_addr s = (err, addr, t)"
  shows "buffers_ok dev_ok content t \<and>
    (\<forall>b. b \<noteq> UNASSIGNED_BLOCK \<longrightarrow> block_view content t b = block_view content s b) \<and>
    (err = 0 \<longrightarrow> (\<exists>i < SYSTEM_BLOCKS. addr = buffer_address i \<and> active_buf_idx t = int i \<and>
       payload t ! i = block_view content s blk))"
  using desktop.assign_keeps [OF assms] by (auto simp: desktop.same_view_def)

text \<open>A device of one block, nothing in the buffers yet.\<close>

definition demo_dev :: blk_dev where
  "demo_dev = \<lparr>file_cells = replicate 1024 7, faults = [], mode_card = False, map_mounted = False,
     vol_start = 0, vol_sectors = 0, base = 0, dev_sectors = 8, actual_blocks = 1, writable = True,
     space = 1, status = 0\<rparr>"

definition demo_sys :: "blk_dev block_sys" where
  "demo_sys = \<lparr>buf_state = [], payload = [replicate 1024 0, replicate 1024 0], lru_clock = 0,
     active_buf_idx = - 1, initialized = False, device = demo_dev, g_block_capacity = 1\<rparr>"

lemma demo_ok: "buffers_ok dev_ok content demo_sys"
proof -
  have "i < 2 \<Longrightarrow> [replicate 1024 0, replicate 1024 (0 :: u32)] ! i = replicate 1024 0" for i
    by (cases i) (auto simp: less_Suc_eq numeral_2_eq_2)
  then show ?thesis
    by (simp add: buffers_ok_def demo_sys_def dev_ok_def demo_dev_def SYSTEM_BLOCKS_def BLOCK_SIZE_CELLS_def)
qed

lemma demo_read: "\<exists>t. lfAssignBlock desktop_ops 0 0 demo_sys = (0, LF_BLOCKBUFS, t)"
proof -
  have r: "read_now 0 (replicate 1024 0) 8 demo_dev = (0, replicate 1024 7, demo_dev)"
    by (simp add: read_now_def next_fault_def demo_dev_def moved_def Let_def)
  have "dev_read 0 (replicate 1024 0) demo_dev = (0, replicate 1024 7, demo_dev\<lparr>status := 0\<rparr>)"
    using r by (simp add: dev_read_def blk_read_imm_def check_run_def block_sector_def demo_dev_def)
      (simp add: finish_def blk_status_def)
  then show ?thesis
    by (simp add: lfAssignBlock_def find_or_allocate_buffer_def demo_sys_def init_buffer_system_def
        find_buf_def SYSTEM_BLOCKS_def unassigned_buf_def UNASSIGNED_BLOCK_def upt_rec desktop_ops_def
        buffer_address_def Let_def)
qed

lemma block_read_coherent_witness:
  "\<exists>t i. lfAssignBlock desktop_ops 0 0 demo_sys = (0, LF_BLOCKBUFS, t) \<and>
     payload t ! i = block_view content demo_sys 0"
proof -
  obtain t where t: "lfAssignBlock desktop_ops 0 0 demo_sys = (0, LF_BLOCKBUFS, t)" using demo_read by auto
  from block_read_coherent [OF demo_ok t] t show ?thesis by auto
qed

text \<open>C16: what is put in a block's buffer and marked with \<open>update\<close> is on the device once \<open>flush\<close>
  reports success, and with it every other block as the system saw it; a flush that fails loses
  nothing from view.\<close>

theorem edit_persists:
  assumes "buffers_ok dev_ok content s" "lfAssignBlock desktop_ops blk f_addr s = (0, addr, t)"
    and "length new = BLOCK_SIZE_CELLS"
    and "lfAPI_flush desktop_ops (edit_active new (snd (lfAPI_update t))) = (err, u)"
  shows "buffers_ok dev_ok content u \<and> block_view content u blk = new \<and>
    (\<forall>b. b \<noteq> blk \<longrightarrow> b \<noteq> UNASSIGNED_BLOCK \<longrightarrow> block_view content u b = block_view content s b) \<and>
    (err = 0 \<longrightarrow> content (device u) blk = new \<and>
      (\<forall>b. b \<noteq> blk \<longrightarrow> b \<noteq> UNASSIGNED_BLOCK \<longrightarrow> content (device u) b = block_view content s b))"
proof -
  obtain i where i: "i < SYSTEM_BLOCKS" "initialized t" "bid t i = blk" "blk \<noteq> UNASSIGNED_BLOCK"
      "active_buf_idx t = int i" and t: "buffers_ok dev_ok content t" "desktop.same_view s t"
    using desktop.assign_keeps [OF assms(1,2)] by auto
  note e = desktop.edit_keeps [OF t(1) i(2,5,1,3,4) assms(3)]
  note f = desktop.flush_keeps [OF e(1) assms(4)]
  have other: "block_view content (edit_active new (snd (lfAPI_update t))) b = block_view content s b"
    if "b \<noteq> blk" "b \<noteq> UNASSIGNED_BLOCK" for b
    using e(3) [OF that] t(2) that by (simp add: desktop.same_view_def)
  show ?thesis
    using f e(2) other i(4) by (auto simp: desktop.same_view_def)
qed

lemma edit_persists_witness:
  "\<exists>t err u. lfAssignBlock desktop_ops 0 0 demo_sys = (0, LF_BLOCKBUFS, t) \<and>
     lfAPI_flush desktop_ops (edit_active (replicate 1024 9) (snd (lfAPI_update t))) = (err, u) \<and>
     block_view content u 0 = replicate 1024 9"
proof -
  obtain t where t: "lfAssignBlock desktop_ops 0 0 demo_sys = (0, LF_BLOCKBUFS, t)" using demo_read by auto
  obtain err u where u: "lfAPI_flush desktop_ops (edit_active (replicate 1024 9) (snd (lfAPI_update t))) = (err, u)"
    by fastforce
  have "length (replicate 1024 (9 :: u32)) = BLOCK_SIZE_CELLS" by (simp add: BLOCK_SIZE_CELLS_def)
  from edit_persists [OF demo_ok t this u] t u show ?thesis by auto
qed

text \<open>C17: the write fence: whatever sectors a program asks to write, only cells inside the card's
  exFAT volume ever change, so the partition table and the other volumes are safe.\<close>

theorem sector_write_fenced:
  assumes "unat (dev_sectors d) * 128 \<le> length (file_cells d)"
    and "file_cells (snd (blk_sector_write_imm lba src count d)) ! i \<noteq> file_cells d ! i"
    and "i < length (file_cells d)"
  shows "mode_card d \<and> map_mounted d \<and> unat (vol_start d) * 128 \<le> i \<and>
    i < (unat (vol_start d) + unat (vol_sectors d)) * 128"
proof -
  define e where "e = check_sectors lba count d"
  have run: "\<not> status d > 0" "e = 0" "blk_write_fence lba count d = 0"
    using assms(2) by (auto simp: blk_sector_write_imm_def e_def Let_def split: if_splits)
  then have fc: "file_cells (snd (blk_sector_write_imm lba src count d)) =
      file_cells (snd (write_now lba src (nat count) d))"
    by (simp add: blk_sector_write_imm_def Let_def case_prod_unfold flip: e_def)
  have c: "1 \<le> count" "count \<le> 64" "lba < dev_sectors d"
    using run(2) by (auto simp: e_def check_sectors_def split: if_splits)
  define n where "n = nat count"
  have n: "1 \<le> n" "n \<le> 64" "count = int n" using c by (simp_all add: n_def)
  have un: "unat (word_of_int count :: u32) = n"
    using n by (simp add: unsigned_of_nat take_bit_nat_eq_self)
  have "unat (dev_sectors d - lba) = unat (dev_sectors d) - unat lba"
    using c(3) by (intro unat_sub) simp
  then have cap: "unat lba + n \<le> unat (dev_sectors d)"
    using run(2) c un by (auto simp: e_def check_sectors_def word_less_nat split: if_splits)
  have f: "mode_card d" "map_mounted d" "unat (vol_start d) \<le> unat lba"
    using run(3) by (auto simp: blk_write_fence_def word_le_nat not_less split: if_splits)
  have "(ucast lba :: u64) + ucast (word_of_int count :: u32) \<le> ucast (vol_start d) + ucast (vol_sectors d)"
    using run(3) by (auto simp: blk_write_fence_def not_less split: if_splits)
  then have vol: "unat lba + n \<le> unat (vol_start d) + unat (vol_sectors d)"
    using unat_bounds(3) [of lba] unat_bounds(3) [of "vol_start d"] unat_bounds(3) [of "vol_sectors d"]
      n(2) un by (simp add: word_le_nat unat_word_ariths unat_ucast_wide)
  have inside: "unat lba * 128 \<le> i \<and> i < (unat lba + n) * 128"
  proof (rule ccontr)
    assume out: "\<not> (unat lba * 128 \<le> i \<and> i < (unat lba + n) * 128)"
    define put where "put = moved (fst (next_fault d)) (take (n * 128) src)"
    have "length put \<le> n * 128"
      using moved_length [of "fst (next_fault d)" "take (n * 128) src"] by (simp add: put_def)
    moreover have "(unat lba + n) * 128 \<le> length (file_cells d)"
      using cap assms(1) by (meson le_trans mult_le_mono1)
    ultimately have "overlay (unat lba * 128) put (file_cells d) ! i = file_cells d ! i"
      using out assms(3) by (intro overlay_nth) (auto simp: distrib_right)
    then have "file_cells (snd (write_now lba src n d)) ! i = file_cells d ! i"
      by (auto simp: write_now_def Let_def case_prod_unfold simp flip: put_def)
    then show False using assms(2) fc by (simp add: n_def)
  qed
  have "unat (vol_start d) * 128 \<le> i" using f(3) inside by linarith
  moreover have "(unat lba + n) * 128 \<le> (unat (vol_start d) + unat (vol_sectors d)) * 128"
    using vol by (rule mult_le_mono1)
  ultimately show ?thesis using f(1,2) inside by linarith
qed

text \<open>A card of three sectors whose volume is the second one: a write there goes through.\<close>

definition demo_card :: blk_dev where
  "demo_card = demo_dev\<lparr>file_cells := replicate 384 0, mode_card := True, map_mounted := True,
     vol_start := 1, vol_sectors := 1, dev_sectors := 3\<rparr>"

lemma demo_write:
  "file_cells (snd (blk_sector_write_imm 1 (replicate 128 5) 1 demo_card)) =
    replicate 128 0 @ replicate 128 5 @ replicate 128 0"
  by (simp add: blk_sector_write_imm_def demo_card_def demo_dev_def check_sectors_def blk_write_fence_def
      write_now_def next_fault_def moved_def overlay_def Let_def word_le_nat flip: replicate_add)

lemma sector_write_fenced_witness:
  "unat (vol_start demo_card) * 128 \<le> 130 \<and> (130 :: nat) < (unat (vol_start demo_card) + unat (vol_sectors demo_card)) * 128"
proof -
  have "file_cells (snd (blk_sector_write_imm 1 (replicate 128 5) 1 demo_card)) ! 130 \<noteq> file_cells demo_card ! 130"
    unfolding demo_write by (simp add: nth_append demo_card_def demo_dev_def)
  moreover have "unat (dev_sectors demo_card) * 128 \<le> length (file_cells demo_card)"
    "130 < length (file_cells demo_card)" by (simp_all add: demo_card_def)
  ultimately show ?thesis using sector_write_fenced by blast
qed

end
