(* ===== verification/LF_Bytes.thy ===== *)
theory LF_Bytes
  imports LF_Prelude
begin

text \<open>
  Words as bytes, for the ciphers, the hash and the file formats: \<^verbatim>\<open>get32\<close> and \<^verbatim>\<open>put32\<close> of
  \<^verbatim>\<open>src/src/ctr.c\<close> (big-endian), \<^verbatim>\<open>load32\<close>, \<^verbatim>\<open>store32\<close>, \<^verbatim>\<open>store16\<close> and \<^verbatim>\<open>rotr32\<close> of
  \<^verbatim>\<open>src/src/blake2s.h\<close> (little-endian; \<^verbatim>\<open>src/src/datalog.c\<close> has the same \<^verbatim>\<open>put32\<close> and
  \<^verbatim>\<open>get32\<close>), and the rotation of \<^verbatim>\<open>src/src/ctr.c\<close>. A pointer to bytes is the list of bytes from there
  on.
\<close>

definition get32_be :: "u8 list \<Rightarrow> u32" where
  "get32_be p =
     push_bit 24 (ucast (p ! 0)) OR push_bit 16 (ucast (p ! 1)) OR push_bit 8 (ucast (p ! 2)) OR ucast (p ! 3)"

definition put32_be :: "u32 \<Rightarrow> u8 list" where
  "put32_be x = [ucast (drop_bit 24 x), ucast (drop_bit 16 x), ucast (drop_bit 8 x), ucast x]"

definition load32 :: "u8 list \<Rightarrow> u32" where
  "load32 p =
     ucast (p ! 0) OR push_bit 8 (ucast (p ! 1)) OR push_bit 16 (ucast (p ! 2)) OR push_bit 24 (ucast (p ! 3))"

definition store32 :: "u32 \<Rightarrow> u8 list" where
  "store32 w = [ucast w, ucast (drop_bit 8 w), ucast (drop_bit 16 w), ucast (drop_bit 24 w)]"

definition store16 :: "u16 \<Rightarrow> u8 list" where
  "store16 w = [ucast w, ucast (drop_bit 8 w)]"

definition rotr32 :: "u32 \<Rightarrow> nat \<Rightarrow> u32" where
  "rotr32 w c = drop_bit c w OR push_bit (32 - c) w"

definition rotl :: "u32 \<Rightarrow> nat \<Rightarrow> u32" where
  "rotl x n = push_bit n x OR drop_bit (32 - n) x"

lemma length_put [simp]: "length (put32_be x) = 4" "length (store32 x) = 4" "length (store16 h) = 2"
  by (simp_all add: put32_be_def store32_def store16_def)

lemma bit8_beyond [simp]: "8 \<le> n \<Longrightarrow> \<not> bit (x :: u8) n"
  by (auto dest: bit_imp_le_length)

lemma bit_shift_back: "\<not> bit (x :: 'a::len word) (k + (n - k)) \<Longrightarrow> bit x n \<Longrightarrow> n < k"
  by (metis le_add_diff_inverse not_le)

lemma bytes_of_word:
  "n < 32 \<Longrightarrow> bit (x :: u32) n \<longleftrightarrow>
    (if n < 8 then bit (ucast x :: u8) n else if n < 16 then bit (ucast (drop_bit 8 x) :: u8) (n - 8)
     else if n < 24 then bit (ucast (drop_bit 16 x) :: u8) (n - 16) else bit (ucast (drop_bit 24 x) :: u8) (n - 24))"
  by (auto simp: bit_simps)

lemma get_put_be [simp]: "get32_be (put32_be x @ r) = x" "get32_be (put32_be x) = x"
proof -
  have "get32_be (put32_be x @ r) = x" for r
    by (rule bit_word_eqI) (auto simp: get32_be_def put32_be_def bit_simps dest: bit_shift_back)
  from this [of r] this [of "[]"] show "get32_be (put32_be x @ r) = x" "get32_be (put32_be x) = x" by simp_all
qed

lemma load_store [simp]: "load32 (store32 x @ r) = x" "load32 (store32 x) = x"
proof -
  have "load32 (store32 x @ r) = x" for r
    by (rule bit_word_eqI) (auto simp: load32_def store32_def bit_simps dest: bit_shift_back)
  from this [of r] this [of "[]"] show "load32 (store32 x @ r) = x" "load32 (store32 x) = x" by simp_all
qed

lemma put_get_be: "put32_be (get32_be [a, b, c, d]) = [a, b, c, d]"
  unfolding get32_be_def put32_be_def
  by (auto intro!: bit_word_eqI simp: bit_simps)

lemma store_load: "store32 (load32 [a, b, c, d]) = [a, b, c, d]"
  unfolding load32_def store32_def
  by (auto intro!: bit_word_eqI simp: bit_simps)

section \<open>Bytes in a buffer\<close>

text \<open>\<open>memcpy (buf + at, bytes, length bytes)\<close> and \<open>memcmp (buf + at, bytes, length bytes) == 0\<close>.\<close>

definition copy_at :: "nat \<Rightarrow> u8 list \<Rightarrow> u8 list \<Rightarrow> u8 list" where
  "copy_at p bs buf = take p buf @ bs @ drop (p + length bs) buf"

definition same_at :: "nat \<Rightarrow> u8 list \<Rightarrow> u8 list \<Rightarrow> bool" where
  "same_at p bs buf \<longleftrightarrow> take (length bs) (drop p buf) = bs"

lemma length_copy_at [simp]: "p + length bs \<le> length buf \<Longrightarrow> length (copy_at p bs buf) = length buf"
  by (simp add: copy_at_def)

lemma same_copied [simp]: "p \<le> length buf \<Longrightarrow> same_at p bs (copy_at p bs buf)"
  by (simp add: same_at_def copy_at_def)

lemma same_beside [simp]:
  "\<lbrakk>p + length bs \<le> length buf; q + length m \<le> p \<or> p + length bs \<le> q\<rbrakk>
   \<Longrightarrow> same_at q m (copy_at p bs buf) = same_at q m buf"
  by (auto simp: same_at_def copy_at_def drop_take min_def)

lemma take_beside [simp]:
  "\<lbrakk>p + length bs \<le> length buf; q + n \<le> p \<or> p + length bs \<le> q\<rbrakk>
   \<Longrightarrow> take n (drop q (copy_at p bs buf)) = take n (drop q buf)"
  by (auto simp: copy_at_def drop_take min_def)

end
