(* ===== verification/LF_Ctr.thy ===== *)
theory LF_Ctr
  imports LF_Bytes
begin

text \<open>
  The ciphers of \<^verbatim>\<open>src/src/ctr.c\<close>: AES-128 and SM4 encryption of 16-byte blocks, and the
  CTR mode of the update packages and data logs, for targets without the hardware engine (\<^verbatim>\<open>CTR_HW\<close>
  is not defined). Arrays of bytes are lists; the locale \<open>block_cipher\<close> is what CTR mode asks of a
  cipher.
\<close>

section \<open>Tables\<close>

definition aes_sbox :: "u8 list" where
  "aes_sbox =
   [0x63, 0x7c, 0x77, 0x7b, 0xf2, 0x6b, 0x6f, 0xc5, 0x30, 0x01, 0x67, 0x2b, 0xfe, 0xd7, 0xab, 0x76,
    0xca, 0x82, 0xc9, 0x7d, 0xfa, 0x59, 0x47, 0xf0, 0xad, 0xd4, 0xa2, 0xaf, 0x9c, 0xa4, 0x72, 0xc0,
    0xb7, 0xfd, 0x93, 0x26, 0x36, 0x3f, 0xf7, 0xcc, 0x34, 0xa5, 0xe5, 0xf1, 0x71, 0xd8, 0x31, 0x15,
    0x04, 0xc7, 0x23, 0xc3, 0x18, 0x96, 0x05, 0x9a, 0x07, 0x12, 0x80, 0xe2, 0xeb, 0x27, 0xb2, 0x75,
    0x09, 0x83, 0x2c, 0x1a, 0x1b, 0x6e, 0x5a, 0xa0, 0x52, 0x3b, 0xd6, 0xb3, 0x29, 0xe3, 0x2f, 0x84,
    0x53, 0xd1, 0x00, 0xed, 0x20, 0xfc, 0xb1, 0x5b, 0x6a, 0xcb, 0xbe, 0x39, 0x4a, 0x4c, 0x58, 0xcf,
    0xd0, 0xef, 0xaa, 0xfb, 0x43, 0x4d, 0x33, 0x85, 0x45, 0xf9, 0x02, 0x7f, 0x50, 0x3c, 0x9f, 0xa8,
    0x51, 0xa3, 0x40, 0x8f, 0x92, 0x9d, 0x38, 0xf5, 0xbc, 0xb6, 0xda, 0x21, 0x10, 0xff, 0xf3, 0xd2,
    0xcd, 0x0c, 0x13, 0xec, 0x5f, 0x97, 0x44, 0x17, 0xc4, 0xa7, 0x7e, 0x3d, 0x64, 0x5d, 0x19, 0x73,
    0x60, 0x81, 0x4f, 0xdc, 0x22, 0x2a, 0x90, 0x88, 0x46, 0xee, 0xb8, 0x14, 0xde, 0x5e, 0x0b, 0xdb,
    0xe0, 0x32, 0x3a, 0x0a, 0x49, 0x06, 0x24, 0x5c, 0xc2, 0xd3, 0xac, 0x62, 0x91, 0x95, 0xe4, 0x79,
    0xe7, 0xc8, 0x37, 0x6d, 0x8d, 0xd5, 0x4e, 0xa9, 0x6c, 0x56, 0xf4, 0xea, 0x65, 0x7a, 0xae, 0x08,
    0xba, 0x78, 0x25, 0x2e, 0x1c, 0xa6, 0xb4, 0xc6, 0xe8, 0xdd, 0x74, 0x1f, 0x4b, 0xbd, 0x8b, 0x8a,
    0x70, 0x3e, 0xb5, 0x66, 0x48, 0x03, 0xf6, 0x0e, 0x61, 0x35, 0x57, 0xb9, 0x86, 0xc1, 0x1d, 0x9e,
    0xe1, 0xf8, 0x98, 0x11, 0x69, 0xd9, 0x8e, 0x94, 0x9b, 0x1e, 0x87, 0xe9, 0xce, 0x55, 0x28, 0xdf,
    0x8c, 0xa1, 0x89, 0x0d, 0xbf, 0xe6, 0x42, 0x68, 0x41, 0x99, 0x2d, 0x0f, 0xb0, 0x54, 0xbb, 0x16]"

definition sm4_sbox :: "u8 list" where
  "sm4_sbox =
   [0xd6, 0x90, 0xe9, 0xfe, 0xcc, 0xe1, 0x3d, 0xb7, 0x16, 0xb6, 0x14, 0xc2, 0x28, 0xfb, 0x2c, 0x05,
    0x2b, 0x67, 0x9a, 0x76, 0x2a, 0xbe, 0x04, 0xc3, 0xaa, 0x44, 0x13, 0x26, 0x49, 0x86, 0x06, 0x99,
    0x9c, 0x42, 0x50, 0xf4, 0x91, 0xef, 0x98, 0x7a, 0x33, 0x54, 0x0b, 0x43, 0xed, 0xcf, 0xac, 0x62,
    0xe4, 0xb3, 0x1c, 0xa9, 0xc9, 0x08, 0xe8, 0x95, 0x80, 0xdf, 0x94, 0xfa, 0x75, 0x8f, 0x3f, 0xa6,
    0x47, 0x07, 0xa7, 0xfc, 0xf3, 0x73, 0x17, 0xba, 0x83, 0x59, 0x3c, 0x19, 0xe6, 0x85, 0x4f, 0xa8,
    0x68, 0x6b, 0x81, 0xb2, 0x71, 0x64, 0xda, 0x8b, 0xf8, 0xeb, 0x0f, 0x4b, 0x70, 0x56, 0x9d, 0x35,
    0x1e, 0x24, 0x0e, 0x5e, 0x63, 0x58, 0xd1, 0xa2, 0x25, 0x22, 0x7c, 0x3b, 0x01, 0x21, 0x78, 0x87,
    0xd4, 0x00, 0x46, 0x57, 0x9f, 0xd3, 0x27, 0x52, 0x4c, 0x36, 0x02, 0xe7, 0xa0, 0xc4, 0xc8, 0x9e,
    0xea, 0xbf, 0x8a, 0xd2, 0x40, 0xc7, 0x38, 0xb5, 0xa3, 0xf7, 0xf2, 0xce, 0xf9, 0x61, 0x15, 0xa1,
    0xe0, 0xae, 0x5d, 0xa4, 0x9b, 0x34, 0x1a, 0x55, 0xad, 0x93, 0x32, 0x30, 0xf5, 0x8c, 0xb1, 0xe3,
    0x1d, 0xf6, 0xe2, 0x2e, 0x82, 0x66, 0xca, 0x60, 0xc0, 0x29, 0x23, 0xab, 0x0d, 0x53, 0x4e, 0x6f,
    0xd5, 0xdb, 0x37, 0x45, 0xde, 0xfd, 0x8e, 0x2f, 0x03, 0xff, 0x6a, 0x72, 0x6d, 0x6c, 0x5b, 0x51,
    0x8d, 0x1b, 0xaf, 0x92, 0xbb, 0xdd, 0xbc, 0x7f, 0x11, 0xd9, 0x5c, 0x41, 0x1f, 0x10, 0x5a, 0xd8,
    0x0a, 0xc1, 0x31, 0x88, 0xa5, 0xcd, 0x7b, 0xbd, 0x2d, 0x74, 0xd0, 0x12, 0xb8, 0xe5, 0xb4, 0xb0,
    0x89, 0x69, 0x97, 0x4a, 0x0c, 0x96, 0x77, 0x7e, 0x65, 0xb9, 0xf1, 0x09, 0xc5, 0x6e, 0xc6, 0x84,
    0x18, 0xf0, 0x7d, 0xec, 0x3a, 0xdc, 0x4d, 0x20, 0x79, 0xee, 0x5f, 0x3e, 0xd7, 0xcb, 0x39, 0x48]"

section \<open>AES\<close>

definition aes_subword :: "u32 \<Rightarrow> u32" where
  "aes_subword x =
     push_bit 24 (ucast (aes_sbox ! unat (drop_bit 24 x))) OR
     push_bit 16 (ucast (aes_sbox ! unat (drop_bit 16 x AND 255))) OR
     push_bit 8 (ucast (aes_sbox ! unat (drop_bit 8 x AND 255))) OR ucast (aes_sbox ! unat (x AND 255))"

definition xtime :: "u8 \<Rightarrow> u8" where
  "xtime x = push_bit 1 x XOR (if x AND 0x80 \<noteq> 0 then 0x1b else 0)"

text \<open>Round key number i, from the ones before it; \<open>rcon\<close> steps at every fourth.\<close>

definition aes_key_step :: "u32 list \<times> u8 \<Rightarrow> nat \<Rightarrow> u32 list \<times> u8" where
  "aes_key_step = (\<lambda>(rk, rcon) i.
     let t = rk ! (i - 1) in
     if i mod 4 = 0
     then (rk @ [rk ! (i - 4) XOR (aes_subword (rotl t 8) XOR push_bit 24 (ucast rcon))], xtime rcon)
     else (rk @ [rk ! (i - 4) XOR t], rcon))"

definition aes_setkey :: "u8 list \<Rightarrow> u32 list" where
  "aes_setkey key =
     fst (foldl aes_key_step (map (\<lambda>i. get32_be (drop (4 * i) key)) [0..<4], 1) [4..<44])"

definition add_round_key :: "u32 list \<Rightarrow> nat \<Rightarrow> u8 list \<Rightarrow> u8 list" where
  "add_round_key rk round t =
     concat (map (\<lambda>i. put32_be (get32_be (drop (4 * i) t) XOR rk ! (4 * round + i))) [0..<4])"

definition sub_shift :: "u8 list \<Rightarrow> u8 list" where
  "sub_shift s = map (\<lambda>i. aes_sbox ! unat (s ! ((i + 4 * (i mod 4)) mod 16))) [0..<16]"

definition mix_column :: "u8 \<Rightarrow> u8 \<Rightarrow> u8 \<Rightarrow> u8 \<Rightarrow> u8 list" where
  "mix_column a0 a1 a2 a3 =
     (let all = a0 XOR a1 XOR a2 XOR a3 in
      [a0 XOR (all XOR xtime (a0 XOR a1)), a1 XOR (all XOR xtime (a1 XOR a2)),
       a2 XOR (all XOR xtime (a2 XOR a3)), a3 XOR (all XOR xtime (a3 XOR a0))])"

definition mix_columns :: "u8 list \<Rightarrow> u8 list" where
  "mix_columns t =
     concat (map (\<lambda>c. mix_column (t ! (4 * c)) (t ! (4 * c + 1)) (t ! (4 * c + 2)) (t ! (4 * c + 3))) [0..<4])"

definition aes_round :: "u32 list \<Rightarrow> u8 list \<Rightarrow> nat \<Rightarrow> u8 list" where
  "aes_round rk s round =
     (let t = sub_shift s; t = (if round < 10 then mix_columns t else t) in add_round_key rk round t)"

definition aes_encrypt :: "u32 list \<Rightarrow> u8 list \<Rightarrow> u8 list" where
  "aes_encrypt rk inp = foldl (aes_round rk) (add_round_key rk 0 inp) [1..<11]"

section \<open>SM4\<close>

definition sm4_tau :: "u32 \<Rightarrow> u32" where
  "sm4_tau x =
     push_bit 24 (ucast (sm4_sbox ! unat (drop_bit 24 x))) OR
     push_bit 16 (ucast (sm4_sbox ! unat (drop_bit 16 x AND 255))) OR
     push_bit 8 (ucast (sm4_sbox ! unat (drop_bit 8 x AND 255))) OR ucast (sm4_sbox ! unat (x AND 255))"

definition sm4_fk :: "u32 list" where
  "sm4_fk = [0xa3b1bac6, 0x56aa3350, 0x677d9197, 0xb27022dc]"

definition sm4_ck :: "nat \<Rightarrow> u32" where
  "sm4_ck i = foldl (\<lambda>ck j. push_bit 8 ck OR ucast (word_of_nat ((4 * i + j) * 7) :: u8)) 0 [0..<4]"

type_synonym quad = "u32 \<times> u32 \<times> u32 \<times> u32"

definition sm4_key_step :: "quad \<times> u32 list \<Rightarrow> nat \<Rightarrow> quad \<times> u32 list" where
  "sm4_key_step = (\<lambda>((k0, k1, k2, k3), rk) i.
     let b = sm4_tau (k1 XOR k2 XOR k3 XOR sm4_ck i); nxt = k0 XOR b XOR rotl b 13 XOR rotl b 23
     in ((k1, k2, k3, nxt), rk @ [nxt]))"

definition sm4_setkey :: "u8 list \<Rightarrow> u32 list" where
  "sm4_setkey key =
     (let k = (\<lambda>i. get32_be (drop (4 * i) key) XOR sm4_fk ! i)
      in snd (foldl sm4_key_step ((k 0, k 1, k 2, k 3), []) [0..<32]))"

definition sm4_round :: "quad \<Rightarrow> u32 \<Rightarrow> quad" where
  "sm4_round = (\<lambda>(x0, x1, x2, x3) rk.
     let b = sm4_tau (x1 XOR x2 XOR x3 XOR rk);
         nxt = x0 XOR b XOR rotl b 2 XOR rotl b 10 XOR rotl b 18 XOR rotl b 24
     in (x1, x2, x3, nxt))"

definition sm4_encrypt :: "u32 list \<Rightarrow> u8 list \<Rightarrow> u8 list" where
  "sm4_encrypt rk inp =
     (let x = (\<lambda>i. get32_be (drop (4 * i) inp));
          (y0, y1, y2, y3) = foldl sm4_round (x 0, x 1, x 2, x 3) (map (\<lambda>i. rk ! i) [0..<32])
      in put32_be y3 @ put32_be y2 @ put32_be y1 @ put32_be y0)"

section \<open>The interface\<close>

definition CTR_AES128 :: int where [const_defs]: "CTR_AES128 = 1"
definition CTR_SM4 :: int where [const_defs]: "CTR_SM4 = 2"

record ctr_key =
  cipher :: int
  round_keys :: "u32 list"
  the_key :: "u8 list"

definition zero_key :: ctr_key where
  "zero_key = \<lparr>cipher = 0, round_keys = replicate 44 0, the_key = replicate 16 0\<rparr>"

definition ctr_setkey :: "int \<Rightarrow> u8 list \<Rightarrow> int \<times> ctr_key" where
  "ctr_setkey c key =
     (if c = CTR_AES128
      then (0, \<lparr>cipher = c, round_keys = aes_setkey key, the_key = take 16 key\<rparr>)
      else if c = CTR_SM4
      then (0, \<lparr>cipher = c, round_keys = sm4_setkey key @ replicate 12 0, the_key = take 16 key\<rparr>)
      else (- 1, zero_key))"

definition ctr_encrypt_block :: "ctr_key \<Rightarrow> u8 list \<Rightarrow> u8 list" where
  "ctr_encrypt_block k inp =
     (if cipher k = CTR_SM4 then sm4_encrypt (round_keys k) inp else aes_encrypt (round_keys k) inp)"

text \<open>The counter block: the nonce and the count, big-endian.\<close>

definition counter_block :: "u8 list \<Rightarrow> u64 \<Rightarrow> u8 list" where
  "counter_block nonce count = nonce @ map (\<lambda>i. ucast (drop_bit (56 - 8 * i) count)) [0..<8]"

function ctr_loop :: "(u8 list \<Rightarrow> u8 list) \<Rightarrow> u8 list \<Rightarrow> u64 \<Rightarrow> u8 list \<Rightarrow> u8 list" where
  "ctr_loop enc nonce count buf =
     (if buf = [] then []
      else map2 (XOR) (take 16 buf) (enc (counter_block nonce count)) @
        ctr_loop enc nonce (count + 1) (drop 16 buf))"
  by pat_completeness auto
termination by (relation "measure (\<lambda>(enc, nonce, count, buf). length buf)") auto

declare ctr_loop.simps [simp del]

definition ctr_crypt_block_sw :: "ctr_key \<Rightarrow> u8 list \<Rightarrow> u32 \<Rightarrow> u8 list \<Rightarrow> u8 list" where
  "ctr_crypt_block_sw k nonce n buf = ctr_loop (ctr_encrypt_block k) nonce (ucast n * 256) buf"

definition ctr_crypt_block :: "ctr_key \<Rightarrow> u8 list \<Rightarrow> u32 \<Rightarrow> u8 list \<Rightarrow> int \<times> u8 list" where
  "ctr_crypt_block k nonce n buf = (0, ctr_crypt_block_sw k nonce n buf)"

definition ctr_wipe :: "ctr_key \<Rightarrow> ctr_key" where
  "ctr_wipe k = zero_key"

section \<open>CTR mode over any cipher\<close>

lemma length_counter [simp]: "length (counter_block nonce count) = length nonce + 8"
  by (simp add: counter_block_def)

locale block_cipher =
  fixes enc :: "u8 list \<Rightarrow> u8 list"
  assumes length_enc: "length b = 16 \<Longrightarrow> length (enc b) = 16"
begin

lemma ctr_nth:
  "length nonce = 8 \<Longrightarrow> length (ctr_loop enc nonce count buf) = length buf \<and>
    (\<forall>i < length buf. ctr_loop enc nonce count buf ! i =
       buf ! i XOR enc (counter_block nonce (count + word_of_nat (i div 16))) ! (i mod 16))"
proof (induction "length buf" arbitrary: count buf rule: less_induct)
  case less
  show ?case
  proof (cases "buf = []")
    case True
    then show ?thesis by (simp add: ctr_loop.simps)
  next
    case False
    define ks where "ks = enc (counter_block nonce count)"
    have l: "length ks = 16" unfolding ks_def using less.prems by (intro length_enc) simp
    have e: "ctr_loop enc nonce count buf =
        map2 (XOR) (take 16 buf) ks @ ctr_loop enc nonce (count + 1) (drop 16 buf)"
      using False by (subst ctr_loop.simps) (simp add: ks_def)
    have "length (drop 16 buf) < length buf" using False by simp
    note ih = less.hyps [OF this less.prems, of "count + 1"]
    have m: "length (map2 (XOR) (take 16 buf) ks) = min 16 (length buf)" using l by simp
    show ?thesis
    proof (intro conjI allI impI)
      show "length (ctr_loop enc nonce count buf) = length buf" unfolding e using ih l by simp
      fix i assume i: "i < length buf"
      show "ctr_loop enc nonce count buf ! i =
          buf ! i XOR enc (counter_block nonce (count + word_of_nat (i div 16))) ! (i mod 16)"
      proof (cases "i < 16")
        case True
        then show ?thesis unfolding e using i l by (simp add: nth_append flip: ks_def)
      next
        case ge: False
        then have d: "i div 16 = Suc ((i - 16) div 16)" "i mod 16 = (i - 16) mod 16"
          by (simp_all add: le_div_geq le_mod_geq)
        have "ctr_loop enc nonce count buf ! i = ctr_loop enc nonce (count + 1) (drop 16 buf) ! (i - 16)"
          unfolding e using i l ge by (simp add: nth_append)
        also have "\<dots> = drop 16 buf ! (i - 16) XOR
            enc (counter_block nonce (count + 1 + word_of_nat ((i - 16) div 16))) ! ((i - 16) mod 16)"
          using ih i ge by simp
        finally show ?thesis using i ge by (simp add: d add.assoc)
      qed
    qed
  qed
qed

lemma ctr_twice:
  "length nonce = 8 \<Longrightarrow> ctr_loop enc nonce count (ctr_loop enc nonce count buf) = buf"
  using ctr_nth [of nonce count buf] ctr_nth [of nonce count "ctr_loop enc nonce count buf"]
  by (intro nth_equalityI) (auto simp: xor.assoc)

end

section \<open>The two ciphers\<close>

lemma length_add_round_key: "length (add_round_key rk round t) = 16"
  by (simp add: add_round_key_def upt_rec)

lemma length_aes: "length (aes_encrypt rk inp) = 16"
proof -
  have "length s = 16 \<Longrightarrow> length (foldl (aes_round rk) s rs) = 16" for s rs
    by (induction rs arbitrary: s) (simp_all add: aes_round_def length_add_round_key Let_def)
  then show ?thesis by (simp add: aes_encrypt_def length_add_round_key)
qed

lemma length_sm4: "length (sm4_encrypt rk inp) = 16"
  by (simp add: sm4_encrypt_def Let_def case_prod_unfold)

lemma length_encrypt_block [simp]: "length (ctr_encrypt_block k inp) = 16"
  by (simp add: ctr_encrypt_block_def length_aes length_sm4)

lemma length_ctr_loop [simp]: "length (ctr_loop (ctr_encrypt_block k) iv c p) = length p"
proof (induction "ctr_encrypt_block k" iv c p rule: ctr_loop.induct)
  case (1 iv c p)
  then show ?case
    by (cases "p = []") (simp_all add: ctr_loop.simps [of _ _ _ p] ctr_loop.simps [of _ _ _ "[]"] min_def)
qed

lemma length_crypt_block_sw [simp]: "length (ctr_crypt_block_sw k nonce n buf) = length buf"
  by (simp add: ctr_crypt_block_sw_def)

interpretation either: block_cipher "ctr_encrypt_block k" for k
  by unfold_locales (simp add: ctr_encrypt_block_def length_aes length_sm4)

text \<open>C18: a block is encrypted byte by byte with the keystream of its own counters, and encrypting
  it again with the same key, nonce and block number gives back the plain text.\<close>

theorem ctr_crypt_correct:
  assumes "length nonce = 8"
  shows "ctr_crypt_block k nonce n (snd (ctr_crypt_block k nonce n buf)) = (0, buf) \<and>
    length (snd (ctr_crypt_block k nonce n buf)) = length buf \<and>
    (\<forall>i < length buf. snd (ctr_crypt_block k nonce n buf) ! i = buf ! i XOR
       ctr_encrypt_block k (counter_block nonce (ucast n * 256 + word_of_nat (i div 16))) ! (i mod 16))"
  using either.ctr_twice [OF assms] either.ctr_nth [OF assms]
  by (simp add: ctr_crypt_block_def ctr_crypt_block_sw_def)

lemma ctr_crypt_correct_witness:
  "ctr_crypt_block (snd (ctr_setkey CTR_SM4 (replicate 16 1))) [1, 2, 3, 4, 5, 6, 7, 8] 3
     (snd (ctr_crypt_block (snd (ctr_setkey CTR_SM4 (replicate 16 1))) [1, 2, 3, 4, 5, 6, 7, 8] 3 [65, 66])) =
    (0, [65, 66])"
  using ctr_crypt_correct [of "[1, 2, 3, 4, 5, 6, 7, 8]"] by simp

section \<open>SM4 backwards\<close>

definition flip4 :: "quad \<Rightarrow> quad" where
  "flip4 = (\<lambda>(x0, x1, x2, x3). (x3, x2, x1, x0))"

lemma xor_twice:
  "(x XOR b XOR p XOR q XOR r XOR s) XOR b XOR p XOR q XOR r XOR s = (x :: u32)"
  by (rule bit_word_eqI) (auto simp: bit_simps)

lemma round_back: "sm4_round (flip4 (sm4_round x rk)) rk = flip4 x"
proof -
  obtain x0 x1 x2 x3 where x: "x = (x0, x1, x2, x3)" by (cases x) auto
  have "x3 XOR x2 XOR x1 XOR rk = x1 XOR x2 XOR x3 XOR rk"
    by (simp add: xor.commute xor.left_commute)
  then show ?thesis unfolding x by (simp add: sm4_round_def flip4_def Let_def xor_twice)
qed

lemma rounds_back: "foldl sm4_round (flip4 (foldl sm4_round x rks)) (rev rks) = flip4 x"
proof (induction rks arbitrary: x rule: rev_induct)
  case (snoc rk rks)
  then show ?case by (simp add: round_back)
qed simp

lemma sm4_words:
  "sm4_encrypt rk inp = (let (z0, z1, z2, z3) = flip4 (foldl sm4_round
      (get32_be inp, get32_be (drop 4 inp), get32_be (drop 8 inp), get32_be (drop 12 inp))
      (map (\<lambda>i. rk ! i) [0..<32])) in put32_be z0 @ put32_be z1 @ put32_be z2 @ put32_be z3)"
  by (simp add: sm4_encrypt_def flip4_def Let_def case_prod_unfold)

lemma get_put_quad:
  "get32_be (put32_be a @ put32_be b @ put32_be c @ put32_be d) = a"
  "get32_be (drop 4 (put32_be a @ put32_be b @ put32_be c @ put32_be d)) = b"
  "get32_be (drop 8 (put32_be a @ put32_be b @ put32_be c @ put32_be d)) = c"
  "get32_be (drop 12 (put32_be a @ put32_be b @ put32_be c @ put32_be d)) = d"
  by simp_all

lemma put_get_16:
  "length p = 16 \<Longrightarrow>
    put32_be (get32_be p) @ put32_be (get32_be (drop 4 p)) @ put32_be (get32_be (drop 8 p)) @
      put32_be (get32_be (drop 12 p)) = p"
proof -
  assume l: "length p = 16"
  have g: "put32_be (get32_be q) = take 4 q" if "4 \<le> length q" for q
  proof -
    have "\<exists>a b c d r. q = a # b # c # d # r"
      using that by (auto simp: eval_nat_numeral Suc_le_length_iff)
    then obtain a b c d r where q: "q = a # b # c # d # r" by auto
    then have "take 4 q = [a, b, c, d]" by (simp add: eval_nat_numeral)
    moreover have "get32_be q = get32_be [a, b, c, d]" by (simp add: q get32_be_def)
    ultimately show ?thesis by (simp add: put_get_be)
  qed
  have "take 4 (drop 4 p) @ drop 8 p = drop 4 p" "take 4 (drop 8 p) @ drop 12 p = drop 8 p"
    using append_take_drop_id [of 4 "drop 4 p"] append_take_drop_id [of 4 "drop 8 p"] by simp_all
  moreover have "take 4 p @ drop 4 p = p" "take 4 (drop 12 p) = drop 12 p" using l by simp_all
  ultimately show ?thesis using l by (simp add: g)
qed

text \<open>C20: SM4 encryption with the round keys in reverse order undoes SM4 encryption, so the cipher is
  a permutation of the 16-byte blocks whatever the round keys.\<close>

theorem sm4_reversible:
  assumes "length rk = 32" "length inp = 16"
  shows "sm4_encrypt (rev rk) (sm4_encrypt rk inp) = inp"
proof -
  have m: "map ((!) ks) [0..<32] = ks" if "length ks = 32" for ks :: "u32 list"
    using that by (metis map_nth)
  define x where "x = (get32_be inp, get32_be (drop 4 inp), get32_be (drop 8 inp), get32_be (drop 12 inp))"
  obtain z0 z1 z2 z3 where z: "flip4 (foldl sm4_round x rk) = (z0, z1, z2, z3)" by (cases "flip4 (foldl sm4_round x rk)") auto
  have out: "sm4_encrypt rk inp = put32_be z0 @ put32_be z1 @ put32_be z2 @ put32_be z3"
    unfolding sm4_words m [OF assms(1)] x_def [symmetric] z by simp
  have "length (rev rk) = 32" using assms(1) by simp
  have bk: "flip4 (foldl sm4_round (z0, z1, z2, z3) (rev rk)) = flip4 (flip4 x)"
    using rounds_back [of x rk] by (simp add: z)
  have "flip4 (flip4 x) = x" by (simp add: x_def flip4_def)
  then show ?thesis
    unfolding sm4_words [of "rev rk"] m [OF \<open>length (rev rk) = 32\<close>] out get_put_quad bk
    by (simp add: x_def put_get_16 [OF assms(2)])
qed

lemma sm4_reversible_witness:
  "sm4_encrypt (rev (replicate 32 9)) (sm4_encrypt (replicate 32 9) (replicate 16 3)) = replicate 16 3"
  by (rule sm4_reversible) simp_all

section \<open>AES is injective\<close>

lemma xtime_xor: "xtime (a XOR b) = xtime a XOR xtime b"
proof -
  have t: "x AND 0x80 \<noteq> 0 \<longleftrightarrow> bit x 7" for x :: u8
    using and_exp_eq_0_iff_not_bit [of x 7] by simp
  show ?thesis
    by (rule bit_word_eqI) (auto simp: xtime_def t bit_simps simp del: push_bit_numeral)
qed

type_synonym column = "u8 \<times> u8 \<times> u8 \<times> u8"

definition mix4 :: "column \<Rightarrow> column" where
  "mix4 = (\<lambda>(a0, a1, a2, a3). let all = a0 XOR a1 XOR a2 XOR a3 in
     (a0 XOR (all XOR xtime (a0 XOR a1)), a1 XOR (all XOR xtime (a1 XOR a2)),
      a2 XOR (all XOR xtime (a2 XOR a3)), a3 XOR (all XOR xtime (a3 XOR a0))))"

lemma xor_again: "(a :: u8) XOR (a XOR b) = b"
  by (simp flip: xor.assoc)

text \<open>Mixing a column four times gives it back.\<close>

lemma mix4_four: "mix4 (mix4 (mix4 (mix4 c))) = c"
proof -
  obtain a0 a1 a2 a3 where c: "c = (a0, a1, a2, a3)" by (cases c) auto
  have two: "mix4 (mix4 (b0, b1, b2, b3)) =
      (b0 XOR xtime (xtime b0) XOR xtime (xtime b2), b1 XOR xtime (xtime b1) XOR xtime (xtime b3),
       b2 XOR xtime (xtime b2) XOR xtime (xtime b0), b3 XOR xtime (xtime b3) XOR xtime (xtime b1))"
    for b0 b1 b2 b3
    by (simp add: mix4_def Let_def xtime_xor xor.assoc xor.commute xor.left_commute xor_again)
  show ?thesis unfolding c two
    by (simp add: xtime_xor xor.assoc xor.commute xor.left_commute xor_again)
qed

lemma mix_column_inj:
  assumes "mix_column a0 a1 a2 a3 = mix_column b0 b1 b2 b3"
  shows "a0 = b0 \<and> a1 = b1 \<and> a2 = b2 \<and> a3 = b3"
proof -
  have "mix4 (a0, a1, a2, a3) = mix4 (b0, b1, b2, b3)"
    using assms by (simp add: mix_column_def mix4_def Let_def)
  then have "(a0, a1, a2, a3) = (b0, b1, b2, b3)" by (metis mix4_four)
  then show ?thesis by simp
qed

lemma concat_four:
  assumes "\<And>i. length (f i) = 4" "\<And>i. length (g i) = 4" "concat (map f [0..<4]) = concat (map g [0..<4])"
    "c < 4"
  shows "f c = g c"
proof -
  have u: "[0..<4] = [0, 1, 2, 3 :: nat]" by (simp add: upt_rec)
  have "c = 0 \<or> c = 1 \<or> c = 2 \<or> c = 3" using assms(4) by linarith
  with assms(3) show ?thesis unfolding u by (auto simp: assms(1,2))
qed

lemma mix_columns_inj:
  assumes "length a = 16" "length b = 16" "mix_columns a = mix_columns b"
  shows "a = b"
proof (rule nth_equalityI)
  have l: "length (mix_column w x y z) = 4" for w x y z by (simp add: mix_column_def Let_def)
  have "mix_column (a ! (4 * c)) (a ! (4 * c + 1)) (a ! (4 * c + 2)) (a ! (4 * c + 3)) =
      mix_column (b ! (4 * c)) (b ! (4 * c + 1)) (b ! (4 * c + 2)) (b ! (4 * c + 3))" if "c < 4" for c
    using concat_four [OF _ _ assms(3) [unfolded mix_columns_def] that] l by simp
  note eq = mix_column_inj [OF this]
  fix i assume "i < length a"
  then have "i div 4 < 4" using assms(1) by (simp add: less_mult_imp_div_less)
  note eq = eq [OF this]
  define c r where "c = i div 4" and "r = i mod 4"
  have "i = 4 * c + r" by (simp add: c_def r_def)
  moreover have "r = 0 \<or> r = 1 \<or> r = 2 \<or> r = 3" unfolding r_def by linarith
  ultimately show "a ! i = b ! i" using eq unfolding c_def [symmetric] by auto
qed (simp add: assms)

lemma sbox_distinct: "distinct (map unat aes_sbox)"
  by (simp add: aes_sbox_def del: distinct_map)

lemma length_sbox: "length aes_sbox = 256"
  by (simp add: aes_sbox_def)

lemma sbox_inj: "aes_sbox ! unat (x :: u8) = aes_sbox ! unat y \<longleftrightarrow> x = y"
proof -
  have "distinct aes_sbox" using sbox_distinct by (simp only: distinct_map)
  moreover have "unat x < 256" "unat y < 256" using unat_bounds(1) [of x] unat_bounds(1) [of y] by simp_all
  ultimately show ?thesis by (simp add: nth_eq_iff_index_eq unat_eq_iff length_sbox)
qed

lemma sub_shift_inj:
  assumes "length a = 16" "length b = 16" "sub_shift a = sub_shift b"
  shows "a = b"
proof (rule nth_equalityI)
  fix k assume "k < length a"
  moreover have "set (map (\<lambda>i. (i + 4 * (i mod 4)) mod 16) [0..<16]) = set [0..<16]" by code_simp
  ultimately have "k \<in> set (map (\<lambda>i. (i + 4 * (i mod 4)) mod 16) [0..<16])" using assms(1) by simp
  then obtain i where "i < 16" "k = (i + 4 * (i mod 4)) mod 16" by auto
  then show "a ! k = b ! k" using assms(3) by (simp add: sub_shift_def sbox_inj)
qed (simp add: assms)

lemma same_words:
  assumes "length a = 16" "length b = 16" "get32_be a = get32_be b"
    "get32_be (drop 4 a) = get32_be (drop 4 b)" "get32_be (drop 8 a) = get32_be (drop 8 b)"
    "get32_be (drop 12 a) = get32_be (drop 12 b)"
  shows "a = b"
  using put_get_16 [OF assms(1)] put_get_16 [OF assms(2)] unfolding assms(3-6) by (rule trans [OF sym])

lemma xor_right: "x XOR k = y XOR k \<longleftrightarrow> x = (y :: u32)"
  by (metis xor.assoc xor_self_eq xor.right_neutral)

lemma add_round_key_inj:
  assumes "length a = 16" "length b = 16" "add_round_key rk r a = add_round_key rk r b"
  shows "a = b"
proof -
  have p: "put32_be x = put32_be y \<longleftrightarrow> x = y" for x y by (metis get_put_quad(1))
  have "get32_be (drop (4 * i) a) = get32_be (drop (4 * i) b)" if "i < 4" for i
    using concat_four [OF _ _ assms(3) [unfolded add_round_key_def] that] by (simp add: p xor_right)
  from this [of 0] this [of 1] this [of 2] this [of 3] show ?thesis
    using assms(1,2) by (intro same_words) simp_all
qed

lemma aes_round_inj:
  assumes "length a = 16" "length b = 16" "aes_round rk a r = aes_round rk b r"
  shows "a = b"
proof -
  have l: "length (sub_shift s) = 16" "length (mix_columns s) = 16" for s
    by (simp_all add: sub_shift_def mix_columns_def mix_column_def Let_def upt_rec)
  define mixed where "mixed s = (if r < 10 then mix_columns (sub_shift s) else sub_shift s)" for s
  have "length (mixed s) = 16" for s by (simp add: mixed_def l)
  moreover have "add_round_key rk r (mixed a) = add_round_key rk r (mixed b)"
    using assms(3) by (simp add: aes_round_def mixed_def Let_def)
  ultimately have "mixed a = mixed b" using add_round_key_inj by blast
  then have "sub_shift a = sub_shift b"
    using mix_columns_inj [OF l(1) l(1)] by (simp add: mixed_def split: if_splits)
  then show ?thesis by (rule sub_shift_inj [OF assms(1,2)])
qed

lemma aes_inj:
  assumes "length a = 16" "length b = 16" "aes_encrypt rk a = aes_encrypt rk b"
  shows "a = b"
proof -
  have "x = y" if "foldl (aes_round rk) x rs = foldl (aes_round rk) y rs" "length x = 16" "length y = 16"
    for x y rs
    using that
  proof (induction rs arbitrary: x y)
    case (Cons r rs)
    have "length (aes_round rk z r) = 16" for z by (simp add: aes_round_def length_add_round_key Let_def)
    with Cons have "aes_round rk x r = aes_round rk y r" by simp
    then show ?case by (rule aes_round_inj [OF Cons.prems(2,3)])
  qed simp
  then show ?thesis
    using assms add_round_key_inj [OF assms(1,2)] length_add_round_key unfolding aes_encrypt_def by metis
qed

lemma sm4_inj:
  assumes "length a = 16" "length b = 16" "sm4_encrypt rk a = sm4_encrypt rk b"
  shows "a = b"
proof -
  define ks where "ks = map ((!) rk) [0..<32]"
  define start where
    "start p = (get32_be p, get32_be (drop 4 p), get32_be (drop 8 p), get32_be (drop 12 p))" for p
  have enc: "sm4_encrypt rk p = (let (z0, z1, z2, z3) = flip4 (foldl sm4_round (start p) ks)
      in put32_be z0 @ put32_be z1 @ put32_be z2 @ put32_be z3)" for p
    by (simp add: sm4_words start_def ks_def)
  have "flip4 (foldl sm4_round (start a) ks) = flip4 (foldl sm4_round (start b) ks)"
    using assms(3) unfolding enc
    by (cases "flip4 (foldl sm4_round (start a) ks)"; cases "flip4 (foldl sm4_round (start b) ks)")
      (simp, metis get_put_quad)
  then have "flip4 (start a) = flip4 (start b)" by (metis rounds_back)
  then have "start a = start b" by (simp add: flip4_def split: prod.splits)
  then show ?thesis using assms(1,2) by (intro same_words) (simp_all add: start_def)
qed

lemma encrypt_block_inj:
  "length a = 16 \<Longrightarrow> length b = 16 \<Longrightarrow> ctr_encrypt_block k a = ctr_encrypt_block k b \<Longrightarrow> a = b"
  by (auto simp: ctr_encrypt_block_def split: if_splits dest: aes_inj sm4_inj)

section \<open>The keystream\<close>

lemma counter_inj:
  assumes "counter_block nonce c = counter_block nonce d"
  shows "c = d"
proof (rule bit_word_eqI)
  fix n assume "n < LENGTH(64)"
  then have n: "n < 64" by simp
  have "map (\<lambda>i. ucast (drop_bit (56 - 8 * i) c) :: u8) [0..<8] = map (\<lambda>i. ucast (drop_bit (56 - 8 * i) d)) [0..<8]"
    using assms by (simp add: counter_block_def)
  then have "(ucast (drop_bit (56 - 8 * i) c) :: u8) = ucast (drop_bit (56 - 8 * i) d)" if "i < 8" for i
    using that by (simp add: map_eq_conv)
  from this [of "7 - n div 8"] have e: "(ucast (drop_bit (56 - 8 * (7 - n div 8)) c) :: u8) =
      ucast (drop_bit (56 - 8 * (7 - n div 8)) d)" by simp
  have "n div 8 \<le> 7" using n by (simp add: less_mult_imp_div_less flip: less_Suc_eq_le)
  then have "56 - 8 * (7 - n div 8) = 8 * (n div 8)" by (simp add: diff_mult_distrib2)
  with e have "bit (ucast (drop_bit (8 * (n div 8)) c) :: u8) (n mod 8) =
      bit (ucast (drop_bit (8 * (n div 8)) d) :: u8) (n mod 8)" by simp
  then show "bit c n = bit d n" by (simp add: bit_simps)
qed

lemma block_counter:
  "i < 256 \<Longrightarrow> unat (ucast (n :: u32) * 256 + word_of_nat i :: u64) = unat n * 256 + i"
  using unat_bounds(3) [of n]
  by (simp add: unat_word_ariths unat_ucast_wide unsigned_of_nat take_bit_nat_eq_self)

lemma block_counter_inj:
  assumes "i < 256" "j < 256"
    "ucast (n :: u32) * 256 + word_of_nat i = (ucast (m :: u32) * 256 + word_of_nat j :: u64)"
  shows "n = m \<and> i = j"
proof -
  have "unat n * 256 + i = unat m * 256 + j"
    using block_counter [OF assms(1), of n] block_counter [OF assms(2), of m] assms(3) by simp
  moreover have "(unat n * 256 + i) div 256 = unat n" "(unat m * 256 + j) div 256 = unat m"
    using assms(1,2) by simp_all
  ultimately show ?thesis by (metis add_left_cancel unat_eq_iff)
qed

text \<open>Unit i (of 16 bytes) of the keystream that a block was encrypted with: plain text XOR cipher
  text.\<close>

definition keystream_unit :: "ctr_key \<Rightarrow> u8 list \<Rightarrow> u32 \<Rightarrow> u8 list \<Rightarrow> nat \<Rightarrow> u8 list" where
  "keystream_unit k nonce n buf i =
     take 16 (drop (16 * i) (map2 (XOR) buf (snd (ctr_crypt_block k nonce n buf))))"

lemma keystream_unit_eq:
  assumes "length nonce = 8" "16 * i + 16 \<le> length buf"
  shows "keystream_unit k nonce n buf i =
    ctr_encrypt_block k (counter_block nonce (ucast n * 256 + word_of_nat i))"
proof (rule nth_equalityI)
  show "length (keystream_unit k nonce n buf i) =
      length (ctr_encrypt_block k (counter_block nonce (ucast n * 256 + word_of_nat i)))"
    using assms by (simp add: keystream_unit_def ctr_crypt_block_def)
  fix j assume "j < length (keystream_unit k nonce n buf i)"
  then have j: "j < 16" using assms(2) by (simp add: keystream_unit_def)
  then have p: "16 * i + j < length buf" "(16 * i + j) div 16 = i" "(16 * i + j) mod 16 = j"
    using assms(2) by auto
  then have "ctr_crypt_block_sw k nonce n buf ! (16 * i + j) = buf ! (16 * i + j) XOR
      ctr_encrypt_block k (counter_block nonce (ucast n * 256 + word_of_nat i)) ! j"
    using either.ctr_nth [OF assms(1), of k "ucast n * 256" buf] by (simp add: ctr_crypt_block_sw_def)
  then show "keystream_unit k nonce n buf i ! j =
      ctr_encrypt_block k (counter_block nonce (ucast n * 256 + word_of_nat i)) ! j"
    using p j by (simp add: keystream_unit_def ctr_crypt_block_def flip: xor.assoc)
qed

text \<open>C19: no part of the keystream is used twice: what \<open>ctr_crypt_block\<close> adds to two different 16-byte
  units, of the same or of different blocks of up to 4 KB under one key and nonce, always differs,
  with AES-128 and with SM4. It rests on both ciphers being injective, which is proved above.\<close>

theorem keystream_unique:
  assumes "length nonce = 8" "length p \<le> 4096" "length q \<le> 4096"
    "16 * i + 16 \<le> length p" "16 * j + 16 \<le> length q"
    "keystream_unit k nonce n p i = keystream_unit k nonce m q j"
  shows "n = m \<and> i = j"
proof -
  have "counter_block nonce (ucast n * 256 + word_of_nat i) = counter_block nonce (ucast m * 256 + word_of_nat j)"
    by (rule encrypt_block_inj [where k = k])
      (use assms(6) in \<open>simp_all add: assms(1) keystream_unit_eq [OF assms(1,4)] keystream_unit_eq [OF assms(1,5)]\<close>)
  then show ?thesis using block_counter_inj [of i j n m] counter_inj assms by auto
qed

text \<open>Two zero blocks of one unit, numbers 5 and \<open>5 + 2 ^ 24\<close>.\<close>

lemma keystream_unique_witness:
  "keystream_unit (snd (ctr_setkey CTR_AES128 (replicate 16 1))) (replicate 8 7) 5 (replicate 16 0) 0 \<noteq>
    keystream_unit (snd (ctr_setkey CTR_AES128 (replicate 16 1))) (replicate 8 7) 0x01000005 (replicate 16 0) 0"
  using keystream_unique [of "replicate 8 7" "replicate 16 0" "replicate 16 0" 0 0]
  by fastforce

end
