(* ===== verification/LF_Blake2s.thy ===== *)
theory LF_Blake2s
  imports LF_Bytes
begin

text \<open>
  The hash of \<^verbatim>\<open>src/src/blake2s.c\<close>: BLAKE2s with a key, salt and personalization, fed byte by byte
  or in pieces, against the definition of RFC 7693 on the whole message. The buffer is the list of its
  \<open>buflen\<close> bytes in use. What the pieces may look like is the locale \<open>byte_stream\<close>.
\<close>

section \<open>State and compression\<close>

definition blake2s_IV :: "u32 list" where
  "blake2s_IV =
    [0x6A09E667, 0xBB67AE85, 0x3C6EF372, 0xA54FF53A, 0x510E527F, 0x9B05688C, 0x1F83D9AB, 0x5BE0CD19]"

definition blake2s_sigma :: "nat list list" where
  "blake2s_sigma =
   [[ 0,  1,  2,  3,  4,  5,  6,  7,  8,  9, 10, 11, 12, 13, 14, 15],
    [14, 10,  4,  8,  9, 15, 13,  6,  1, 12,  0,  2, 11,  7,  5,  3],
    [11,  8, 12,  0,  5,  2, 15, 13, 10, 14,  3,  6,  7,  1,  9,  4],
    [ 7,  9,  3,  1, 13, 12, 11, 14,  2,  6,  5, 10,  4,  0, 15,  8],
    [ 9,  0,  5,  7,  2,  4, 10, 15, 14,  1, 11, 12,  6,  8,  3, 13],
    [ 2, 12,  6, 10,  0, 11,  8,  3,  4, 13,  7,  5, 15, 14,  1,  9],
    [12,  5,  1, 15, 14, 13,  4, 10,  0,  7,  6,  3,  9,  2,  8, 11],
    [13, 11,  7, 14, 12,  1,  3,  9,  5,  0, 15,  4,  8,  6,  2, 10],
    [ 6, 15, 14,  9, 11,  3,  0,  8, 12,  2, 13,  7,  1,  4, 10,  5],
    [10,  2,  8,  4,  7,  6,  1,  5, 15, 11,  9, 14,  3, 12, 13,  0]]"

record blake2s_state =
  bh :: "u32 list"
  bt0 :: u32
  bt1 :: u32
  bf0 :: u32
  bf1 :: u32
  bbuf :: "u8 list"
  boutlen :: int
  blast_node :: bool

definition blake2s_is_lastblock :: "blake2s_state \<Rightarrow> bool" where
  "blake2s_is_lastblock S \<longleftrightarrow> bf0 S \<noteq> 0"

definition blake2s_set_lastnode :: "blake2s_state \<Rightarrow> blake2s_state" where
  "blake2s_set_lastnode S = S\<lparr>bf1 := - 1\<rparr>"

definition blake2s_set_lastblock :: "blake2s_state \<Rightarrow> blake2s_state" where
  "blake2s_set_lastblock S = (if blast_node S then blake2s_set_lastnode S else S)\<lparr>bf0 := - 1\<rparr>"

definition blake2s_increment_counter :: "u32 \<Rightarrow> blake2s_state \<Rightarrow> blake2s_state" where
  "blake2s_increment_counter inc S =
     (let t0 = bt0 S + inc in S\<lparr>bt0 := t0, bt1 := bt1 S + (if t0 < inc then 1 else 0)\<rparr>)"

definition blake2s_init0 :: blake2s_state where
  "blake2s_init0 = \<lparr>bh = blake2s_IV, bt0 = 0, bt1 = 0, bf0 = 0, bf1 = 0, bbuf = [], boutlen = 0,
     blast_node = False\<rparr>"

text \<open>The quarter round on four of the sixteen words, and a round by its sigma row.\<close>

definition G :: "nat \<Rightarrow> nat \<Rightarrow> nat \<Rightarrow> nat \<Rightarrow> u32 \<Rightarrow> u32 \<Rightarrow> u32 list \<Rightarrow> u32 list" where
  "G i j k l x y v =
     (let a = v ! i; b = v ! j; c = v ! k; d = v ! l;
          a = a + (b + x); d = rotr32 (d XOR a) 16;
          c = c + d; b = rotr32 (b XOR c) 12;
          a = a + (b + y); d = rotr32 (d XOR a) 8;
          c = c + d; b = rotr32 (b XOR c) 7
      in v[i := a, j := b, k := c, l := d])"

definition blake2s_round :: "u32 list \<Rightarrow> u32 list \<Rightarrow> nat list \<Rightarrow> u32 list" where
  "blake2s_round m v s =
     (let w = (\<lambda>i. m ! (s ! i));
          v = G 0 4 8 12 (w 0) (w 1) v;
          v = G 1 5 9 13 (w 2) (w 3) v;
          v = G 2 6 10 14 (w 4) (w 5) v;
          v = G 3 7 11 15 (w 6) (w 7) v;
          v = G 0 5 10 15 (w 8) (w 9) v;
          v = G 1 6 11 12 (w 10) (w 11) v;
          v = G 2 7 8 13 (w 12) (w 13) v
      in G 3 4 9 14 (w 14) (w 15) v)"

text \<open>The new chaining value, from the block, the byte counter and the final flags.\<close>

definition compress_h :: "u32 list \<Rightarrow> u8 list \<Rightarrow> u32 \<Rightarrow> u32 \<Rightarrow> u32 \<Rightarrow> u32 \<Rightarrow> u32 list" where
  "compress_h h block t0 t1 f0 f1 =
     (let m = map (\<lambda>i. load32 (drop (4 * i) block)) [0..<16];
          v = h @ take 4 blake2s_IV @ [t0 XOR blake2s_IV ! 4, t1 XOR blake2s_IV ! 5,
                f0 XOR blake2s_IV ! 6, f1 XOR blake2s_IV ! 7];
          v = foldl (blake2s_round m) v blake2s_sigma
      in map (\<lambda>i. h ! i XOR (v ! i XOR v ! (i + 8))) [0..<8])"

definition blake2s_compress :: "u8 list \<Rightarrow> blake2s_state \<Rightarrow> blake2s_state" where
  "blake2s_compress block S = S\<lparr>bh := compress_h (bh S) block (bt0 S) (bt1 S) (bf0 S) (bf1 S)\<rparr>"

section \<open>Appending\<close>

definition b2s_hmac_putc :: "u8 \<Rightarrow> blake2s_state \<Rightarrow> blake2s_state" where
  "b2s_hmac_putc c S =
     (let S1 = (if length (bbuf S) = 64
                then (blake2s_compress (bbuf S) (blake2s_increment_counter 64 S))\<lparr>bbuf := []\<rparr>
                else S)
      in S1\<lparr>bbuf := bbuf S1 @ [c]\<rparr>)"

function puts_loop :: "u8 list \<Rightarrow> blake2s_state \<Rightarrow> u8 list \<times> blake2s_state" where
  "puts_loop xs S =
     (if 64 < length xs
      then puts_loop (drop 64 xs) (blake2s_compress (take 64 xs) (blake2s_increment_counter 64 S))
      else (xs, S))"
  by pat_completeness auto
termination by (relation "measure (\<lambda>(xs, S). length xs)") auto

declare puts_loop.simps [simp del]

definition b2s_hmac_puts :: "u8 list \<Rightarrow> blake2s_state \<Rightarrow> blake2s_state" where
  "b2s_hmac_puts xs S =
     (if xs = [] then S
      else
        let left = 64 - length (bbuf S);
            (rest, S1) =
              (if left < length xs
               then puts_loop (drop left xs)
                 ((blake2s_compress (bbuf S @ take left xs) (blake2s_increment_counter 64 S))\<lparr>bbuf := []\<rparr>)
               else (xs, S))
        in S1\<lparr>bbuf := bbuf S1 @ rest\<rparr>)"

section \<open>Starting and finishing\<close>

text \<open>The parameter block: lengths, fanout and depth 1, no tree, salt and personalization.\<close>

definition param_block :: "int \<Rightarrow> u8 list \<Rightarrow> u8 list \<Rightarrow> u8 list \<Rightarrow> u8 list" where
  "param_block hsize key salt personal =
     [word_of_int hsize, word_of_nat (length key), 1, 1] @ store32 0 @ store32 0 @ store16 0 @ [0, 0] @
     salt @ personal"

definition blake2s_init_param :: "u8 list \<Rightarrow> int \<Rightarrow> blake2s_state" where
  "blake2s_init_param p digest_length =
     blake2s_init0\<lparr>bh := map (\<lambda>i. blake2s_IV ! i XOR load32 (drop (4 * i) p)) [0..<8],
       boutlen := digest_length\<rparr>"

definition pad64 :: "u8 list \<Rightarrow> u8 list" where
  "pad64 xs = xs @ replicate (64 - length xs) 0"

text \<open>An absent salt or personalization (NULL) is eight zeros.\<close>

definition or_zeros :: "u8 list option \<Rightarrow> u8 list" where
  "or_zeros x = (case x of None \<Rightarrow> replicate 8 0 | Some xs \<Rightarrow> take 8 xs)"

definition b2s_init ::
  "int \<Rightarrow> u8 list \<Rightarrow> u8 list option \<Rightarrow> u8 list option \<Rightarrow> blake2s_state \<Rightarrow> int \<times> blake2s_state" where
  "b2s_init hsize key salt personal S0 =
     (if hsize < 1 \<or> hsize > 32 \<or> length key > 32 then (0, S0)
      else
        let S = blake2s_init_param (param_block hsize key (or_zeros salt) (or_zeros personal)) hsize;
            S = (if key \<noteq> [] then b2s_hmac_puts (pad64 key) S else S)
        in (boutlen S, S))"

definition b2s_hmac_init :: "u8 list \<Rightarrow> int \<Rightarrow> u64 \<Rightarrow> blake2s_state \<Rightarrow> int \<times> blake2s_state" where
  "b2s_hmac_init key hsize ctr S0 =
     (let (n, S) = b2s_init hsize (take 32 key) None None S0 in
      if n = 0 then (0, S)
      else (boutlen S, S\<lparr>bt0 := bt0 S XOR ucast ctr, bt1 := bt1 S XOR ucast (drop_bit 32 ctr)\<rparr>))"

definition b2s_hmac_final :: "blake2s_state \<Rightarrow> int \<times> u8 list \<times> blake2s_state" where
  "b2s_hmac_final S =
     (if blake2s_is_lastblock S then (- 1, [], S)
      else
        let S1 = blake2s_set_lastblock (blake2s_increment_counter (word_of_nat (length (bbuf S))) S);
            S2 = blake2s_compress (pad64 (bbuf S)) S1
        in (0, take (nat (boutlen S)) (concat (map store32 (bh S2))), S2))"

section \<open>RFC 7693\<close>

text \<open>The message in 64-byte blocks, the last one padded: every block but the last is compressed with
  the bytes so far as the counter, the last one with the final flag.\<close>

function rfc_blocks :: "u32 list \<Rightarrow> u64 \<Rightarrow> u8 list \<Rightarrow> u32 list" where
  "rfc_blocks h t msg =
     (if 64 < length msg
      then rfc_blocks (compress_h h (take 64 msg) (ucast (t + 64)) (ucast (drop_bit 32 (t + 64))) 0 0)
             (t + 64) (drop 64 msg)
      else let t = t + word_of_nat (length msg)
           in compress_h h (pad64 msg) (ucast t) (ucast (drop_bit 32 t)) (- 1) 0)"
  by pat_completeness auto
termination by (relation "measure (\<lambda>(h, t, msg). length msg)") auto

declare rfc_blocks.simps [simp del]

definition start_h :: "int \<Rightarrow> u8 list \<Rightarrow> u8 list \<Rightarrow> u8 list \<Rightarrow> u32 list" where
  "start_h hsize key salt personal =
     map (\<lambda>i. blake2s_IV ! i XOR load32 (drop (4 * i) (param_block hsize key salt personal))) [0..<8]"

definition rfc7693 :: "int \<Rightarrow> u8 list \<Rightarrow> u8 list \<Rightarrow> u8 list \<Rightarrow> u8 list \<Rightarrow> u8 list" where
  "rfc7693 hsize key salt personal msg =
     take (nat hsize) (concat (map store32
       (rfc_blocks (start_h hsize key salt personal) 0 ((if key = [] then [] else pad64 key) @ msg))))"

section \<open>Feeding in pieces\<close>

text \<open>A consumer of bytes that may be fed in pieces: \<open>inv\<close> is what every call keeps, \<open>feed\<close> takes the
  next bytes.\<close>

locale byte_stream =
  fixes inv :: "'s \<Rightarrow> bool"
    and feed :: "u8 list \<Rightarrow> 's \<Rightarrow> 's"
  assumes feed_nil: "inv s \<Longrightarrow> feed [] s = s"
    and feed_append: "inv s \<Longrightarrow> feed (xs @ ys) s = feed ys (feed xs s)"
    and feed_inv: "inv s \<Longrightarrow> inv (feed xs s)"
begin

lemma feed_chunks: "inv s \<Longrightarrow> fold feed cs s = feed (concat cs) s"
  by (induction cs arbitrary: s) (simp_all add: feed_nil feed_append feed_inv)

lemma feed_bytes: "inv s \<Longrightarrow> fold (\<lambda>b. feed [b]) xs s = feed xs s"
  using feed_chunks [of s "map (\<lambda>b. [b]) xs"] by (simp add: fold_map comp_def)

lemma same_bytes_same_state:
  "\<lbrakk>inv s; concat cs = concat ds\<rbrakk> \<Longrightarrow> fold feed cs s = fold feed ds s"
  by (simp add: feed_chunks)

lemma chunks_inv: "inv s \<Longrightarrow> inv (fold feed cs s)"
  by (simp add: feed_chunks feed_inv)

end

text \<open>The state reached from \<open>S\<close> when the bytes \<open>zs\<close> are in order behind the blocks compressed so far.\<close>

definition block_step :: "u8 list \<Rightarrow> blake2s_state \<Rightarrow> blake2s_state" where
  "block_step block S = blake2s_compress block (blake2s_increment_counter 64 S)"

function absorb :: "blake2s_state \<Rightarrow> u8 list \<Rightarrow> blake2s_state" where
  "absorb S zs =
     (if 64 < length zs then absorb (block_step (take 64 zs) S) (drop 64 zs) else S\<lparr>bbuf := zs\<rparr>)"
  by pat_completeness auto
termination by (relation "measure (\<lambda>(S, zs). length zs)") auto

declare absorb.simps [simp del]

definition buf_ok :: "blake2s_state \<Rightarrow> bool" where
  "buf_ok S \<longleftrightarrow> length (bbuf S) \<le> 64"

lemma absorb_short: "length zs \<le> 64 \<Longrightarrow> absorb S zs = S\<lparr>bbuf := zs\<rparr>"
  by (simp add: absorb.simps)

lemma absorb_long:
  "64 < length zs \<Longrightarrow> absorb S zs = absorb (block_step (take 64 zs) S) (drop 64 zs)"
  by (simp add: absorb.simps [of S zs])

lemma block_step_bbuf [simp]:
  "bbuf (block_step b S) = bbuf S"
  "block_step b (S\<lparr>bbuf := x\<rparr>) = (block_step b S)\<lparr>bbuf := x\<rparr>"
  by (simp_all add: block_step_def blake2s_compress_def blake2s_increment_counter_def Let_def)

lemma absorb_any_bbuf [simp]: "absorb (S\<lparr>bbuf := x\<rparr>) zs = absorb S zs"
  by (induction S zs arbitrary: x rule: absorb.induct)
     (metis (no_types, lifting) absorb_long absorb_short block_step_bbuf(2) blake2s_state.surjective
       blake2s_state.update_convs(6) not_le)

lemma absorb_buf_ok: "buf_ok (absorb S zs)"
proof (induction S zs rule: absorb.induct)
  case (1 S zs)
  then show ?case
    by (cases "64 < length zs") (simp_all add: absorb_long [of zs S] absorb_short [of zs S] buf_ok_def)
qed

lemma absorb_append: "absorb (absorb S zs) (bbuf (absorb S zs) @ ws) = absorb S (zs @ ws)"
proof (induction S zs rule: absorb.induct)
  case (1 S zs)
  then show ?case
    by (cases "64 < length zs") (simp_all add: absorb_long [of zs S] absorb_long [of "zs @ ws" S] absorb_short [of zs S])
qed

lemma puts_loop_absorb: "puts_loop xs S = (r, S1) \<Longrightarrow> S1\<lparr>bbuf := r\<rparr> = absorb S xs \<and> bbuf S1 = bbuf S"
proof (induction xs S rule: puts_loop.induct)
  case (1 xs S)
  then show ?case
    by (cases "64 < length xs")
       (auto simp: puts_loop.simps [of xs S] absorb_long [of xs S] absorb_short
          simp flip: block_step_def)
qed

lemma puts_absorb:
  assumes "buf_ok S"
  shows "b2s_hmac_puts xs S = absorb S (bbuf S @ xs)"
proof (cases "xs = [] \<or> length xs \<le> 64 - length (bbuf S)")
  case True
  then show ?thesis
    using assms by (auto simp: b2s_hmac_puts_def absorb_short buf_ok_def)
next
  case False
  define l where "l = 64 - length (bbuf S)"
  have l: "l < length xs" "length (bbuf S) + l = 64" "xs \<noteq> []"
    using False assms by (auto simp: l_def buf_ok_def)
  obtain r S1 where r: "puts_loop (drop l xs) ((block_step (bbuf S @ take l xs) S)\<lparr>bbuf := []\<rparr>) = (r, S1)"
    by fastforce
  have long: "64 < length (bbuf S @ xs)" "take 64 (bbuf S @ xs) = bbuf S @ take l xs"
    "drop 64 (bbuf S @ xs) = drop l xs"
    using l assms by (auto simp: l_def buf_ok_def)
  show ?thesis
    using puts_loop_absorb [OF r] l r long
    by (simp add: b2s_hmac_puts_def Let_def absorb_long [OF long(1)] flip: block_step_def l_def)
qed

lemma putc_puts: "buf_ok S \<Longrightarrow> b2s_hmac_putc c S = b2s_hmac_puts [c] S"
  by (auto simp: b2s_hmac_putc_def b2s_hmac_puts_def buf_ok_def Let_def puts_loop.simps
      blake2s_compress_def blake2s_increment_counter_def)

interpretation hasher: byte_stream buf_ok b2s_hmac_puts
proof unfold_locales
  fix s xs ys
  assume s: "buf_ok s"
  show "b2s_hmac_puts [] s = s"
    by (simp add: b2s_hmac_puts_def)
  show ok: "buf_ok (b2s_hmac_puts xs s)"
    by (simp add: puts_absorb [OF s] absorb_buf_ok)
  show "b2s_hmac_puts (xs @ ys) s = b2s_hmac_puts ys (b2s_hmac_puts xs s)"
    by (simp add: puts_absorb [OF s] puts_absorb [OF ok] absorb_append)
       (simp add: puts_absorb absorb_buf_ok absorb_append)
qed

lemma putc_fold: "buf_ok S \<Longrightarrow> fold b2s_hmac_putc xs S = b2s_hmac_puts xs S"
proof (induction xs arbitrary: S)
  case (Cons c xs)
  then show ?case
    using hasher.feed_append [of S "[c]" xs] by (simp add: putc_puts hasher.feed_inv)
qed (simp add: b2s_hmac_puts_def)

section \<open>The counter and the digest\<close>

text \<open>The two counter words are one 64-bit counter.\<close>

definition counts :: "blake2s_state \<Rightarrow> u64 \<Rightarrow> bool" where
  "counts S t \<longleftrightarrow> bt0 S = ucast t \<and> bt1 S = ucast (drop_bit 32 t)"

lemma carry_low: "(ucast (t :: u64) :: u32) + inc = ucast (t + ucast inc)"
  by (simp add: word_eq_iff_unsigned [where 'a = nat] unat_word_ariths unsigned_ucast_eq take_bit_eq_mod
      mod_simps mod_mod_cancel)

lemma split_mod: "0 < k \<Longrightarrow> m mod (k * l) div k = m div k mod (l :: nat)" for k m :: nat
  by (simp add: mod_mult2_eq)

lemma carry_nat:
  fixes k a b n :: nat
  assumes "b < k" "n < k"
  shows "(a * k + (b + n)) mod (k * k) div k mod k = (a + (if k \<le> b + n then 1 else 0)) mod k"
proof -
  have "(b + n) div k = (if k \<le> b + n then 1 else 0)"
    using assms by (auto simp: div_if)
  then show ?thesis
    using assms by (simp add: split_mod)
qed

lemma carry_high:
  "(ucast (drop_bit 32 (t :: u64)) :: u32) + (if (ucast t :: u32) + inc < inc then 1 else 0)
   = ucast (drop_bit 32 (t + ucast inc))"
proof -
  define k :: nat where "k = 2 ^ 32"
  define a b n where "a = unat t div k" and "b = unat t mod k" and "n = unat inc"
  have t: "unat t = a * k + b"
    by (simp add: a_def b_def)
  have kk: "(2 :: nat) ^ 64 = k * k"
    by (simp add: k_def)
  have r: "b < k" "n < k" "a < k"
    using unsigned_less [of inc, where 'a = nat] unsigned_less [of t, where 'a = nat]
    by (auto simp: a_def b_def n_def k_def less_mult_imp_div_less)
  have "(ucast t :: u32) + inc < inc \<longleftrightarrow> (b + n) mod k < n"
    by (simp add: word_less_nat_alt unat_word_ariths b_def n_def k_def unsigned_ucast_eq take_bit_eq_mod mod_simps)
  also have "\<dots> \<longleftrightarrow> k \<le> b + n"
    using r by (cases "k \<le> b + n") (auto simp: mod_if)
  finally have c: "(ucast t :: u32) + inc < inc \<longleftrightarrow> k \<le> b + n" .
  have "unat (t + ucast inc) = (unat t + n) mod 2 ^ 64"
    using r(2) by (simp add: unat_word_ariths n_def k_def unsigned_ucast_eq take_bit_eq_mod mod_simps)
  then have s: "unat (t + ucast inc) = (a * k + (b + n)) mod (k * k)"
    by (simp only: t kk add.assoc)
  have "unat (ucast (drop_bit 32 (t + ucast inc)) :: u32) = unat (t + ucast inc) div k mod k"
    by (simp add: unsigned_ucast_eq take_bit_eq_mod unat_drop_bit_eq drop_bit_eq_div [where 'a = nat] k_def)
  also have "\<dots> = (a + (if k \<le> b + n then 1 else 0)) mod k"
    by (simp only: s carry_nat [OF r(1,2)])
  also have "\<dots> = unat ((ucast (drop_bit 32 t) :: u32) + (if k \<le> b + n then 1 else 0))"
    by (simp add: unat_word_ariths unsigned_ucast_eq take_bit_eq_mod unat_drop_bit_eq drop_bit_eq_div [where 'a = nat]
        mod_simps a_def k_def)
  finally show ?thesis
    by (simp add: word_eq_iff_unsigned [where 'a = nat] c)
qed

lemma increment_counts:
  "counts S t \<Longrightarrow> counts (blake2s_increment_counter inc S) (t + ucast inc)"
  by (simp add: counts_def blake2s_increment_counter_def Let_def carry_low [symmetric] carry_high [symmetric])

lemma increment_other [simp]:
  "bh (blake2s_increment_counter inc S) = bh S" "bf0 (blake2s_increment_counter inc S) = bf0 S"
  "bf1 (blake2s_increment_counter inc S) = bf1 S" "bbuf (blake2s_increment_counter inc S) = bbuf S"
  "boutlen (blake2s_increment_counter inc S) = boutlen S"
  "blast_node (blake2s_increment_counter inc S) = blast_node S"
  by (simp_all add: blake2s_increment_counter_def Let_def)

text \<open>A hash in progress: the counter, no final flag, not the last node of a tree.\<close>

definition running :: "blake2s_state \<Rightarrow> u64 \<Rightarrow> bool" where
  "running S t \<longleftrightarrow> counts S t \<and> bf0 S = 0 \<and> bf1 S = 0 \<and> \<not> blast_node S"

lemma running_step:
  "running S t \<Longrightarrow> running (block_step b S) (t + 64)"
  "running S t \<Longrightarrow>
   bh (block_step b S) = compress_h (bh S) b (ucast (t + 64)) (ucast (drop_bit 32 (t + 64))) 0 0"
  "boutlen (block_step b S) = boutlen S"
  using increment_counts [of S t 64]
  by (simp_all add: running_def block_step_def blake2s_compress_def counts_def)

lemma final_short:
  assumes "running S t" "length zs \<le> 64"
  shows "\<exists>S'. b2s_hmac_final (S\<lparr>bbuf := zs\<rparr>)
    = (0, take (nat (boutlen S)) (concat (map store32 (rfc_blocks (bh S) t zs))), S')"
proof -
  have c: "ucast (word_of_nat (length zs) :: u32) = (word_of_nat (length zs) :: u64)"
    using assms(2) by (simp add: word_eq_iff_unsigned [where 'a = nat] unsigned_ucast_eq unsigned_of_nat
        take_bit_nat_eq_self)
  have "running (S\<lparr>bbuf := zs\<rparr>) t"
    using assms(1) by (simp add: running_def counts_def)
  then show ?thesis
    using assms increment_counts [of "S\<lparr>bbuf := zs\<rparr>" t "word_of_nat (length zs)"]
    by (simp add: b2s_hmac_final_def running_def blake2s_is_lastblock_def blake2s_set_lastblock_def
        blake2s_compress_def counts_def rfc_blocks.simps [of _ _ zs] Let_def c)
qed

lemma final_absorb:
  "running S t \<Longrightarrow> \<exists>S'. b2s_hmac_final (absorb S zs)
    = (0, take (nat (boutlen S)) (concat (map store32 (rfc_blocks (bh S) t zs))), S')"
proof (induction S zs arbitrary: t rule: absorb.induct)
  case (1 S zs)
  show ?case
  proof (cases "64 < length zs")
    case True
    then show ?thesis
      using 1(1) [OF True running_step(1) [OF 1(2)]]
      by (simp add: absorb_long [OF True] running_step(2) [OF 1(2)] running_step(3)
          rfc_blocks.simps [of _ _ zs])
  next
    case False
    then show ?thesis
      using final_short [OF 1(2), of zs] by (simp add: absorb_short)
  qed
qed

section \<open>Starting\<close>

lemma init_param_running: "running (blake2s_init_param p n) 0"
  by (simp add: running_def counts_def blake2s_init_param_def blake2s_init0_def)

lemma length_pad64 [simp]: "length xs \<le> 64 \<Longrightarrow> length (pad64 xs) = 64"
  by (simp add: pad64_def)

text \<open>After initialization the padded key, when there is one, waits in the buffer.\<close>

lemma init_cases:
  assumes "1 \<le> hsize" "hsize \<le> 32" "length key \<le> 32"
  shows "\<exists>S. b2s_init hsize key salt personal S0 = (hsize, S) \<and> running S 0 \<and> boutlen S = hsize \<and>
    bh S = start_h hsize key (or_zeros salt) (or_zeros personal) \<and>
    bbuf S = (if key = [] then [] else pad64 key)"
proof -
  define S where "S = blake2s_init_param (param_block hsize key (or_zeros salt) (or_zeros personal)) hsize"
  have S: "running S 0" "boutlen S = hsize" "bbuf S = []" "buf_ok S"
    "bh S = start_h hsize key (or_zeros salt) (or_zeros personal)"
    by (simp_all add: S_def init_param_running)
       (simp_all add: blake2s_init_param_def blake2s_init0_def start_h_def buf_ok_def)
  then have "b2s_hmac_puts (pad64 key) S = S\<lparr>bbuf := pad64 key\<rparr>"
    using assms by (simp add: puts_absorb absorb_short)
  then show ?thesis
    using assms S by (auto simp: b2s_init_def Let_def running_def counts_def simp flip: S_def)
qed

lemma final_once: "b2s_hmac_final S = (0, d, S') \<Longrightarrow> b2s_hmac_final S' = (- 1, [], S')"
  by (auto simp: b2s_hmac_final_def blake2s_is_lastblock_def blake2s_set_lastblock_def blake2s_compress_def
      blake2s_set_lastnode_def Let_def split: if_splits)

lemma running_puts_final:
  assumes "running S t" "buf_ok S"
  shows "\<exists>S'. b2s_hmac_final (fold b2s_hmac_puts cs S)
    = (0, take (nat (boutlen S)) (concat (map store32 (rfc_blocks (bh S) t (bbuf S @ concat cs)))), S')"
  using assms final_absorb [of S t "bbuf S @ concat cs"] by (simp add: hasher.feed_chunks puts_absorb)

section \<open>What the hash promises\<close>

text \<open>The pieces in which the bytes of a message reach the hash do not matter: feeding them with
  \<open>b2s_hmac_puts\<close>, which compresses whole blocks straight from its argument, leaves the very state that
  feeding every byte with \<open>b2s_hmac_putc\<close> leaves, and the buffer never holds more than a block.\<close>

theorem puts_is_putc:
  assumes "length (bbuf S) \<le> 64"
  shows "fold b2s_hmac_puts chunks S = fold b2s_hmac_putc (concat chunks) S
    \<and> length (bbuf (fold b2s_hmac_puts chunks S)) \<le> 64"
  using assms hasher.chunks_inv [of S chunks]
  by (simp add: putc_fold hasher.feed_chunks buf_ok_def)

lemma puts_is_putc_witness:
  "fold b2s_hmac_puts [replicate 70 1, [], [2]] blake2s_init0
   = fold b2s_hmac_putc (concat [replicate 70 1, [], [2]]) blake2s_init0
   \<and> length (bbuf (fold b2s_hmac_puts [replicate 70 1, [], [2]] blake2s_init0)) \<le> 64"
  by (rule puts_is_putc) (simp add: blake2s_init0_def)

text \<open>C21: A hash that was started with a digest size of 1 to 32 and a key of at most 32 bytes, fed a
  message in any pieces and finished gives the BLAKE2s digest that RFC 7693 defines for the whole message;
  starting returns the size, and a second finish is refused and changes nothing.\<close>

theorem b2s_digest:
  assumes "1 \<le> hsize" "hsize \<le> 32" "length key \<le> 32"
    and "(n, S) = b2s_init hsize key salt personal S0"
  shows "n = hsize \<and>
    (\<exists>S'. b2s_hmac_final (fold b2s_hmac_puts chunks S)
        = (0, rfc7693 hsize key (or_zeros salt) (or_zeros personal) (concat chunks), S')
      \<and> b2s_hmac_final S' = (- 1, [], S'))"
proof -
  have S: "n = hsize" "running S 0" "boutlen S = hsize"
    "bh S = start_h hsize key (or_zeros salt) (or_zeros personal)"
    "bbuf S = (if key = [] then [] else pad64 key)"
    using init_cases [OF assms(1-3), of salt personal S0] assms(4) by auto
  moreover have "buf_ok S"
    using assms(3) by (simp add: buf_ok_def S(5))
  ultimately show ?thesis
    using running_puts_final [of S 0 chunks] final_once by (fastforce simp: rfc7693_def)
qed

lemma b2s_digest_witness:
  "fst (b2s_init 16 [7, 9] None (Some [1, 2, 3, 4, 5, 6, 7, 8]) blake2s_init0) = 16 \<and>
   (\<exists>S'. b2s_hmac_final (fold b2s_hmac_puts [[1], [2, 3]]
        (snd (b2s_init 16 [7, 9] None (Some [1, 2, 3, 4, 5, 6, 7, 8]) blake2s_init0)))
      = (0, rfc7693 16 [7, 9] (or_zeros None) (or_zeros (Some [1, 2, 3, 4, 5, 6, 7, 8])) (concat [[1], [2, 3]]), S')
    \<and> b2s_hmac_final S' = (- 1, [], S'))"
  by (rule b2s_digest) simp_all

text \<open>The keyed hash of a message with a counter, \<open>b2s_hmac_init\<close>, starts the byte counter of the
  compressions at \<open>ctr\<close> instead of 0: its digest is the RFC 7693 chain over the padded 32-byte key and the
  message, from that counter on, with the carry between the two counter words.\<close>

theorem b2s_hmac_digest:
  assumes "1 \<le> hsize" "hsize \<le> 32" "length key = 32"
    and "(n, S) = b2s_hmac_init key hsize ctr S0"
  shows "n = hsize \<and>
    (\<exists>S'. b2s_hmac_final (fold b2s_hmac_puts chunks S)
        = (0, take (nat hsize) (concat (map store32
            (rfc_blocks (start_h hsize key (or_zeros None) (or_zeros None)) ctr (pad64 key @ concat chunks)))), S'))"
proof -
  obtain T where T: "b2s_init hsize key None None S0 = (hsize, T)" "running T 0" "boutlen T = hsize"
    "bh T = start_h hsize key (or_zeros None) (or_zeros None)" "bbuf T = pad64 key"
    using init_cases [of hsize key None None S0] assms(1-3) by (auto split: if_splits)
  have S: "n = hsize" "S = T\<lparr>bt0 := bt0 T XOR ucast ctr, bt1 := bt1 T XOR ucast (drop_bit 32 ctr)\<rparr>"
    using assms T(1,3) by (simp_all add: b2s_hmac_init_def)
  have "running S ctr" "buf_ok S" "boutlen S = hsize"
    "bh S = start_h hsize key (or_zeros None) (or_zeros None)" "bbuf S = pad64 key"
    using T assms(3) by (simp_all add: S(2) running_def counts_def buf_ok_def)
  then show ?thesis
    using running_puts_final [of S ctr chunks] by (simp add: S(1))
qed

lemma b2s_hmac_digest_witness:
  "fst (b2s_hmac_init (replicate 32 5) 16 4294967290 blake2s_init0) = 16 \<and>
   (\<exists>S'. b2s_hmac_final (fold b2s_hmac_puts [[1, 2], [3]]
        (snd (b2s_hmac_init (replicate 32 5) 16 4294967290 blake2s_init0)))
      = (0, take (nat 16) (concat (map store32
          (rfc_blocks (start_h 16 (replicate 32 5) (or_zeros None) (or_zeros None)) 4294967290
            (pad64 (replicate 32 5) @ concat [[1, 2], [3]])))), S'))"
  by (rule b2s_hmac_digest) simp_all

end
