(* ===== verification/LF_Tools.thy ===== *)
theory LF_Tools
  imports VM_Exec LF_Errors "HOL-Library.Char_ord"
begin

text \<open>
  The shared helpers of \<^verbatim>\<open>src/src/tools.c\<close>: slice widths, output through \<open>lf_putc\<close> (which lets the app
  run while the port is busy), number output and input, and the system variables that live in the RAM
  page (\<^verbatim>\<open>src/src/forth.h\<close>). Everything acts on the \<open>machine\<close> of \<open>VM_State\<close>; functions that may run VM
  code take its fuel and the target's operations, and return \<open>None\<close> when the code does not return.
\<close>

section \<open>The RAM page (forth.h, options.h)\<close>

definition RAM_PAGE :: u32 where [const_defs]: "RAM_PAGE = 4"
definition TIBCELLS :: u32 where [const_defs]: "TIBCELLS = 132 div 4"
definition CONTEXT_SIZE :: u32 where [const_defs]: "CONTEXT_SIZE = 12"
definition VM_STEP_LIMIT :: u32 where [const_defs]: "VM_STEP_LIMIT = 100000000"

definition VARIABLE :: "u32 \<Rightarrow> u32" where
  "VARIABLE a = push_bit (22 - VM_LOG2_PAGES) RAM_PAGE OR a"

definition BITFIELD :: "u32 \<Rightarrow> u32 \<Rightarrow> u32 \<Rightarrow> u32" where
  "BITFIELD width pos a = push_bit 27 width OR push_bit 22 pos OR VARIABLE a"

definition F_CURRENT :: u32 where [const_defs]: "F_CURRENT = 1"
definition F_TIB :: u32 where [const_defs]: "F_TIB = 2"
definition F_BLK :: u32 where [const_defs]: "F_BLK = F_TIB + TIBCELLS + 1"
definition F_CONTEXT :: u32 where [const_defs]: "F_CONTEXT = F_BLK + 1"
definition F_CREATED :: u32 where [const_defs]: "F_CREATED = F_CONTEXT + (CONTEXT_SIZE + 7) div 4"
definition F_BLOCKBUFS :: u32 where [const_defs]: "F_BLOCKBUFS = (F_CREATED + 8) AND NOT 7"
definition F_PTRS :: u32 where [const_defs]: "F_PTRS = F_BLOCKBUFS + 1024 * 2"
definition F_HERE0 :: u32 where [const_defs]: "F_HERE0 = F_PTRS + 8"
definition F_PTRS_CP :: u32 where [const_defs]: "F_PTRS_CP = F_PTRS + 4"
definition F_PTRS_TP :: u32 where [const_defs]: "F_PTRS_TP = F_PTRS + 6"

lemma ram_consts [simp]:
  "RAM_PAGE = 4" "TIBCELLS = 33" "CONTEXT_SIZE = 12" "VM_STEP_LIMIT = 100000000" "F_CURRENT = 1" "F_TIB = 2" "F_BLK = 36"
  "F_CONTEXT = 37" "F_CREATED = 41" "F_BLOCKBUFS = 48" "F_PTRS = 2096" "F_HERE0 = 2104"
  "F_PTRS_CP = 2100" "F_PTRS_TP = 2102"
  by (simp_all add: const_defs)

definition LF_BASE :: u32 where "LF_BASE = BITFIELD 6 0 0"
definition LF_STATE :: u32 where "LF_STATE = BITFIELD 1 6 0"
definition LF_DPL :: u32 where "LF_DPL = BITFIELD 6 7 0"
definition LF_TOIN :: u32 where "LF_TOIN = BITFIELD 13 13 0"
definition LF_MSPACE :: u32 where "LF_MSPACE = BITFIELD 2 26 0"
definition LF_DEADTIB :: u32 where "LF_DEADTIB = BITFIELD 1 28 0"
definition LF_CREATED :: u32 where "LF_CREATED = VARIABLE F_CREATED"

text \<open>A cell of the RAM page as C reads and writes it, without the VM's checks.\<close>

definition ram_get :: "u32 \<Rightarrow> 'e machine \<Rightarrow> u32" where
  "ram_get i m = get_cell (vmem m) RAM_PAGE i"

definition ram_set :: "u32 \<Rightarrow> u32 \<Rightarrow> 'e machine \<Rightarrow> 'e machine" where
  "ram_set i x m = m\<lparr>vmem := set_cell (vmem m) RAM_PAGE i x\<rparr>"

text \<open>\<open>vmFetch\<close>, \<open>vmStore\<close>, \<open>vmPush\<close>, \<open>vmPop\<close> and \<open>vmPeek\<close> on the machine.\<close>

definition mFetch :: "u32 \<Rightarrow> 'e machine \<Rightarrow> u32" where
  "mFetch a m = snd (vmFetch (vmem m) a)"

definition mStore :: "u32 \<Rightarrow> u32 \<Rightarrow> 'e machine \<Rightarrow> ior \<times> 'e machine" where
  "mStore a x m = (let (ior, mem) = vmStore (vmem m) a x in (ior, m\<lparr>vmem := mem\<rparr>))"

definition mPush :: "u32 \<Rightarrow> 'e machine \<Rightarrow> ior \<times> 'e machine" where
  "mPush x m = (let (ior, v) = vmPush x (lf_vm m) in (ior, m\<lparr>lf_vm := v\<rparr>))"

definition mPop :: "'e machine \<Rightarrow> u32 \<times> 'e machine" where
  "mPop m = (let (x, v) = vmPop (lf_vm m) in (x, m\<lparr>lf_vm := v\<rparr>))"

definition mPeek :: "int \<Rightarrow> 'e machine \<Rightarrow> u32" where
  "mPeek r m = fst (vmPeek r (lf_vm m))"

definition mPoke :: "int \<Rightarrow> u32 \<Rightarrow> 'e machine \<Rightarrow> ior \<times> 'e machine" where
  "mPoke r x m = (let (ior, v) = vmPoke r x (lf_vm m) in (ior, m\<lparr>lf_vm := v\<rparr>))"

definition lfSTATEfetch :: "'e machine \<Rightarrow> int" where "lfSTATEfetch m = sint (mFetch LF_STATE m)"
definition lfSTATEstore :: "u32 \<Rightarrow> 'e machine \<Rightarrow> ior \<times> 'e machine" where "lfSTATEstore x = mStore LF_STATE x"
definition lfBASEfetch :: "'e machine \<Rightarrow> int" where "lfBASEfetch m = sint (mFetch LF_BASE m)"
definition lfBASEstore :: "u32 \<Rightarrow> 'e machine \<Rightarrow> ior \<times> 'e machine" where "lfBASEstore x = mStore LF_BASE x"

definition lfTpFetch :: "'e machine \<Rightarrow> u32" where "lfTpFetch m = ram_get F_PTRS_TP m"

definition lfTpStore :: "u32 \<Rightarrow> 'e machine \<Rightarrow> ior \<times> 'e machine" where
  "lfTpStore tp m =
     (if tp AND 0x3FFFFF \<ge> ram_get (F_PTRS_TP + 1) m then (ERR_DICTIONARY_OVERFLOW, m)
      else (0, ram_set F_PTRS_TP tp m))"

section \<open>Slice widths\<close>

definition lfSetSliceWidth :: "u32 \<Rightarrow> int \<Rightarrow> u32" where
  "lfSetSliceWidth addr bits =
     (let position = uint (drop_bit 22 addr AND 0x1F) in
      if bits < 1 \<or> bits > 31 then
        (if position \<noteq> 0 then (addr AND 0x3FFFFF) + 1 else addr) AND 0x3FFFFF
      else
        let position = ((position + bits - 1) div bits) * bits;
            addr = (if position + bits > 32 then (addr AND NOT (push_bit 22 0x1F)) + 1 else addr)
        in (addr AND NOT (push_bit 27 0x1F)) OR push_bit 27 (word_of_int bits))"

section \<open>Output\<close>

text \<open>The port is busy and the app runs, but no VM code is running: the app gets steps first. A hung
  app is stopped and the character is not sent.\<close>

definition lf_putc ::
  "nat \<Rightarrow> nat \<Rightarrow> 'e env_ops \<Rightarrow> char \<Rightarrow> 'e machine \<Rightarrow> (ior \<times> 'e machine) option" where
  "lf_putc f gf ops c m =
     (let (busy, e) = serial_busy ops (env m); m = m\<lparr>env := e\<rparr>;
          put = (\<lambda>m. let (ior, e) = serial_putc ops (of_char c) (env m) in (ior, m\<lparr>env := e\<rparr>))
      in if busy \<noteq> 0 \<and> sys_options m AND SYS_OPTION_RUNNING \<noteq> 0 \<and> vm_running m = 0 then
           (case vmRun f gf ops False VM_STEP_LIMIT 0 m of
              None \<Rightarrow> None
            | Some (ior, m) \<Rightarrow>
                if ior = ERR_VM_TIMEOUT
                then Some (ior, m\<lparr>sys_options := sys_options m AND NOT SYS_OPTION_RUNNING\<rparr>)
                else Some (put m))
         else Some (put m))"

fun lf_puts :: "nat \<Rightarrow> nat \<Rightarrow> 'e env_ops \<Rightarrow> string \<Rightarrow> 'e machine \<Rightarrow> (ior \<times> 'e machine) option" where
  "lf_puts f gf ops [] m = Some (0, m)"
| "lf_puts f gf ops (c # s) m =
     (case lf_putc f gf ops c m of
        None \<Rightarrow> None
      | Some (ior, m) \<Rightarrow> if ior \<noteq> 0 then Some (ior, m) else lf_puts f gf ops s m)"

text \<open>Go on whatever ior the output left, as code that ignores it does.\<close>

definition andThen ::
  "(ior \<times> 'e machine) option \<Rightarrow> ('e machine \<Rightarrow> (ior \<times> 'e machine) option) \<Rightarrow> (ior \<times> 'e machine) option" where
  "andThen r k = (case r of None \<Rightarrow> None | Some (ior, m) \<Rightarrow> k m)"

definition SYS_OPTION_USE_COLORS :: u32 where [const_defs]: "SYS_OPTION_USE_COLORS = 0x0080"
definition SYS_OPTION_NOT_SLICE :: u32 where [const_defs]: "SYS_OPTION_NOT_SLICE = 0x0200"

text \<open>The escape sequence that selects a color: standard, bright or reset.\<close>

definition lfSetColor :: "nat \<Rightarrow> nat \<Rightarrow> 'e env_ops \<Rightarrow> int \<Rightarrow> 'e machine \<Rightarrow> (ior \<times> 'e machine) option" where
  "lfSetColor f gf ops color m =
     (if sys_options m AND SYS_OPTION_USE_COLORS \<noteq> 0 then
        andThen (lf_puts f gf ops [char_of (27 :: nat), CHR ''[''] m) (\<lambda>m.
        andThen
          (if 0 \<le> color \<and> color \<le> 7 then
             andThen (lf_putc f gf ops CHR ''3'' m) (lf_putc f gf ops (char_of (48 + color)))
           else if 8 \<le> color \<and> color \<le> 15 then
             andThen (lf_putc f gf ops CHR ''9'' m) (lf_putc f gf ops (char_of (48 + (color - 8))))
           else lf_putc f gf ops CHR ''0'' m)
          (lf_putc f gf ops CHR ''m''))
      else Some (0, m))"

definition digit_char :: "u32 \<Rightarrow> char" where
  "digit_char d = (if d < 10 then char_of (48 + unat d) else char_of (65 + (unat d - 10)))"

text \<open>The digits from the right, in front of \<open>p\<close>: \<open>room\<close> is the space left of it in the buffer of
  35 characters, \<open>dpl\<close> counts down to the decimal point, \<open>digits\<close> is the least number of digits. The
  base is not 0 (a base below 2 is replaced by the text interpreter after every word).\<close>

fun dotB_loop :: "nat \<Rightarrow> u32 \<Rightarrow> u32 \<Rightarrow> int \<Rightarrow> int \<Rightarrow> string \<Rightarrow> string" where
  "dotB_loop 0 val base dpl digits p = p"
| "dotB_loop (Suc room) val base dpl digits p =
     (let p = digit_char (val mod base) # p; val = val div base; digits = digits - 1;
          point = (dpl \<noteq> 0 \<and> dpl - 1 = 0);
          dpl = (if dpl \<noteq> 0 then dpl - 1 else 0);
          p = (if point then CHR ''.'' # p else p);
          room = (if point then room - 1 else room)
      in if val \<noteq> 0 \<or> dpl \<noteq> 0 \<or> 0 < digits then dotB_loop room val base dpl digits p else p)"

text \<open>The sign goes out at once, whatever \<open>lf_putc\<close> returns, and the digits as a string.\<close>

definition lfDotB ::
  "nat \<Rightarrow> nat \<Rightarrow> 'e env_ops \<Rightarrow> u32 \<Rightarrow> int \<Rightarrow> int \<Rightarrow> int \<Rightarrow> 'e machine \<Rightarrow> (ior \<times> 'e machine) option" where
  "lfDotB f gf ops val base dpl digits m =
     (if val AND 0x80000000 \<noteq> 0 \<and> base = 10
      then andThen (lf_putc f gf ops CHR ''-'' m)
             (lf_puts f gf ops (dotB_loop 35 (0 - val) (word_of_int base) dpl digits []))
      else lf_puts f gf ops (dotB_loop 35 val (word_of_int base) dpl digits []) m)"

definition lfCR :: "nat \<Rightarrow> nat \<Rightarrow> 'e env_ops \<Rightarrow> 'e machine \<Rightarrow> (ior \<times> 'e machine) option" where
  "lfCR f gf ops m = lf_puts f gf ops [char_of (13 :: nat), char_of (10 :: nat)] m"

definition lfSpace :: "nat \<Rightarrow> nat \<Rightarrow> 'e env_ops \<Rightarrow> 'e machine \<Rightarrow> (ior \<times> 'e machine) option" where
  "lfSpace f gf ops m = lf_putc f gf ops CHR '' '' m"

definition lfDot10 :: "nat \<Rightarrow> nat \<Rightarrow> 'e env_ops \<Rightarrow> u32 \<Rightarrow> 'e machine \<Rightarrow> (ior \<times> 'e machine) option" where
  "lfDot10 f gf ops val m = lfDotB f gf ops val 10 0 0 m"

text \<open>In hex a value that can be a slice address is shown as size:position:address.\<close>

definition lfDot :: "nat \<Rightarrow> nat \<Rightarrow> 'e env_ops \<Rightarrow> u32 \<Rightarrow> 'e machine \<Rightarrow> (ior \<times> 'e machine) option" where
  "lfDot f gf ops val m =
     (let base = lfBASEfetch m; size = drop_bit 27 val AND 0x1F; pos = drop_bit 22 val AND 0x1F;
          slice = (sys_options m AND SYS_OPTION_NOT_SLICE = 0 \<and> base = 16 \<and> 0 < size \<and> size \<le> 16 \<and>
                   pos + size \<le> 32);
          number = (\<lambda>x. lfDotB f gf ops x base 0 0); finish = (\<lambda>m.
            if base = 16 then andThen (lf_putc f gf ops CHR ''H'' m) (lfSpace f gf ops) else lfSpace f gf ops m)
      in if slice
         then andThen (number size m) (\<lambda>m. andThen (lf_putc f gf ops CHR '':'' m) (\<lambda>m.
              andThen (number pos m) (\<lambda>m. andThen (lf_putc f gf ops CHR '':'' m) (\<lambda>m.
              andThen (number (val AND 0x3FFFFF) m) finish))))
         else andThen (number val m) finish)"

section \<open>Number input\<close>

definition char2digit :: "char \<Rightarrow> int" where
  "char2digit c =
     (let x = (of_char c :: int) in
      if 48 \<le> x \<and> x \<le> 57 then x - 48
      else if 65 \<le> x \<and> x \<le> 90 then x - 65 + 10
      else if 97 \<le> x \<and> x \<le> 122 then x - 97 + 10
      else - 1)"

text \<open>What the loop of \<open>lfParseNumber\<close> collects.\<close>

record parse_state =
  pdpl :: int
  pvalue :: u32
  psign :: bool
  has_digits :: bool
  has_dpl :: bool

text \<open>One character, number \<open>i\<close> of the token: the sign, the point or a digit below the base. The
  value is the 32-bit pattern. The code computes \<open>value * base + digit\<close> and \<open>-value\<close> in \<open>int32_t\<close>: where
  they overflow (a value of 2^31 or more) C leaves the result undefined, and the model takes the
  two's complement result, as the targets' compilers give it for these operations.\<close>

definition parse_char :: "int \<Rightarrow> nat \<Rightarrow> char \<Rightarrow> parse_state \<Rightarrow> parse_state option" where
  "parse_char base i c s =
     (if i = 0 \<and> c = CHR ''-'' then Some (s\<lparr>psign := True\<rparr>)
      else if c = CHR ''.'' then Some (s\<lparr>has_dpl := True, pdpl := 0\<rparr>)
      else
        let digit = char2digit c in
        if digit < 0 \<or> digit \<ge> base then None
        else Some (s\<lparr>has_digits := True, pvalue := pvalue s * word_of_int base + word_of_int digit,
               pdpl := (if has_dpl s then pdpl s + 1 else pdpl s)\<rparr>))"

fun parse_loop :: "int \<Rightarrow> nat \<Rightarrow> string \<Rightarrow> parse_state \<Rightarrow> parse_state option" where
  "parse_loop base i [] s = Some s"
| "parse_loop base i (c # cs) s =
     (case parse_char base i c s of None \<Rightarrow> None | Some s1 \<Rightarrow> parse_loop base (Suc i) cs s1)"

definition parse_start :: parse_state where
  "parse_start = \<lparr>pdpl = - 1, pvalue = 0, psign = False, has_digits = False, has_dpl = False\<rparr>"

text \<open>The value is stored in \<open>*val\<close> only when the token is a number.\<close>

definition lfParseNumber :: "string \<Rightarrow> int \<Rightarrow> u32 \<Rightarrow> 'e machine \<Rightarrow> ior \<times> u32 \<times> 'e machine" where
  "lfParseNumber token base val m =
     (if token = [] then (ERR_UNDEFINED_WORD, val, m)
      else
        case parse_loop base 0 token parse_start of
          None \<Rightarrow> (ERR_UNDEFINED_WORD, val, m)
        | Some s \<Rightarrow>
            if \<not> has_digits s then (ERR_UNDEFINED_WORD, val, m)
            else
              let value = (if psign s then - pvalue s else pvalue s);
                  (ior, m) = mStore LF_DPL (word_of_int (pdpl s)) m
              in (ior, value, m))"

section \<open>Numbers read back\<close>

fun digs :: "nat \<Rightarrow> nat \<Rightarrow> string" where
  "digs b n = (if b < 2 \<or> n < b then [] else digs b (n div b)) @ [digit_char (word_of_nat (n mod b))]"

declare digs.simps [simp del]

definition is_digit :: "nat \<Rightarrow> nat \<Rightarrow> char \<Rightarrow> bool" where
  "is_digit b d c \<longleftrightarrow> char2digit c = int d \<and> d < b \<and> c \<noteq> CHR ''.'' \<and> c \<noteq> CHR ''-''"

lemma digit_char_digit:
  assumes "d < b" "b \<le> 36"
  shows "is_digit b d (digit_char (word_of_nat d))"
proof -
  have u: "unat (word_of_nat d :: u32) = d"
    using assms by (simp add: unsigned_of_nat take_bit_nat_eq_self)
  have of_int_char: "(of_char (char_of n) :: int) = int n" if "n < 256" for n :: nat
    using that of_nat_of_char [where 'a = int, of "char_of n"] by simp
  have "(word_of_nat d :: u32) < 10 \<longleftrightarrow> d < 10"
    by (simp add: word_less_nat u)
  then show ?thesis
    using assms
    by (auto simp: is_digit_def digit_char_def char2digit_def Let_def u of_int_char char_of_eq_iff
        take_bit_eq_mod)
qed

lemma dotB_step:
  "digits \<le> 0 \<Longrightarrow> dotB_loop (Suc room) val w 0 digits p =
     (if val div w \<noteq> 0 then dotB_loop room (val div w) w 0 (digits - 1) (digit_char (val mod w) # p)
      else digit_char (val mod w) # p)"
  by (simp add: Let_def)

lemma dotB_loop_digs:
  assumes "2 \<le> b" "b \<le> 36"
  shows "\<lbrakk>unat val < 2 ^ Suc room; digits \<le> 0\<rbrakk> \<Longrightarrow>
    dotB_loop (Suc room) val (word_of_nat b) 0 digits p = digs b (unat val) @ p"
proof (induction room arbitrary: val digits p)
  have b: "unat (word_of_nat b :: u32) = b"
    using assms by (simp add: unsigned_of_nat take_bit_nat_eq_self)
  have m: "word_of_nat (unat v mod b) = v mod word_of_nat b" for v :: u32
    using assms pos_mod_bound unsigned_less [of v, where 'a = nat]
    by (simp add: word_unat_eq_iff unat_mod unsigned_of_nat take_bit_nat_eq_self mod_less_eq_dividend
        order.strict_trans1 [OF mod_less_eq_dividend])
  have z: "v div word_of_nat b = 0 \<longleftrightarrow> unat v < b" for v :: u32
    using assms(1) by (simp add: word_unat_eq_iff unat_div b div_eq_0_iff)
  {
    case 0
    then have "unat val < b"
      using assms(1) by simp
    then show ?case
      using m [of val] z [of val] 0 by (simp add: dotB_step digs.simps [of b "unat val"])
  next
    case (Suc room)
    have "unat val div b \<le> unat val div 2"
      using assms(1) by (simp add: div_le_mono2)
    also have "\<dots> < 2 ^ Suc room"
      using Suc.prems(1) by simp
    finally have "unat val div b < 2 ^ Suc room" .
    then have "unat (val div word_of_nat b) < 2 ^ Suc room"
      by (simp add: unat_div b del: unsigned_of_nat)
    then show ?case
      using m [of val] z [of val] Suc.prems(2) assms(1) Suc.IH [of "val div word_of_nat b" "digits - 1"]
      by (simp add: dotB_step [OF Suc.prems(2)] digs.simps [of b "unat val"] unat_div b not_less
          del: dotB_loop.simps unsigned_of_nat)
  }
qed

lemma parse_loop_digs:
  assumes "2 \<le> b" "b \<le> 36" "\<not> has_dpl s"
  shows "parse_loop (int b) i (digs b n @ cs) s =
    parse_loop (int b) (i + length (digs b n)) cs
      (s\<lparr>has_digits := True, pvalue := pvalue s * word_of_nat b ^ length (digs b n) + word_of_nat n\<rparr>)"
  using assms
proof (induction b n arbitrary: i cs s rule: digs.induct)
  case (1 b n)
  have d: "is_digit b (n mod b) (digit_char (word_of_nat (n mod b)))"
    using 1(2,3) by (simp add: digit_char_digit)
  have step: "parse_loop (int b) i (digit_char (word_of_nat (n mod b)) # cs) t =
      parse_loop (int b) (Suc i) cs (t\<lparr>has_digits := True, pvalue := pvalue t * word_of_nat b + word_of_nat (n mod b)\<rparr>)"
    if "\<not> has_dpl t" for i cs t
    using d that by (simp add: parse_char_def is_digit_def Let_def)
  show ?case
  proof (cases "n < b")
    case True
    then show ?thesis
      using step [OF 1(4)] by (simp add: digs.simps [of b n])
  next
    case False
    then have "(word_of_nat n :: u32) = word_of_nat (n div b) * word_of_nat b + word_of_nat (n mod b)"
      by (metis div_mult_mod_eq of_nat_add of_nat_mult)
    then show ?thesis
      using False 1 step by (simp add: digs.simps [of b n] algebra_simps)
  qed
qed

text \<open>A terminal port that is never busy and takes every character: \<open>sent\<close> is what it has sent.\<close>

definition port_sends :: "'e env_ops \<Rightarrow> ('e \<Rightarrow> u8 list) \<Rightarrow> bool" where
  "port_sends ops sent \<longleftrightarrow>
     (\<forall>e. fst (serial_busy ops e) = 0 \<and> sent (snd (serial_busy ops e)) = sent e) \<and>
     (\<forall>c e. fst (serial_putc ops c e) = 0 \<and> sent (snd (serial_putc ops c e)) = sent e @ [c])"

lemma putc_sends:
  assumes "port_sends ops sent"
  shows "\<exists>e. lf_putc f gf ops c m = Some (0, m\<lparr>env := e\<rparr>) \<and> sent e = sent (env m) @ [of_char c]"
proof -
  obtain e1 where e1: "serial_busy ops (env m) = (0, e1)" "sent e1 = sent (env m)"
    using assms by (metis port_sends_def prod.collapse)
  obtain e2 where "serial_putc ops (of_char c) e1 = (0, e2)" "sent e2 = sent e1 @ [of_char c]"
    using assms by (metis port_sends_def prod.collapse)
  with e1 show ?thesis by (intro exI [of _ e2]) (simp add: lf_putc_def Let_def)
qed

lemma puts_sends:
  assumes "port_sends ops sent"
  shows "\<exists>e. lf_puts f gf ops s m = Some (0, m\<lparr>env := e\<rparr>) \<and> sent e = sent (env m) @ map of_char s"
proof (induction s arbitrary: m)
  case Nil
  then show ?case by (metis append_Nil2 list.map(1) lf_puts.simps(1) machine.surjective machine.update_convs(7))
next
  case (Cons c s)
  obtain e where e: "lf_putc f gf ops c m = Some (0, m\<lparr>env := e\<rparr>)" "sent e = sent (env m) @ [of_char c]"
    using putc_sends [OF assms] by blast
  with Cons [of "m\<lparr>env := e\<rparr>"] show ?case by auto
qed

text \<open>What \<open>lfDotB\<close> sends, with no decimal point and no minimum of digits.\<close>

lemma dotB_sends:
  assumes "port_sends ops sent" "2 \<le> base" "base \<le> 36"
  shows "\<exists>e. lfDotB f gf ops val base 0 0 m = Some (0, m\<lparr>env := e\<rparr>) \<and> sent e = sent (env m) @
    map of_char (if val AND 0x80000000 \<noteq> 0 \<and> base = 10 then CHR ''-'' # digs 10 (unat (0 - val))
      else digs (nat base) (unat val))"
proof -
  define b where "b = nat base"
  have b: "2 \<le> b" "b \<le> 36" "base = int b" "word_of_int base = (word_of_nat b :: u32)"
    using assms by (simp_all add: b_def)
  have printed: "dotB_loop 35 v (word_of_int base) 0 0 [] = digs b (unat v)" for v :: u32
    using dotB_loop_digs [OF b(1,2), of v 34 0 "[]"] unat_bounds(3) [of v] b(4)
    by (simp del: dotB_loop.simps)
  show ?thesis
  proof (cases "val AND 0x80000000 \<noteq> 0 \<and> base = 10")
    case True
    then have b10: "b = 10" by (simp add: b_def)
    obtain e where e: "lf_putc f gf ops CHR ''-'' m = Some (0, m\<lparr>env := e\<rparr>)"
      "sent e = sent (env m) @ [of_char CHR ''-'']"
      using putc_sends [OF assms(1)] by blast
    obtain e2 where "lf_puts f gf ops (digs b (unat (0 - val))) (m\<lparr>env := e\<rparr>) = Some (0, m\<lparr>env := e2\<rparr>)"
      "sent e2 = sent e @ map of_char (digs b (unat (0 - val)))"
      using puts_sends [OF assms(1), of f gf "digs b (unat (0 - val))" "m\<lparr>env := e\<rparr>"] by auto
    moreover have "lfDotB f gf ops val base 0 0 m =
        andThen (lf_putc f gf ops CHR ''-'' m) (lf_puts f gf ops (digs b (unat (0 - val))))"
      using True printed by (simp add: lfDotB_def del: dotB_loop.simps)
    ultimately show ?thesis using e True b10 by (intro exI [of _ e2]) (simp add: andThen_def)
  next
    case False
    then have "lfDotB f gf ops val base 0 0 m = lf_puts f gf ops (digs b (unat val)) m"
      using printed by (auto simp: lfDotB_def simp del: dotB_loop.simps)
    moreover have "nat base = b" by (simp add: b_def)
    ultimately show ?thesis
      using False puts_sends [OF assms(1), of f gf "digs b (unat val)" m] by (simp only: if_False)
  qed
qed

lemma digs_parse:
  assumes "2 \<le> base" "base \<le> 36"
  shows "lfParseNumber (if val AND 0x80000000 \<noteq> 0 \<and> base = 10 then CHR ''-'' # digs 10 (unat (0 - val))
      else digs (nat base) (unat val)) base old m =
    (fst (mStore LF_DPL (- 1) m), val, snd (mStore LF_DPL (- 1) m))"
proof -
  define b where "b = nat base"
  have b: "2 \<le> b" "b \<le> 36" "base = int b"
    using assms by (simp_all add: b_def)
  have parse: "parse_loop base i (digs b (unat v)) s =
      Some (s\<lparr>has_digits := True, pvalue := pvalue s * word_of_nat b ^ length (digs b (unat v)) + v\<rparr>)"
    if "\<not> has_dpl s" for i s v
    using parse_loop_digs [OF b(1,2) that, of i "unat v" "[]"] by (simp add: b(3))
  have ne: "digs b n \<noteq> []" for n
    by (simp add: digs.simps)
  show ?thesis
  proof (cases "val AND 0x80000000 \<noteq> 0 \<and> base = 10")
    case True
    then have "b = 10" by (simp add: b_def)
    with True show ?thesis
      using parse [of "parse_start\<lparr>psign := True\<rparr>" "Suc 0" "- val"]
      by (simp add: lfParseNumber_def parse_char_def parse_start_def split_beta)
  next
    case False
    then show ?thesis
      using ne unfolding b_def [symmetric]
      by (simp only: if_False) (simp add: lfParseNumber_def parse parse_start_def split_beta)
  qed
qed

text \<open>C22: A number that the system prints is read back as the same 32-bit pattern, in every base from 2
  to 36. \<open>lfDotB\<close>, with no decimal point asked for, sends to a port that takes its characters some text
  (with a minus sign for a negative value in decimal), changes nothing else, and \<open>lfParseNumber\<close> reads
  that text without an error as the value, with no decimal point noted, the most negative number
  included. (For patterns of 2^31 and more this takes the wrap-around that C leaves undefined.)\<close>

theorem number_roundtrip:
  assumes "port_sends ops sent" "2 \<le> base" "base \<le> 36"
  shows "\<exists>e s. lfDotB f gf ops val base 0 0 m = Some (0, m\<lparr>env := e\<rparr>) \<and>
    sent e = sent (env m) @ map of_char s \<and>
    (\<forall>old n. lfParseNumber s base old (n :: 'd machine) =
      (fst (mStore LF_DPL (- 1) n), val, snd (mStore LF_DPL (- 1) n)))"
  using dotB_sends [OF assms] digs_parse [OF assms(2,3), of val] by blast

text \<open>A machine for concrete runs: page 4 is the RAM page of 4096 cells, page 0 of 64 cells holds code.\<close>

definition small_mem :: "u32 list \<Rightarrow> vm_mem" where
  "small_mem code = \<lparr>
     vm_memory = [code @ replicate (64 - length code) 0, [], [], [], replicate 4096 0, [], [], []],
     vm_memory_rd_limit = [64, 0, 0, 0, 4096, 0, 0, 0], vm_memory_wp_limit = [0, 0, 0, 0, 0, 0, 0, 0],
     vm_memory_executable = [64, 0, 0, 0, 0, 0, 0, 0], vm_io_page = 8, vm_io_ranges = []\<rparr>"

definition small_machine :: "u32 list \<Rightarrow> 'e \<Rightarrow> 'e machine" where
  "small_machine code e = \<lparr>lf_vm = tiny_vm, vmem = small_mem code, math = math_reset,
     sys_options = 0, vm_running = 0, trap_jump = None, env = e\<rparr>"

text \<open>A port that keeps what it sends, and -42.\<close>

definition log_ops :: "u8 list env_ops" where
  "log_ops = \<lparr>serial_getc = \<lambda>e. (0, e), serial_ready = \<lambda>e. (0, e), serial_busy = \<lambda>e. (0, e),
     serial_putc = \<lambda>c e. (0, e @ [c]), lcd_tx = \<lambda>d e. (0, e), lfGetTimeMicroSec = \<lambda>e. (0, e),
     lfWatchdogPing = \<lambda>e. e, VMapi0Call = \<lambda>i m. ApiReturn 0 m, VMapi1Call = \<lambda>i m. ApiReturn 0 m\<rparr>"

lemma log_ops_sends: "port_sends log_ops (\<lambda>e. e)"
  by (simp add: port_sends_def log_ops_def)

lemma number_roundtrip_witness:
  "\<exists>e s. lfDotB 1 1 log_ops 0xFFFFFFD6 10 0 0 (small_machine [] []) =
      Some (0, (small_machine [] [])\<lparr>env := e\<rparr>) \<and> e = map of_char s \<and>
    fst (snd (lfParseNumber s 10 0 (small_machine [] ()))) = 0xFFFFFFD6"
  using number_roundtrip [OF log_ops_sends, where base = 10 and f = 1 and gf = 1 and
      val = "0xFFFFFFD6" and m = "small_machine [] []" and 'd = unit]
  unfolding small_machine_def by force

section \<open>Where the new slice lies\<close>

lemma drop_width: "y AND NOT (push_bit 27 0x1F) = take_bit 27 (y :: u32)"
  by (rule bit_word_eqI) (auto simp: mask5 bit_simps)

lemma pack_of_take: "take_bit 27 y OR push_bit 27 w = pack_addr w (addr_shift y) y"
  by (rule bit_word_eqI) (auto simp: pack_addr_def addr_shift_def mask22 mask5 bit_simps)

lemma next_cell_position:
  assumes "unat (addr AND 0x3FFFFF) < 0x3FFFFF"
  shows "addr_shift ((addr AND NOT (push_bit 22 0x1F)) + 1) = 0 \<and>
    ((addr AND NOT (push_bit 22 0x1F)) + 1) AND 0x3FFFFF = (addr AND 0x3FFFFF) + (1 :: u32)"
proof -
  define x where "x = addr AND NOT (push_bit 22 (0x1F :: u32))"
  define c where "c = unat addr mod 2 ^ 22"
  have c: "c < 0x3FFFFF"
    using assms by (simp add: unat_cell22 c_def)
  have "take_bit 27 x = take_bit 22 addr"
    by (rule bit_word_eqI) (auto simp: x_def mask5 bit_simps)
  then have "unat (take_bit 27 x) = unat (take_bit 22 addr)"
    by simp
  then have "unat x mod 2 ^ 27 = c"
    by (simp only: unsigned_take_bit_eq take_bit_eq_mod [where 'a = nat] c_def)
  moreover have step: "unat (x + 1) mod 2 ^ 27 = Suc (unat x) mod 2 ^ 27"
    by (simp add: unat_word_ariths mod_mod_cancel)
  ultimately have m: "unat (x + 1) mod 2 ^ 27 = Suc c"
    using c by (simp add: step mod_Suc)
  then have t: "unat (take_bit 27 (x + 1)) = Suc c"
    by (simp only: unsigned_take_bit_eq take_bit_eq_mod [where 'a = nat])
  have "addr_shift (x + 1) = drop_bit 22 (take_bit 27 (x + 1))"
    by (rule bit_word_eqI) (auto simp: addr_shift_def mask5 bit_simps)
  also have "\<dots> = 0"
    using t c by (simp add: word_unat_eq_iff unat_div_exp)
  finally have a: "addr_shift (x + 1) = 0" .
  have "unat (x + 1) mod 2 ^ 22 = Suc c"
    using m c mod_mod_cancel [of "2 ^ 22" "2 ^ 27" "unat (x + 1)"] by (simp add: le_imp_power_dvd)
  then have "unat ((x + 1) AND 0x3FFFFF) = Suc c"
    by (simp add: unat_cell22)
  moreover have "unat ((addr AND 0x3FFFFF) + 1) = Suc c"
    using c by (simp add: unat_word_ariths unat_cell22 c_def)
  ultimately show ?thesis
    using a by (simp add: x_def word_unat_eq_iff)
qed

definition rounded :: "u32 \<Rightarrow> int \<Rightarrow> int" where
  "rounded addr bits = ((uint (addr_shift addr) + bits - 1) div bits) * bits"

lemma rounded_bounds:
  "1 \<le> bits \<Longrightarrow> uint (addr_shift addr) \<le> rounded addr bits"
  "\<lbrakk>1 \<le> bits; bits dvd uint (addr_shift addr)\<rbrakk> \<Longrightarrow> rounded addr bits = uint (addr_shift addr)"
proof -
  let ?p = "uint (addr_shift addr)"
  assume b: "1 \<le> bits"
  have "(?p + bits - 1) div bits * bits + (?p + bits - 1) mod bits = ?p + bits - 1"
    by (rule div_mult_mod_eq)
  moreover have "(?p + bits - 1) mod bits \<le> bits - 1"
    using b pos_mod_bound [of bits "?p + bits - 1"] by linarith
  ultimately show "?p \<le> rounded addr bits"
    unfolding rounded_def by linarith
  assume "bits dvd ?p"
  then obtain k where "?p = bits * k" ..
  moreover have "(bits * k + bits - 1) div bits = k"
    using b by (simp add: div_pos_pos_trivial add_diff_eq [symmetric])
  ultimately show "rounded addr bits = ?p"
    by (simp add: rounded_def)
qed

lemma set_width_cases:
  assumes "1 \<le> bits" "bits \<le> 31" "unat (addr AND 0x3FFFFF) < 0x3FFFFF"
  shows "lfSetSliceWidth addr bits =
    (if rounded addr bits + bits > 32 then pack_addr (word_of_int bits) 0 ((addr AND 0x3FFFFF) + 1)
     else pack_addr (word_of_int bits) (addr_shift addr) addr)"
proof -
  let ?x = "(addr AND NOT (push_bit 22 0x1F)) + 1"
  have "lfSetSliceWidth addr bits =
      (if rounded addr bits + bits > 32 then pack_addr (word_of_int bits) (addr_shift ?x) ?x
       else pack_addr (word_of_int bits) (addr_shift addr) addr)"
    using assms(1,2) unfolding lfSetSliceWidth_def Let_def rounded_def addr_shift_def [symmetric]
    by (simp add: drop_width pack_of_take del: push_bit_numeral)
  moreover have "pack_addr w sh c = pack_addr w sh (c AND 0x3FFFFF)" for w sh c
    by (simp add: pack_addr_def)
  ultimately show ?thesis
    using next_cell_position [OF assms(3)] by (metis (no_types, lifting))
qed

text \<open>Setting the width of a slice address to 1 to 31 bits gives an address of that width whose slice
  fits in its cell: it keeps cell and position, or moves to the start of the next cell. When the old
  position is a multiple of the new width, so is the new one. (From another position the address stays
  unaligned when the rounded position would fit.) Any other width gives a whole cell, the next one
  unless the position was 0.\<close>

theorem slice_width_fits:
  assumes "unat (addr AND 0x3FFFFF) < 0x3FFFFF"
  shows "(1 \<le> bits \<and> bits \<le> 31 \<longrightarrow>
      uint (addr_width (lfSetSliceWidth addr bits)) = bits \<and>
      uint (addr_shift (lfSetSliceWidth addr bits)) + bits \<le> 32 \<and>
      (addr_shift (lfSetSliceWidth addr bits) = addr_shift addr \<and>
         lfSetSliceWidth addr bits AND 0x3FFFFF = addr AND 0x3FFFFF \<or>
       addr_shift (lfSetSliceWidth addr bits) = 0 \<and>
         lfSetSliceWidth addr bits AND 0x3FFFFF = (addr AND 0x3FFFFF) + 1) \<and>
      (bits dvd uint (addr_shift addr) \<longrightarrow> bits dvd uint (addr_shift (lfSetSliceWidth addr bits)))) \<and>
    (bits < 1 \<or> 31 < bits \<longrightarrow>
      addr_width (lfSetSliceWidth addr bits) = 0 \<and> addr_shift (lfSetSliceWidth addr bits) = 0 \<and>
      lfSetSliceWidth addr bits = (addr AND 0x3FFFFF) + (if addr_shift addr = 0 then 0 else 1))"
proof (cases "1 \<le> bits \<and> bits \<le> 31")
  case True
  then have w: "unat (word_of_int bits :: u32) < 32" "uint (word_of_int bits :: u32) = bits"
    by (auto simp: unsigned_of_int take_bit_int_eq_self)
  have s: "unat (addr_shift addr) < 32"
    by (rule addr_shift_less)
  have c: "((addr AND 0x3FFFFF) + 1) AND 0x3FFFFF = (addr AND 0x3FFFFF) + 1"
    using assms by (simp add: word_unat_eq_iff unat_cell22 unat_word_ariths)
  show ?thesis
    using True rounded_bounds [of bits addr] w s
    by (auto simp: set_width_cases assms width_pack shift_pack cell_pack c)
next
  case False
  then have e: "lfSetSliceWidth addr bits = (addr AND 0x3FFFFF) + (if addr_shift addr = 0 then 0 else 1)"
  proof -
    have "lfSetSliceWidth addr bits = (if addr_shift addr = 0 then addr else (addr AND 0x3FFFFF) + 1) AND 0x3FFFFF"
      using False unfolding lfSetSliceWidth_def addr_shift_def [symmetric]
      by (auto simp: Let_def uint_0_iff)
    moreover have "((addr AND 0x3FFFFF) + 1) AND 0x3FFFFF = (addr AND 0x3FFFFF) + 1"
      using assms by (simp add: word_unat_eq_iff unat_cell22 unat_word_ariths)
    ultimately show ?thesis by simp
  qed
  then have "unat (lfSetSliceWidth addr bits) < 2 ^ 22"
    using assms by (auto simp: unat_word_ariths)
  then have "drop_bit 22 (lfSetSliceWidth addr bits) = 0" "addr_width (lfSetSliceWidth addr bits) = 0"
    by (simp_all add: addr_width_def word_unat_eq_iff unat_div_exp)
  then have "addr_width (lfSetSliceWidth addr bits) = 0" "addr_shift (lfSetSliceWidth addr bits) = 0"
    by (simp_all add: addr_shift_def)
  then show ?thesis
    using False e by simp
qed

lemma slice_width_fits_witness:
  "uint (addr_width (lfSetSliceWidth (pack_addr 8 24 5) 16)) = 16 \<and>
   uint (addr_shift (lfSetSliceWidth (pack_addr 8 24 5) 16)) + 16 \<le> 32"
proof -
  have "unat (pack_addr 8 24 5 AND 0x3FFFFF) < 0x3FFFFF"
    by (simp add: cell_pack)
  from slice_width_fits [OF this, of 16] show ?thesis by simp
qed

text \<open>A 16-bit slice asked for at position 8 stays at position 8, and the slice after it does not fit.\<close>

lemma slice_width_unaligned:
  "addr_shift (lfSetSliceWidth (pack_addr 8 8 5) 16) = 8"
  "addr_shift (vmFieldPlus (lfSetSliceWidth (pack_addr 8 8 5) 16)) = 24"
  by (simp_all add: set_width_cases cell_pack rounded_def shift_pack vmFieldPlus_alt width_pack Let_def)

end
