(* ===== verification/LF_Comp.thy ===== *)
theory LF_Comp
  imports LF_Tools VM_Stack
begin

text \<open>
  The compiler of \<^verbatim>\<open>src/src/comp.c\<close>: code space and its pointer in the RAM page, the slots of the
  instruction being built, literals, calls, jumps and exits. The static variables of the file are the
  record \<open>comp_env\<close>, kept in the machine's \<open>env\<close>. A header is the pair of its fields \<open>w\<close> and \<open>aux\<close>.
\<close>

section \<open>State\<close>

record comp_env =
  cslot :: int
  cinst :: u32
  clastcall :: u32
  cnoname :: bool

definition upd_comp :: "('a comp_env_scheme \<Rightarrow> 'a comp_env_scheme) \<Rightarrow> 'a comp_env_scheme machine \<Rightarrow> 'a comp_env_scheme machine" where
  "upd_comp f m = m\<lparr>env := f (env m)\<rparr>"

definition cpFetch :: "'e machine \<Rightarrow> u32" where
  "cpFetch m = ram_get F_PTRS_CP m"

definition cpStore :: "u32 \<Rightarrow> 'e machine \<Rightarrow> ior \<times> 'e machine" where
  "cpStore cp m =
     (if cp AND 0x3FFFFF \<ge> ram_get (F_PTRS_CP + 1) m then (ERR_DICTIONARY_OVERFLOW, m)
      else (0, ram_set F_PTRS_CP cp m))"

text \<open>Code space is addressed by half cells: the code address of the pointer, which is first made a
  16-bit slice address.\<close>

definition cpPC :: "'e machine \<Rightarrow> u32 \<times> 'e machine" where
  "cpPC m =
     (let cp = lfSetSliceWidth (cpFetch m) 16; m = snd (cpStore cp m); lsb = drop_bit 26 cp AND 1
      in (push_bit 1 (cp AND 0x3FFFFF) OR lsb, m))"

section \<open>Instruction codes (vm_labels.h)\<close>

definition VMI_CALL :: u32 where [const_defs]: "VMI_CALL = 0x2000"
definition VMI_JUMP :: u32 where [const_defs]: "VMI_JUMP = 0"
definition VMI_LIT :: u32 where [const_defs]: "VMI_LIT = 0x4000"
definition VMI_OTHER :: u32 where [const_defs]: "VMI_OTHER = 0x6000"
definition VMI_PFX :: u32 where [const_defs]: "VMI_PFX = VMI_OTHER + 12 * 512"
definition VMI_PFX1 :: u32 where [const_defs]: "VMI_PFX1 = VMI_OTHER + 13 * 512"
definition VMI_API0 :: u32 where [const_defs]: "VMI_API0 = VMI_OTHER + 14 * 512"
definition VMI_INVALID :: u32 where [const_defs]: "VMI_INVALID = VMI_OTHER + 5 * 512"

definition W_PRIMITIVE :: u32 where [const_defs]: "W_PRIMITIVE = 0x80000000"
definition W_MACRO :: u32 where [const_defs]: "W_MACRO = 0x40000000"
definition W_WIDE_INST :: u32 where [const_defs]: "W_WIDE_INST = 0x20000000"
definition W_NO_TAIL_CALL :: u32 where [const_defs]: "W_NO_TAIL_CALL = 0x10000000"
definition A_SMUDGED :: u32 where [const_defs]: "A_SMUDGED = 0x80000000"
definition A_IMMEDIATE :: u32 where [const_defs]: "A_IMMEDIATE = 0x40000000"
definition A_CONSTANT :: u32 where [const_defs]: "A_CONSTANT = 0x20000000"
definition A_UNRESOLVED :: u32 where [const_defs]: "A_UNRESOLVED = 0x10000000"

lemma code_consts [simp]:
  "VMI_CALL = 0x2000" "VMI_JUMP = 0" "VMI_LIT = 0x4000" "VMI_PFX = 0x7800" "VMI_PFX1 = 0x7A00"
  "VMI_API0 = 0x7C00" "VMI_INVALID = 0x6A00" "W_PRIMITIVE = 0x80000000" "W_MACRO = 0x40000000"
  "W_WIDE_INST = 0x20000000" "W_NO_TAIL_CALL = 0x10000000" "A_SMUDGED = 0x80000000"
  "A_IMMEDIATE = 0x40000000" "A_CONSTANT = 0x20000000" "A_UNRESOLVED = 0x10000000"
  by (simp_all add: const_defs)

text \<open>The code of a micro-op: its place in \<open>uop_codes\<close>.\<close>

definition uop_code :: "uop \<Rightarrow> u32" where
  "uop_code u = word_of_nat (length (takeWhile (\<lambda>v. v \<noteq> u) uop_codes))"

definition returnOps :: "u32 list" where
  "returnOps = map uop_code [VMU_PUSH, VMU_R, VMU_POP, VMU_UNEXT]"

text \<open>Whether one of the three slots touches the return stack.\<close>

definition UsesRetStack :: "u32 \<Rightarrow> bool" where
  "UsesRetStack inst =
     list_ex (\<lambda>uop. List.member returnOps uop)
       [drop_bit 9 inst AND 0x1F, drop_bit 4 inst AND 0x1F, inst AND LAST_SLOT_MASK]"

section \<open>Compiling instructions\<close>

definition freshSlots :: "'a comp_env_scheme machine \<Rightarrow> 'a comp_env_scheme machine" where
  "freshSlots = upd_comp (\<lambda>e. e\<lparr>cinst := 0, cslot := int SLOT0_POSITION\<rparr>)"

definition commaCode :: "u32 \<Rightarrow> 'e machine \<Rightarrow> ior \<times> 'e machine" where
  "commaCode inst m =
     (let cp = cpFetch m; (ior, m) = mStore cp inst m
      in if ior \<noteq> 0 then (ior, m) else cpStore (vmFieldPlus cp) m)"

text \<open>\<open>NewInst\<close> ignores an error of \<open>commaCode\<close>.\<close>

definition NewInst :: "'a comp_env_scheme machine \<Rightarrow> 'a comp_env_scheme machine" where
  "NewInst m =
     (let m = (if cslot (env m) \<noteq> int SLOT0_POSITION then snd (commaCode (VM_UOPS OR cinst (env m)) m) else m)
      in upd_comp (\<lambda>e. e\<lparr>clastcall := 0\<rparr>) (freshSlots m))"

definition lfAPI_newinst :: "'a comp_env_scheme machine \<Rightarrow> ior \<times> 'a comp_env_scheme machine" where
  "lfAPI_newinst m = (0, NewInst m)"

definition lfAPI_inst :: "'a comp_env_scheme machine \<Rightarrow> ior \<times> 'a comp_env_scheme machine" where
  "lfAPI_inst m = (let (x, m) = mPop (NewInst m) in commaCode x m)"

definition CompCall :: "u32 \<Rightarrow> 'a comp_env_scheme machine \<Rightarrow> ior \<times> 'a comp_env_scheme machine" where
  "CompCall cxt m =
     (let m = NewInst m; notail = cxt AND W_NO_TAIL_CALL; cxt = cxt AND 0x7FFFFF;
          m = (if cxt AND NOT VM_LIMM_MASK \<noteq> 0 then snd (commaCode (VMI_PFX + drop_bit VM_IMM_BITS cxt) m) else m);
          m = (if notail = 0 then upd_comp (\<lambda>e. e\<lparr>clastcall := cpFetch m\<rparr>) m else m)
      in commaCode (VMI_CALL + (cxt AND VM_LIMM_MASK)) m)"

text \<open>The slots are filled from bit 9, 4 and 0 (\<open>cslot\<close> 9, 4, -1); the last one takes only codes below 16,
  any other starts a new instruction.\<close>

definition CompUop :: "u32 \<Rightarrow> 'a comp_env_scheme machine \<Rightarrow> ior \<times> 'a comp_env_scheme machine" where
  "CompUop uop m =
     (let uop = uop AND 0x1F;
          m = (if cslot (env m) < - 4 then NewInst m else m);
          (ior, m) =
            (if cslot (env m) < 0 then
               let m = upd_comp (\<lambda>e. e\<lparr>cslot := 0\<rparr>) m in
               if uop \<ge> push_bit LAST_SLOT_WIDTH 1
               then let (ior, m) = commaCode (VM_UOPS OR cinst (env m)) m in (ior, freshSlots m)
               else (0, m)
             else (0, m))
      in (ior, upd_comp (\<lambda>e. e\<lparr>cinst := cinst e OR push_bit (nat (cslot e)) uop, cslot := cslot e - 5\<rparr>) m))"

text \<open>A literal is cut into a \<open>lit\<close> with the low 13 bits and prefixes of 10 bits each, turned around on
  the VM's own data stack under a terminator.\<close>

function ulit_push :: "u32 \<Rightarrow> 'e machine \<Rightarrow> 'e machine" where
  "ulit_push x m =
     (if x = 0 then m
      else ulit_push (drop_bit 10 x)
        (snd (mPush ((if x AND push_bit VM_IMM_BITS 1 \<noteq> 0 then VMI_PFX1 else VMI_PFX) OR (x AND VM_IMM_MASK)) m)))"
  by pat_completeness auto
termination
  by (relation "measure (\<lambda>(x, m). unat x)") (auto simp: unat_div_exp word_unat_eq_iff)

declare ulit_push.simps [simp del]

partial_function (option) ulit_pop :: "'e machine \<Rightarrow> (ior \<times> 'e machine) option" where
  "ulit_pop m =
     (let (n, m) = mPop m in
      if n <s 0 then Some (0, m)
      else let (ior, m) = commaCode n m in if ior \<noteq> 0 then Some (ior, m) else ulit_pop m)"

definition CompUlit :: "u32 \<Rightarrow> 'a comp_env_scheme machine \<Rightarrow> (ior \<times> 'a comp_env_scheme machine) option" where
  "CompUlit x m =
     (let m = NewInst m; m = snd (mPush (- 1) m); m = snd (mPush (VMI_LIT OR (x AND VM_LIMM_MASK)) m)
      in ulit_pop (ulit_push (drop_bit VM_LIMM_BITS x) m))"

definition lfCompileLit :: "u32 \<Rightarrow> 'a comp_env_scheme machine \<Rightarrow> (ior \<times> 'a comp_env_scheme machine) option" where
  "lfCompileLit x m =
     (if x <s 0
      then (case CompUlit (NOT x) m of None \<Rightarrow> None | Some (ior, m) \<Rightarrow> Some (CompUop (uop_code VMU_INV) m))
      else CompUlit x m)"

definition lfAPI_literal :: "'a comp_env_scheme machine \<Rightarrow> (ior \<times> 'a comp_env_scheme machine) option" where
  "lfAPI_literal m = (let (x, m) = mPop m in lfCompileLit x m)"

section \<open>Words\<close>

record s_word =
  hw :: u32
  haux :: u32

definition lfExecuteXT ::
  "nat \<Rightarrow> nat \<Rightarrow> 'e env_ops \<Rightarrow> u32 \<Rightarrow> 'e machine \<Rightarrow> (ior \<times> 'e machine) option" where
  "lfExecuteXT f gf ops cxt m =
     (if cxt AND W_PRIMITIVE \<noteq> 0 then vmRun f gf ops True (cxt AND 0xFFFF) 0 m
      else vmRun f gf ops False 0 (cxt AND 0x7FFFFF) m)"

definition lfExecuteWord ::
  "nat \<Rightarrow> nat \<Rightarrow> 'e env_ops \<Rightarrow> s_word \<Rightarrow> 'e machine \<Rightarrow> (ior \<times> 'e machine) option" where
  "lfExecuteWord f gf ops word m =
     (if haux word AND A_UNRESOLVED \<noteq> 0 then Some (ERR_UNRESOLVED_LATER, m)
      else if haux word AND A_CONSTANT \<noteq> 0 then Some (mPush (hw word) m)
      else lfExecuteXT f gf ops (hw word) m)"

text \<open>The error of a macro's third slot is not looked at.\<close>

definition lfCompileXT :: "u32 \<Rightarrow> 'a comp_env_scheme machine \<Rightarrow> ior \<times> 'a comp_env_scheme machine" where
  "lfCompileXT w m =
     (if w AND W_PRIMITIVE \<noteq> 0 then
        if w AND W_WIDE_INST \<noteq> 0 then commaCode w (NewInst m)
        else
          let (ior, m) = CompUop (drop_bit SLOT0_POSITION w AND 0xFF) m in
          if ior \<noteq> 0 then (ior, m)
          else if w AND W_MACRO = 0 then (0, m)
          else
            let (ior, m) = CompUop (drop_bit (SLOT0_POSITION - 5) w AND 0xFF) m;
                uop = w AND (push_bit LAST_SLOT_WIDTH 1 - 1)
            in (ior, if uop \<noteq> uop_code VMU_NOP then snd (CompUop uop m) else m)
      else CompCall w m)"

definition lfCompileWord :: "s_word \<Rightarrow> 'a comp_env_scheme machine \<Rightarrow> (ior \<times> 'a comp_env_scheme machine) option" where
  "lfCompileWord word m =
     (if haux word AND A_CONSTANT \<noteq> 0 then lfCompileLit (hw word) m else Some (lfCompileXT (hw word) m))"

definition lfAPI_compile :: "'a comp_env_scheme machine \<Rightarrow> ior \<times> 'a comp_env_scheme machine" where
  "lfAPI_compile m = (let (cxt, m) = mPop m in lfCompileXT cxt m)"

text \<open>An exit goes into the pending group when that leaves the return stack alone; a call just compiled
  becomes a jump; otherwise a group with only the return bit.\<close>

definition CompExit :: "'a comp_env_scheme machine \<Rightarrow> ior \<times> 'a comp_env_scheme machine" where
  "CompExit m =
     (let ex = (\<lambda>m. (0, NewInst (upd_comp (\<lambda>e. e\<lparr>cinst := cinst e OR (VM_UOPS OR VM_RET), cslot := - 10\<rparr>) m)))
      in if cslot (env m) \<noteq> int SLOT0_POSITION
         then ex (if UsesRetStack (cinst (env m)) then NewInst m else m)
         else if clastcall (env m) \<noteq> 0 then
           let a = clastcall (env m);
               (ior, m) = mStore a (mFetch a m AND NOT VMI_CALL) m
           in (ior, upd_comp (\<lambda>e. e\<lparr>clastcall := 0\<rparr>) m)
         else ex m)"

definition lfAPI_exit :: "'a comp_env_scheme machine \<Rightarrow> ior \<times> 'a comp_env_scheme machine" where
  "lfAPI_exit = CompExit"

text \<open>The slice address of a code address, and a jump stored there with a prefix when it needs one.\<close>

definition pcSlot :: "u32 \<Rightarrow> u32" where
  "pcSlot pc = push_bit 27 16 OR push_bit 26 (pc AND 1) OR drop_bit 1 pc"

definition storeJump :: "u32 \<Rightarrow> u32 \<Rightarrow> 'e machine \<Rightarrow> ior \<times> 'e machine" where
  "storeJump at pc m =
     (if pc \<ge> VM_LIMM_MASK then
        let inst = (if pc AND push_bit 22 1 \<noteq> 0 then VMI_PFX1 else VMI_PFX);
            (ior, m) = mStore at (inst + (drop_bit VM_LIMM_BITS pc AND VM_IMM_MASK)) m
        in if ior \<noteq> 0 then (ior, m) else mStore (vmFieldPlus at) (VMI_JUMP + (pc AND VM_LIMM_MASK)) m
      else mStore at (VMI_JUMP + (pc AND VM_LIMM_MASK)) m)"

text \<open>\<open>:noname\<close>, and \<open>bit\<close> on the stack.\<close>

definition lfAPI_noname :: "'a comp_env_scheme machine \<Rightarrow> ior \<times> 'a comp_env_scheme machine" where
  "lfAPI_noname m =
     (let m = upd_comp (\<lambda>e. e\<lparr>cnoname := True\<rparr>) (freshSlots m); (pc, m) = cpPC m; (ior, m) = mPush pc m
      in if ior \<noteq> 0 then (ior, m) else lfSTATEstore 1 m)"

definition lfAPI_bit :: "'e machine \<Rightarrow> ior \<times> 'e machine" where
  "lfAPI_bit m = (let (bits, m) = mPop m; (addr, m) = mPop m in mPush (lfSetSliceWidth addr (sint bits)) m)"

section \<open>What a literal compiles to\<close>

text \<open>The instructions of a literal in order, and compiling a list of instructions.\<close>

function pfx_codes :: "u32 \<Rightarrow> u32 list" where
  "pfx_codes x =
     (if x = 0 then []
      else pfx_codes (drop_bit 10 x) @
        [(if x AND push_bit VM_IMM_BITS 1 \<noteq> 0 then VMI_PFX1 else VMI_PFX) OR (x AND VM_IMM_MASK)])"
  by pat_completeness auto
termination
  by (relation "measure unat") (auto simp: unat_div_exp word_unat_eq_iff)

declare pfx_codes.simps [simp del]

definition ulit_code :: "u32 \<Rightarrow> u32 list" where
  "ulit_code x = pfx_codes (drop_bit VM_LIMM_BITS x) @ [VMI_LIT OR (x AND VM_LIMM_MASK)]"

fun comma_codes :: "u32 list \<Rightarrow> 'e machine \<Rightarrow> ior \<times> 'e machine" where
  "comma_codes [] m = (0, m)"
| "comma_codes (i # is) m = (let (ior, m1) = commaCode i m in if ior \<noteq> 0 then (ior, m1) else comma_codes is m1)"

lemma pfx_codes_step:
  "x \<noteq> 0 \<Longrightarrow> pfx_codes x = pfx_codes (drop_bit 10 x) @
     [(if x AND push_bit VM_IMM_BITS 1 \<noteq> 0 then VMI_PFX1 else VMI_PFX) OR (x AND VM_IMM_MASK)]"
  by (subst pfx_codes.simps) simp

lemma pfx_codes_0 [simp]: "pfx_codes 0 = []"
  by (simp add: pfx_codes.simps)

lemma length_pfx_codes: "unat x < 2 ^ (10 * k) \<Longrightarrow> length (pfx_codes x) \<le> k"
proof (induction k arbitrary: x)
  case 0
  then have "x = 0" by (simp add: word_unat_eq_iff)
  then show ?case by simp
next
  case (Suc k)
  have "unat (drop_bit 10 x) < 2 ^ (10 * k)"
    using Suc.prems by (simp add: unat_div_exp power_add less_mult_imp_div_less mult.commute)
  then show ?case
    using Suc.IH [of "drop_bit 10 x"] by (cases "x = 0") (simp_all add: pfx_codes_step)
qed

lemma length_pfx_codes_4: "length (pfx_codes x) \<le> 4"
  using length_pfx_codes [of x 4] unat_bounds(3) [of x] by simp

lemma not_neg: "\<not> bit (x :: u32) 31 \<Longrightarrow> \<not> x <s 0"
  by (simp add: word_sless_alt sint_uint signed_take_bit_eq_if_positive bit_uint_iff)

lemma code_not_neg:
  "\<not> (VMI_LIT OR (x AND VM_LIMM_MASK)) <s 0" "\<not> (VMI_PFX1 OR (x AND VM_IMM_MASK)) <s 0"
  "\<not> (VMI_PFX OR (x AND VM_IMM_MASK)) <s 0"
  by (rule not_neg, simp add: bit_simps)+

lemma pfx_codes_not_neg: "\<forall>i \<in> set (pfx_codes x). \<not> i <s 0"
proof (induction x rule: pfx_codes.induct)
  case (1 x)
  then show ?case
    by (cases "x = 0") (auto simp: pfx_codes_step code_not_neg simp del: code_consts format_consts)
qed

text \<open>Compiling looks at the memory only, pushing and popping at the stack only.\<close>

lemma commaCode_vm: "commaCode i (m\<lparr>lf_vm := v\<rparr>) = (fst (commaCode i m), (snd (commaCode i m))\<lparr>lf_vm := v\<rparr>)"
  by (simp add: commaCode_def cpStore_def cpFetch_def ram_get_def ram_set_def mStore_def split_beta Let_def)

lemma commaCode_keeps_vm: "lf_vm (snd (commaCode i m)) = lf_vm m"
  by (simp add: commaCode_def cpStore_def cpFetch_def ram_get_def ram_set_def mStore_def split_beta Let_def)

lemma comma_codes_vm:
  "comma_codes is (m\<lparr>lf_vm := v\<rparr>) = (fst (comma_codes is m), (snd (comma_codes is m))\<lparr>lf_vm := v\<rparr>)"
  by (induction "is" arbitrary: m) (simp_all add: commaCode_vm split_beta)

lemma ulit_pop_codes:
  "\<lbrakk>wf_vm (lf_vm m); take (Suc (length is)) (data_items (lf_vm m)) = is @ [- 1]; length is \<le> 8; \<forall>i \<in> set is. \<not> i <s 0\<rbrakk>
   \<Longrightarrow> \<exists>v. wf_vm v \<and>
     ulit_pop m = Some (fst (comma_codes is m), (snd (comma_codes is m))\<lparr>lf_vm := v\<rparr>) \<and>
     (fst (comma_codes is m) = 0 \<longrightarrow>
       take (128 - length is) (data_items v) = drop (Suc (length is)) (data_items (lf_vm m)))"
proof (induction "is" arbitrary: m)
  case Nil
  obtain d v where p: "vmPop (lf_vm m) = (d, v)" by fastforce
  have "wf_vm v" "d = - 1" "take 128 (data_items v) = drop (Suc 0) (data_items (lf_vm m))"
    using Nil(1,2) cpu_stack.ok_pop [of "lf_vm m"] cpu_stack.pop_top [of "lf_vm m"]
      cpu_stack.items_pop [of "lf_vm m"] cpu_stack.len [of "lf_vm m"] p
    by (cases "data_items (lf_vm m)"; auto)+
  then show ?case
    using p by (auto simp: ulit_pop.simps [of m] mPop_def intro!: exI [of _ v])
next
  case (Cons i "is")
  obtain d v where p: "vmPop (lf_vm m) = (d, v)" by fastforce
  obtain xs where xs: "data_items (lf_vm m) = i # xs" "take (Suc (length is)) xs = is @ [- 1]" "length xs = 128"
    using Cons.prems(1,2) cpu_stack.len [of "lf_vm m"] by (cases "data_items (lf_vm m)") auto
  have v: "wf_vm v" "d = i" "data_items v = xs @ [xs ! 0]"
    using Cons.prems(1) xs cpu_stack.ok_pop [of "lf_vm m"] cpu_stack.pop_top [of "lf_vm m"]
      cpu_stack.items_pop [of "lf_vm m"] p by auto
  have pop: "mPop m = (i, m\<lparr>lf_vm := v\<rparr>)"
    using p v by (simp add: mPop_def)
  define m1 where "m1 = snd (commaCode i m)"
  have step: "ulit_pop m = (if fst (commaCode i m) \<noteq> 0 then Some (fst (commaCode i m), m1\<lparr>lf_vm := v\<rparr>)
      else ulit_pop (m1\<lparr>lf_vm := v\<rparr>))"
    using Cons.prems(4) by (simp add: ulit_pop.simps [of m] pop commaCode_vm m1_def)
  show ?case
  proof (cases "fst (commaCode i m) = 0")
    case False
    then show ?thesis
      using step v by (auto simp: m1_def split_beta)
  next
    case True
    obtain v' where v': "wf_vm v'"
      "ulit_pop (m1\<lparr>lf_vm := v\<rparr>) = Some (fst (comma_codes is (m1\<lparr>lf_vm := v\<rparr>)),
         (snd (comma_codes is (m1\<lparr>lf_vm := v\<rparr>)))\<lparr>lf_vm := v'\<rparr>)"
      "fst (comma_codes is (m1\<lparr>lf_vm := v\<rparr>)) = 0 \<longrightarrow>
         take (128 - length is) (data_items v') = drop (Suc (length is)) (data_items v)"
      using Cons.IH [of "m1\<lparr>lf_vm := v\<rparr>"] Cons.prems(3,4) v xs by auto
    have "take (127 - length is) (data_items v') = drop (Suc (length is)) xs"
      if "fst (comma_codes is m1) = 0"
    proof -
      have "take (127 - length is) (take (128 - length is) (data_items v')) = take (127 - length is) (drop (Suc (length is)) (xs @ [xs ! 0]))"
        using v'(3) v(3) that by (simp add: comma_codes_vm)
      then show ?thesis
        using Cons.prems(3) xs(3) by simp
    qed
    then show ?thesis
      using v' step True xs by (auto simp: m1_def split_beta comma_codes_vm intro!: exI [of _ v'])
  qed
qed

lemma data_items_push:
  "wf_vm (lf_vm m) \<Longrightarrow> data_items (lf_vm (snd (mPush d m))) = d # butlast (data_items (lf_vm m)) \<and>
     wf_vm (lf_vm (snd (mPush d m)))"
  using cpu_stack.items_push [of "lf_vm m" d] cpu_stack.ok_push [of "lf_vm m" d]
  by (simp add: mPush_def split_beta)

lemma mPush_only_vm: "snd (mPush d m) = m\<lparr>lf_vm := lf_vm (snd (mPush d m))\<rparr>"
  by (simp add: mPush_def split_beta)

lemma ulit_push_codes:
  "\<lbrakk>wf_vm (lf_vm m); length (pfx_codes x) \<le> 100\<rbrakk> \<Longrightarrow>
   wf_vm (lf_vm (ulit_push x m)) \<and> ulit_push x m = m\<lparr>lf_vm := lf_vm (ulit_push x m)\<rparr> \<and>
   data_items (lf_vm (ulit_push x m)) =
     pfx_codes x @ take (129 - length (pfx_codes x)) (data_items (lf_vm m))"
proof (induction x m rule: ulit_push.induct)
  case (1 x m)
  show ?case
  proof (cases "x = 0")
    case True
    then show ?thesis
      using cpu_stack.len [OF 1(2)] 1(2) by (simp add: ulit_push.simps)
  next
    case False
    define i where "i = (if x AND push_bit VM_IMM_BITS 1 \<noteq> 0 then VMI_PFX1 else VMI_PFX) OR (x AND VM_IMM_MASK)"
    define m1 where "m1 = snd (mPush i m)"
    have codes: "pfx_codes x = pfx_codes (drop_bit 10 x) @ [i]"
      using False by (simp add: pfx_codes_step i_def)
    have push: "ulit_push x m = ulit_push (drop_bit 10 x) m1"
      using False by (simp add: ulit_push.simps [of x m] m1_def i_def)
    have m1: "data_items (lf_vm m1) = i # take 128 (data_items (lf_vm m))" "wf_vm (lf_vm m1)"
      using data_items_push [OF 1(2), of i] cpu_stack.len [OF 1(2)] by (simp_all add: m1_def butlast_conv_take)
    have "m1\<lparr>lf_vm := v\<rparr> = m\<lparr>lf_vm := v\<rparr>" for v
      unfolding m1_def by (subst mPush_only_vm) simp
    then show ?thesis
      using 1(1) [OF False, folded i_def m1_def] 1(3) m1 codes push by (simp add: take_Cons')
  qed
qed

text \<open>\<open>CompUlit\<close> appends the code of the literal to code space, up to the first error, and leaves the
  data stack as it was except for its deepest items.\<close>

lemma CompUlit_codes:
  assumes "wf_vm (lf_vm m)"
  shows "\<exists>v. wf_vm v \<and>
    CompUlit x m = Some (fst (comma_codes (ulit_code x) (NewInst m)),
      (snd (comma_codes (ulit_code x) (NewInst m)))\<lparr>lf_vm := v\<rparr>) \<and>
    (fst (comma_codes (ulit_code x) (NewInst m)) = 0 \<longrightarrow>
      take 123 (data_items v) = take 123 (data_items (lf_vm m)))"
proof -
  define k where "k = length (pfx_codes (drop_bit VM_LIMM_BITS x))"
  define items where "items = data_items (lf_vm m)"
  define lit where "lit = VMI_LIT OR (x AND VM_LIMM_MASK)"
  have k: "k \<le> 4"
    by (simp add: k_def length_pfx_codes_4 del: format_consts)
  have new: "lf_vm (NewInst m) = lf_vm m"
    by (simp add: NewInst_def upd_comp_def freshSlots_def commaCode_keeps_vm Let_def)
  define m1 where "m1 = snd (mPush (- 1) (NewInst m))"
  have m1: "data_items (lf_vm m1) = - 1 # take 128 items" "wf_vm (lf_vm m1)" "m1 = (NewInst m)\<lparr>lf_vm := lf_vm m1\<rparr>"
    using data_items_push [of "NewInst m" "- 1"] assms cpu_stack.len [OF assms] mPush_only_vm [of "- 1" "NewInst m"]
    by (simp_all add: new m1_def items_def butlast_conv_take)
  define m2 where "m2 = snd (mPush lit m1)"
  have "length items = 129"
    using cpu_stack.len [OF assms] by (simp add: items_def)
  then have m2: "data_items (lf_vm m2) = lit # - 1 # take 127 items" "wf_vm (lf_vm m2)"
    "m2 = m1\<lparr>lf_vm := lf_vm m2\<rparr>"
    using data_items_push [OF m1(2), of lit] m1(1) mPush_only_vm [of lit m1]
    by (simp_all add: m2_def butlast_conv_take take_Cons')
  define m3 where "m3 = ulit_push (drop_bit VM_LIMM_BITS x) m2"
  have m3: "wf_vm (lf_vm m3)" "m3 = m2\<lparr>lf_vm := lf_vm m3\<rparr>"
    "data_items (lf_vm m3) = ulit_code x @ - 1 # take (127 - k) items"
    using ulit_push_codes [OF m2(2), of "drop_bit VM_LIMM_BITS x"] k m2(1)
    by (simp_all add: m3_def k_def ulit_code_def lit_def take_Cons' del: format_consts)
  have m3': "m3 = (NewInst m)\<lparr>lf_vm := lf_vm m3\<rparr>"
    by (subst m3(2), subst m2(3), subst m1(3)) simp
  have codes: "length (ulit_code x) = Suc k" "\<forall>i \<in> set (ulit_code x). \<not> i <s 0"
    using pfx_codes_not_neg code_not_neg by (auto simp: ulit_code_def k_def simp del: code_consts format_consts)
  obtain v where v: "wf_vm v"
    "ulit_pop m3 = Some (fst (comma_codes (ulit_code x) m3), (snd (comma_codes (ulit_code x) m3))\<lparr>lf_vm := v\<rparr>)"
    "fst (comma_codes (ulit_code x) m3) = 0 \<longrightarrow> take (127 - k) (data_items v) = take (127 - k) items"
    using ulit_pop_codes [OF m3(1), of "ulit_code x"] m3(3) codes k by auto
  have cm: "comma_codes (ulit_code x) m3 = (fst (comma_codes (ulit_code x) (NewInst m)),
      (snd (comma_codes (ulit_code x) (NewInst m)))\<lparr>lf_vm := lf_vm m3\<rparr>)"
    by (subst m3') (rule comma_codes_vm)
  have "take 123 (data_items v) = take 123 items" if "take (127 - k) (data_items v) = take (127 - k) items"
    using arg_cong [OF that, of "take 123"] k by (simp add: min_absorb1)
  moreover have "CompUlit x m = ulit_pop m3"
    by (simp only: CompUlit_def Let_def m1_def m2_def m3_def lit_def)
  ultimately show ?thesis
    using v cm by (auto simp: items_def)
qed

section \<open>Running compiled code\<close>

fun run_codes :: "nat \<Rightarrow> 'e env_ops \<Rightarrow> u32 list \<Rightarrow> 'e exec \<Rightarrow> 'e insn_result option" where
  "run_codes gf ops [] x = Some (Done 0 x)"
| "run_codes gf ops (i # is) x =
     (case exec_insn gf ops i x of
        Some (Done ior x1) \<Rightarrow> if ior = 0 then run_codes gf ops is x1 else Some (Done ior x1)
      | r \<Rightarrow> r)"

lemma run_codes_append:
  "run_codes gf ops is x = Some (Done 0 y) \<Longrightarrow> run_codes gf ops (is @ js) x = run_codes gf ops js y"
  by (induction "is" arbitrary: x) (auto split: option.splits insn_result.splits if_splits)

lemmas code_bits = bit.conj_disj_distrib2 bit.conj_disj_distrib and.assoc drop_bit_or drop_bit_and

lemma imm_codes_nth:
  "imm_codes ! 12 = VMO_PFX" "imm_codes ! 13 = VMO_PFX1"
  by (simp_all add: imm_codes_def)

lemma run_pfx:
  "exec_insn gf ops ((if b then VMI_PFX1 else VMI_PFX) OR (y AND VM_IMM_MASK)) x =
    Some (Done 0 (x\<lparr>xpfx := push_bit 10 (xpfx x) OR (y AND 0x1FF) OR (if b then 0x200 else 0)\<rparr>))"
  by (cases b)
     (simp_all add: exec_insn_def code_bits decode_imm_def imm_codes_nth or.assoc)

lemma run_lit:
  "exec_insn gf ops (VMI_LIT OR (y AND VM_LIMM_MASK)) x =
    Some (Done 0 ((PUSHT (push_bit 13 (xpfx x) OR (y AND 0x1FFF)) x)\<lparr>xpfx := 0\<rparr>))"
  by (simp add: exec_insn_def code_bits)

lemma mask_word: "(0x1FF :: u32) = mask 9" "(0x1FFF :: u32) = mask 13"
  by (simp_all add: mask_eq_exp_minus_1)

lemma bit_200: "bit (0x200 :: u32) n \<longleftrightarrow> n = 9"
proof -
  have "(0x200 :: u32) = 2 ^ 9" by simp
  then show ?thesis by (simp only: bit_exp_iff possible_bit_word) auto
qed

lemma and_bit: "(y :: u32) AND push_bit n 1 \<noteq> 0 \<longleftrightarrow> bit y n"
  by (simp add: push_bit_eq_mult and_exp_eq_0_iff_not_bit)

lemma low_bits_back:
  "push_bit 10 (drop_bit 10 y) OR (y AND 0x1FF) OR (if bit y 9 then 0x200 else 0) = (y :: u32)"
  unfolding mask_word
proof (rule bit_word_eqI)
  fix n assume n: "n < LENGTH(32)"
  consider "n < 9" | "n = 9" | "10 \<le> n" by linarith
  then show "bit (push_bit 10 (drop_bit 10 y) OR (y AND mask 9) OR (if bit y 9 then 0x200 else 0)) n = bit y n"
    using n bit_200 [of n] by cases (auto simp: bit_simps)
qed

lemma lit_bits_back: "push_bit 13 (drop_bit 13 y) OR (y AND 0x1FFF) = (y :: u32)"
  unfolding mask_word by (rule bit_word_eqI) (auto simp: bit_simps)

lemma run_pfx_codes:
  "xpfx x = 0 \<Longrightarrow> run_codes gf ops (pfx_codes y) x = Some (Done 0 (x\<lparr>xpfx := y\<rparr>))"
proof (induction y rule: pfx_codes.induct)
  case (1 y)
  show ?case
  proof (cases "y = 0")
    case True
    then show ?thesis
      using 1(2) by simp
  next
    case False
    have "y AND push_bit VM_IMM_BITS 1 \<noteq> 0 \<longleftrightarrow> bit y 9"
      using and_bit [of y 9] by (simp only: format_consts)
    then show ?thesis
      using run_codes_append [OF 1(1) [OF False 1(2)]] low_bits_back [of y]
      unfolding pfx_codes_step [OF False] by (simp only: run_codes.simps run_pfx) simp
  qed
qed

lemma run_ulit:
  assumes "xpfx x = 0"
  shows "run_codes gf ops (ulit_code n) x = Some (Done 0 (PUSHT n x))"
proof -
  have "(PUSHT n (x\<lparr>xpfx := k\<rparr>))\<lparr>xpfx := 0\<rparr> = PUSHT n x" for k
    using assms by (simp add: PUSHT_def DDUP_def set_ds_def upd_vm_def Let_def)
  then show ?thesis
    using run_codes_append [OF run_pfx_codes [OF assms]] lit_bits_back [of n]
    by (simp add: ulit_code_def run_lit del: code_consts format_consts) simp
qed

text \<open>C23: A compiled literal runs to its number. \<open>lfCompileLit\<close> always returns. It stores some
  instructions in code space one by one (stopping at the first error, which it returns), and then, for
  a negative number, compiles the micro-op \<open>inv\<close>; although it turns the instructions around on the VM's
  data stack, it leaves the top 123 items as they were. These instructions, run from any state
  without a pending prefix, push the number and change nothing else; for a negative number they push
  its complement and \<open>inv\<close> makes it the number.\<close>

theorem literal_runs:
  assumes "wf_vm (lf_vm m)"
  shows "\<exists>code v ior m1. comma_codes code (NewInst m) = (ior, m1) \<and> wf_vm v \<and>
    (ior = 0 \<longrightarrow> take 123 (data_items v) = take 123 (data_items (lf_vm m))) \<and>
    lfCompileLit x m =
      Some (if x <s 0 then CompUop (uop_code VMU_INV) (m1\<lparr>lf_vm := v\<rparr>) else (ior, m1\<lparr>lf_vm := v\<rparr>)) \<and>
    (\<forall>gf ops (y :: 'e exec). xpfx y = 0 \<longrightarrow>
      (if x <s 0
       then \<exists>z. run_codes gf ops code y = Some (Done 0 z) \<and> exec_uop VMU_INV z = (0, PUSHT x y)
       else run_codes gf ops code y = Some (Done 0 (PUSHT x y))))"
proof -
  define u where "u = (if x <s 0 then NOT x else x)"
  have "run_codes gf ops (ulit_code u) y = Some (Done 0 (PUSHT u y))"
    "exec_uop VMU_INV (PUSHT (NOT x) y) = (0, PUSHT x y)" if "xpfx y = 0"
    for gf ops and y :: "'e exec"
    using run_ulit [OF that] by (simp_all add: PUSHT_def)
  moreover obtain v ior m1 where "comma_codes (ulit_code u) (NewInst m) = (ior, m1)" "wf_vm v"
    "ior = 0 \<longrightarrow> take 123 (data_items v) = take 123 (data_items (lf_vm m))"
    "lfCompileLit x m =
      Some (if x <s 0 then CompUop (uop_code VMU_INV) (m1\<lparr>lf_vm := v\<rparr>) else (ior, m1\<lparr>lf_vm := v\<rparr>))"
    using CompUlit_codes [OF assms, of u]
    by (auto simp: u_def lfCompileLit_def prod_eq_iff split: if_splits)
  ultimately show ?thesis
    by (intro exI [of _ "ulit_code u"] exI [of _ v] exI [of _ ior] exI [of _ m1])
      (auto simp: u_def split: if_splits)
qed

definition fresh_comp :: comp_env where
  "fresh_comp = \<lparr>cslot = 9, cinst = 0, clastcall = 0, cnoname = False\<rparr>"

lemma literal_runs_witness:
  "\<exists>code. run_codes 0 tiny_ops code (exec_start (tiny_machine [0, 0, 0, 0])) =
      Some (Done 0 (PUSHT 0x12345 (exec_start (tiny_machine [0, 0, 0, 0])))) \<and>
    map_option fst (lfCompileLit 0x12345 (small_machine [] fresh_comp)) =
      Some (fst (comma_codes code (NewInst (small_machine [] fresh_comp))))"
proof -
  have w: "wf_vm (lf_vm (small_machine [] fresh_comp))" by (simp add: small_machine_def wf_tiny_vm)
  have p: "xpfx (exec_start (tiny_machine [0, 0, 0, 0])) = 0"
    by (simp add: exec_start_def VM_LOAD_def tiny_machine_def tiny_vm_def)
  have n: "\<not> (0x12345 :: u32) <s 0" by (simp add: word_sless_alt)
  from literal_runs [OF w, of "0x12345", where 'e = unit] n p show ?thesis by fastforce
qed

section \<open>Packing micro-ops\<close>

text \<open>The micro-ops of a group, and the group of a list of them.\<close>

definition expand :: "u32 \<Rightarrow> u32 list" where
  "expand inst = [drop_bit 9 inst AND 0x1F, drop_bit 4 inst AND 0x1F, inst AND 0xF]"

fun packed :: "u32 list \<Rightarrow> u32" where
  "packed [a] = push_bit 9 a"
| "packed [a, b] = push_bit 9 a OR push_bit 4 b"
| "packed [a, b, c] = push_bit 9 a OR push_bit 4 b OR c"
| "packed _ = 0"

definition op_ok :: "u32 \<Rightarrow> bool" where
  "op_ok u \<longleftrightarrow> 0 < u \<and> u < 32"

text \<open>The pending micro-ops \<open>ps\<close> of a slot position and instruction.\<close>

definition pending :: "int \<Rightarrow> u32 \<Rightarrow> u32 list \<Rightarrow> bool" where
  "pending s inst ps \<longleftrightarrow> inst = packed ps \<and> list_all op_ok ps \<and> length ps \<le> 3 \<and>
     (length ps = 3 \<longrightarrow> ps ! 2 < 16) \<and> s = [9, 4, - 1, - 5] ! length ps"

lemma field_take: "u < 32 \<Longrightarrow> take_bit 5 u = (u :: u32)" "u < 16 \<Longrightarrow> take_bit 4 u = (u :: u32)"
  by (simp_all add: small_take_bit word_less_nat)

lemma expand_packed:
  assumes "a < 32" "b < 32" "c < 16" and k: "k = 0 \<or> k = 0x8000"
  shows "expand (k OR (push_bit 9 a OR push_bit 4 b OR c)) = [a, b, c]"
proof -
  have m: "(0x1F :: u32) = mask 5" "(0xF :: u32) = mask 4" "(0x8000 :: u32) = 2 ^ 15"
    by (simp_all add: mask_eq_exp_minus_1)
  have "expand (k OR (push_bit 9 (take_bit 5 a) OR push_bit 4 (take_bit 5 b) OR take_bit 4 c))
      = [take_bit 5 a, take_bit 5 b, take_bit 4 c]"
    using k unfolding expand_def m
    by (auto intro!: bit_word_eqI simp: bit_simps simp del: power_numeral)
  then show ?thesis
    using assms by (simp add: field_take)
qed

lemma short_list:
  "length ps \<le> 3 \<Longrightarrow> ps = [] \<or> (\<exists>a. ps = [a]) \<or> (\<exists>a b. ps = [a, b]) \<or> (\<exists>a b c. ps = [a, b, c])"
  by (auto simp: numeral_3_eq_3 le_Suc_eq length_Suc_conv)

lemma expand_pending:
  assumes "pending s inst ps" "k = 0 \<or> k = 0x8000"
  shows "filter (\<lambda>u. u \<noteq> 0) (expand (k OR inst)) = ps"
proof -
  have ps: "list_all op_ok ps" "inst = packed ps" "length ps = 3 \<longrightarrow> ps ! 2 < 16"
    using assms(1) by (simp_all add: pending_def)
  consider "ps = []" | a where "ps = [a]" | a b where "ps = [a, b]" | a b c where "ps = [a, b, c]"
    using short_list [of ps] assms(1) by (auto simp: pending_def)
  then show ?thesis
  proof cases
    case 1
    then show ?thesis using ps expand_packed [of 0 0 0 k] assms(2) by simp
  next
    case (2 a)
    then show ?thesis using ps expand_packed [of a 0 0 k] assms(2) by (auto simp: op_ok_def)
  next
    case (3 a b)
    then show ?thesis using ps expand_packed [of a b 0 k] assms(2) by (auto simp: op_ok_def)
  next
    case (4 a b c)
    then show ?thesis using ps expand_packed [of a b c k] assms(2) by (auto simp: op_ok_def)
  qed
qed

lemma commaCode_env: "commaCode i (m\<lparr>env := e\<rparr>) = (fst (commaCode i m), (snd (commaCode i m))\<lparr>env := e\<rparr>)"
  by (simp add: commaCode_def cpStore_def cpFetch_def ram_get_def ram_set_def mStore_def split_beta Let_def)

lemma commaCode_keeps_env [simp]: "env (snd (commaCode i m)) = env m"
  by (simp add: commaCode_def cpStore_def cpFetch_def ram_get_def ram_set_def mStore_def split_beta Let_def)

lemma commaCode_cong: "vmem m = vmem n \<Longrightarrow> vmem (snd (commaCode i m)) = vmem (snd (commaCode i n))"
  by (simp add: commaCode_def cpStore_def cpFetch_def ram_get_def ram_set_def mStore_def split_beta Let_def)

lemma upd_comp_simps [simp]: "env (upd_comp f m) = f (env m)" "vmem (upd_comp f m) = vmem m"
  by (simp_all add: upd_comp_def)

lemma op_ok_and: "op_ok u \<Longrightarrow> u AND 0x1F = u"
  using field_take(1) [of u] by (simp add: op_ok_def take_bit_eq_mask mask_eq_exp_minus_1)

text \<open>One micro-op: it joins the pending ones, or they are compiled and it starts a new group.\<close>

lemma CompUop_step:
  assumes "pending (cslot (env m)) (cinst (env m)) ps" "op_ok u"
  shows "let m' = snd (CompUop u m) in
    if length ps = 3 \<or> length ps = 2 \<and> u \<ge> 16
    then pending (cslot (env m')) (cinst (env m')) [u] \<and>
      vmem m' = vmem (snd (commaCode (VM_UOPS OR cinst (env m)) m))
    else pending (cslot (env m')) (cinst (env m')) (ps @ [u]) \<and> vmem m' = vmem m"
proof -
  have ps: "list_all op_ok ps" "cinst (env m) = packed ps" "cslot (env m) = [9, 4, - 1, - 5] ! length ps"
    using assms(1) by (simp_all add: pending_def)
  consider "ps = []" | a where "ps = [a]" | a b where "ps = [a, b]" | a b c where "ps = [a, b, c]"
    using short_list [of ps] assms(1) by (auto simp: pending_def)
  then show ?thesis
    using assms(2) ps
    by cases (auto simp: CompUop_def NewInst_def freshSlots_def op_ok_and pending_def split_beta Let_def
        not_le or.assoc intro!: commaCode_cong)
qed

definition comp_uops :: "u32 list \<Rightarrow> 'a comp_env_scheme machine \<Rightarrow> 'a comp_env_scheme machine" where
  "comp_uops us m = foldl (\<lambda>m u. snd (CompUop u m)) m us"

definition comma_all :: "u32 list \<Rightarrow> 'e machine \<Rightarrow> 'e machine" where
  "comma_all gs m = foldl (\<lambda>m g. snd (commaCode g m)) m gs"

lemma packed_marks:
  assumes "pending s i ps"
  shows "(0x8000 OR packed ps) AND 0x8000 \<noteq> 0 \<and> (0x8000 OR packed ps) AND 0x4000 = 0"
proof -
  have m: "(0x8000 :: u32) = 2 ^ 15" "(0x4000 :: u32) = 2 ^ 14"
    by simp_all
  have low: "\<not> bit u n" if "op_ok u" "5 \<le> n" for u n
    using that by (metis field_take(1) op_ok_def bit_take_bit_iff not_le)
  have "\<not> bit (packed ps) 14"
    using assms short_list [of ps] low by (auto simp: pending_def bit_simps)
  then show ?thesis
    unfolding m by (auto simp: and_exp_eq_0_iff_not_bit bit_simps simp del: power_numeral)
qed

lemma comp_uops_pending:
  assumes "cslot (env m) = 9" "cinst (env m) = 0"
  shows "list_all op_ok us \<Longrightarrow> \<exists>gs ps. vmem (comp_uops us m) = vmem (comma_all gs m) \<and>
    list_all (\<lambda>g. g AND 0x8000 \<noteq> 0 \<and> g AND 0x4000 = 0) gs \<and>
    pending (cslot (env (comp_uops us m))) (cinst (env (comp_uops us m))) ps \<and>
    filter (\<lambda>u. u \<noteq> 0) (concat (map expand gs)) @ ps = us"
proof (induction us rule: rev_induct)
  case Nil
  then show ?case
    using assms by (auto simp: comp_uops_def comma_all_def pending_def intro!: exI [of _ "[]"])
next
  case (snoc u us)
  then obtain gs ps where IH: "vmem (comp_uops us m) = vmem (comma_all gs m)"
    "list_all (\<lambda>g. g AND 0x8000 \<noteq> 0 \<and> g AND 0x4000 = 0) gs"
    "pending (cslot (env (comp_uops us m))) (cinst (env (comp_uops us m))) ps"
    "filter (\<lambda>u. u \<noteq> 0) (concat (map expand gs)) @ ps = us" and u: "op_ok u"
    by auto
  define m1 where "m1 = comp_uops us m"
  have m2: "comp_uops (us @ [u]) m = snd (CompUop u m1)"
    by (simp add: comp_uops_def m1_def)
  show ?case
  proof (cases "length ps = 3 \<or> length ps = 2 \<and> u \<ge> 16")
    case True
    have "cinst (env m1) = packed ps"
      using IH(3) by (simp add: pending_def m1_def)
    then show ?thesis
      using CompUop_step [OF IH(3) u] True IH m2 expand_pending [where k = "0x8000", OF IH(3)] packed_marks [OF IH(3)]
        commaCode_cong [where m = m1 and n = "comma_all gs m" and i = "0x8000 OR packed ps"]
      by (intro exI [of _ "gs @ [0x8000 OR packed ps]"] exI [of _ "[u]"])
         (simp add: Let_def m1_def comma_all_def)
  next
    case False
    then show ?thesis
      using CompUop_step [OF IH(3) u] IH m2
      by (intro exI [of _ gs] exI [of _ "ps @ [u]"]) (simp add: Let_def m1_def)
  qed
qed

text \<open>The micro-ops of a definition, compiled one by one, come out in the same order: code space
  receives exactly some groups, each marked as a group and without the return bit, and the slots of those
  groups followed by the slots still pending, leaving out the nops, are the micro-ops that were compiled.\<close>

theorem uops_packed:
  assumes "cslot (env m) = 9" "cinst (env m) = 0" "list_all (\<lambda>u. 0 < u \<and> u < 32) us"
  shows "\<exists>gs. vmem (comp_uops us m) = vmem (comma_all gs m) \<and>
    list_all (\<lambda>g. g AND VM_UOPS \<noteq> 0 \<and> g AND VM_RET = 0) gs \<and>
    filter (\<lambda>u. u \<noteq> 0) (concat (map expand gs) @ expand (cinst (env (comp_uops us m)))) = us"
proof -
  obtain gs ps where "vmem (comp_uops us m) = vmem (comma_all gs m)"
      "list_all (\<lambda>g. g AND 0x8000 \<noteq> 0 \<and> g AND 0x4000 = 0) gs"
      "pending (cslot (env (comp_uops us m))) (cinst (env (comp_uops us m))) ps"
      "filter (\<lambda>u. u \<noteq> 0) (concat (map expand gs)) @ ps = us"
    using comp_uops_pending [OF assms(1,2), of us] assms(3) by (auto simp: op_ok_def list_all_iff)
  then show ?thesis
    using expand_pending [of _ _ ps 0] by (intro exI [of _ gs]) auto
qed

lemma uops_packed_witness:
  "\<exists>gs. vmem (comp_uops [10, 31, 1, 20, 5] (small_machine [] fresh_comp)) = vmem (comma_all gs (small_machine [] fresh_comp)) \<and>
    list_all (\<lambda>g. g AND VM_UOPS \<noteq> 0 \<and> g AND VM_RET = 0) gs \<and>
    filter (\<lambda>u. u \<noteq> 0) (concat (map expand gs) @
      expand (cinst (env (comp_uops [10, 31, 1, 20, 5] (small_machine [] fresh_comp))))) = [10, 31, 1, 20, 5]"
  by (rule uops_packed) (simp_all add: small_machine_def fresh_comp_def)

section \<open>Jumps and calls\<close>

text \<open>The instructions that \<open>storeJump\<close> puts at a slot.\<close>

definition jump_codes :: "u32 \<Rightarrow> u32 list" where
  "jump_codes pc =
     (if pc \<ge> VM_LIMM_MASK
      then [(if pc AND push_bit 22 1 \<noteq> 0 then VMI_PFX1 else VMI_PFX) OR (drop_bit VM_LIMM_BITS pc AND VM_IMM_MASK)]
      else []) @ [VMI_JUMP OR (pc AND VM_LIMM_MASK)]"

definition store_codes :: "u32 \<Rightarrow> u32 list \<Rightarrow> 'e machine \<Rightarrow> ior \<times> 'e machine" where
  "store_codes at is m =
     (case is of [i] \<Rightarrow> mStore at i m
      | [i, j] \<Rightarrow> (let (ior, m) = mStore at i m in if ior \<noteq> 0 then (ior, m) else mStore (vmFieldPlus at) j m)
      | _ \<Rightarrow> (0, m))"

lemma plus_or: "a AND b = 0 \<Longrightarrow> a + b = a OR (b :: u32)"
proof (rule disjunctive_add)
  fix n assume "a AND b = 0"
  then have "bit (a AND b) n = bit (0 :: u32) n" by simp
  then show "\<not> bit a n \<or> \<not> bit b n" by (simp add: bit_simps)
qed

lemma pfx_plus:
  "0x7A00 + (y AND 0x1FF) = 0x7A00 OR (y AND 0x1FF :: u32)" "0x7800 + (y AND 0x1FF) = 0x7800 OR (y AND 0x1FF :: u32)"
  by (simp_all add: plus_or and.left_commute [of _ y])

text \<open>C24: A resolved label jumps to its definition: what \<open>storeJump\<close> stores is a jump, with a prefix
  before it from 0x1FFF on, and running those instructions without a pending prefix continues at exactly
  the code address, for every code address (23 bits), with the stacks untouched.\<close>

theorem jump_lands:
  assumes "pc < 0x800000" "xpfx x = 0"
  shows "storeJump at pc m = store_codes at (jump_codes pc) m \<and>
    run_codes gf ops (jump_codes pc) x = Some (Done 0 (x\<lparr>xpc := pc\<rparr>))"
proof -
  have store: "storeJump at pc m = store_codes at (jump_codes pc) m"
    by (auto simp: storeJump_def store_codes_def jump_codes_def Let_def pfx_plus split_beta)
  have x: "x\<lparr>xpc := pc, xpfx := 0\<rparr> = x\<lparr>xpc := pc\<rparr>" "x\<lparr>xpfx := k, xpc := pc, xpfx := 0\<rparr> = x\<lparr>xpc := pc\<rparr>" for k
    using assms(2) by simp_all
  have jump: "exec_insn gf ops (VMI_JUMP OR (pc AND VM_LIMM_MASK)) y =
      Some (Done 0 (y\<lparr>xpc := push_bit 13 (xpfx y) OR (pc AND 0x1FFF), xpfx := 0\<rparr>))" for y
    by (simp add: exec_insn_def code_bits)
  show ?thesis
  proof (cases "pc \<ge> VM_LIMM_MASK")
    case False
    then have "unat pc < 2 ^ 13"
      by (simp add: not_le word_less_nat)
    then have "pc AND 0x1FFF = pc"
      unfolding mask_word take_bit_eq_mask [symmetric] by (rule small_take_bit)
    then show ?thesis
      using False assms(2) x store by (simp add: jump_codes_def jump del: code_consts format_consts) 
  next
    case True
    have pfx: "(drop_bit 13 pc AND 0x1FF) OR (if pc AND push_bit 22 1 \<noteq> 0 then 0x200 else 0) = drop_bit 13 pc"
      (is "?l = _")
    proof (rule bit_word_eqI)
      fix n assume "n < LENGTH(32)"
      have "take_bit 23 pc = pc"
        using assms(1) by (intro small_take_bit) (simp add: word_less_nat)
      then have b: "bit pc i \<Longrightarrow> i < 23" for i
        by (metis bit_take_bit_iff)
      consider "n < 9" | "n = 9" | "10 \<le> n" by linarith
      then show "bit ?l n = bit (drop_bit 13 pc) n"
        unfolding and_bit mask_word
        using bit_200 [of n] b [of "13 + n"] by cases (auto simp: bit_simps)
    qed
    then have "exec_insn gf ops ((if pc AND push_bit 22 1 \<noteq> 0 then VMI_PFX1 else VMI_PFX) OR
          (drop_bit VM_LIMM_BITS pc AND VM_IMM_MASK)) x = Some (Done 0 (x\<lparr>xpfx := drop_bit 13 pc\<rparr>))"
      using run_pfx [of gf ops "pc AND push_bit 22 1 \<noteq> 0" "drop_bit VM_LIMM_BITS pc" x] assms(2)
      by (simp del: code_consts)
    then have "run_codes gf ops (jump_codes pc) x = Some (Done 0 (x\<lparr>xpc := pc\<rparr>))"
      using True x lit_bits_back [of pc] unfolding jump_codes_def by (simp add: jump [simplified])
    then show ?thesis
      using store by simp
  qed
qed

lemma jump_lands_witness:
  "storeJump (pcSlot 2) 0x2004 (small_machine [] ()) = store_codes (pcSlot 2) (jump_codes 0x2004) (small_machine [] ()) \<and>
   run_codes 0 tiny_ops (jump_codes 0x2004) (exec_start (tiny_machine [0, 0, 0, 0]))
     = Some (Done 0 ((exec_start (tiny_machine [0, 0, 0, 0]))\<lparr>xpc := 0x2004\<rparr>))"
  by (rule jump_lands) (simp_all add: exec_start_def VM_LOAD_def tiny_machine_def tiny_vm_def)

text \<open>\<open>CompCall\<close> shifts by 9 bits where \<open>storeJump\<close> shifts by 13: the call to 0x2000 goes to 0x20000.\<close>

lemma call_prefix_wrong:
  "xpfx x = 0 \<Longrightarrow> map_option (\<lambda>r. case r of Done ior y \<Rightarrow> (ior, xpc y) | Trapped ior m \<Rightarrow> (ior, 0))
     (run_codes gf ops [VMI_PFX + drop_bit VM_IMM_BITS 0x2000, VMI_CALL + (0x2000 AND VM_LIMM_MASK)] x)
   = Some (0, 0x20000)"
  by (simp add: exec_insn_def decode_imm_def imm_codes_nth RDUP_def set_rs_def upd_vm_def Let_def)

text \<open>The note of the last call is not reset where a definition starts. When a definition was given up after
  a call, a definition of no words that follows compiles nothing: its exit changes the old call instead.\<close>

lemma stale_tail_call:
  assumes "clastcall (env m) \<noteq> 0"
  shows "CompExit (freshSlots m) =
    (fst (mStore (clastcall (env m)) (mFetch (clastcall (env m)) m AND NOT VMI_CALL) m),
     upd_comp (\<lambda>e. e\<lparr>clastcall := 0\<rparr>)
       (snd (mStore (clastcall (env m)) (mFetch (clastcall (env m)) m AND NOT VMI_CALL) (freshSlots m))))"
  using assms
  by (simp add: CompExit_def freshSlots_def upd_comp_def Let_def split_beta mStore_def mFetch_def)

end
