(* ===== verification/LF_Ymrecv.thy ===== *)
theory LF_Ymrecv
  imports LF_Prelude
begin

text \<open>
  The YMODEM receiver of the boot loader's recovery mode (\<^verbatim>\<open>src/src/ymrecv.c\<close>): the packets with their
  CRC, the header, and the loop that collects one file into 4 KB blocks, block 0 last. The line and the
  flash are callbacks in the source and fields of \<open>ymr_io\<close> here, over an environment of their own. The
  loops end when the line does, so they take fuel; the message text is the datatype \<open>why\<close>.
\<close>

section \<open>Interface and state\<close>

record 'y ymr_io =
  ymr_get :: "int \<Rightarrow> 'y \<Rightarrow> int \<times> 'y"
  ymr_put :: "int \<Rightarrow> 'y \<Rightarrow> 'y"
  ymr_write_block :: "u32 \<Rightarrow> u8 list \<Rightarrow> 'y \<Rightarrow> ior \<times> 'y"
  ymr_blocks :: u32
  ymr_magic :: "u8 list option"
  ymr_start_ms :: int

record 'y ymr =
  pkt :: "u8 list"
  ymr_name :: "u8 list"
  block0 :: "u8 list"
  work :: "u8 list"
  line :: 'y

definition SOH :: int where [const_defs]: "SOH = 0x01"
definition STX :: int where [const_defs]: "STX = 0x02"
definition EOT :: int where [const_defs]: "EOT = 0x04"
definition ACK :: int where [const_defs]: "ACK = 0x06"
definition NAK :: int where [const_defs]: "NAK = 0x15"
definition CAN :: int where [const_defs]: "CAN = 0x18"
definition CRC :: int where [const_defs]: "CRC = 67"
definition POLL_MS :: int where [const_defs]: "POLL_MS = 3000"
definition BYTE_MS :: int where [const_defs]: "BYTE_MS = 1000"
definition PACKET_MS :: int where [const_defs]: "PACKET_MS = 10000"
definition QUIET_MS :: int where [const_defs]: "QUIET_MS = 200"
definition RETRIES :: int where [const_defs]: "RETRIES = 10"
definition NO_SENDER :: int where [const_defs]: "NO_SENDER = 2"
definition YMR_BLOCK :: nat where [const_defs]: "YMR_BLOCK = 4096"

definition get :: "'y ymr_io \<Rightarrow> int \<Rightarrow> 'y ymr \<Rightarrow> int \<times> 'y ymr" where
  "get io ms s = (let (c, e) = ymr_get io ms (line s) in (c, s\<lparr>line := e\<rparr>))"

definition put :: "'y ymr_io \<Rightarrow> int \<Rightarrow> 'y ymr \<Rightarrow> 'y ymr" where
  "put io c s = s\<lparr>line := ymr_put io c (line s)\<rparr>"

definition write_block :: "'y ymr_io \<Rightarrow> u32 \<Rightarrow> u8 list \<Rightarrow> 'y ymr \<Rightarrow> ior \<times> 'y ymr" where
  "write_block io b buf s = (let (err, e) = ymr_write_block io b buf (line s) in (err, s\<lparr>line := e\<rparr>))"

section \<open>Packets\<close>

fun purge :: "nat \<Rightarrow> 'y ymr_io \<Rightarrow> 'y ymr \<Rightarrow> 'y ymr option" where
  "purge 0 io s = None"
| "purge (Suc f) io s = (let (c, s) = get io QUIET_MS s in if c \<ge> 0 then purge f io s else Some s)"

definition cancel :: "nat \<Rightarrow> 'y ymr_io \<Rightarrow> 'y ymr \<Rightarrow> 'y ymr option" where
  "cancel f io s = purge f io (put io CAN (put io CAN s))"

definition crc_bit :: "u16 \<Rightarrow> u16" where
  "crc_bit crc = (if crc AND 0x8000 \<noteq> 0 then push_bit 1 crc XOR 0x1021 else push_bit 1 crc)"

definition crc16 :: "u8 list \<Rightarrow> u16" where
  "crc16 p = foldl (\<lambda>crc b. (crc_bit ^^ 8) (crc XOR push_bit 8 (ucast b))) 0 p"

text \<open>The data bytes of a packet, \<open>n\<close> of them from index \<open>i\<close>; a byte that doesn't come ends it.\<close>

fun read_data :: "'y ymr_io \<Rightarrow> nat \<Rightarrow> nat \<Rightarrow> 'y ymr \<Rightarrow> bool \<times> 'y ymr" where
  "read_data io 0 i s = (True, s)"
| "read_data io (Suc n) i s =
     (let (b, s) = get io BYTE_MS s
      in if b < 0 then (False, s) else read_data io n (Suc i) (s\<lparr>pkt := (pkt s)[i := word_of_int b]\<rparr>))"

definition packet_size :: "int \<Rightarrow> nat" where
  "packet_size c = (if c = SOH then 128 else 1024)"

text \<open>The rest of a packet that started with \<open>c\<close>: its number, or -1.\<close>

definition read_packet :: "'y ymr_io \<Rightarrow> int \<Rightarrow> 'y ymr \<Rightarrow> int \<times> 'y ymr" where
  "read_packet io c s =
     (let (blk, s) = get io BYTE_MS s;
          (nblk, s) = (if blk < 0 then (- 1, s) else get io BYTE_MS s)
      in if blk < 0 \<or> nblk < 0 \<or> blk + nblk \<noteq> 255 then (- 1, s)
         else
           let (ok, s) = read_data io (packet_size c) 0 s in
           if \<not> ok then (- 1, s)
           else
             let (hi, s) = get io BYTE_MS s;
                 (lo, s) = (if hi < 0 then (- 1, s) else get io BYTE_MS s)
             in if lo < 0 \<or> (word_of_int (push_bit 8 hi OR lo) :: u16) \<noteq> crc16 (take (packet_size c) (pkt s))
                then (- 1, s) else (blk, s))"

text \<open>\<open>await_start\<close>: the inner loop drops bytes until a packet starts or nothing comes.\<close>

fun await_byte :: "nat \<Rightarrow> 'y ymr_io \<Rightarrow> int \<Rightarrow> 'y ymr \<Rightarrow> (int \<times> 'y ymr) option" where
  "await_byte 0 io ms s = None"
| "await_byte (Suc f) io ms s =
     (let (c, s) = get io ms s in
      if c < 0 then Some (- 1, s)
      else if c = SOH \<or> c = STX \<or> c = EOT \<or> c = CAN then Some (c, s)
      else await_byte f io ms s)"

function await_start :: "nat \<Rightarrow> 'y ymr_io \<Rightarrow> int \<Rightarrow> int \<Rightarrow> 'y ymr \<Rightarrow> (int \<times> 'y ymr) option" where
  "await_start f io waited ms s =
     (if waited < ms then
        (case await_byte f io (if ms - waited < POLL_MS then ms - waited else POLL_MS) (put io CRC s) of
           None \<Rightarrow> None
         | Some (c, s) \<Rightarrow> if c \<ge> 0 then Some (c, s) else await_start f io (waited + POLL_MS) ms s)
      else Some (- 1, s))"
  by pat_completeness auto
termination by (relation "measure (\<lambda>(f, io, waited, ms, s). nat (ms - waited))") (auto simp: POLL_MS_def)

declare await_start.simps [simp del]

section \<open>The header\<close>

text \<open>The length in packet 0: the digits after the name's NUL, up to a billion.\<close>

fun read_digits :: "u8 list \<Rightarrow> int \<Rightarrow> int" where
  "read_digits [] v = v"
| "read_digits (c # cs) v =
     (if 48 \<le> c \<and> c \<le> 57 \<and> v < 2 ^ 30 then read_digits cs (v * 10 + (uint c - 48)) else v)"

definition header_name :: "u8 list \<Rightarrow> u8 list" where
  "header_name p = take 63 (takeWhile (\<lambda>c. c \<noteq> 0) p)"

definition header_length :: "u8 list \<Rightarrow> int" where
  "header_length p =
     (case drop 1 (dropWhile (\<lambda>c. c \<noteq> 0) p) of
        [] \<Rightarrow> - 1
      | c # cs \<Rightarrow> if 48 \<le> c \<and> c \<le> 57 then read_digits (c # cs) 0 else - 1)"

text \<open>1 with the name and the length for a file, 0 for the packet that ends the batch, \<open>NO_SENDER\<close>, or
  an error. The caller's length stays where none is given.\<close>

fun read_header ::
  "nat \<Rightarrow> 'y ymr_io \<Rightarrow> int \<Rightarrow> int \<Rightarrow> int \<Rightarrow> 'y ymr \<Rightarrow> (int \<times> int \<times> 'y ymr) option" where
  "read_header 0 io ms errors len s = None"
| "read_header (Suc f) io ms errors len s =
     (case await_start f io 0 ms s of
        None \<Rightarrow> None
      | Some (c, s) \<Rightarrow>
          if c < 0 then Some (NO_SENDER, len, s)
          else if c = CAN then
            let (c2, s) = get io BYTE_MS s
            in if c2 = CAN then Some (ERR_YMODEM_TRANSFER, len, s) else read_header f io ms errors len s
          else if c = EOT then read_header f io ms errors len (put io ACK s)
          else
            let (blk, s) = read_packet io c s in
            if blk < 0 then
              (case purge f io s of
                 None \<Rightarrow> None
               | Some s \<Rightarrow>
                   if errors + 1 \<ge> RETRIES then Some (ERR_YMODEM_TRANSFER, len, s)
                   else read_header f io ms (errors + 1) len (put io NAK s))
            else if blk \<noteq> 0 then map_option (\<lambda>s. (ERR_YMODEM_TRANSFER, len, s)) (cancel f io s)
            else
              let s = put io ACK s; p = take (packet_size c) (pkt s) in
              if pkt s ! 0 = 0 then Some (0, len, s)
              else Some (1, header_length p, s\<lparr>ymr_name := header_name p\<rparr>))"

section \<open>The data\<close>

datatype why =
    NoSender | NoFile | Cancelled | NotWholeBlocks | TooBig | EndedEarly | SenderCancelled | Stalled
  | Damaged | OutOfOrder | NotWritten | NotAPackage | Block0NotWritten | Received

record 'y rx =
  rxs :: "'y ymr"
  got :: nat
  expected :: u8
  errors :: int

text \<open>The bytes of a packet that belong to the file: into \<open>block0\<close> or \<open>work\<close>, which is written when it
  is full.\<close>

fun store_bytes :: "'y ymr_io \<Rightarrow> nat \<Rightarrow> u8 list \<Rightarrow> 'y rx \<Rightarrow> ior \<times> 'y rx" where
  "store_bytes io flen [] r = (0, r)"
| "store_bytes io flen (p # ps) r =
     (if got r < flen then
        let b = got r div YMR_BLOCK; at = got r mod YMR_BLOCK; s = rxs r;
            s = (if b \<noteq> 0 then s\<lparr>work := (work s)[at := p]\<rparr> else s\<lparr>block0 := (block0 s)[at := p]\<rparr>)
        in if at = YMR_BLOCK - 1 \<and> b \<noteq> 0 then
             let (err, s) = write_block io (word_of_nat b) (work s) s
             in if err \<noteq> 0 then (err, r\<lparr>rxs := s\<rparr>) else store_bytes io flen ps (r\<lparr>rxs := s, got := got r + 1\<rparr>)
           else store_bytes io flen ps (r\<lparr>rxs := s, got := got r + 1\<rparr>)
      else (0, r))"

text \<open>One turn of the loop goes on, breaks (with a reason when the file is not taken) or returns.\<close>

datatype 'y turn = Again "'y rx" | Break "why option" ior "'y rx" | Return ior why "'y rx"

definition retry :: "'y ymr_io \<Rightarrow> why \<Rightarrow> 'y rx \<Rightarrow> 'y turn" where
  "retry io reason r =
     (let r = r\<lparr>errors := errors r + 1\<rparr> in
      if errors r \<ge> RETRIES then Break (Some reason) 0 r else Again (r\<lparr>rxs := put io NAK (rxs r)\<rparr>))"

text \<open>A packet that arrived whole, with its number.\<close>

definition take_packet :: "'y ymr_io \<Rightarrow> nat \<Rightarrow> int \<Rightarrow> int \<Rightarrow> 'y rx \<Rightarrow> 'y turn" where
  "take_packet io flen c blk r =
     (if blk = uint (expected r - 1) then Again (r\<lparr>rxs := put io ACK (rxs r)\<rparr>)
      else if blk \<noteq> uint (expected r) then Break (Some OutOfOrder) 0 r
      else
        let (err, r) = store_bytes io flen (take (packet_size c) (pkt (rxs r))) (r\<lparr>errors := 0\<rparr>) in
        if err \<noteq> 0 then Break (Some NotWritten) err r
        else if expected r = 1 \<and> (case ymr_magic io of None \<Rightarrow> False
                                   | Some mg \<Rightarrow> take (length mg) (block0 (rxs r)) \<noteq> mg)
        then Break (Some NotAPackage) 0 r
        else Again (r\<lparr>rxs := put io ACK (rxs r), expected := expected r + 1\<rparr>))"

definition data_turn :: "nat \<Rightarrow> 'y ymr_io \<Rightarrow> nat \<Rightarrow> 'y rx \<Rightarrow> 'y turn option" where
  "data_turn f io flen r =
     (let (c, s) = get io PACKET_MS (rxs r); r = r\<lparr>rxs := s\<rparr> in
      if c = EOT then
        if got r < flen then Some (Break (Some EndedEarly) 0 r)
        else
          let (c2, s) = get io PACKET_MS (put io NAK s)
          in Some (Break None 0 (r\<lparr>rxs := if c2 = EOT then put io ACK s else s\<rparr>))
      else if c = CAN then
        let (c2, s) = get io BYTE_MS s; r = r\<lparr>rxs := s\<rparr>
        in Some (if c2 = CAN then Return ERR_YMODEM_TRANSFER SenderCancelled r else Again r)
      else if c \<noteq> SOH \<and> c \<noteq> STX then
        Some (if c < 0 \<or> c = NAK then retry io Stalled r else Again r)
      else
        let (blk, s) = read_packet io c s; r = r\<lparr>rxs := s\<rparr> in
        if blk < 0 then map_option (\<lambda>s. retry io Damaged (r\<lparr>rxs := s\<rparr>)) (purge f io s)
        else Some (take_packet io flen c blk r))"

fun data_loop :: "nat \<Rightarrow> 'y ymr_io \<Rightarrow> nat \<Rightarrow> 'y rx \<Rightarrow> 'y turn option" where
  "data_loop 0 io flen r = None"
| "data_loop (Suc f) io flen r =
     (case data_turn f io flen r of
        None \<Rightarrow> None
      | Some (Again r) \<Rightarrow> data_loop f io flen r
      | Some t \<Rightarrow> Some t)"

section \<open>Receiving a file\<close>

definition refuse :: "nat \<Rightarrow> 'y ymr_io \<Rightarrow> ior \<Rightarrow> why \<Rightarrow> 'y ymr \<Rightarrow> (ior \<times> u32 \<times> why \<times> 'y ymr) option" where
  "refuse f io err reason s = map_option (\<lambda>s. (err, 0, reason, s)) (cancel f io s)"

text \<open>The end: block 0, and the header that ends the batch.\<close>

definition finish_file :: "nat \<Rightarrow> 'y ymr_io \<Rightarrow> int \<Rightarrow> 'y ymr \<Rightarrow> (ior \<times> u32 \<times> why \<times> 'y ymr) option" where
  "finish_file f io len s =
     (let (err, s) = write_block io 0 (block0 s) s in
      if err \<noteq> 0 then refuse f io err Block0NotWritten s
      else
        (case read_header f io PACKET_MS 0 len s of
           None \<Rightarrow> None
         | Some (r, _, s) \<Rightarrow>
             map_option (\<lambda>s. (0, word_of_int len, Received, s)) (if r = 1 then cancel f io s else Some s)))"

definition check_length :: "'y ymr_io \<Rightarrow> int \<Rightarrow> why option" where
  "check_length io len =
     (if len \<le> 0 \<or> len mod int YMR_BLOCK \<noteq> 0 then Some NotWholeBlocks
      else if len div int YMR_BLOCK > uint (ymr_blocks io) then Some TooBig else None)"

text \<open>What follows the loop.\<close>

definition end_of_data :: "nat \<Rightarrow> 'y ymr_io \<Rightarrow> int \<Rightarrow> 'y turn \<Rightarrow> (ior \<times> u32 \<times> why \<times> 'y ymr) option" where
  "end_of_data f io len t =
     (case t of
        Again r \<Rightarrow> None
      | Return err reason r \<Rightarrow> Some (err, 0, reason, rxs r)
      | Break (Some reason) err r \<Rightarrow> refuse f io (if err \<noteq> 0 then err else ERR_YMODEM_SOURCE) reason (rxs r)
      | Break None err r \<Rightarrow> finish_file f io len (rxs r))"

text \<open>The error code, the size, the reason and the state. \<open>length\<close> is cast to 32 bits for the loop.\<close>

definition ymr_receive :: "nat \<Rightarrow> 'y ymr_io \<Rightarrow> 'y ymr \<Rightarrow> (ior \<times> u32 \<times> why \<times> 'y ymr) option" where
  "ymr_receive f io s =
     (case read_header f io (ymr_start_ms io) 0 0 (s\<lparr>ymr_name := []\<rparr>) of
        None \<Rightarrow> None
      | Some (r, len, s) \<Rightarrow>
          if r = NO_SENDER then Some (ERR_YMODEM_TRANSFER, 0, NoSender, s)
          else if r = 0 then Some (ERR_YMODEM_TRANSFER, 0, NoFile, s)
          else if r < 0 then Some (r, 0, Cancelled, s)
          else
            (case check_length io len of
               Some reason \<Rightarrow> refuse f io ERR_YMODEM_SOURCE reason s
             | None \<Rightarrow>
                 (case data_loop f io (unat (word_of_int len :: u32))
                         \<lparr>rxs = put io CRC s, got = 0, expected = 1, errors = 0\<rparr> of
                    None \<Rightarrow> None
                  | Some t \<Rightarrow> end_of_data f io len t)))"

section \<open>What is written, and in which order\<close>

text \<open>The environment with a log of the blocks written without an error, newest last.\<close>

type_synonym 'y logged = "'y \<times> (u32 \<times> u8 list) list"

definition logged :: "'y ymr_io \<Rightarrow> 'y logged ymr_io" where
  "logged io =
     \<lparr>ymr_get = (\<lambda>ms (e, log). let (c, e) = ymr_get io ms e in (c, e, log)),
      ymr_put = (\<lambda>c (e, log). (ymr_put io c e, log)),
      ymr_write_block = (\<lambda>b buf (e, log).
        let (err, e) = ymr_write_block io b buf e in (err, e, if err = 0 then log @ [(b, buf)] else log)),
      ymr_blocks = ymr_blocks io, ymr_magic = ymr_magic io, ymr_start_ms = ymr_start_ms io\<rparr>"

definition written :: "'y logged ymr \<Rightarrow> (u32 \<times> u8 list) list" where
  "written s = snd (line s)"

text \<open>The receiver's turns as a relation, and the states the loop can reach.\<close>

inductive turn_to :: "'y ymr_io \<Rightarrow> nat \<Rightarrow> 'y rx \<Rightarrow> 'y turn \<Rightarrow> bool" for io flen where
  turnI: "data_turn f io flen r = Some t \<Longrightarrow> turn_to io flen r t"

inductive reaches :: "'y ymr_io \<Rightarrow> nat \<Rightarrow> 'y rx \<Rightarrow> 'y rx \<Rightarrow> bool" for io flen where
  start: "reaches io flen r r"
| turn: "reaches io flen r r1 \<Longrightarrow> turn_to io flen r1 (Again r2) \<Longrightarrow> reaches io flen r r2"

inductive_cases turnE: "turn_to io flen r t"

lemma data_loop_reaches:
  assumes "data_loop f io flen r = Some t"
  shows "\<exists>r1. reaches io flen r r1 \<and> turn_to io flen r1 t \<and> (\<forall>r2. t \<noteq> Again r2)"
proof -
  have gen: "\<lbrakk>data_loop f io flen r1 = Some t; reaches io flen r r1\<rbrakk> \<Longrightarrow>
      \<exists>r1. reaches io flen r r1 \<and> turn_to io flen r1 t \<and> (\<forall>r2. t \<noteq> Again r2)" for r1
  proof (induction f arbitrary: r1)
    case (Suc f)
    then obtain t1 where t1: "data_turn f io flen r1 = Some t1"
      by (auto split: option.splits)
    note to = turnI [where io = io, OF t1]
    show ?case
    proof (cases t1)
      case (Again r2)
      then show ?thesis
        using Suc.prems(1) t1 reaches.turn [OF Suc.prems(2) to [unfolded Again]] Suc.IH [of r2] by simp
    next
      case (Break w e r2)
      have t: "t = t1"
        using Suc.prems(1) t1 by (simp add: Break)
      have "\<forall>r2. t1 \<noteq> Again r2"
        by (simp add: Break)
      then show ?thesis
        using Suc.prems(2) to unfolding t by blast
    next
      case (Return e w r2)
      have t: "t = t1"
        using Suc.prems(1) t1 by (simp add: Return)
      have "\<forall>r2. t1 \<noteq> Again r2"
        by (simp add: Return)
      then show ?thesis
        using Suc.prems(2) to unfolding t by blast
    qed
  qed simp
  show ?thesis
    by (rule gen [OF assms reaches.start])
qed

text \<open>Reading and sending leave the log and the buffers alone.\<close>

definition blocks_of :: "'y logged ymr \<Rightarrow> (u32 \<times> u8 list) list \<times> u8 list \<times> u8 list \<times> nat" where
  "blocks_of s = (written s, block0 s, work s, length (pkt s))"

lemma blocks_of_io [simp]:
  "blocks_of (snd (get (logged io) ms s)) = blocks_of s" "blocks_of (put (logged io) c s) = blocks_of s"
  "blocks_of (s\<lparr>pkt := (pkt s)[i := p]\<rparr>) = blocks_of s" "blocks_of (s\<lparr>ymr_name := n\<rparr>) = blocks_of s"
  by (auto simp: blocks_of_def written_def get_def put_def logged_def split_beta)

lemma get_blocks: "get (logged io) ms s = (c, s') \<Longrightarrow> blocks_of s' = blocks_of s"
  using blocks_of_io(1) [of io ms s] by simp

lemma purge_blocks: "purge f (logged io) s = Some s' \<Longrightarrow> blocks_of s' = blocks_of s"
  by (induction f arbitrary: s) (auto simp: split_beta split: if_splits)

lemma cancel_blocks: "cancel f (logged io) s = Some s' \<Longrightarrow> blocks_of s' = blocks_of s"
  by (simp add: cancel_def purge_blocks)

lemma read_data_blocks [simp]: "blocks_of (snd (read_data (logged io) n i s)) = blocks_of s"
  by (induction n arbitrary: i s) (simp_all add: split_beta)

lemma read_packet_blocks [simp]: "blocks_of (snd (read_packet (logged io) c s)) = blocks_of s"
  by (simp add: read_packet_def split_beta Let_def)

lemma await_byte_blocks: "await_byte f (logged io) ms s = Some (c, s') \<Longrightarrow> blocks_of s' = blocks_of s"
  by (induction f arbitrary: s) (auto simp: split_beta dest: get_blocks split: if_splits)

lemma await_start_blocks: "await_start f (logged io) w ms s = Some (c, s') \<Longrightarrow> blocks_of s' = blocks_of s"
proof (induction f "logged io" w ms s rule: await_start.induct)
  case (1 f w ms s)
  let ?t = "if ms - w < POLL_MS then ms - w else POLL_MS"
  show ?case
  proof (cases "w < ms")
    case True
    then obtain d s1 where b: "await_byte f (logged io) ?t (put (logged io) CRC s) = Some (d, s1)"
      using 1(2) by (auto simp: await_start.simps [of f "logged io" w ms s] split: option.splits)
    then show ?thesis
      using 1(2) 1(1) [OF True b refl] True await_byte_blocks [OF b]
      by (cases "d \<ge> 0") (auto simp: await_start.simps [of f "logged io" w ms s])
  next
    case False
    then show ?thesis
      using 1(2) by (simp add: await_start.simps [of f "logged io" w ms s])
  qed
qed

lemma read_header_blocks:
  "read_header f (logged io) ms e len s = Some (r, len', s') \<Longrightarrow> blocks_of s' = blocks_of s"
proof (induction f arbitrary: e len s)
  case (Suc f)
  obtain c s1 where a: "await_start f (logged io) 0 ms s = Some (c, s1)"
    using Suc.prems by (auto split: option.splits)
  obtain blk s2 where p: "read_packet (logged io) c s1 = (blk, s2)"
    by fastforce
  obtain c2 s3 where g: "get (logged io) BYTE_MS s1 = (c2, s3)"
    by fastforce
  have b: "blocks_of s1 = blocks_of s" "blocks_of s2 = blocks_of s1" "blocks_of s3 = blocks_of s1"
    using await_start_blocks [OF a] read_packet_blocks [of io c s1] get_blocks [OF g] p by simp_all
  consider "c < 0" | "c = CAN" | "\<not> c < 0" "c \<noteq> CAN" "c = EOT" | "\<not> c < 0" "c \<noteq> CAN" "c \<noteq> EOT" "blk < 0"
    | "\<not> c < 0" "c \<noteq> CAN" "c \<noteq> EOT" "\<not> blk < 0"
    by blast
  then show ?case
  proof cases
    case 4
    then obtain s4 where q: "purge f (logged io) s2 = Some s4"
      using Suc.prems by (auto simp: a p split: option.splits)
    then show ?thesis
      using 4 Suc.prems Suc.IH [of "e + 1" len "put (logged io) NAK s4"] purge_blocks [OF q] b
      by (cases "e + 1 \<ge> RETRIES") (simp_all add: a p)
  next
    case 5
    then show ?thesis
      using Suc.prems b by (cases "blk \<noteq> 0") (auto simp: a p Let_def dest: cancel_blocks split: if_splits)
  qed (use Suc.prems b in \<open>auto simp: a g CAN_def dest: Suc.IH split: if_splits\<close>)
qed simp

text \<open>Between two turns: whole buffers, and after \<open>got\<close> bytes exactly the blocks from 1 on that are full
  have been written, in order. Once a packet is in, the file starts with the magic.\<close>

definition nums :: "nat \<Rightarrow> u32 list" where
  "nums n = map word_of_nat [1..<n]"

definition stored_ok :: "nat \<Rightarrow> 'y logged rx \<Rightarrow> bool" where
  "stored_ok flen r \<longleftrightarrow>
     length (block0 (rxs r)) = YMR_BLOCK \<and> length (work (rxs r)) = YMR_BLOCK \<and>
     length (pkt (rxs r)) = 1024 \<and> got r \<le> flen \<and>
     map fst (written (rxs r)) = nums (got r div YMR_BLOCK)"

definition magic_ok :: "'y logged ymr_io \<Rightarrow> u8 list \<Rightarrow> bool" where
  "magic_ok io b \<longleftrightarrow> (\<forall>mg. ymr_magic io = Some mg \<longrightarrow> take (length mg) b = mg)"

definition rx_ok :: "'y logged ymr_io \<Rightarrow> nat \<Rightarrow> 'y logged rx \<Rightarrow> bool" where
  "rx_ok io flen r \<longleftrightarrow> stored_ok flen r \<and>
     (if got r = 0 then expected r = 1 else 128 \<le> got r \<and> magic_ok io (block0 (rxs r)))"

lemma stored_ok_cong:
  "blocks_of (rxs r') = blocks_of (rxs r) \<Longrightarrow> got r' = got r \<Longrightarrow> stored_ok flen r' = stored_ok flen r"
  by (simp add: stored_ok_def blocks_of_def)

lemma rx_ok_cong:
  "\<lbrakk>blocks_of (rxs r') = blocks_of (rxs r); got r' = got r; expected r' = expected r\<rbrakk> \<Longrightarrow>
   rx_ok io flen r' = rx_ok io flen r"
  by (simp add: rx_ok_def stored_ok_def blocks_of_def)

lemma nums_Suc: "0 < b \<Longrightarrow> nums (Suc b) = nums b @ [word_of_nat b]"
  by (simp add: nums_def)

lemma written_write:
  "written (snd (write_block (logged io) b buf s)) =
     (if fst (write_block (logged io) b buf s) = 0 then written s @ [(b, buf)] else written s)"
  "block0 (snd (write_block (logged io) b buf s)) = block0 s"
  "work (snd (write_block (logged io) b buf s)) = work s"
  "pkt (snd (write_block (logged io) b buf s)) = pkt s"
  by (auto simp: write_block_def logged_def written_def split_beta Let_def)

text \<open>One byte of the file, as \<open>store_bytes\<close> takes it.\<close>

definition store_byte :: "'y ymr_io \<Rightarrow> u8 \<Rightarrow> 'y rx \<Rightarrow> ior \<times> 'y rx" where
  "store_byte io p r =
     (let b = got r div YMR_BLOCK; at = got r mod YMR_BLOCK; s = rxs r;
          s = (if b \<noteq> 0 then s\<lparr>work := (work s)[at := p]\<rparr> else s\<lparr>block0 := (block0 s)[at := p]\<rparr>)
      in if at = YMR_BLOCK - 1 \<and> b \<noteq> 0 then
           let (err, s) = write_block io (word_of_nat b) (work s) s
           in (err, if err \<noteq> 0 then r\<lparr>rxs := s\<rparr> else r\<lparr>rxs := s, got := got r + 1\<rparr>)
         else (0, r\<lparr>rxs := s, got := got r + 1\<rparr>))"

lemma store_bytes_step:
  "store_bytes io flen (p # ps) r =
    (if got r < flen
     then let (err, r1) = store_byte io p r in if err \<noteq> 0 then (err, r1) else store_bytes io flen ps r1
     else (0, r))"
  by (simp add: store_byte_def split_beta Let_def)

lemma div_mod_Suc:
  "n mod YMR_BLOCK = YMR_BLOCK - 1 \<Longrightarrow> Suc n div YMR_BLOCK = Suc (n div YMR_BLOCK)"
  "n mod YMR_BLOCK \<noteq> YMR_BLOCK - 1 \<Longrightarrow> Suc n div YMR_BLOCK = n div YMR_BLOCK"
  by (auto simp: div_Suc mod_Suc YMR_BLOCK_def)

lemma written_buffers [simp]:
  "written (s\<lparr>work := w\<rparr>) = written s" "written (s\<lparr>block0 := w\<rparr>) = written s"
  by (simp_all add: written_def)

lemma store_byte_ok:
  assumes "stored_ok flen r" "got r < flen" "store_byte (logged io) p r = (err, r1)"
  shows "stored_ok flen r1 \<and> expected r1 = expected r \<and> errors r1 = errors r \<and>
    got r1 = (if err = 0 then got r + 1 else got r) \<and>
    (\<forall>n \<le> got r. take n (block0 (rxs r1)) = take n (block0 (rxs r)))"
proof (cases "got r div YMR_BLOCK = 0")
  case True
  then have at: "got r mod YMR_BLOCK = got r"
    by (simp add: YMR_BLOCK_def div_eq_0_iff)
  have "Suc (got r) div YMR_BLOCK \<le> 1"
    using True by (auto simp: YMR_BLOCK_def div_eq_0_iff less_Suc_eq_le)
  then have "nums (Suc (got r) div YMR_BLOCK) = nums 0"
    by (simp add: nums_def)
  then show ?thesis
    using assms True at by (auto simp: store_byte_def Let_def stored_ok_def nums_def)
next
  case False
  define b where "b = got r div YMR_BLOCK"
  define s1 where "s1 = (rxs r)\<lparr>work := (work (rxs r))[got r mod YMR_BLOCK := p]\<rparr>"
  have s1: "length (block0 s1) = YMR_BLOCK" "length (work s1) = YMR_BLOCK" "written s1 = written (rxs r)"
    "block0 s1 = block0 (rxs r)" "length (pkt s1) = 1024" "map fst (written s1) = nums b"
    using assms(1) by (simp_all add: s1_def stored_ok_def b_def)
  show ?thesis
  proof (cases "got r mod YMR_BLOCK = YMR_BLOCK - 1")
    case last: True
    obtain e s2 where w: "write_block (logged io) (word_of_nat b) (work s1) s1 = (e, s2)"
      by fastforce
    have r1: "err = e" "r1 = (if e \<noteq> 0 then r\<lparr>rxs := s2\<rparr> else r\<lparr>rxs := s2, got := got r + 1\<rparr>)"
      using assms(3) False last w by (auto simp: store_byte_def Let_def b_def s1_def split: if_splits)
    have s2: "block0 s2 = block0 s1" "work s2 = work s1" "pkt s2 = pkt s1"
      "written s2 = (if e = 0 then written s1 @ [(word_of_nat b, work s1)] else written s1)"
      using written_write [of io "word_of_nat b" "work s1" s1] by (simp_all add: w)
    have "Suc (got r) div YMR_BLOCK = Suc b"
      using div_mod_Suc(1) [OF last] by (simp add: b_def)
    then show ?thesis
      using assms(1,2) r1 s1 s2 False nums_Suc [of b] by (auto simp: stored_ok_def b_def)
  next
    case inner: False
    then have "err = 0" "r1 = r\<lparr>rxs := s1, got := got r + 1\<rparr>"
      using assms(3) False by (simp_all add: store_byte_def Let_def s1_def)
    then show ?thesis
      using assms(1,2) s1 div_mod_Suc(2) [OF inner] by (simp add: stored_ok_def b_def)
  qed
qed

lemma store_bytes_ok:
  "\<lbrakk>stored_ok flen r; store_bytes (logged io) flen ps r = (err, r1)\<rbrakk> \<Longrightarrow>
   stored_ok flen r1 \<and> expected r1 = expected r \<and>
   (err = 0 \<longrightarrow> got r1 = min flen (got r + length ps) \<and>
     (\<forall>n \<le> got r. take n (block0 (rxs r1)) = take n (block0 (rxs r))))"
proof (induction ps arbitrary: r)
  case Nil
  then show ?case by (auto simp: stored_ok_def)
next
  case (Cons p ps)
  obtain e r2 where sb: "store_byte (logged io) p r = (e, r2)"
    by fastforce
  show ?case
  proof (cases "got r < flen")
    case True
    note ok = store_byte_ok [OF Cons.prems(1) True sb]
    show ?thesis
      using Cons.prems(2) Cons.IH [of r2] ok True sb
      by (cases "e = 0") (auto simp: store_bytes_step simp del: store_bytes.simps)
  next
    case False
    then show ?thesis
      using Cons.prems by (auto simp: stored_ok_def)
  qed
qed

text \<open>What a turn leaves, by the way it ends.\<close>

definition turn_ok :: "'y logged ymr_io \<Rightarrow> nat \<Rightarrow> 'y logged turn \<Rightarrow> bool" where
  "turn_ok io flen t =
     (case t of
        Again r \<Rightarrow> rx_ok io flen r
      | Break (Some w) e r \<Rightarrow> stored_ok flen r
      | Break None e r \<Rightarrow> rx_ok io flen r \<and> got r = flen
      | Return e w r \<Rightarrow> e \<noteq> 0 \<and> stored_ok flen r)"

lemma put_fields [simp]:
  "block0 (put (logged io) c s) = block0 s" "work (put (logged io) c s) = work s"
  "pkt (put (logged io) c s) = pkt s" "written (put (logged io) c s) = written s"
  by (simp_all add: put_def logged_def written_def split_beta)

lemma rx_ok_same [simp]:
  "rx_ok io flen (r\<lparr>rxs := put (logged io') c (rxs r)\<rparr>) = rx_ok io flen r"
  "rx_ok io flen (r\<lparr>errors := e\<rparr>) = rx_ok io flen r"
  by (simp_all add: rx_ok_def stored_ok_def)

lemma rx_ok_stored: "rx_ok io flen r \<Longrightarrow> stored_ok flen r"
  by (simp add: rx_ok_def)

lemma retry_ok: "rx_ok (logged io) flen r \<Longrightarrow> turn_ok (logged io) flen (retry (logged io) w r)"
  by (simp add: retry_def Let_def turn_ok_def rx_ok_def stored_ok_def)

lemma take_packet_ok:
  assumes "rx_ok (logged io) flen r" "4096 \<le> flen"
    and magic: "\<And>mg. ymr_magic (logged io) = Some mg \<Longrightarrow> length mg \<le> 128"
  shows "turn_ok (logged io) flen (take_packet (logged io) flen c blk r)"
proof -
  obtain err r1 where sb: "store_bytes (logged io) flen (take (packet_size c) (pkt (rxs r))) (r\<lparr>errors := 0\<rparr>) = (err, r1)"
    by fastforce
  have "stored_ok flen (r\<lparr>errors := 0\<rparr>)"
    using assms(1) by (simp add: rx_ok_def stored_ok_def)
  note ok = store_bytes_ok [OF this sb]
  have magic1: "magic_ok (logged io) (block0 (rxs r1))"
    if "err = 0" "\<not> (expected r1 = 1 \<and> (case ymr_magic (logged io) of None \<Rightarrow> False
                                   | Some mg \<Rightarrow> take (length mg) (block0 (rxs r1)) \<noteq> mg))"
  proof (cases "expected r1 = 1")
    case True
    then show ?thesis
      using that by (auto simp: magic_ok_def)
  next
    case False
    then have "128 \<le> got r" "magic_ok (logged io) (block0 (rxs r))"
      using assms(1) ok by (auto simp: rx_ok_def split: if_splits)
    then show ?thesis
      using ok that magic by (fastforce simp: magic_ok_def)
  qed
  have "128 \<le> got r1" if "err = 0"
    using ok that assms by (auto simp: rx_ok_def stored_ok_def packet_size_def split: if_splits)
  then have "turn_ok (logged io) flen (Again (r1\<lparr>rxs := put (logged io) ACK (rxs r1), expected := expected r1 + 1\<rparr>))"
    if "err = 0" "magic_ok (logged io) (block0 (rxs r1))"
    using ok that by (auto simp: turn_ok_def rx_ok_def stored_ok_def)
  then show ?thesis
    using assms(1) ok magic1 sb by (auto simp: take_packet_def Let_def turn_ok_def rx_ok_stored)
qed

lemma data_turn_ok:
  assumes "rx_ok (logged io) flen r" "data_turn f (logged io) flen r = Some t" "4096 \<le> flen"
    and magic: "\<And>mg. ymr_magic (logged io) = Some mg \<Longrightarrow> length mg \<le> 128"
  shows "turn_ok (logged io) flen t"
proof -
  obtain c s1 where g1: "get (logged io) PACKET_MS (rxs r) = (c, s1)" by fastforce
  obtain c2 s2 where g2: "get (logged io) PACKET_MS (put (logged io) NAK s1) = (c2, s2)" by fastforce
  obtain c3 s3 where g3: "get (logged io) BYTE_MS s1 = (c3, s3)" by fastforce
  obtain blk s4 where p: "read_packet (logged io) c s1 = (blk, s4)" by fastforce
  have same: "blocks_of s1 = blocks_of (rxs r)" "blocks_of s2 = blocks_of (rxs r)"
    "blocks_of s3 = blocks_of (rxs r)" "blocks_of s4 = blocks_of (rxs r)"
    using get_blocks [OF g1] get_blocks [OF g2] get_blocks [OF g3] read_packet_blocks [of io c s1] p by simp_all
  have ok: "rx_ok (logged io) flen (r\<lparr>rxs := s\<rparr>)" if "blocks_of s = blocks_of (rxs r)" for s
    using that assms(1) rx_ok_cong [of "r\<lparr>rxs := s\<rparr>" r "logged io" flen] by simp
  have full: "got r = flen" if "\<not> got r < flen"
    using that assms(1) by (simp add: rx_ok_def stored_ok_def)
  consider "c = EOT" | "c = CAN" | "c \<noteq> EOT" "c \<noteq> CAN" "c \<noteq> SOH \<and> c \<noteq> STX"
    | "c \<noteq> EOT" "c \<noteq> CAN" "c = SOH \<or> c = STX"
    by blast
  then show ?thesis
  proof cases
    case 1
    then show ?thesis
      using assms(2) g1 g2 full ok [OF same(1)] ok [OF same(2)] ok [of "put (logged io) ACK s2"] same(2)
      by (auto simp: data_turn_def Let_def turn_ok_def rx_ok_stored split: if_splits)
  next
    case 2
    then have "c \<noteq> EOT" by (simp add: CAN_def EOT_def)
    then show ?thesis
      using 2 assms(2) g1 g3 ok [OF same(3)]
      by (auto simp: data_turn_def Let_def turn_ok_def rx_ok_stored split: if_splits)
  next
    case 3
    have "turn_ok (logged io) flen (Again (r\<lparr>rxs := s1\<rparr>))"
      by (simp add: turn_ok_def ok same(1))
    then show ?thesis
      using 3 assms(2) g1 retry_ok [OF ok [OF same(1)]]
      by (auto simp: data_turn_def Let_def split: if_splits)
  next
    case 4
    have "turn_ok (logged io) flen (retry (logged io) Damaged (r\<lparr>rxs := s\<rparr>))" if "purge f (logged io) s4 = Some s" for s
      using purge_blocks [OF that] same(4) by (auto intro: retry_ok ok)
    then show ?thesis
      using 4 assms(2) g1 p take_packet_ok [OF ok [OF same(4)] assms(3) magic]
      by (auto simp: data_turn_def Let_def split: if_splits)
  qed
qed

lemma data_loop_ok:
  assumes "data_loop f (logged io) flen r = Some t" "rx_ok (logged io) flen r" "4096 \<le> flen"
    and "\<And>mg. ymr_magic (logged io) = Some mg \<Longrightarrow> length mg \<le> 128"
  shows "turn_ok (logged io) flen t"
proof -
  obtain r1 where r1: "reaches (logged io) flen r r1" "turn_to (logged io) flen r1 t"
    using data_loop_reaches [OF assms(1)] by blast
  from r1(1) assms(2) have "rx_ok (logged io) flen r1"
  proof (induction rule: reaches.induct)
    case (turn r1 r2)
    then show ?case
      using data_turn_ok [OF _ _ assms(3,4)] by (fastforce elim: turnE simp: turn_ok_def)
  qed simp
  then show ?thesis
    using r1(2) data_turn_ok [OF _ _ assms(3,4)] by (blast elim: turnE)
qed

section \<open>The file on the card\<close>

lemma refuse_blocks:
  "refuse f (logged io) err w s = Some (ior, sz, reason, s') \<Longrightarrow>
   ior = err \<and> sz = 0 \<and> written s' = written s"
  by (auto simp: refuse_def blocks_of_def dest: cancel_blocks)

lemma finish_blocks:
  assumes "finish_file f (logged io) len s = Some (ior, sz, reason, s')"
  shows "if ior = 0 then sz = word_of_int len \<and> written s' = written s @ [(0, block0 s)]
    else sz = 0 \<and> written s' = written s"
proof -
  obtain e s1 where w: "write_block (logged io) 0 (block0 s) s = (e, s1)" by fastforce
  have s1: "written s1 = (if e = 0 then written s @ [(0, block0 s)] else written s)"
    using written_write(1) [of io 0 "block0 s" s] w by simp
  show ?thesis
  proof (cases "e = 0")
    case True
    then obtain r l s2 where h: "read_header f (logged io) PACKET_MS 0 len s1 = Some (r, l, s2)"
      using assms w by (auto simp: finish_file_def split: option.splits)
    then show ?thesis
      using True assms w s1 read_header_blocks [OF h] cancel_blocks [of f io s2 s']
      by (cases "r = 1") (auto simp: finish_file_def blocks_of_def)
  next
    case False
    then show ?thesis
      using assms w s1 by (auto simp: finish_file_def dest: refuse_blocks)
  qed
qed

definition outcome_ok :: "'y ymr_io \<Rightarrow> nat \<Rightarrow> ior \<Rightarrow> u32 \<Rightarrow> 'y logged ymr \<Rightarrow> bool" where
  "outcome_ok io n ior sz s' \<longleftrightarrow>
    (if ior = 0
     then \<exists>b0 ws. unat sz = 4096 * n \<and> 0 < n \<and> written s' = ws @ [(0, b0)] \<and>
       map fst ws = map word_of_nat [1..<n] \<and> (\<forall>mg. ymr_magic io = Some mg \<longrightarrow> take (length mg) b0 = mg)
     else sz = 0 \<and> map fst (written s') = map word_of_nat [1..<n])"

lemma end_of_data_ok:
  assumes "end_of_data f (logged io) len t = Some (ior, sz, reason, s')" "turn_ok (logged io) (4096 * n) t"
    and "unat (word_of_int len :: u32) = 4096 * n" "0 < n"
  shows "\<exists>k \<le> n. outcome_ok io k ior sz s'"
proof -
  have partly: "\<exists>k \<le> n. map fst (written (rxs r)) = map word_of_nat [1..<k]" if "stored_ok (4096 * n) r" for r
    using that div_le_mono [of "got r" "4096 * n" 4096] by (auto simp: stored_ok_def nums_def YMR_BLOCK_def)
  show ?thesis
  proof (cases t)
    case (Again r)
    then show ?thesis using assms(1) by (simp add: end_of_data_def)
  next
    case (Return e w r)
    then show ?thesis
      using assms(1,2) partly [of r] by (auto simp: end_of_data_def turn_ok_def outcome_ok_def)
  next
    case (Break w e r)
    show ?thesis
    proof (cases w)
      case (Some v)
      then have e: "refuse f (logged io) (if e \<noteq> 0 then e else ERR_YMODEM_SOURCE) v (rxs r) = Some (ior, sz, reason, s')"
        using assms(1) Break by (simp add: end_of_data_def)
      have "ior \<noteq> 0" "sz = 0" "written s' = written (rxs r)"
        using refuse_blocks [OF e] by (simp_all split: if_splits)
      then show ?thesis
        using assms(2) partly [of r] Some Break by (auto simp: turn_ok_def outcome_ok_def)
    next
      case None
      then have r: "rx_ok (logged io) (4096 * n) r" "got r = 4096 * n"
        using assms(2) Break by (simp_all add: turn_ok_def)
      have m: "map fst (written (rxs r)) = map word_of_nat [1..<n]" "magic_ok (logged io) (block0 (rxs r))"
        using r assms(4) by (auto simp: rx_ok_def stored_ok_def nums_def YMR_BLOCK_def)
      have "finish_file f (logged io) len (rxs r) = Some (ior, sz, reason, s')"
        using assms(1) Break None by (simp add: end_of_data_def)
      from finish_blocks [OF this] show ?thesis
        using m assms(3,4)
        by (intro exI [of _ n]) (auto simp: outcome_ok_def magic_ok_def logged_def split: if_splits)
    qed
  qed
qed

lemma length_blocks:
  assumes "0 < len" "len mod 4096 = 0" "len div 4096 \<le> uint (b :: u32)" "b < 0x100000"
  shows "\<exists>n. 0 < n \<and> n \<le> unat b \<and> unat (word_of_int len :: u32) = 4096 * n"
proof -
  define n where "n = nat (len div 4096)"
  have len: "len = 4096 * int n"
    using assms(1,2) by (auto simp: n_def)
  have b: "n \<le> unat b" "unat b < 0x100000"
    using assms(3,4) by (auto simp: n_def word_less_nat nat_le_iff)
  have "(word_of_int len :: u32) = word_of_nat (4096 * n)"
    by (simp add: len)
  then have "unat (word_of_int len :: u32) = 4096 * n"
    using b by (simp only: unsigned_of_nat) (simp add: take_bit_nat_eq_self)
  then show ?thesis
    using assms(1) len b(1) by (intro exI [of _ n]) auto
qed

lemma receive_data:
  assumes "read_header f io (ymr_start_ms io) 0 0 (s\<lparr>ymr_name := []\<rparr>) = Some (r, len, s1)"
    and "\<not> (r = NO_SENDER \<or> r = 0 \<or> r < 0 \<or> check_length io len \<noteq> None)"
    and "ymr_receive f io s = Some res"
  shows "\<exists>t. data_loop f io (unat (word_of_int len :: u32))
      \<lparr>rxs = put io CRC s1, got = 0, expected = 1, errors = 0\<rparr> = Some t \<and> end_of_data f io len t = Some res"
  using assms(3) unfolding ymr_receive_def assms(1) using assms(2)
  by (cases "data_loop f io (unat (word_of_int len :: u32))
      \<lparr>rxs = put io CRC s1, got = 0, expected = 1, errors = 0\<rparr>") simp_all

text \<open>C25: A transfer cut short never leaves a whole new file behind. The receiver writes the blocks from 1 on
  in order and each once, all of them whole, and block 0 last. When it reports success the blocks are
  1 to n-1 and then 0 for a size of n blocks that fit, and block 0 starts with the magic; when it reports
  an error, whatever the sender did, block 0 has not been written.\<close>

theorem block0_last:
  assumes "length (block0 s) = 4096" "length (work s) = 4096" "length (pkt s) = 1024" "written s = []"
    and "ymr_blocks io < 0x100000" "\<forall>mg. ymr_magic io = Some mg \<longrightarrow> length mg \<le> 128"
    and "ymr_receive f (logged io) s = Some (ior, sz, reason, s')"
  shows "\<exists>n. n \<le> unat (ymr_blocks io) \<and>
    (if ior = 0
     then \<exists>b0 ws. unat sz = 4096 * n \<and> 0 < n \<and> written s' = ws @ [(0, b0)] \<and>
       map fst ws = map word_of_nat [1..<n] \<and> (\<forall>mg. ymr_magic io = Some mg \<longrightarrow> take (length mg) b0 = mg)
     else sz = 0 \<and> map fst (written s') = map word_of_nat [1..<n])"
proof -
  obtain r len s1 where h: "read_header f (logged io) (ymr_start_ms (logged io)) 0 0 (s\<lparr>ymr_name := []\<rparr>) = Some (r, len, s1)"
    using assms(7) by (auto simp: ymr_receive_def split: option.splits)
  have s1: "written s1 = []" "length (block0 s1) = YMR_BLOCK" "length (work s1) = YMR_BLOCK" "length (pkt s1) = 1024"
    using read_header_blocks [OF h] assms(1-4) by (simp_all add: blocks_of_def YMR_BLOCK_def written_def)
  show ?thesis
  proof (cases "r = NO_SENDER \<or> r = 0 \<or> r < 0 \<or> check_length (logged io) len \<noteq> None")
    case True
    have "ior \<noteq> 0 \<and> sz = 0 \<and> written s' = []"
    proof (cases "r = NO_SENDER \<or> r = 0 \<or> r < 0")
      case True
      then show ?thesis
        using assms(7) h s1(1) by (auto simp: ymr_receive_def split: if_splits)
    next
      case False
      then obtain y where "check_length (logged io) len = Some y"
        using \<open>r = NO_SENDER \<or> r = 0 \<or> r < 0 \<or> check_length (logged io) len \<noteq> None\<close> by blast
      then have "refuse f (logged io) ERR_YMODEM_SOURCE y s1 = Some (ior, sz, reason, s')"
        using assms(7) h False by (simp add: ymr_receive_def)
      from refuse_blocks [OF this] show ?thesis
        using s1(1) by simp
    qed
    then show ?thesis
      by (intro exI [of _ 0]) simp
  next
    case False
    then have l: "0 < len" "len mod 4096 = 0" "len div 4096 \<le> uint (ymr_blocks io)"
      by (auto simp: check_length_def YMR_BLOCK_def logged_def split: if_splits)
    then obtain n where n: "0 < n" "n \<le> unat (ymr_blocks io)" "unat (word_of_int len :: u32) = 4096 * n"
      using length_blocks [OF l assms(5)] by (elim exE conjE)
    obtain t where t: "data_loop f (logged io) (4096 * n)
        \<lparr>rxs = put (logged io) CRC s1, got = 0, expected = 1, errors = 0\<rparr> = Some t"
      "end_of_data f (logged io) len t = Some (ior, sz, reason, s')"
      using receive_data [OF h False assms(7), unfolded n(3)] by (elim exE conjE)
    have start: "rx_ok (logged io) (4096 * n) \<lparr>rxs = put (logged io) CRC s1, got = 0, expected = 1, errors = 0\<rparr>"
      using s1 by (simp add: rx_ok_def stored_ok_def nums_def)
    have "turn_ok (logged io) (4096 * n) t"
      using t(1) start by (rule data_loop_ok) (use n(1) assms(6) in \<open>simp_all add: logged_def\<close>)
    from end_of_data_ok [OF t(2) this n(3,1)] obtain k where "k \<le> n" "outcome_ok io k ior sz s'"
      by blast
    then show ?thesis
      unfolding outcome_ok_def using n(2) by (intro exI [of _ k] conjI) simp_all
  qed
qed

text \<open>A line on which nothing comes, and a flash of 64 blocks.\<close>

definition silent_io :: "unit ymr_io" where
  "silent_io = \<lparr>ymr_get = \<lambda>ms e. (- 1, e), ymr_put = \<lambda>c e. e, ymr_write_block = \<lambda>b buf e. (0, e),
     ymr_blocks = 64, ymr_magic = Some [76, 70], ymr_start_ms = 1\<rparr>"

definition empty_ymr :: "unit logged ymr" where
  "empty_ymr = \<lparr>pkt = replicate 1024 0, ymr_name = [], block0 = replicate 4096 0, work = replicate 4096 0,
     line = ((), [])\<rparr>"

lemma silent_receive:
  "ymr_receive (Suc (Suc 0)) (logged silent_io) empty_ymr = Some (ERR_YMODEM_TRANSFER, 0, NoSender, empty_ymr)"
proof -
  have g: "get (logged silent_io) ms empty_ymr = (- 1, empty_ymr)"
    "put (logged silent_io) c empty_ymr = empty_ymr" for ms c
    by (simp_all add: get_def put_def logged_def silent_io_def empty_ymr_def)
  have "await_byte (Suc 0) (logged silent_io) ms empty_ymr = Some (- 1, empty_ymr)" for ms
    by (simp add: g)
  then have "await_start (Suc 0) (logged silent_io) 0 1 empty_ymr = Some (- 1, empty_ymr)"
    by (simp add: g POLL_MS_def await_start.simps [of _ _ _ 1])
  then have "read_header (Suc (Suc 0)) (logged silent_io) 1 0 0 empty_ymr = Some (NO_SENDER, 0, empty_ymr)"
    by simp
  moreover have "empty_ymr\<lparr>ymr_name := []\<rparr> = empty_ymr" "ymr_start_ms (logged silent_io) = 1"
    by (simp_all add: empty_ymr_def logged_def silent_io_def)
  ultimately show ?thesis
    by (simp add: ymr_receive_def)
qed

lemma block0_last_witness:
  "\<exists>n. n \<le> unat (ymr_blocks silent_io) \<and>
    (if ERR_YMODEM_TRANSFER = 0
     then \<exists>b0 ws. unat (0 :: u32) = 4096 * n \<and> 0 < n \<and> written empty_ymr = ws @ [(0, b0)] \<and>
       map fst ws = map word_of_nat [1..<n] \<and> (\<forall>mg. ymr_magic silent_io = Some mg \<longrightarrow> take (length mg) b0 = mg)
     else (0 :: u32) = 0 \<and> map fst (written empty_ymr) = map word_of_nat [1..<n])"
  by (rule block0_last [OF _ _ _ _ _ _ silent_receive]) (simp_all add: empty_ymr_def silent_io_def written_def)

end
