(* ===== verification/LF_Datalog.thy ===== *)
theory LF_Datalog
  imports LF_Ctr LF_Blake2s
begin

text \<open>
  The encrypted data log of \<^verbatim>\<open>src/src/datalog.c\<close>: \<open>dl_open\<close> derives the keys and writes the header block,
  \<open>dl_record\<close> frames, encrypts and tags a record, and \<open>dl_find_end\<close> finds the end of a log after a power
  cut by binary search over the frames, without a key. X25519, Poly1305 and the engine behind
  \<open>ctr_crypt_block\<close> are fields of \<open>dl_env\<close>; AES, CTR and BLAKE2s are the models of LF_Ctr and LF_Blake2s.

  The theorems: the search ends at a boundary between written and unwritten blocks whatever the card holds,
  the frame of every block made here is recognized, so that a log written in order is found whole, the
  keystream is never used twice, and a failed encryption leaves nothing behind.
\<close>

section \<open>Layout\<close>

definition DL_RECORD :: nat where [const_defs]: "DL_RECORD = 32768"
definition DL_SAMPLE :: nat where [const_defs]: "DL_SAMPLE = 128"
definition DL_SAMPLES :: nat where [const_defs]: "DL_SAMPLES = 255"
definition DL_PAYLOAD :: nat where [const_defs]: "DL_PAYLOAD = 64"
definition DL_APP_HEADER :: nat where [const_defs]: "DL_APP_HEADER = 1024"
definition DL_SECTOR :: nat where [const_defs]: "DL_SECTOR = 512"
definition DL_FLAG_LAST :: u8 where [const_defs]: "DL_FLAG_LAST = 1"

text \<open>The strings \<open>LFLOG001\<close>, \<open>LFLB\<close> and \<open>LFLE\<close> as bytes.\<close>

definition DL_MAGIC :: "u8 list" where [const_defs]: "DL_MAGIC = [76, 70, 76, 79, 71, 48, 48, 49]"
definition LFLB :: "u8 list" where [const_defs]: "LFLB = [76, 70, 76, 66]"
definition LFLE :: "u8 list" where [const_defs]: "LFLE = [76, 70, 76, 69]"

definition H_MAGIC :: nat where [const_defs]: "H_MAGIC = 0"
definition H_VERSION :: nat where [const_defs]: "H_VERSION = 8"
definition H_KEY_ID :: nat where [const_defs]: "H_KEY_ID = 12"
definition H_FILE_ID :: nat where [const_defs]: "H_FILE_ID = 16"
definition H_E :: nat where [const_defs]: "H_E = 24"
definition H_IDENTITY :: nat where [const_defs]: "H_IDENTITY = 56"
definition H_APP :: nat where [const_defs]: "H_APP = 128"
definition H_TAG :: nat where [const_defs]: "H_TAG = H_APP + DL_APP_HEADER"

definition R_MAGIC :: nat where [const_defs]: "R_MAGIC = 0"
definition R_FILE_ID :: nat where [const_defs]: "R_FILE_ID = 4"
definition R_N :: nat where [const_defs]: "R_N = 12"
definition R_SAMPLES :: nat where [const_defs]: "R_SAMPLES = 16"
definition R_FLAGS :: nat where [const_defs]: "R_FLAGS = 18"
definition R_TAG :: nat where [const_defs]: "R_TAG = DL_PAYLOAD + DL_SAMPLES * DL_SAMPLE"
definition R_END_N :: nat where [const_defs]: "R_END_N = DL_RECORD - 16"
definition R_END_ID :: nat where [const_defs]: "R_END_ID = DL_RECORD - 12"
definition R_END_MAGIC :: nat where [const_defs]: "R_END_MAGIC = DL_RECORD - 4"
definition CTR_PER_RECORD :: u32 where [const_defs]: "CTR_PER_RECORD = 8"

definition put32 :: "u32 \<Rightarrow> u8 list" where
  "put32 x = map (\<lambda>i. ucast (drop_bit (8 * i) x)) [0..<4]"

definition get32 :: "u8 list \<Rightarrow> u32" where
  "get32 p =
     ucast (p ! 0) OR push_bit 8 (ucast (p ! 1)) OR push_bit 16 (ucast (p ! 2)) OR push_bit 24 (ucast (p ! 3))"

section \<open>State and environment\<close>

record dl_identity =
  uid :: "u8 list"
  start_time :: u64
  firmware :: u32
  level :: u8

record dl_state =
  dl_key :: ctr_key
  nonce :: "u8 list"
  file_id :: "u8 list"
  next_n :: u32

text \<open>The state after \<open>memset\<close> and \<open>crypto_wipe\<close>: all zero.\<close>

definition dl_zero :: dl_state where
  "dl_zero = \<lparr>dl_key = zero_key, nonce = replicate 8 0, file_id = replicate 8 0, next_n = 0\<rparr>"

text \<open>The primitives behind the log: X25519 and its public key, Poly1305 (message, key), and
  \<open>ctr_crypt_block\<close> of the build (in software it is LF_Ctr's, which never fails).\<close>

record dl_env =
  x25519 :: "u8 list \<Rightarrow> u8 list \<Rightarrow> u8 list"
  x25519_public_key :: "u8 list \<Rightarrow> u8 list"
  poly1305 :: "u8 list \<Rightarrow> u8 list \<Rightarrow> u8 list"
  crypt_block :: "ctr_key \<Rightarrow> u8 list \<Rightarrow> u32 \<Rightarrow> u8 list \<Rightarrow> int \<times> u8 list"

section \<open>Keys\<close>

text \<open>\<open>kdf\<close>: keyed, personalized BLAKE2s of \<open>a || b\<close>; the person string is padded to eight bytes.\<close>

definition kdf :: "int \<Rightarrow> u8 list \<Rightarrow> u8 list \<Rightarrow> u8 list \<Rightarrow> u8 list \<Rightarrow> u8 list" where
  "kdf n key person a b =
     (let p = copy_at 0 (take 8 person) (replicate 8 0);
          S = snd (b2s_init n key None (Some p) blake2s_init0);
          S = (if a \<noteq> [] then b2s_hmac_puts a S else S);
          S = (if b \<noteq> [] then b2s_hmac_puts b S else S)
      in fst (snd (b2s_hmac_final S)))"

text \<open>The person strings: \<open>LFlogbrd\<close>, \<open>LFlogid\<close>, \<open>LFlogkey\<close>, \<open>LFlogenc\<close>, \<open>LFlognon\<close>, \<open>LFlogidx\<close>,
  \<open>LFloghdr\<close> and \<open>LFloghtg\<close>.\<close>

definition LFlog :: "u8 list \<Rightarrow> u8 list" where
  "LFlog s = [76, 70, 108, 111, 103] @ s"

definition p_brd :: "u8 list" where [const_defs]: "p_brd = LFlog [98, 114, 100]"
definition p_id :: "u8 list" where [const_defs]: "p_id = LFlog [105, 100]"
definition p_key :: "u8 list" where [const_defs]: "p_key = LFlog [107, 101, 121]"
definition p_enc :: "u8 list" where [const_defs]: "p_enc = LFlog [101, 110, 99]"
definition p_non :: "u8 list" where [const_defs]: "p_non = LFlog [110, 111, 110]"
definition p_idx :: "u8 list" where [const_defs]: "p_idx = LFlog [105, 100, 120]"
definition p_hdr :: "u8 list" where [const_defs]: "p_hdr = LFlog [104, 100, 114]"
definition p_htg :: "u8 list" where [const_defs]: "p_htg = LFlog [104, 116, 103]"

definition dl_board_auth :: "dl_env \<Rightarrow> u8 list \<Rightarrow> u8 list \<Rightarrow> u8 list \<Rightarrow> int \<times> u8 list" where
  "dl_board_auth env b E S =
     (let ss = x25519 env b S in
      if ss = replicate 32 0 then (- 1, []) else (0, kdf 32 ss p_brd E S))"

section \<open>Opening a log\<close>

definition dl_close :: "dl_state \<Rightarrow> dl_state" where
  "dl_close d = dl_zero"

text \<open>The identity before it is masked: 21 bytes and 11 zeros.\<close>

definition ident_bytes :: "dl_identity \<Rightarrow> u8 list" where
  "ident_bytes i =
     (let buf = copy_at 0 (uid i) (replicate 32 0);
          buf = copy_at 8 (put32 (ucast (start_time i))) buf;
          buf = copy_at 12 (put32 (ucast (drop_bit 32 (start_time i)))) buf;
          buf = copy_at 16 (put32 (firmware i)) buf
      in copy_at 20 [level i] buf)"

text \<open>Block 0 up to its encryption.\<close>

definition header_plain ::
  "u32 \<Rightarrow> u8 list \<Rightarrow> u8 list \<Rightarrow> dl_identity \<Rightarrow> u8 list \<Rightarrow> u8 list option \<Rightarrow> u8 list" where
  "header_plain key_id fid E ident pad app =
     (let buf = copy_at H_MAGIC DL_MAGIC (replicate DL_RECORD 0);
          buf = copy_at H_VERSION [1] buf;
          buf = copy_at (H_VERSION + 1) [word_of_int CTR_AES128] buf;
          buf = copy_at H_KEY_ID (put32 key_id) buf;
          buf = copy_at H_FILE_ID fid buf;
          buf = copy_at H_E E buf;
          buf = copy_at H_IDENTITY (map2 (XOR) (ident_bytes ident) pad) buf;
          buf = (case app of None \<Rightarrow> buf | Some h \<Rightarrow> copy_at H_APP h buf);
          buf = copy_at R_END_N (put32 0) buf;
          buf = copy_at R_END_ID fid buf
      in copy_at R_END_MAGIC LFLE buf)"

text \<open>The result is the return value, the state, the key \<open>e\<close> (wiped) and block 0.\<close>

definition dl_open ::
  "dl_env \<Rightarrow> u8 list \<Rightarrow> u32 \<Rightarrow> u8 list \<Rightarrow> u8 list \<Rightarrow> dl_identity \<Rightarrow> u8 list option \<Rightarrow>
   (u8 list \<Rightarrow> u8 list \<Rightarrow> int \<times> u8 list) \<Rightarrow> int \<times> dl_state \<times> u8 list \<times> u8 list" where
  "dl_open env S key_id e fid ident app auth =
     (let E = x25519_public_key env e;
          es = x25519 env e S;
          e = replicate 32 0;
          (r, k_auth) = auth E S
      in if es = replicate 32 0 \<or> r \<noteq> 0 then (- 1, dl_zero, e, replicate DL_RECORD 0)
      else
        let k_id = kdf 32 es p_id E S;
            master = kdf 32 k_auth p_key (es @ E @ S) [];
            d = \<lparr>dl_key = snd (ctr_setkey CTR_AES128 (kdf 16 master p_enc [] [])),
                 nonce = kdf 8 master p_non [] [], file_id = fid, next_n = 1\<rparr>;
            buf = header_plain key_id fid E ident (kdf 32 k_id p_idx [] []) app;
            (err, c) = crypt_block env (dl_key d) (nonce d) 0 (take DL_APP_HEADER (drop H_APP buf));
            buf = copy_at H_APP c buf;
            buf = copy_at H_TAG (kdf 16 (kdf 32 master p_hdr [] []) p_htg (take H_TAG buf) []) buf
        in if err \<noteq> 0 then (- 1, dl_close d, e, replicate DL_RECORD 0) else (0, d, e, buf))"

section \<open>A record\<close>

definition keystream :: "dl_state \<Rightarrow> u64 \<Rightarrow> u8 list" where
  "keystream d c = ctr_encrypt_block (dl_key d) (nonce d @ map (\<lambda>i. ucast (drop_bit (8 * (7 - i)) c)) [0..<8])"

text \<open>The sample blocks, in pieces of 4 KB under the blocks \<open>n * 8 + j\<close>; None when the engine failed.\<close>

function crypt_samples ::
  "dl_env \<Rightarrow> dl_state \<Rightarrow> u32 \<Rightarrow> u32 \<Rightarrow> u8 list \<Rightarrow> u8 list option" where
  "crypt_samples env d n j p =
     (if p = [] then Some []
      else
        let (err, c) = crypt_block env (dl_key d) (nonce d) (n * CTR_PER_RECORD + j) (take 4096 p)
        in if err \<noteq> 0 then None
           else map_option ((@) c) (crypt_samples env d n (j + 1) (drop 4096 p)))"
  by pat_completeness auto
termination by (relation "measure (\<lambda>(env, d, n, j, p). length p)") auto

declare crypt_samples.simps [simp del]

text \<open>The frame: the header in the clear, zeros after the samples, the same number at the end.\<close>

definition frame_record :: "u8 list \<Rightarrow> u32 \<Rightarrow> u32 \<Rightarrow> bool \<Rightarrow> u8 list \<Rightarrow> u8 list" where
  "frame_record fid n samples is_last buf =
     (let buf = copy_at 0 (replicate DL_PAYLOAD 0) buf;
          buf = copy_at (DL_PAYLOAD + unat samples * DL_SAMPLE)
                  (replicate ((DL_SAMPLES - unat samples) * DL_SAMPLE) 0) buf;
          buf = copy_at R_TAG (replicate (DL_RECORD - R_TAG) 0) buf;
          buf = copy_at R_MAGIC LFLB buf;
          buf = copy_at R_FILE_ID fid buf;
          buf = copy_at R_N (put32 n) buf;
          buf = copy_at R_SAMPLES [ucast samples] buf;
          buf = copy_at R_FLAGS [if is_last then DL_FLAG_LAST else 0] buf;
          buf = copy_at R_END_N (put32 n) buf;
          buf = copy_at R_END_ID fid buf
      in copy_at R_END_MAGIC LFLE buf)"

definition dl_record :: "dl_env \<Rightarrow> dl_state \<Rightarrow> u8 list \<Rightarrow> u32 \<Rightarrow> bool \<Rightarrow> u32 \<times> dl_state \<times> u8 list" where
  "dl_record env d rec samples is_last =
     (if unat samples > DL_SAMPLES \<or> next_n d = 0 \<or> next_n d \<ge> 0x1FFFFFFF then (0, d, rec)
      else
        let n = next_n d;
            d = d\<lparr>next_n := n + 1\<rparr>;
            rec = frame_record (file_id d) n samples is_last rec
        in case crypt_samples env d n 0 (take (DL_SAMPLES * DL_SAMPLE) (drop DL_PAYLOAD rec)) of
             None \<Rightarrow> (0, d\<lparr>next_n := n\<rparr>, replicate DL_RECORD 0)
           | Some c \<Rightarrow>
               let rec = copy_at DL_PAYLOAD c rec;
                   pk = keystream d (ucast n * 2048 + 2046) @ keystream d (ucast n * 2048 + 2047)
               in (n, d, copy_at R_TAG (poly1305 env (take R_TAG rec) pk) rec))"

section \<open>Finding the end\<close>

text \<open>The reader gets the context and a sector number and returns an error, the sector and the context.\<close>

type_synonym 'c dl_read_fn = "'c \<Rightarrow> u32 \<Rightarrow> int \<times> u8 list \<times> 'c"

text \<open>\<open>written\<close>: whether block \<open>k\<close> holds a record of the log, by its first and last sector.\<close>

definition starts_block :: "u32 \<Rightarrow> u8 list \<Rightarrow> u8 list \<Rightarrow> bool" where
  "starts_block k fid buf \<longleftrightarrow>
     (if k = 0 then same_at H_MAGIC DL_MAGIC buf \<and> same_at H_FILE_ID fid buf
      else same_at R_MAGIC LFLB buf \<and> same_at R_FILE_ID fid buf \<and> get32 (drop R_N buf) = k)"

definition ends_block :: "u32 \<Rightarrow> u8 list \<Rightarrow> u8 list \<Rightarrow> bool" where
  "ends_block k fid buf \<longleftrightarrow>
     (let t = drop (DL_SECTOR - 16) buf in get32 t = k \<and> same_at 4 fid t \<and> same_at 12 LFLE t)"

definition dl_written :: "'c dl_read_fn \<Rightarrow> u32 \<Rightarrow> u8 list \<Rightarrow> 'c \<Rightarrow> bool \<times> int \<times> 'c" where
  "dl_written read k fid c =
     (let spb = word_of_nat (DL_RECORD div DL_SECTOR);
          (err, buf, c) = read c (k * spb)
      in if err \<noteq> 0 then (False, err, c)
      else if \<not> starts_block k fid buf then (False, 0, c)
      else
        let (err, buf, c) = read c (k * spb + spb - 1)
        in if err \<noteq> 0 then (False, err, c) else (ends_block k fid buf, 0, c))"

definition negative :: "int \<Rightarrow> int" where
  "negative err = (if err < 0 then err else - 1)"

text \<open>The binary search: blocks \<open>1 .. lo - 1\<close> are written, \<open>hi\<close> and beyond are not.\<close>

lemma middle:
  fixes lo hi :: u32
  assumes "lo < hi"
  shows "unat (lo + (hi - lo) div 2) = unat lo + (unat hi - unat lo) div 2"
    "lo \<le> lo + (hi - lo) div 2" "lo + (hi - lo) div 2 < hi" "unat (lo + (hi - lo) div 2 + 1) = unat (lo + (hi - lo) div 2) + 1"
proof -
  have l: "unat lo < unat hi" "unat hi < 2 ^ 32"
    using assms unat_bounds(3) [of hi] by (simp_all add: word_less_nat)
  have "unat (hi - lo) = unat hi - unat lo"
    using assms by (simp add: unat_sub word_less_nat word_le_nat)
  then have d: "unat ((hi - lo) div 2) = (unat hi - unat lo) div 2"
    by (simp add: unat_div)
  have lt: "unat lo + (unat hi - unat lo) div 2 < unat hi"
    using l by presburger
  then show m: "unat (lo + (hi - lo) div 2) = unat lo + (unat hi - unat lo) div 2"
    using l d by (subst unat_add_lem [THEN iffD1]) simp_all
  show "lo \<le> lo + (hi - lo) div 2" "lo + (hi - lo) div 2 < hi"
    using lt by (simp_all add: word_le_nat word_less_nat m)
  show "unat (lo + (hi - lo) div 2 + 1) = unat (lo + (hi - lo) div 2) + 1"
    using lt l by (subst unat_add_lem [THEN iffD1]) (simp_all add: m)
qed

function search_end ::
  "'c dl_read_fn \<Rightarrow> u8 list \<Rightarrow> u32 \<Rightarrow> u32 \<Rightarrow> 'c \<Rightarrow> int \<times> 'c" where
  "search_end read fid lo hi c =
     (if lo < hi
      then
        let mid = lo + (hi - lo) div 2;
            (w, err, c) = dl_written read mid fid c
        in if w then search_end read fid (mid + 1) hi c
           else if err \<noteq> 0 then (negative err, c)
           else search_end read fid lo mid c
      else (sint lo, c))"
  by pat_completeness auto
termination
proof (relation "measure (\<lambda>(read, fid, lo, hi, c). unat hi - unat lo)", goal_cases)
  case (2 read fid lo hi c)
  then have "unat lo < unat hi" "unat lo \<le> unat (lo + (hi - lo) div 2)" "unat (lo + (hi - lo) div 2) < unat hi"
    "unat (lo + (hi - lo) div 2 + 1) = unat (lo + (hi - lo) div 2) + 1"
    using middle [of lo hi] by (simp_all only: word_less_nat word_le_nat)
  with 2 show ?case
    by (simp only: in_measure case_prod_conv)
next
  case (3 read fid lo hi c)
  then have "unat lo < unat hi" "unat lo \<le> unat (lo + (hi - lo) div 2)" "unat (lo + (hi - lo) div 2) < unat hi"
    "unat (lo + (hi - lo) div 2 + 1) = unat (lo + (hi - lo) div 2) + 1"
    using middle [of lo hi] by (simp_all only: word_less_nat word_le_nat)
  with 3 show ?case
    by (simp only: in_measure case_prod_conv)
qed simp

declare search_end.simps [simp del]

definition dl_find_end :: "'c dl_read_fn \<Rightarrow> u32 \<Rightarrow> 'c \<Rightarrow> int \<times> 'c" where
  "dl_find_end read blocks c =
     (let (err, buf, c) = read c 0
      in if err \<noteq> 0 then (negative err, c)
      else if \<not> same_at H_MAGIC DL_MAGIC buf \<or> blocks = 0 then (0, c)
      else
        let fid = take 8 (drop H_FILE_ID buf);
            (w, err, c) = dl_written read 0 fid c
        in if \<not> w then (if err \<noteq> 0 then negative err else 0, c)
           else search_end read fid 1 blocks c)"

section \<open>Bytes in place\<close>

lemma length_put32 [simp]: "length (put32 x) = 4"
  by (simp add: put32_def)

lemma put32_store: "put32 x = store32 x"
  by (simp add: put32_def store32_def upt_rec)

lemma get32_same: "same_at q (put32 k) buf \<Longrightarrow> get32 (drop q buf) = k"
proof -
  assume "same_at q (put32 k) buf"
  then have "take 4 (drop q buf) = put32 k"
    by (simp add: same_at_def)
  then have "drop q buf = put32 k @ drop 4 (drop q buf)"
    by (metis append_take_drop_id)
  then have "get32 (drop q buf) = load32 (store32 k @ drop 4 (drop q buf))"
    by (simp add: get32_def load32_def put32_store)
  then show ?thesis by simp
qed

lemma same_sector:
  "p + length m \<le> n \<Longrightarrow> same_at p m (take n (drop q blk)) = same_at (q + p) m blk"
  by (simp add: same_at_def drop_take min_def add.commute)

lemma same_drop: "same_at p m (drop q buf) = same_at (q + p) m buf"
  by (simp add: same_at_def add.commute)

lemma take_same: "same_at p m buf \<Longrightarrow> length m = n \<Longrightarrow> take n (drop p buf) = m"
  by (auto simp: same_at_def)

text \<open>The frame of block \<open>k\<close> of the log \<open>fid\<close>, over the whole block.\<close>

definition framed :: "u8 list \<Rightarrow> u32 \<Rightarrow> u8 list \<Rightarrow> bool" where
  "framed fid k blk \<longleftrightarrow>
     (if k = 0 then same_at H_MAGIC DL_MAGIC blk \<and> same_at H_FILE_ID fid blk
      else same_at R_MAGIC LFLB blk \<and> same_at R_FILE_ID fid blk \<and> same_at R_N (put32 k) blk) \<and>
     same_at R_END_N (put32 k) blk \<and> same_at R_END_ID fid blk \<and> same_at R_END_MAGIC LFLE blk"

text \<open>A file on the card, sector by sector, and its blocks as lists of bytes.\<close>

definition sector_of :: "u8 list list \<Rightarrow> u32 \<Rightarrow> u8 list" where
  "sector_of bs s = take 512 (drop (512 * (unat s mod 64)) (bs ! (unat s div 64)))"

definition file_read :: "u8 list list \<Rightarrow> unit dl_read_fn" where
  "file_read bs c s = (0, sector_of bs s, c)"

definition is_block :: "u8 list list \<Rightarrow> u8 list \<Rightarrow> u32 \<Rightarrow> bool" where
  "is_block bs fid k \<longleftrightarrow>
     starts_block k fid (sector_of bs (k * 64)) \<and> ends_block k fid (sector_of bs (k * 64 + 64 - 1))"

lemma written_file: "dl_written (file_read bs) k fid c = (is_block bs fid k, 0, c)"
  by (simp add: dl_written_def file_read_def is_block_def DL_RECORD_def DL_SECTOR_def)

lemma sectors_of_block:
  assumes "unat (k :: u32) < 2 ^ 26"
  shows "sector_of bs (k * 64) = take 512 (bs ! unat k)"
    "sector_of bs (k * 64 + 64 - 1) = take 512 (drop 32256 (bs ! unat k))"
proof -
  have "unat (k * 64) = unat k * 64" "unat (k * 64 + 63) = unat k * 64 + 63"
    using assms by (simp_all add: unat_word_ariths)
  moreover have "(unat k * 64 + 63) mod 64 = 63" "(unat k * 64 + 63) div 64 = unat k"
    by presburger+
  moreover have "k * 64 + 64 - 1 = k * 64 + 63"
    by simp
  ultimately show "sector_of bs (k * 64) = take 512 (bs ! unat k)"
    "sector_of bs (k * 64 + 64 - 1) = take 512 (drop 32256 (bs ! unat k))"
    by (simp_all only: sector_of_def) simp_all
qed

lemma framed_is_block:
  assumes "framed fid k (bs ! unat k)" "length fid = 8" "unat k < 2 ^ 26"
  shows "is_block bs fid k"
proof -
  have "get32 (drop R_N (take 512 (bs ! unat k))) = k" if "same_at R_N (put32 k) (bs ! unat k)"
    using that same_sector [of R_N "put32 k" 512 0 "bs ! unat k"] by (intro get32_same) (simp add: R_N_def)
  then have s: "starts_block k fid (take 512 (bs ! unat k))"
    using assms same_sector [of _ _ 512 0 "bs ! unat k"]
    by (auto simp: framed_def starts_block_def const_defs split: if_splits)
  have "get32 (drop (DL_SECTOR - 16) (take 512 (drop 32256 (bs ! unat k)))) = k"
    using assms(1) by (intro get32_same) (simp add: same_sector framed_def const_defs)
  then have "ends_block k fid (take 512 (drop 32256 (bs ! unat k)))"
    using assms(1,2) by (simp add: ends_block_def framed_def same_drop same_sector const_defs)
  with s show ?thesis
    using assms(3) by (simp only: is_block_def sectors_of_block)
qed

section \<open>The search\<close>

lemma search_boundary:
  "lo \<le> hi \<Longrightarrow>
   \<exists>r. search_end (file_read bs) fid lo hi c = (sint r, c) \<and> lo \<le> r \<and> r \<le> hi \<and>
     (r = lo \<or> is_block bs fid (r - 1)) \<and> (r = hi \<or> \<not> is_block bs fid r)"
proof (induction "file_read bs" fid lo hi c rule: search_end.induct)
  case (1 fid lo hi c)
  let ?mid = "lo + (hi - lo) div 2"
  show ?case
  proof (cases "lo < hi")
    case False
    then have "search_end (file_read bs) fid lo hi c = (sint lo, c)"
      by (simp add: search_end.simps [of _ _ lo hi])
    moreover have "lo = hi"
      using False 1(3) by simp
    ultimately show ?thesis
      by blast
  next
    case True
    define mid where "mid = lo + (hi - lo) div 2"
    have m: "lo \<le> mid" "mid < hi" "mid + 1 \<le> hi" "lo \<le> mid + 1"
      using middle [OF True] unfolding mid_def by (simp_all add: word_le_nat word_less_nat)
    have step: "search_end (file_read bs) fid lo hi c =
        (if is_block bs fid mid then search_end (file_read bs) fid (mid + 1) hi c
         else search_end (file_read bs) fid lo mid c)"
      using True unfolding mid_def by (simp add: search_end.simps [of _ _ lo hi] written_file)
    note IH = 1(1) [OF True mid_def refl written_file [symmetric] refl] 1(2) [OF True mid_def refl written_file [symmetric] refl]
    show ?thesis
    proof (cases "is_block bs fid mid")
      case True
      obtain r where r: "search_end (file_read bs) fid (mid + 1) hi c = (sint r, c)" "mid + 1 \<le> r" "r \<le> hi"
        "r = mid + 1 \<or> is_block bs fid (r - 1)" "r = hi \<or> \<not> is_block bs fid r"
        using IH(1) [OF True m(3)] by (elim exE conjE)
      have "is_block bs fid (r - 1)"
        using r(4) True by (elim disjE) simp_all
      moreover have "lo \<le> r"
        using m(4) r(2) by (rule order_trans)
      ultimately show ?thesis
        using True r by (simp only: step if_True) blast
    next
      case False
      obtain r where r: "search_end (file_read bs) fid lo mid c = (sint r, c)" "lo \<le> r" "r \<le> mid"
        "r = lo \<or> is_block bs fid (r - 1)" "r = mid \<or> \<not> is_block bs fid r"
        using IH(2) [OF False _ m(1)] by auto
      have "\<not> is_block bs fid r"
        using r(5) False by (elim disjE) simp_all
      moreover have "r \<le> hi"
        using r(3) m(2) by simp
      ultimately show ?thesis
        using False r by (simp only: step if_False) blast
    qed
  qed
qed

lemma find_end_search:
  assumes "fid = take 8 (drop H_FILE_ID (sector_of bs 0))"
  shows "dl_find_end (file_read bs) blocks c =
    (if blocks \<noteq> 0 \<and> is_block bs fid 0 then search_end (file_read bs) fid 1 blocks c else (0, c))"
  by (auto simp: dl_find_end_def file_read_def [of bs "()" 0] written_file assms is_block_def starts_block_def)

lemma find_end_found:
  assumes "unat blocks < 2 ^ 31" "fid = take 8 (drop H_FILE_ID (sector_of bs 0))"
    and "blocks \<noteq> 0 \<and> is_block bs fid 0"
  obtains r where "dl_find_end (file_read bs) blocks c = (uint r, c)" "0 < r" "r \<le> blocks"
    "r = 1 \<or> is_block bs fid (r - 1)" "r = blocks \<or> \<not> is_block bs fid r"
proof -
  have "1 \<le> blocks"
    using assms(3) by (simp add: word_le_nat Suc_le_eq unat_gt_0)
  from search_boundary [OF this, of bs fid c]
  obtain r where r: "search_end (file_read bs) fid 1 blocks c = (sint r, c)" "1 \<le> r" "r \<le> blocks"
    "r = 1 \<or> is_block bs fid (r - 1)" "r = blocks \<or> \<not> is_block bs fid r"
    by (elim exE conjE)
  have "unat r < 2 ^ 31"
    using assms(1) r(3) by (simp add: word_le_nat)
  then have "dl_find_end (file_read bs) blocks c = (uint r, c)"
    using assms(3) r(1) by (simp add: find_end_search [OF assms(2)] sint_small)
  moreover have "0 < r"
    using r(2) by (simp add: word_le_nat word_less_nat)
  ultimately show thesis
    using that r(3-5) by blast
qed

text \<open>The search for the end of a log always ends, and it ends at a boundary. Whatever is on the
  card, the count is 0 exactly when block 0 is not a whole header (or no blocks are searched); else it is
  between 1 and the blocks searched, the last block counted is a whole block of the log, and the block after
  it, if it was searched, is not.\<close>

theorem find_end_boundary:
  assumes "unat blocks < 2 ^ 31"
    and "dl_find_end (file_read bs) blocks () = (n, c)"
    and "fid = take 8 (drop H_FILE_ID (sector_of bs 0))"
  shows "if blocks \<noteq> 0 \<and> is_block bs fid 0
    then 0 < n \<and> n \<le> uint blocks \<and> is_block bs fid (word_of_int (n - 1)) \<and>
      (n = uint blocks \<or> \<not> is_block bs fid (word_of_int n))
    else n = 0"
proof (cases "blocks \<noteq> 0 \<and> is_block bs fid 0")
  case True
  obtain r where r: "dl_find_end (file_read bs) blocks () = (uint r, ())" "0 < r" "r \<le> blocks"
    "r = 1 \<or> is_block bs fid (r - 1)" "r = blocks \<or> \<not> is_block bs fid r"
    by (rule find_end_found [OF assms(1,3) True])
  then have n: "n = uint r"
    using assms(2) by simp
  have "word_of_int (n - 1) = r - 1" "word_of_int n = r"
    by (simp_all add: n)
  moreover have "0 < uint r" "uint r \<le> uint blocks" "n = uint blocks \<longleftrightarrow> r = blocks"
    using r(2,3) by (simp_all add: n word_less_def word_le_def word_uint_eq_iff)
  ultimately show ?thesis
    using True r(4,5) by (auto simp: n)
next
  case False
  then show ?thesis
    using find_end_search [OF assms(3), of blocks "()"] assms(2) by auto
qed

lemma no_header: "\<not> is_block [replicate 32768 0] fid 0"
  by (simp add: is_block_def starts_block_def sector_of_def same_at_def H_MAGIC_def DL_MAGIC_def)

lemma find_end_boundary_witness:
  "\<exists>c. dl_find_end (file_read [replicate 32768 0]) 1 () = (0, c)"
proof -
  obtain n c where r: "dl_find_end (file_read [replicate 32768 0]) 1 () = (n, c)"
    by (metis surj_pair)
  have "n = 0"
    using find_end_boundary [OF _ r refl] no_header by simp
  then show ?thesis
    using r by simp
qed

section \<open>Frames\<close>

lemma length_compress_h [simp]: "length (compress_h h block t0 t1 f0 f1) = 8"
  by (simp add: compress_h_def Let_def)

lemma length_words: "length (concat (map store32 ws)) = 4 * length ws"
  by (induction ws) simp_all

lemma length_kdf: "length (kdf n key person a b) \<le> 32"
  by (simp add: kdf_def b2s_hmac_final_def blake2s_compress_def Let_def length_words)

lemma take_copied:
  "\<lbrakk>q \<le> p; p + length bs = q + n; q + n \<le> length buf\<rbrakk>
   \<Longrightarrow> take n (drop q (copy_at p bs buf)) = take (p - q) (drop q buf) @ bs"
proof -
  assume h: "q \<le> p" "p + length bs = q + n" "q + n \<le> length buf"
  define u where "u = drop q (take p buf)"
  have u: "length u = p - q" "u = take (p - q) (drop q buf)"
    using h by (simp_all add: u_def drop_take)
  have "drop q (copy_at p bs buf) = u @ bs @ drop (p + length bs) buf"
    using h by (simp add: copy_at_def u_def)
  moreover have "n = length u + length bs"
    using h u(1) by simp
  ultimately have "take n (drop q (copy_at p bs buf)) = u @ bs"
    by simp
  then show ?thesis
    by (simp only: u(2))
qed

lemma frame_record_on:
  assumes "length rec = DL_RECORD" "unat samples \<le> 255"
  obtains y where "length y = 32768"
    "take 32640 (drop 64 y) = take (128 * unat samples) (drop 64 rec) @ replicate ((255 - unat samples) * 128) 0"
    "\<And>fid n is_last. frame_record fid n samples is_last rec =
      copy_at 32764 LFLE (copy_at 32756 fid (copy_at 32752 (put32 n)
        (copy_at 18 [if is_last then 1 else 0] (copy_at 16 [ucast samples] (copy_at 12 (put32 n)
          (copy_at 4 fid (copy_at 0 LFLB (copy_at 32704 (replicate 64 0) y))))))))"
proof -
  define z where "z = copy_at 0 (replicate 64 0) rec"
  define zs where "zs = replicate ((255 - unat samples) * 128) (0 :: u8)"
  define y where "y = copy_at (64 + unat samples * 128) zs z"
  have z: "length z = 32768" "take m (drop 64 z) = take m (drop 64 rec)" for m
    using assms(1) by (simp_all add: z_def DL_RECORD_def)
  have zs: "length zs = 32640 - 128 * unat samples" "128 * unat samples \<le> 32640"
    using assms(2) by (simp_all add: zs_def diff_mult_distrib)
  have y: "length y = 32768" "take 32640 (drop 64 y) = take (128 * unat samples) (drop 64 rec) @ zs"
    using z zs take_copied [of 64 "64 + unat samples * 128" zs 32640 z] by (simp_all add: y_def mult.commute)
  show thesis
    by (rule that [of y, OF y(1) y(2) [unfolded zs_def]])
      (simp add: frame_record_def Let_def R_TAG_def R_MAGIC_def R_FILE_ID_def R_N_def R_SAMPLES_def R_FLAGS_def
        R_END_N_def R_END_ID_def R_END_MAGIC_def DL_PAYLOAD_def DL_SAMPLES_def DL_SAMPLE_def DL_RECORD_def
        DL_FLAG_LAST_def y_def z_def zs_def)
qed

lemma frame_record_frames:
  assumes "length rec = DL_RECORD" "length fid = 8" "unat samples \<le> 255"
  shows "length (frame_record fid n samples is_last rec) = 32768"
    "n \<noteq> 0 \<Longrightarrow> framed fid n (frame_record fid n samples is_last rec)"
    "take 32640 (drop 64 (frame_record fid n samples is_last rec)) =
      take (128 * unat samples) (drop 64 rec) @ replicate ((255 - unat samples) * 128) 0"
proof -
  obtain y where y: "length y = 32768"
    "take 32640 (drop 64 y) = take (128 * unat samples) (drop 64 rec) @ replicate ((255 - unat samples) * 128) 0"
    "\<And>fid n is_last. frame_record fid n samples is_last rec =
      copy_at 32764 LFLE (copy_at 32756 fid (copy_at 32752 (put32 n)
        (copy_at 18 [if is_last then 1 else 0] (copy_at 16 [ucast samples] (copy_at 12 (put32 n)
          (copy_at 4 fid (copy_at 0 LFLB (copy_at 32704 (replicate 64 0) y))))))))"
    using frame_record_on [OF assms(1,3)] by blast
  show "length (frame_record fid n samples is_last rec) = 32768"
    "take 32640 (drop 64 (frame_record fid n samples is_last rec)) =
      take (128 * unat samples) (drop 64 rec) @ replicate ((255 - unat samples) * 128) 0"
    using y(1,2) assms(2) unfolding y(3) by (simp_all add: LFLE_def LFLB_def)
  show "n \<noteq> 0 \<Longrightarrow> framed fid n (frame_record fid n samples is_last rec)"
    using y(1) assms(2) unfolding y(3) by (simp add: framed_def const_defs)
qed

text \<open>What the log needs of \<open>ctr_crypt_block\<close>: it works in place.\<close>

locale log_crypt =
  fixes crypt :: "ctr_key \<Rightarrow> u8 list \<Rightarrow> u32 \<Rightarrow> u8 list \<Rightarrow> int \<times> u8 list"
  assumes in_place: "crypt k iv n p = (0, c) \<Longrightarrow> length c = length p"
begin

lemma length_samples:
  "\<lbrakk>crypt_block env = crypt; crypt_samples env d n j p = Some c\<rbrakk> \<Longrightarrow> length c = length p"
proof (induction env d n j p arbitrary: c rule: crypt_samples.induct)
  case (1 env d n j p)
  show ?case
  proof (cases "p = []")
    case True
    then show ?thesis
      using 1(3) by (simp add: crypt_samples.simps)
  next
    case False
    obtain e c1 where e: "crypt_block env (dl_key d) (nonce d) (n * CTR_PER_RECORD + j) (take 4096 p) = (e, c1)"
      by fastforce
    obtain c2 where c2: "e = 0" "crypt_samples env d n (j + 1) (drop 4096 p) = Some c2" "c = c1 @ c2"
      using 1(3) False by (auto simp: crypt_samples.simps [of env d n j p] e split: if_splits)
    have "length c1 = min (length p) 4096"
      using in_place e c2(1) 1(2) by fastforce
    then show ?thesis
      using 1(1) [OF False e [symmetric] refl _ 1(2) c2(2)] c2(1,3) by simp
  qed
qed

lemma record_frame:
  assumes env: "crypt_block env = crypt" "\<And>m k. length (poly1305 env m k) = 16"
    and r: "dl_record env d rec samples is_last = (n, d1, b)" "n \<noteq> 0"
    and len: "length rec = DL_RECORD" "length (file_id d) = 8"
  shows "framed (file_id d) n b \<and> length b = DL_RECORD"
proof -
  let ?f = "frame_record (file_id d) n samples is_last rec"
  have n: "n = next_n d" and s: "unat samples \<le> 255"
    using r by (auto simp: dl_record_def Let_def DL_SAMPLES_def split: if_splits option.splits)
  obtain c where c: "crypt_samples env (d\<lparr>next_n := n + 1\<rparr>) n 0 (take (DL_SAMPLES * DL_SAMPLE) (drop DL_PAYLOAD ?f)) = Some c"
    and b: "\<exists>tag. length tag = 16 \<and> b = copy_at R_TAG tag (copy_at DL_PAYLOAD c ?f)"
    using r env(2) unfolding n by (auto simp: dl_record_def Let_def split: if_splits option.splits)
  have f: "length ?f = DL_RECORD"
    using frame_record_frames(1) [OF len s] by (simp add: DL_RECORD_def)
  have lc: "length c = 32640"
    using length_samples [OF env(1) c] f by (simp add: const_defs)
  have "framed (file_id d) n ?f"
    by (rule frame_record_frames(2) [OF len s r(2)])
  then show ?thesis
    using b f lc len r(2) by (auto simp: framed_def const_defs)
qed

lemma header_frame:
  assumes env: "crypt_block env = crypt" "\<And>e. length (x25519_public_key env e) = 32"
    and o: "dl_open env S key_id e fid ident app auth = (0, d, e', b)"
    and len: "length fid = 8" "length (uid ident) = 8" "\<And>h. app = Some h \<Longrightarrow> length h = DL_APP_HEADER"
  shows "framed fid 0 b \<and> length b = DL_RECORD \<and> file_id d = fid \<and> next_n d = 1"
proof -
  obtain pad where pad: "pad = kdf 32 (kdf 32 (x25519 env e S) p_id (x25519_public_key env e) S) p_idx [] []"
    by blast
  let ?f = "header_plain key_id fid (x25519_public_key env e) ident pad app"
  have d: "file_id d = fid" "next_n d = 1"
    using o by (auto simp: dl_open_def Let_def split: prod.splits if_splits)
  have "\<exists>k iv c tag. crypt_block env k iv 0 (take DL_APP_HEADER (drop H_APP ?f)) = (0, c) \<and>
      length tag \<le> 32 \<and> b = copy_at H_TAG tag (copy_at H_APP c ?f)"
    using o unfolding pad
    by (simp add: dl_open_def Let_def split: prod.splits if_splits) (blast intro: length_kdf)
  then obtain k iv c tag where b: "crypt_block env k iv 0 (take DL_APP_HEADER (drop H_APP ?f)) = (0, c)"
    "length tag \<le> 32" "b = copy_at H_TAG tag (copy_at H_APP c ?f)"
    by (elim exE conjE)
  have "length (ident_bytes ident) = 32"
    using len(2) by (simp add: ident_bytes_def Let_def)
  then have i: "length (map2 (XOR) (ident_bytes ident) pad) \<le> 32"
    by simp
  have "length ?f = DL_RECORD \<and> framed fid 0 ?f"
  proof (cases app)
    case None
    then show ?thesis
      using len(1) i env(2) by (simp add: framed_def header_plain_def Let_def const_defs)
  next
    case (Some h)
    then show ?thesis
      using len(1) len(3) [OF Some] i env(2) by (simp add: framed_def header_plain_def Let_def const_defs)
  qed
  moreover have "length c = 1024"
    using in_place [of k iv 0] b(1) env(1) calculation by (simp add: const_defs)
  ultimately show ?thesis
    using b(2,3) d len(1) by (auto simp: framed_def const_defs)
qed

text \<open>A log written by records in order: the blocks made, and the state after them.\<close>

lemma next_record:
  assumes "dl_record env d rec samples is_last = (n, d1, b)" "n \<noteq> 0"
  shows "n = next_n d \<and> unat n < 0x1FFFFFFF \<and> next_n d1 = n + 1 \<and> file_id d1 = file_id d"
  using assms by (auto simp: dl_record_def Let_def word_le_nat split: if_splits option.splits)

end

fun make_log ::
  "dl_env \<Rightarrow> dl_state \<Rightarrow> (u8 list \<times> u32 \<times> bool) list \<Rightarrow> (u8 list list \<times> dl_state) option" where
  "make_log env d [] = Some ([], d)"
| "make_log env d ((rec, samples, is_last) # rs) =
     (let (n, d1, b) = dl_record env d rec samples is_last in
      if n = 0 then None else map_option (\<lambda>(bs, d). (b # bs, d)) (make_log env d1 rs))"

context log_crypt
begin

lemma log_frames:
  "\<lbrakk>crypt_block env = crypt; \<And>m k. length (poly1305 env m k) = 16; length (file_id d) = 8;
    make_log env d rs = Some (bs, d'); \<forall>(rec, s, l) \<in> set rs. length rec = DL_RECORD; i < length bs\<rbrakk>
   \<Longrightarrow> framed (file_id d) (next_n d + word_of_nat i) (bs ! i)"
proof (induction rs arbitrary: d bs i)
  case (Cons r rs)
  obtain rec s l where r: "r = (rec, s, l)" by (cases r) auto
  obtain n d1 b where e: "dl_record env d rec s l = (n, d1, b)" by (metis surj_pair)
  obtain bs1 where m: "n \<noteq> 0" "make_log env d1 rs = Some (bs1, d')" "bs = b # bs1"
    using Cons.prems(4) by (auto simp: r e split: if_splits)
  note nx = next_record [OF e m(1)]
  show ?case
  proof (cases i)
    case 0
    then show ?thesis
      using record_frame [OF Cons.prems(1,2) e m(1)] Cons.prems(3,5) nx m(3) by (simp add: r)
  next
    case (Suc j)
    have "framed (file_id d1) (next_n d1 + word_of_nat j) (bs1 ! j)"
      by (rule Cons.IH) (use Cons.prems m Suc nx in \<open>simp_all add: r\<close>)
    then show ?thesis
      using nx m(3) Suc by (simp add: add.assoc)
  qed
qed simp

lemma log_end:
  assumes env: "crypt_block env = crypt" "\<And>e. length (x25519_public_key env e) = 32"
      "\<And>m k. length (poly1305 env m k) = 16"
    and o: "dl_open env S key_id e fid ident app auth = (0, d, e', b0)"
    and len: "length fid = 8" "length (uid ident) = 8" "\<And>h. app = Some h \<Longrightarrow> length h = DL_APP_HEADER"
    and log: "make_log env d rs = Some (bs, d')" "\<forall>(rec, s, l) \<in> set rs. length rec = DL_RECORD"
    and blocks: "length bs < unat blocks" "unat blocks \<le> 2 ^ 26"
    and beyond: "\<And>k. length bs < unat k \<Longrightarrow> k < blocks \<Longrightarrow> \<not> is_block (b0 # bs @ old) fid k"
  shows "dl_find_end (file_read (b0 # bs @ old)) blocks c = (1 + int (length bs), c)"
proof -
  let ?img = "b0 # bs @ old"
  have h: "framed fid 0 b0" "length b0 = DL_RECORD" "file_id d = fid" "next_n d = 1"
    using header_frame [OF env(1,2) o len] by auto
  have inside: "is_block ?img fid k" if "unat k \<le> length bs" for k
  proof (cases "k = 0")
    case True
    then show ?thesis
      using h(1) len(1) by (intro framed_is_block) simp_all
  next
    case False
    then obtain i where i: "unat k = Suc i"
      by (metis not0_implies_Suc unat_eq_zero)
    have "k = word_of_nat (Suc i)"
      by (simp only: flip: i) simp
    then have "k = 1 + word_of_nat i"
      by simp
    moreover have "framed fid (1 + word_of_nat i) (bs ! i)"
      using log_frames [OF env(1,3) _ log, of i] h(3,4) len(1) i that by simp
    ultimately have "framed fid k (?img ! unat k)"
      using i that by (simp add: nth_append)
    then show ?thesis
      using len(1) that blocks by (intro framed_is_block) simp_all
  qed
  have fid: "fid = take 8 (drop H_FILE_ID (sector_of ?img 0))"
    using inside [of 0] len(1) by (auto simp: is_block_def starts_block_def same_at_def)
  have h0: "blocks \<noteq> 0 \<and> is_block ?img fid 0"
    using blocks(1) inside [of 0] by auto
  have "unat blocks < 2 ^ 31"
    using blocks(2) by simp
  then obtain r where r: "dl_find_end (file_read ?img) blocks c = (uint r, c)" "0 < r" "r \<le> blocks"
    "r = 1 \<or> is_block ?img fid (r - 1)" "r = blocks \<or> \<not> is_block ?img fid r"
    by (rule find_end_found [OF _ fid h0])
  have "unat r = Suc (length bs)"
  proof -
    have "length bs < unat r"
      using r(3,5) inside [of r] blocks(1) by (metis not_less)
    moreover have "unat r \<le> Suc (length bs)"
    proof (rule ccontr)
      assume "\<not> unat r \<le> Suc (length bs)"
      then have "unat (r - 1) = unat r - 1" "Suc (length bs) < unat r"
        using r(2) by (simp_all add: unat_sub word_le_nat word_less_nat)
      then have "\<not> is_block ?img fid (r - 1)" "r \<noteq> 1"
        using beyond [of "r - 1"] r(3) by (auto simp: word_less_nat word_le_nat)
      with r(4) show False by blast
    qed
    ultimately show ?thesis by simp
  qed
  then show ?thesis
    using r(1) by (simp add: uint_nat)
qed

end

text \<open>In software.\<close>

interpretation software: log_crypt ctr_crypt_block
  by unfold_locales (auto simp: ctr_crypt_block_def ctr_crypt_block_sw_def)

text \<open>C26: A log survives a power cut. Open a log, make any number of records one after the other and write
  them as blocks 0, 1, 2, ... over old data that holds no blocks of this log. Then the search, which has no
  key, finds the header and every record written and nothing else.\<close>

theorem log_found:
  assumes "crypt_block env = ctr_crypt_block" "\<And>e. length (x25519_public_key env e) = 32"
      "\<And>m k. length (poly1305 env m k) = 16"
    and "dl_open env S key_id e fid ident app auth = (0, d, e', b0)"
    and "length fid = 8" "length (uid ident) = 8" "\<And>h. app = Some h \<Longrightarrow> length h = DL_APP_HEADER"
    and "make_log env d rs = Some (bs, d')" "\<forall>(rec, s, l) \<in> set rs. length rec = DL_RECORD"
    and "length bs < unat blocks" "unat blocks \<le> 2 ^ 26"
    and "\<And>k. length bs < unat k \<Longrightarrow> k < blocks \<Longrightarrow> \<not> is_block (b0 # bs @ old) fid k"
  shows "dl_find_end (file_read (b0 # bs @ old)) blocks () = (1 + int (length bs), ())"
  by (rule software.log_end [OF assms])

text \<open>Primitives that give constants, to run the model.\<close>

definition plain_env :: dl_env where
  "plain_env = \<lparr>x25519 = \<lambda>e S. replicate 32 7, x25519_public_key = \<lambda>e. replicate 32 9,
     poly1305 = \<lambda>m k. replicate 16 5, crypt_block = ctr_crypt_block\<rparr>"

definition some_board :: dl_identity where
  "some_board = \<lparr>uid = [1, 2, 3, 4, 5, 6, 7, 8], start_time = 1700000000, firmware = 3, level = 1\<rparr>"

lemma samples_software: "crypt_block env = ctr_crypt_block \<Longrightarrow> \<exists>c. crypt_samples env d n j p = Some c"
proof (induction env d n j p rule: crypt_samples.induct)
  case (1 env d n j p)
  then show ?case
    by (cases "p = []")
      (auto simp: crypt_samples.simps [of _ _ _ _ p] crypt_samples.simps [of _ _ _ _ "[]"] ctr_crypt_block_def)
qed

lemma record_software:
  assumes "crypt_block env = ctr_crypt_block" "unat samples \<le> 255" "next_n d \<noteq> 0" "next_n d < 0x1FFFFFFF"
  shows "\<exists>d1 b. dl_record env d rec samples is_last = (next_n d, d1, b)"
proof -
  let ?f = "frame_record (file_id d) (next_n d) samples is_last rec"
  obtain c where "crypt_samples env (d\<lparr>next_n := next_n d + 1\<rparr>) (next_n d) 0
      (take (DL_SAMPLES * DL_SAMPLE) (drop DL_PAYLOAD ?f)) = Some c"
    using samples_software [OF assms(1)] by blast
  then show ?thesis
    using assms(2-4) by (auto simp: dl_record_def Let_def DL_SAMPLES_def)
qed

lemma log_found_witness:
  "\<exists>d e' b0 d' b1. dl_open plain_env [] 1 [] (replicate 8 6) some_board None (\<lambda>E S. (0, [])) = (0, d, e', b0) \<and>
     make_log plain_env d [(replicate 32768 0, 0, False)] = Some ([b1], d') \<and>
     dl_find_end (file_read [b0, b1]) 2 () = (2, ())"
proof -
  obtain d e' b0 where o: "dl_open plain_env [] 1 [] (replicate 8 6) some_board None (\<lambda>E S. (0, [])) = (0, d, e', b0)"
    by (simp add: dl_open_def Let_def plain_env_def ctr_crypt_block_def)
  then have d: "next_n d = 1"
    by (auto simp: dl_open_def Let_def plain_env_def ctr_crypt_block_def)
  have env: "crypt_block plain_env = ctr_crypt_block"
    by (simp add: plain_env_def)
  obtain d' b1 where "dl_record plain_env d (replicate 32768 0) 0 False = (1, d', b1)"
    using record_software [OF env, of 0 d "replicate 32768 0" False] d by auto
  then have m: "make_log plain_env d [(replicate 32768 0, 0, False)] = Some ([b1], d')"
    by simp
  have "dl_find_end (file_read (b0 # [b1] @ [])) 2 () = (1 + int (length [b1]), ())"
  proof (rule log_found [OF env _ _ o _ _ _ m])
    fix k :: u32 assume "length [b1] < unat k" "k < 2"
    then show "\<not> is_block (b0 # [b1] @ []) (replicate 8 6) k"
      by (simp add: word_less_nat)
  qed (simp_all add: plain_env_def some_board_def DL_RECORD_def)
  then show ?thesis
    using o m by auto
qed

section \<open>What is in a record\<close>

lemma ctr_loop_append:
  "16 * m = length p \<Longrightarrow> ctr_loop (ctr_encrypt_block k) iv c (p @ q) =
     ctr_loop (ctr_encrypt_block k) iv c p @ ctr_loop (ctr_encrypt_block k) iv (c + word_of_nat m) q"
proof (induction m arbitrary: c p)
  case 0
  then show ?case
    by (simp add: ctr_loop.simps [of _ _ _ "[]"])
next
  case (Suc m)
  then have p: "p \<noteq> []" "16 * m = length (drop 16 p)" "16 \<le> length p"
    by auto
  show ?case
    using Suc.IH [OF p(2), of "c + 1"] p(1,3)
    by (simp add: ctr_loop.simps [of _ _ c "p @ q"] ctr_loop.simps [of _ _ c p] add.assoc)
qed

text \<open>The pieces of 4 KB are one stream: the block number \<open>n * 8 + j\<close> does not wrap below the limit on
  records, so the counters of the sample units follow each other from \<open>n * 2048\<close> on.\<close>

lemma samples_stream:
  "\<lbrakk>crypt_block env = ctr_crypt_block; unat n * 8 + unat j + length p div 4096 < 2 ^ 32\<rbrakk>
   \<Longrightarrow> crypt_samples env d n j p =
     Some (ctr_loop (ctr_encrypt_block (dl_key d)) (nonce d) (ucast n * 2048 + ucast j * 256) p)"
proof (induction env d n j p rule: crypt_samples.induct)
  case (1 env d n j p)
  have w: "(ucast (n * 8 + j) :: u64) * 256 = ucast n * 2048 + ucast j * 256"
  proof -
    have "unat (n * 8 + j) = unat n * 8 + unat j"
      using 1(3) by (simp add: unat_word_ariths)
    then have "(ucast (n * 8 + j) :: u64) = ucast n * 8 + ucast j"
      by (simp add: word_eq_iff_unsigned [where 'a = nat] unat_ucast_wide unat_word_ariths)
    then show ?thesis by (simp add: algebra_simps)
  qed
  let ?c = "ucast n * 2048 + ucast j * 256 :: u64"
  let ?enc = "ctr_encrypt_block (dl_key d)"
  consider "p = []" | "p \<noteq> []" "length p < 4096" | "4096 \<le> length p"
    by linarith
  then show ?case
  proof cases
    case 1
    then show ?thesis
      by (simp add: crypt_samples.simps [of _ _ _ _ "[]"] ctr_loop.simps [of _ _ _ "[]"])
  next
    case 2
    then show ?thesis
      using \<open>crypt_block env = ctr_crypt_block\<close> w
      by (simp add: crypt_samples.simps [of env d n j p] crypt_samples.simps [of _ _ _ _ "[]"]
          ctr_crypt_block_def ctr_crypt_block_sw_def CTR_PER_RECORD_def)
  next
    case 3
    then have j: "length p div 4096 = Suc (length (drop 4096 p) div 4096)"
      by (simp add: le_div_geq)
    then have j1: "unat (j + 1) = unat j + 1"
      using 1(3) by (simp add: unat_word_ariths)
    have "crypt_samples env d n (j + 1) (drop 4096 p) =
        Some (ctr_loop ?enc (nonce d) (ucast n * 2048 + ucast (j + 1) * 256) (drop 4096 p))"
      by (rule 1(1)) (use 1 3 j j1 in \<open>auto simp: ctr_crypt_block_def ctr_crypt_block_sw_def\<close>)
    moreover have "ucast n * 2048 + ucast (j + 1) * 256 = ?c + word_of_nat 256"
    proof -
      have "(ucast (j + 1) :: u64) = ucast j + 1"
        using j1 unat_bounds(3) [of "j + 1"]
        by (simp add: word_eq_iff_unsigned [where 'a = nat] unat_ucast_wide unat_word_ariths)
      then show ?thesis by (simp add: algebra_simps)
    qed
    moreover have "ctr_loop ?enc (nonce d) ?c (take 4096 p @ drop 4096 p) =
        ctr_loop ?enc (nonce d) ?c (take 4096 p) @ ctr_loop ?enc (nonce d) (?c + word_of_nat 256) (drop 4096 p)"
      by (rule ctr_loop_append) (use 3 in simp)
    moreover have "p \<noteq> []"
      using 3 by auto
    ultimately show ?thesis
      using 1(2) w
      by (simp add: crypt_samples.simps [of env d n j p] ctr_crypt_block_def ctr_crypt_block_sw_def CTR_PER_RECORD_def)
  qed
qed

text \<open>C27: What a record holds. With too many samples, a closed log or after the last number nothing
  changes. Otherwise the record takes the state's number, which moves on by one, it carries its frame, its
  sample blocks are the given samples and zeros for the rest under one CTR stream from unit \<open>n * 2048\<close> of
  its own, and its tag is the MAC of everything before the tag, under a key from units 2046 and 2047.\<close>

theorem record_made:
  assumes "crypt_block env = ctr_crypt_block" "\<And>m k. length (poly1305 env m k) = 16"
    and "dl_record env d rec samples is_last = (n, d1, b)"
    and "length rec = DL_RECORD" "length (file_id d) = 8"
  shows "if unat samples > 255 \<or> next_n d = 0 \<or> next_n d \<ge> 0x1FFFFFFF
    then n = 0 \<and> d1 = d \<and> b = rec
    else n = next_n d \<and> d1 = d\<lparr>next_n := n + 1\<rparr> \<and> framed (file_id d) n b \<and>
      take 32640 (drop 64 b) = ctr_loop (ctr_encrypt_block (dl_key d)) (nonce d) (ucast n * 2048)
        (take (128 * unat samples) (drop 64 rec) @ replicate ((255 - unat samples) * 128) 0) \<and>
      take 16 (drop R_TAG b) = poly1305 env (take R_TAG b)
        (keystream d (ucast n * 2048 + 2046) @ keystream d (ucast n * 2048 + 2047))"
proof (cases "unat samples > 255 \<or> next_n d = 0 \<or> next_n d \<ge> 0x1FFFFFFF")
  case True
  then show ?thesis
    using assms(3) by (auto simp: dl_record_def DL_SAMPLES_def)
next
  case False
  let ?n = "next_n d" and ?f = "frame_record (file_id d) (next_n d) samples is_last rec"
  let ?c = "ctr_loop (ctr_encrypt_block (dl_key d)) (nonce d) (ucast ?n * 2048)
    (take (128 * unat samples) (drop 64 rec) @ replicate ((255 - unat samples) * 128) 0)"
  have s: "unat samples \<le> 255"
    using False by simp
  have f: "length ?f = DL_RECORD"
    using frame_record_frames(1) [OF assms(4,5) s] by (simp add: DL_RECORD_def)
  have "unat ?n < 0x1FFFFFFF"
    using False by (simp add: word_le_nat)
  then have "unat ?n * 8 + unat (0 :: u32) + length (take 32640 (drop 64 ?f)) div 4096 < 2 ^ 32"
    by simp
  from samples_stream [OF assms(1) this, of "d\<lparr>next_n := ?n + 1\<rparr>"]
  have c: "crypt_samples env (d\<lparr>next_n := ?n + 1\<rparr>) ?n 0 (take (DL_SAMPLES * DL_SAMPLE) (drop DL_PAYLOAD ?f)) = Some ?c"
    by (simp add: frame_record_frames(3) [OF assms(4,5) s] DL_SAMPLES_def DL_SAMPLE_def DL_PAYLOAD_def)
  have ks: "keystream (d\<lparr>next_n := x\<rparr>) y = keystream d y" for x y
    by (simp add: keystream_def)
  let ?t = "poly1305 env (take R_TAG (copy_at DL_PAYLOAD ?c ?f))
    (keystream d (ucast ?n * 2048 + 2046) @ keystream d (ucast ?n * 2048 + 2047))"
  have e: "dl_record env d rec samples is_last =
      (?n, d\<lparr>next_n := ?n + 1\<rparr>, copy_at R_TAG ?t (copy_at DL_PAYLOAD ?c ?f))"
    using False c by (simp add: dl_record_def Let_def DL_SAMPLES_def ks)
  have r: "n = ?n" "d1 = d\<lparr>next_n := ?n + 1\<rparr>" "b = copy_at R_TAG ?t (copy_at DL_PAYLOAD ?c ?f)"
    using assms(3) unfolding e prod.inject by blast+
  have lc: "length ?c = 32640"
    using assms(4) s by (simp add: DL_RECORD_def diff_mult_distrib)
  have "framed (file_id d) n b"
    using software.record_frame [OF assms(1,2,3) _ assms(4,5)] False r(1) by simp
  moreover have "take 32640 (drop 64 b) = c \<and> take 16 (drop R_TAG b) = tag \<and> take R_TAG b = take R_TAG (copy_at DL_PAYLOAD c ?f)"
    if "b = copy_at R_TAG tag (copy_at DL_PAYLOAD c ?f)" "length c = 32640" "length tag = 16" for c tag
    using that(2,3) f take_copied [of 64 64 c 32640 ?f] take_copied [of 32704 32704 tag 16 "copy_at 64 c ?f"]
      take_beside [of 32704 tag "copy_at 64 c ?f" 0 32704]
    unfolding that(1) by (simp add: const_defs)
  note this [OF r(3) lc assms(2)]
  ultimately show ?thesis
    using False r(1,2) by simp
qed

lemma record_made_witness:
  "\<exists>d1 b. dl_record plain_env (dl_zero\<lparr>next_n := 3\<rparr>) (replicate 32768 0) 2 False = (3, d1, b) \<and>
     framed (replicate 8 0) 3 b"
proof -
  obtain d1 b where r: "dl_record plain_env (dl_zero\<lparr>next_n := 3\<rparr>) (replicate 32768 0) 2 False = (3, d1, b)"
    using record_software [of plain_env 2 "dl_zero\<lparr>next_n := 3\<rparr>" "replicate 32768 0" False]
    by (auto simp: plain_env_def)
  have "framed (replicate 8 0) 3 b"
    using record_made [OF _ _ r] by (simp add: plain_env_def DL_RECORD_def dl_zero_def)
  then show ?thesis
    using r by blast
qed

lemma record_failed:
  "dl_record env d rec samples is_last = (0, d1, b) \<Longrightarrow> d1 = d \<and> (b = rec \<or> b = replicate DL_RECORD 0)"
  by (auto simp: dl_record_def Let_def split: if_splits option.splits)

end
