(* ===== verification/LF_Source.thy ===== *)
theory LF_Source
  imports LF_Comp
begin

text \<open>
  The input source of \<^verbatim>\<open>src/src/forth.c\<close>: a span of bytes of the RAM page (the terminal input buffer or
  a block buffer) read through \<open>>IN\<close>, and the parsers over it, \<open>lfParseWord\<close> and \<open>lfParseInputString\<close>.
  The two file-scope variables \<open>source\<close> and \<open>source_len\<close> extend the compiler's state; a pointer into the
  RAM page is the index of its byte. The loops are partial functions, since a page that refuses the store
  to \<open>>IN\<close> would hold them up; over a page that takes it they return, and what they return is the next
  word of the text.
\<close>

section \<open>State\<close>

record src_env = comp_env +
  source :: nat
  source_len :: int

text \<open>A byte of the RAM page, in the order of a little-endian machine.\<close>

definition ram_byte :: "'e machine \<Rightarrow> nat \<Rightarrow> u8" where
  "ram_byte m i = ucast (drop_bit (8 * (i mod 4)) (ram_get (word_of_nat (i div 4)) m))"

definition lfTOINfetch :: "'e machine \<Rightarrow> int" where
  "lfTOINfetch m = sint (mFetch LF_TOIN m)"

definition lfTOINstore :: "int \<Rightarrow> 'e machine \<Rightarrow> ior \<times> 'e machine" where
  "lfTOINstore position m = mStore LF_TOIN (word_of_int position) m"

definition NUL :: char where "NUL = CHR 0x00"

definition TOINchar :: "'a src_env_scheme machine \<Rightarrow> char" where
  "TOINchar m =
     (let toin = lfTOINfetch m in
      if toin \<ge> source_len (env m) then NUL else char_of (unat (ram_byte m (nat (int (source (env m)) + toin)))))"

definition TOINbump :: "'a src_env_scheme machine \<Rightarrow> 'a src_env_scheme machine" where
  "TOINbump m = snd (lfTOINstore (1 + lfTOINfetch m) m)"

section \<open>Words\<close>

definition blank :: "char \<Rightarrow> bool" where
  "blank c \<longleftrightarrow> c = CHR '' '' \<or> c = CHR 0x09 \<or> c = CHR 0x0D \<or> c = CHR 0x0A"

partial_function (option) skip_blanks :: "'a src_env_scheme machine \<Rightarrow> 'a src_env_scheme machine option" where
  "skip_blanks m =
     (let c = TOINchar m in
      if c = NUL then Some m else if \<not> blank c then Some m else skip_blanks (TOINbump m))"

partial_function (option) copy_token ::
  "int \<Rightarrow> ior \<Rightarrow> string \<Rightarrow> 'a src_env_scheme machine \<Rightarrow> (ior \<times> string \<times> 'a src_env_scheme machine) option" where
  "copy_token destSize ior dest m =
     (let c = TOINchar m in
      if c = NUL \<or> blank c then Some (ior, dest, m)
      else if int (length dest) < destSize - 1 then copy_token destSize ior (dest @ [c]) (TOINbump m)
      else copy_token destSize ERR_PARSED_STRING_OVERFLOW dest (TOINbump m))"

definition lfParseWord ::
  "int \<Rightarrow> 'a src_env_scheme machine \<Rightarrow> (ior \<times> string \<times> 'a src_env_scheme machine) option" where
  "lfParseWord destSize m =
     (case skip_blanks m of
        None \<Rightarrow> None
      | Some m \<Rightarrow>
          (case copy_token destSize 0 [] m of
             None \<Rightarrow> None
           | Some (ior, dest, m) \<Rightarrow> Some (ior, dest, if blank (TOINchar m) then TOINbump m else m)))"

section \<open>Strings with escapes\<close>

definition esc_chars0 :: string where "esc_chars0 = ''abefnrtv''"

definition esc_chars1 :: string where
  "esc_chars1 = [CHR 0x07, CHR 0x08, CHR 0x1B, CHR 0x0C, CHR 0x0A, CHR 0x0D, CHR 0x09, CHR 0x0B]"

definition unescape :: "char \<Rightarrow> char" where
  "unescape c = (case map_of (zip esc_chars0 esc_chars1) c of None \<Rightarrow> c | Some d \<Rightarrow> d)"

text \<open>Each character goes to \<open>echo\<close> (None is NULL); only the ior of the last one is returned.\<close>

partial_function (option) input_string ::
  "(char \<Rightarrow> 'a src_env_scheme machine \<Rightarrow> ior \<times> 'a src_env_scheme machine) option \<Rightarrow> char \<Rightarrow> bool \<Rightarrow> ior \<Rightarrow>
   'a src_env_scheme machine \<Rightarrow> (ior \<times> 'a src_env_scheme machine) option" where
  "input_string echo terminator escaped ior m =
     (let c = TOINchar m; send = (\<lambda>c m. case echo of None \<Rightarrow> (ior, m) | Some e \<Rightarrow> e c m) in
      if c = NUL then Some (ior, m)
      else
        let m = TOINbump m in
        if escaped then (let (ior, m) = send (unescape c) m in input_string echo terminator False ior m)
        else if c = CHR 0x5C then input_string echo terminator True ior m
        else if c = terminator then Some (ior, m)
        else (let (ior, m) = send c m in input_string echo terminator False ior m))"

definition lfParseInputString ::
  "(char \<Rightarrow> 'a src_env_scheme machine \<Rightarrow> ior \<times> 'a src_env_scheme machine) option \<Rightarrow> char \<Rightarrow>
   'a src_env_scheme machine \<Rightarrow> (ior \<times> 'a src_env_scheme machine) option" where
  "lfParseInputString echo terminator m = input_string echo terminator False 0 m"

section \<open>A source that can be read\<close>

text \<open>The page takes the store to \<open>>IN\<close>, which is in cell 0, the source lies behind that cell, and
  13 bits of \<open>>IN\<close> reach its end.\<close>

definition source_ok :: "'a src_env_scheme machine \<Rightarrow> bool" where
  "source_ok m \<longleftrightarrow>
     may_read (vmem m) 4 0 \<and> may_write (vmem m) 4 0 \<and> wf_mem (vmem m) \<and>
     4 \<le> source (env m) \<and> source_len (env m) < 8192 \<and>
     source (env m) + nat (source_len (env m)) \<le> 2 ^ 20"

lemma toin_fields [simp]:
  "addr_page LF_TOIN = 4" "addr_cell LF_TOIN = 0" "addr_width LF_TOIN = 13" "addr_shift LF_TOIN = 13"
  by (simp_all add: LF_TOIN_def BITFIELD_def VARIABLE_def push_bit_eq_mult addr_page_def addr_cell_def
      addr_width_def addr_shift_def)

definition at_toin :: "int \<Rightarrow> 'e machine \<Rightarrow> 'e machine" where
  "at_toin p m = snd (lfTOINstore p m)"

lemma at_toin_env [simp]: "env (at_toin p m) = env m"
  by (simp add: at_toin_def lfTOINstore_def mStore_def split_beta)

lemma toin_bounds: "0 \<le> lfTOINfetch m" "lfTOINfetch m < 8192"
proof -
  let ?x = "mFetch LF_TOIN m"
  have "unat ?x < 8192"
    unfolding mFetch_def vmFetch_def Let_def toin_fields
    by (auto simp: push_bit_eq_mult intro!: unat_and_mask_less)
  then have "lfTOINfetch m = int (unat ?x)"
    unfolding lfTOINfetch_def by (simp add: sint_small)
  moreover have "uint ?x < 8192"
    using \<open>unat ?x < 8192\<close> by (simp only: unat_eq_nat_uint nat_less_iff uint_ge_0)
  ultimately show "0 \<le> lfTOINfetch m" "lfTOINfetch m < 8192"
    by simp_all
qed

lemma at_toin_eq:
  "source_ok m \<Longrightarrow> at_toin p m =
     m\<lparr>vmem := set_cell (vmem m) 4 0 (merge_field 13 13 (get_cell (vmem m) 4 0) (word_of_int p))\<rparr>"
  by (simp add: at_toin_def lfTOINstore_def mStore_def vmStore_eq source_ok_def)

lemma cell0_after:
  "source_ok m \<Longrightarrow> get_cell (vmem (at_toin p m)) 4 0 = merge_field 13 13 (get_cell (vmem m) 4 0) (word_of_int p)"
  using may_write_in_page [of "vmem m" 4 0]
  by (simp add: at_toin_eq get_set_cell source_ok_def wf_mem_pages)

lemma source_ok_at [simp]: "source_ok m \<Longrightarrow> source_ok (at_toin p m)"
  by (simp add: at_toin_eq source_ok_def same_limits_may_read [OF same_limits_set_cell]
      same_limits_may_write [OF same_limits_set_cell] same_limits_wf [OF same_limits_set_cell])

lemma toin_at [simp]:
  assumes "source_ok m" "0 \<le> p" "p < 8192"
  shows "lfTOINfetch (at_toin p m) = p"
proof -
  have "mFetch LF_TOIN (at_toin p m) = take_bit 13 (word_of_int p)"
    using source_ok_at [OF assms(1), of p] read_merged_field [of 13 13 "get_cell (vmem m) 4 0" "word_of_int p"]
    by (simp add: mFetch_def vmFetch_eq source_ok_def cell0_after [OF assms(1)])
  also have "\<dots> = word_of_int p"
    using assms(2,3) by (simp add: word_uint_eq_iff unsigned_take_bit_eq unsigned_of_int take_bit_int_eq_self)
  finally show ?thesis
    unfolding lfTOINfetch_def using assms(2,3)
    by (simp add: sint_small unsigned_of_int take_bit_int_eq_self nat_less_iff)
qed

lemma bytes_at [simp]:
  assumes "source_ok m" "4 \<le> i" "i < 2 ^ 20"
  shows "ram_byte (at_toin p m) i = ram_byte m i"
proof -
  have "unat (word_of_nat (i div 4) :: u32) = i div 4"
    using assms(3) by (simp add: unsigned_of_nat take_bit_nat_eq_self less_mult_imp_div_less)
  then have "(word_of_nat (i div 4) :: u32) \<noteq> 0"
    using assms(2) by (auto simp: div_eq_0_iff)
  then show ?thesis
    by (simp add: ram_byte_def ram_get_def at_toin_eq [OF assms(1)] get_set_cell)
qed

lemma at_toin_twice [simp]: "source_ok m \<Longrightarrow> at_toin q (at_toin p m) = at_toin q m"
proof -
  assume ok: "source_ok m"
  have "merge_field 13 13 (merge_field 13 13 x d) e = merge_field 13 13 x (e :: u32)" for x d e
    by (rule bit_word_eqI) (simp add: bit_merge_field)
  moreover have "set_cell (set_cell mem 4 0 x) 4 0 y = set_cell mem 4 0 y" for mem x y
    by (cases "4 < length (vm_memory mem)") (simp_all add: set_cell_def list_update_beyond)
  moreover have "at_toin q (at_toin p m) = (at_toin p m)\<lparr>vmem := set_cell (vmem (at_toin p m)) 4 0
      (merge_field 13 13 (merge_field 13 13 (get_cell (vmem m) 4 0) (word_of_int p)) (word_of_int q))\<rparr>"
    by (simp only: at_toin_eq [OF source_ok_at [OF ok]] cell0_after [OF ok])
  moreover have "vmem (at_toin p m) = set_cell (vmem m) 4 0 (merge_field 13 13 (get_cell (vmem m) 4 0) (word_of_int p))"
    "(at_toin p m)\<lparr>vmem := x\<rparr> = m\<lparr>vmem := x\<rparr>" for x
    by (simp_all add: at_toin_eq [OF ok])
  ultimately show ?thesis
    by (simp only: at_toin_eq [OF ok, of q])
qed

lemma mask13: "(8191 :: u32) = mask 13"
  by (simp add: mask_eq_exp_minus_1)

lemma at_toin_same [simp]: "source_ok m \<Longrightarrow> at_toin (lfTOINfetch m) m = m"
proof -
  assume ok: "source_ok m"
  let ?x = "get_cell (vmem m) 4 0"
  have "word_of_int (lfTOINfetch m) = drop_bit 13 ?x AND (push_bit 13 1 - 1)"
    using ok by (simp add: lfTOINfetch_def mFetch_def vmFetch_eq source_ok_def)
  then have "merge_field 13 13 ?x (word_of_int (lfTOINfetch m)) = ?x"
    by (intro bit_word_eqI) (auto simp: bit_merge_field mask13 bit_simps)
  moreover have "set_cell (vmem m) 4 0 ?x = vmem m"
    by (simp add: set_cell_def get_cell_def)
  ultimately show ?thesis
    using ok by (simp add: at_toin_eq)
qed

section \<open>The text that is left\<close>

definition source_text :: "'a src_env_scheme machine \<Rightarrow> string" where
  "source_text m = map (\<lambda>i. char_of (unat (ram_byte m (source (env m) + i)))) [0..<nat (source_len (env m))]"

definition rest :: "'a src_env_scheme machine \<Rightarrow> string" where
  "rest m = takeWhile (\<lambda>c. c \<noteq> NUL) (drop (nat (lfTOINfetch m)) (source_text m))"

lemma source_text_at [simp]: "source_ok m \<Longrightarrow> source_text (at_toin p m) = source_text m"
  by (auto simp: source_text_def source_ok_def intro!: map_cong bytes_at)

lemma TOINchar_rest:
  assumes "source_ok m"
  shows "TOINchar m = (case rest m of [] \<Rightarrow> NUL | c # cs \<Rightarrow> c)"
proof (cases "lfTOINfetch m < source_len (env m)")
  case True
  then have l: "nat (lfTOINfetch m) < length (source_text m)"
    using toin_bounds [of m] by (simp add: source_text_def)
  then have "drop (nat (lfTOINfetch m)) (source_text m) =
      source_text m ! nat (lfTOINfetch m) # drop (Suc (nat (lfTOINfetch m))) (source_text m)"
    by (rule Cons_nth_drop_Suc [symmetric])
  moreover have "TOINchar m = source_text m ! nat (lfTOINfetch m)"
    using True l toin_bounds [of m] by (simp add: TOINchar_def source_text_def nat_add_distrib)
  ultimately show ?thesis
    by (simp add: rest_def)
next
  case False
  then show ?thesis
    by (simp add: TOINchar_def rest_def source_text_def)
qed

lemma bump_at: "TOINbump m = at_toin (1 + lfTOINfetch m) m"
  by (simp add: TOINbump_def at_toin_def)

lemma rest_bump:
  assumes "source_ok m" "rest m = c # cs"
  shows "rest (TOINbump m) = cs" "lfTOINfetch (TOINbump m) = 1 + lfTOINfetch m" "c \<noteq> NUL"
proof -
  let ?k = "nat (lfTOINfetch m)"
  have k: "?k < length (source_text m)"
    using assms(2) by (metis drop_eq_Nil list.distinct(1) not_less rest_def takeWhile.simps(1))
  then have "lfTOINfetch m + 1 < 8192"
    using assms(1) toin_bounds [of m] by (simp add: source_text_def source_ok_def)
  then show t: "lfTOINfetch (TOINbump m) = 1 + lfTOINfetch m"
    using assms(1) toin_bounds [of m] by (simp add: bump_at)
  have d: "drop ?k (source_text m) = source_text m ! ?k # drop (Suc ?k) (source_text m)"
    using k by (rule Cons_nth_drop_Suc [symmetric])
  have "nat (1 + lfTOINfetch m) = Suc ?k"
    using toin_bounds [of m] by (simp add: nat_add_distrib)
  then show "rest (TOINbump m) = cs"
    using assms d t by (simp add: rest_def bump_at split: if_splits)
  show "c \<noteq> NUL"
    using assms(2) d by (auto simp: rest_def split: if_splits)
qed

lemma ok_bump [simp]: "source_ok m \<Longrightarrow> source_ok (TOINbump m)"
  by (simp add: bump_at)

section \<open>The next word\<close>

lemma skip_blanks_rest:
  "source_ok m \<Longrightarrow>
   \<exists>m'. skip_blanks m = Some m' \<and> source_ok m' \<and> rest m' = dropWhile blank (rest m) \<and>
     m' = at_toin (lfTOINfetch m + int (length (takeWhile blank (rest m)))) m \<and>
     lfTOINfetch m' = lfTOINfetch m + int (length (takeWhile blank (rest m)))"
proof (induction "rest m" arbitrary: m)
  case Nil
  then show ?case
    by (simp add: skip_blanks.simps [of m] TOINchar_rest flip: Nil(1))
next
  case (Cons c cs)
  note b = rest_bump [OF Cons.prems Cons.hyps(2) [symmetric]]
  show ?case
  proof (cases "blank c")
    case False
    then show ?thesis
      using Cons.prems b(3) by (simp add: skip_blanks.simps [of m] TOINchar_rest flip: Cons.hyps(2))
  next
    case True
    then have "skip_blanks m = skip_blanks (TOINbump m)"
      using Cons.prems b(3) by (simp add: skip_blanks.simps [of m] TOINchar_rest flip: Cons.hyps(2))
    then show ?thesis
      using Cons.hyps(1) [OF b(1) [symmetric]] Cons.prems True b
      by (simp add: bump_at algebra_simps flip: Cons.hyps(2))
  qed
qed

lemma copy_token_rest:
  "\<lbrakk>source_ok m; 1 \<le> n; int (length dest) \<le> n - 1; w = takeWhile (\<lambda>c. \<not> blank c) (rest m)\<rbrakk> \<Longrightarrow>
   \<exists>m'. copy_token n ior dest m =
       Some (if int (length dest + length w) \<le> n - 1 then ior else ERR_PARSED_STRING_OVERFLOW,
             take (nat (n - 1)) (dest @ w), m') \<and>
     source_ok m' \<and> rest m' = dropWhile (\<lambda>c. \<not> blank c) (rest m) \<and>
     m' = at_toin (lfTOINfetch m + int (length w)) m \<and> lfTOINfetch m' = lfTOINfetch m + int (length w)"
proof (induction "rest m" arbitrary: m dest ior w)
  case Nil
  then show ?case
    by (simp add: copy_token.simps [of _ _ _ m] TOINchar_rest flip: Nil(1))
next
  case (Cons c cs)
  note b = rest_bump [OF Cons.prems(1) Cons.hyps(2) [symmetric]]
  have ch: "TOINchar m = c"
    using Cons.prems(1) by (simp add: TOINchar_rest flip: Cons.hyps(2))
  show ?case
  proof (cases "blank c")
    case True
    then show ?thesis
      using Cons.prems by (simp add: copy_token.simps [of _ _ _ m] ch flip: Cons.hyps(2))
  next
    case False
    let ?w = "takeWhile (\<lambda>c. \<not> blank c) cs"
    have w: "w = c # ?w"
      using Cons.prems(4) False by (simp flip: Cons.hyps(2))
    show ?thesis
    proof (cases "int (length dest) < n - 1")
      case True
      then have "copy_token n ior dest m = copy_token n ior (dest @ [c]) (TOINbump m)"
        using False b(3) by (simp add: copy_token.simps [of _ _ _ m] ch)
      then show ?thesis
        using Cons.hyps(1) [OF b(1) [symmetric], of "dest @ [c]" ?w ior] Cons.prems(1,2) True False b w
        by (simp add: bump_at algebra_simps flip: Cons.hyps(2))
    next
      case F: False
      then have "copy_token n ior dest m = copy_token n ERR_PARSED_STRING_OVERFLOW dest (TOINbump m)"
        using False b(3) by (simp add: copy_token.simps [of _ _ _ m] ch)
      then show ?thesis
        using Cons.hyps(1) [OF b(1) [symmetric], of dest ?w ERR_PARSED_STRING_OVERFLOW] Cons.prems(1-3) F False b w
        by (simp add: bump_at algebra_simps flip: Cons.hyps(2))
    qed
  qed
qed

lemma blank_at_rest:
  "source_ok m \<Longrightarrow> blank (TOINchar m) \<longleftrightarrow> (case rest m of [] \<Rightarrow> False | c # cs \<Rightarrow> blank c)"
  by (simp add: TOINchar_rest blank_def NUL_def split: list.splits)

text \<open>C28: The parser returns and takes exactly the next word. Of the text that is left, up to a NUL, it skips
  the blanks, gives the characters up to the next blank, cut to the room in the buffer with an error when they
  do not fit, and moves \<open>>IN\<close> behind the word and the blank that ended it. Nothing else of the machine
  changes.\<close>

theorem parse_word_next:
  assumes "source_ok m" "1 \<le> n"
    and "t = dropWhile blank (rest m)" "w = takeWhile (\<lambda>c. \<not> blank c) t"
  shows "lfParseWord n m =
    Some (if int (length w) \<le> n - 1 then 0 else ERR_PARSED_STRING_OVERFLOW, take (nat (n - 1)) w,
      at_toin (lfTOINfetch m + int (length (rest m) - length t) + int (length w) +
        (if length w < length t then 1 else 0)) m)"
proof -
  let ?b = "int (length (takeWhile blank (rest m)))"
  obtain m1 where s: "skip_blanks m = Some m1" "source_ok m1" "rest m1 = t"
    "m1 = at_toin (lfTOINfetch m + ?b) m" "lfTOINfetch m1 = lfTOINfetch m + ?b"
    using skip_blanks_rest [OF assms(1)] assms(3) by blast
  obtain m2 where c: "copy_token n 0 [] m1 =
      Some (if int (length w) \<le> n - 1 then 0 else ERR_PARSED_STRING_OVERFLOW, take (nat (n - 1)) w, m2)"
    "source_ok m2" "rest m2 = dropWhile (\<lambda>c. \<not> blank c) t"
    "m2 = at_toin (lfTOINfetch m1 + int (length w)) m1" "lfTOINfetch m2 = lfTOINfetch m1 + int (length w)"
    using copy_token_rest [OF s(2) assms(2) _ assms(4) [folded s(3)], of "[]" 0] assms(2)
    unfolding s(3) by (simp only: list.size append_Nil add_0 of_nat_0) auto
  have tw: "t = w @ rest m2"
    using assms(4) c(3) by simp
  have b: "blank (TOINchar m2) \<longleftrightarrow> length w < length t"
  proof (cases "rest m2")
    case Nil
    then show ?thesis
      using blank_at_rest [OF c(2)] tw by simp
  next
    case (Cons x xs)
    then have "blank x"
      using c(3) hd_dropWhile [of "\<lambda>c. \<not> blank c" t] by fastforce
    moreover have "length t = length w + Suc (length xs)"
      using arg_cong [OF tw, of length] Cons by simp
    ultimately show ?thesis
      using blank_at_rest [OF c(2)] Cons by simp
  qed
  have "rest m = takeWhile blank (rest m) @ t"
    using assms(3) by simp
  then have "int (length (rest m) - length t) = ?b"
    by (metis add_diff_cancel_right' length_append)
  moreover have "m2 = at_toin (lfTOINfetch m + ?b + int (length w)) m"
    using c(4) s(4,5) assms(1) by simp
  moreover have "TOINbump m2 = at_toin (lfTOINfetch m + ?b + int (length w) + 1) m"
    using calculation(2) c(5) s(5) assms(1) by (simp add: bump_at add.commute)
  ultimately show ?thesis
    using s(1) c(1) b by (simp add: lfParseWord_def)
qed

text \<open>A source: the words \<open>2 dup\<close> in the input buffer.\<close>

definition fresh_src :: src_env where
  "fresh_src = \<lparr>cslot = 9, cinst = 0, clastcall = 0, cnoname = False, source = 8, source_len = 6\<rparr>"

definition typed :: "src_env machine" where
  "typed = ram_set 2 0x75642032 (ram_set 3 0x70 (small_machine [] fresh_src))"

lemma wf_small_mem: "length code \<le> 64 \<Longrightarrow> wf_mem (small_mem code)"
proof -
  assume "length code \<le> 64"
  moreover have "[0..<8] = [0, 1, 2, 3, 4, 5, 6, 7 :: nat]"
    by (simp add: upt_rec)
  ultimately show ?thesis
    by (simp add: wf_mem_def page_ok_def small_mem_def flip: atLeast_upt)
qed

lemma typed_ok: "source_ok typed"
  using wf_small_mem [of "[]"]
  by (simp add: source_ok_def typed_def ram_set_def small_machine_def fresh_src_def
      same_limits_wf [OF same_limits_set_cell] same_limits_may_read [OF same_limits_set_cell]
      same_limits_may_write [OF same_limits_set_cell])
    (simp add: small_mem_def may_read_def may_write_def rd_limit_def wp_limit_def)

lemma typed_rest: "rest typed = ''2 dup''" "lfTOINfetch typed = 0"
proof -
  have g: "ram_get 0 typed = 0" "ram_get 2 typed = 0x75642032" "ram_get 3 typed = 0x70"
    by (simp_all add: ram_get_def typed_def ram_set_def get_set_cell small_machine_def small_mem_def get_cell_def set_cell_def)
  have "get_cell (vmem typed) 4 0 = 0"
    using g(1) by (simp add: ram_get_def)
  then show t: "lfTOINfetch typed = 0"
    using typed_ok by (simp add: lfTOINfetch_def mFetch_def vmFetch_eq source_ok_def)
  have e: "source (env typed) = 8" "source_len (env typed) = 6"
    by (simp_all add: typed_def ram_set_def small_machine_def fresh_src_def)
  have "source_text typed = ''2 dup'' @ [NUL]"
    by (simp add: source_text_def e ram_byte_def g upt_rec) code_simp
  then show "rest typed = ''2 dup''"
    by (simp add: rest_def t NUL_def)
qed

lemma parse_word_next_witness:
  "lfParseWord 32 typed = Some (0, ''2'', at_toin 2 typed)"
  using parse_word_next [OF typed_ok, of 32] by (simp add: typed_rest blank_def)

end
