(* ===== verification/LF_Dict.thy ===== *)
theory LF_Dict
  imports LF_Source LF_Pool
begin

text \<open>
  The dictionary of \<^verbatim>\<open>src/src/forth.c\<close>: the built-in headers and constants as tables, wordlists, links
  and lookup. A header is either a C struct (the tables, and temporary headers), found through \<open>c_heads\<close> by its
  32-bit C address, or four cells of VM memory (link, name, w, aux); a link is the tagged word of
  \<open>lfFollow\<close>. Following links may not end (a list can be cyclic), so the searches are partial functions.
\<close>

section \<open>Codes\<close>

definition STACK_CAPACITY :: u32 where [const_defs]: "STACK_CAPACITY = 128"
definition WIDS_MAX :: int where [const_defs]: "WIDS_MAX = 8"
definition EMPTY_WIDS :: nat where [const_defs]: "EMPTY_WIDS = 2"
definition BLOCK_SIZE_CELLS :: u32 where [const_defs]: "BLOCK_SIZE_CELLS = 1024"
definition FLASH_PAGE_CELLS :: u32 where [const_defs]: "FLASH_PAGE_CELLS = 16384"

definition LF_CURRENT :: u32 where "LF_CURRENT = BITFIELD 8 0 F_CURRENT"
definition LF_TIB :: u32 where "LF_TIB = BITFIELD 8 0 F_TIB"
definition LF_CONTEXT :: u32 where "LF_CONTEXT = BITFIELD 8 0 F_CONTEXT"
definition UDATA0 :: u32 where "UDATA0 = VARIABLE F_HERE0 + 0x400"
definition TEXT0 :: u32 where "TEXT0 = FLASH_PAGE_CELLS div 2"

definition VMI_ZBRAN :: u32 where "VMI_ZBRAN = VMI_OTHER + 0 * 512"
definition VMI_BRAN :: u32 where "VMI_BRAN = VMI_OTHER + 1 * 512"
definition VMI_PBRAN :: u32 where "VMI_PBRAN = VMI_OTHER + 2 * 512"
definition VMI_RCALL :: u32 where "VMI_RCALL = VMI_OTHER + 3 * 512"
definition VMI_NEXT :: u32 where "VMI_NEXT = VMI_OTHER + 4 * 512"
definition VMI_SYS :: u32 where "VMI_SYS = VMI_OTHER + 6 * 512"
definition VMI_TOSYS :: u32 where "VMI_TOSYS = VMI_OTHER + 8 * 512"
definition VMI_USER :: u32 where "VMI_USER = VMI_OTHER + 9 * 512"
definition VMI_FROMSYS :: u32 where "VMI_FROMSYS = VMI_OTHER + 10 * 512"
definition VMI_API1 :: u32 where "VMI_API1 = VMI_OTHER + 15 * 512"

definition VMS_TASK :: u32 where "VMS_TASK = 0"
definition VMS_FIELDPLUS :: u32 where "VMS_FIELDPLUS = 1"
definition VMS_SHR :: u32 where "VMS_SHR = 2"
definition VMS_SHL :: u32 where "VMS_SHL = 3"
definition VMS_GETUSEC :: u32 where "VMS_GETUSEC = 4"
definition VMS_BREAK :: u32 where "VMS_BREAK = 5"
definition VMS_ASR :: u32 where "VMS_ASR = 6"
definition VMSTO_SHIFT :: u32 where "VMSTO_SHIFT = 0"
definition VMSTO_YEET :: u32 where "VMSTO_YEET = 1"
definition VMSTO_USTORE :: u32 where "VMSTO_USTORE = 2"
definition VMSFROM_TASK :: u32 where "VMSFROM_TASK = 0"
definition VMSFROM_X :: u32 where "VMSFROM_X = 1"
definition VMSFROM_Y :: u32 where "VMSFROM_Y = 2"

text \<open>The API 0 functions by name; a function's index is its place in the list.\<close>

definition API0_LIST :: "string list" where
  "API0_LIST =
    [''BYE'', ''WORDS'', ''FORTH'', ''ONLY'', ''COLON'', ''SEMICOLON'',
     ''TOOPTIONS'', ''EMPTY'', ''PAREN'', ''DOTPAREN'', ''CREATE'', ''CR'',
     ''LITERAL'', ''DOTWID'', ''XTICK'', ''PAGE'', ''WORDLIST'', ''OPEN_FLASH'',
     ''CLOSE_FLASH'', ''RBRACKET'', ''LBRACKET'', ''EXIT'', ''CONSTANT'', ''BITS'',
     ''COMMAQUOTE'', ''BIT'', ''COMMAINST'', ''IMMEDIATE'', ''BLOCK'', ''BUFFER'',
     ''UPDATE'', ''SAVE_BUFFERS'', ''FLUSH'', ''EMPTY_BUFFERS'', ''LOAD'', ''CAPACITY'',
     ''NEXTBLOCK'', ''POSTPONE'', ''COMPILE'', ''NEWINST'', ''COLD'', ''NONAME'',
     ''EXECUTE'', ''SAVE_WIDS'', ''LABEL'', ''TOAUX'', ''CHAR'', ''HEADMINUS'',
     ''HEADPLUS'', ''TRIMHEADS'', ''YMODEM'', ''LCD_INIT'', ''LCD_DECODE'', ''RTC_FETCH'',
     ''RTC_STORE'', ''ALARM_STORE'', ''ALARM_QUERY'', ''STANDBY'', ''READ_BLOCK'', ''WRITE_BLOCK'',
     ''BLOCK_STATUS'', ''ENROLL'', ''REBOOT'', ''DIR'', ''SAVE_PAGES'', ''REVISION'',
     ''ENDTEST'', ''DOTEST'', ''BEGINTEST'', ''HEX'', ''DECIMAL'', ''DOTPAGE'',
     ''DOTPAGES'', ''DUMP'', ''DUMPI'', ''DASM'', ''DOTS'', ''DOT'',
     ''SEE'', ''ECDC_TEST'']"

definition API :: "string \<Rightarrow> u32" where
  "API n = word_of_nat (length (takeWhile (\<lambda>m. m \<noteq> n) API0_LIST))"

definition UOP :: "uop \<Rightarrow> u32" where
  "UOP u = W_PRIMITIVE OR VM_UOPS OR push_bit SLOT0_POSITION (uop_code u)"

definition MACRO :: "uop \<Rightarrow> uop \<Rightarrow> uop \<Rightarrow> u32" where
  "MACRO s0 s1 s2 =
     W_PRIMITIVE OR W_MACRO OR VM_UOPS OR push_bit SLOT0_POSITION (uop_code s0) OR
     push_bit LAST_SLOT_WIDTH (uop_code s1) OR uop_code s2"

definition API0 :: "string \<Rightarrow> u32" where "API0 n = W_PRIMITIVE OR W_WIDE_INST OR VMI_API0 OR API n"
definition SYS :: "u32 \<Rightarrow> u32" where "SYS i = W_PRIMITIVE OR W_WIDE_INST OR VMI_SYS OR i"
definition SYSTO :: "u32 \<Rightarrow> u32" where "SYSTO i = W_PRIMITIVE OR W_WIDE_INST OR VMI_TOSYS OR i"
definition SYSFM :: "u32 \<Rightarrow> u32" where "SYSFM i = W_PRIMITIVE OR W_WIDE_INST OR VMI_FROMSYS OR i"

section \<open>Tables\<close>

text \<open>A row is the name, w and aux; the rows of a table are linked from the last to the first.\<close>

type_synonym row = "string \<times> u32 \<times> u32"

definition only_heads :: "row list" where
  "only_heads =
    [(''bye'', API0 ''BYE'', 65),
     (''words'', API0 ''WORDS'', 66),
     (''forth'', API0 ''FORTH'', 67),
     (''only'', API0 ''ONLY'', 68)]"

definition forth_heads :: "row list" where
  "forth_heads =
    [(''invert'', UOP VMU_INV, 69),
     (''inv'', UOP VMU_INV, 69),
     (''over'', UOP VMU_OVER, 71),
     (''a!'', UOP VMU_ASTORE, 72),
     (''xor'', UOP VMU_XOR, 73),
     (''+'', UOP VMU_PLUS, 74),
     (''and'', UOP VMU_AND, 75),
     (''>r'', UOP VMU_PUSH, 76),
     (''unext'', UOP VMU_UNEXT, 77),
     (''2*'', UOP VMU_TWOSTAR, 78),
     (''dup'', UOP VMU_DUP, 79),
     (''drop'', UOP VMU_DROP, 80),
     (''@a'', UOP VMU_FETCHA, 81),
     (''@a+'', UOP VMU_FETCHAPLUS, 82),
     (''@as'', UOP VMU_FETCHASIGN, 83),
     (''r@'', UOP VMU_R, 84),
     (''r>'', UOP VMU_POP, 85),
     (''2/c'', UOP VMU_TWODIVC, 86),
     (''2/'', UOP VMU_TWODIV, 87),
     (''!a'', UOP VMU_STOREA, 88),
     (''!a+'', UOP VMU_STOREAPLUS, 89),
     (''!b'', UOP VMU_STOREB, 90),
     (''!b+'', UOP VMU_STOREBPLUS, 91),
     (''swap'', UOP VMU_SWAP, 92),
     (''+*'', UOP VMU_PLUSSTAR, 93),
     (''b'', UOP VMU_B, 94),
     (''b!'', UOP VMU_BSTORE, 95),
     (''@b'', UOP VMU_FETCHB, 97),
     (''@b+'', UOP VMU_FETCHBPLUS, 98),
     (''a'', UOP VMU_A, 99),
     (''cy'', UOP VMU_CY, 100),
     (''px!'', UOP VMU_PXSTORE, 70),
     (''u!'', SYSTO VMSTO_USTORE, 101),
     (''2dup'', MACRO VMU_OVER VMU_OVER VMU_NOP, 102),
     (''2drop'', MACRO VMU_DROP VMU_DROP VMU_NOP, 103),
     (''!'', MACRO VMU_ASTORE VMU_STOREA VMU_NOP, 104),
     (''@'', MACRO VMU_ASTORE VMU_FETCHA VMU_NOP, 105),
     (''s@'', MACRO VMU_ASTORE VMU_FETCHASIGN VMU_NOP, 106),
     (''nip'', MACRO VMU_SWAP VMU_DROP VMU_NOP, 107),
     (''tuck'', MACRO VMU_SWAP VMU_OVER VMU_NOP, 108),
     (''um+'', MACRO VMU_PLUS VMU_CY VMU_NOP, 109),
     (''slice+'', SYS VMS_FIELDPLUS, 110),
     ('']shr'', SYS VMS_SHR, 111),
     ('']shl'', SYS VMS_SHL, 112),
     ('']asr'', SYS VMS_ASR, 194),
     (''break'', SYS VMS_BREAK, 113),
     (''capusec'', SYS VMS_GETUSEC, 114),
     (''shft['', SYSTO VMSTO_SHIFT, 115),
     ('']task'', SYS VMS_TASK, 116),
     (''yeet'', SYSTO VMSTO_YEET, 117),
     (''task['', SYSFM VMSFROM_TASK, 118),
     (''x@'', SYSFM VMSFROM_X, 119),
     (''y@'', SYSFM VMSFROM_Y, 120),
     ('':'', API0 ''COLON'', 130),
     ('';'', API0 ''SEMICOLON'', A_IMMEDIATE OR 131),
     (''>options'', API0 ''TOOPTIONS'', 132),
     (''empty'', API0 ''EMPTY'', 133),
     (''('', API0 ''PAREN'', A_IMMEDIATE OR 134),
     ([CHR 0xEF, CHR 0xBB, CHR 0xBF, CHR ''(''], API0 ''PAREN'', A_IMMEDIATE OR 135),
     (''.('', API0 ''DOTPAREN'', 136),
     (''create'', API0 ''CREATE'', 137),
     (''cr'', API0 ''CR'', 138),
     (''literal'', API0 ''LITERAL'', A_IMMEDIATE OR 139),
     (''.wid'', API0 ''DOTWID'', 140),
     ([CHR ''x'', CHR 0x27], API0 ''XTICK'', 141),
     (''>aux'', API0 ''TOAUX'', 142),
     (''char'', API0 ''CHAR'', 143),
     (''page'', API0 ''PAGE'', 144),
     (''wordlist'', API0 ''WORDLIST'', 145),
     (''open-flash'', API0 ''OPEN_FLASH'', 146),
     (''close-flash'', API0 ''CLOSE_FLASH'', 147),
     ('']'', API0 ''RBRACKET'', 148),
     (''['', API0 ''LBRACKET'', A_IMMEDIATE OR 149),
     (''exit'', API0 ''EXIT'', A_IMMEDIATE OR 150),
     (''constant'', API0 ''CONSTANT'', 151),
     (''bits'', API0 ''BITS'', 152),
     ([CHR ''_'', CHR '','', CHR 0x22], API0 ''COMMAQUOTE'', 153),
     (''bit'', API0 ''BIT'', 154),
     ('',inst'', API0 ''COMMAINST'', 155),
     (''immediate'', API0 ''IMMEDIATE'', 156),
     (''block'', API0 ''BLOCK'', 157),
     (''buffer'', API0 ''BUFFER'', 158),
     (''update'', API0 ''UPDATE'', 159),
     (''save-buffers'', API0 ''SAVE_BUFFERS'', 161),
     (''flush'', API0 ''FLUSH'', 162),
     (''empty-buffers'', API0 ''EMPTY_BUFFERS'', 163),
     (''load'', API0 ''LOAD'', 164),
     (''capacity'', API0 ''CAPACITY'', 165),
     (''-->'', API0 ''NEXTBLOCK'', 166),
     (''postpone'', API0 ''POSTPONE'', A_IMMEDIATE OR 167),
     (''compile,'', API0 ''COMPILE'', 168),
     (''|inst'', API0 ''NEWINST'', A_IMMEDIATE OR 169),
     (''cold'', API0 ''COLD'', 170),
     ('':noname'', API0 ''NONAME'', 171),
     (''save-wids'', API0 ''SAVE_WIDS'', 172),
     (''label'', API0 ''LABEL'', 173),
     (''head-'', API0 ''HEADMINUS'', 187),
     (''head+'', API0 ''HEADPLUS'', 188),
     (''-heads'', API0 ''TRIMHEADS'', 189),
     (''ymodem'', API0 ''YMODEM'', 190),
     (''lcd-init'', API0 ''LCD_INIT'', 191),
     (''lcd-decode'', API0 ''LCD_DECODE'', 195),
     (''rtc@'', API0 ''RTC_FETCH'', 196),
     (''rtc!'', API0 ''RTC_STORE'', 197),
     (''alarm!'', API0 ''ALARM_STORE'', 198),
     (''alarm?'', API0 ''ALARM_QUERY'', 199),
     (''standby'', API0 ''STANDBY'', 200),
     (''read-block'', API0 ''READ_BLOCK'', 201),
     (''write-block'', API0 ''WRITE_BLOCK'', 202),
     (''block-status'', API0 ''BLOCK_STATUS'', 203),
     (''enroll'', API0 ''ENROLL'', 204),
     (''reboot'', API0 ''REBOOT'', 205),
     (''dir'', API0 ''DIR'', 206),
     (''save-pages'', API0 ''SAVE_PAGES'', 207),
     (''revision'', API0 ''REVISION'', 208),
     (''}t'', API0 ''ENDTEST'', 174),
     (''->'', API0 ''DOTEST'', 175),
     (''t{'', API0 ''BEGINTEST'', 176),
     (''hex'', API0 ''HEX'', 177),
     (''decimal'', API0 ''DECIMAL'', 178),
     (''.page'', API0 ''DOTPAGE'', 179),
     (''.pages'', API0 ''DOTPAGES'', 180),
     (''dump'', API0 ''DUMP'', 181),
     (''dumpi'', API0 ''DUMPI'', 182),
     (''dasm'', API0 ''DASM'', 183),
     (''.s'', API0 ''DOTS'', 184),
     (''.'', API0 ''DOT'', 185),
     (''see'', API0 ''SEE'', 186),
     (''ecdc-test'', API0 ''ECDC_TEST'', 205)]"

definition constant_table :: "(u32 \<times> string) list" where
  "constant_table =
    [(- 1, ''true''),
     (0, ''false''),
     (LF_STATE, ''state''),
     (LF_BASE, ''base''),
     (LF_CURRENT, ''current''),
     (LF_CONTEXT, ''context''),
     (CONTEXT_SIZE, ''|context|''),
     (LF_DPL, ''dpl''),
     (LF_TOIN, ''>in''),
     (VARIABLE F_BLK, ''blk''),
     (BLOCK_SIZE_CELLS, ''|block|''),
     (LF_TIB, ''TIB''),
     (VARIABLE F_PTRS, ''dp[]''),
     (LF_MSPACE, ''dp^''),
     (word_of_nat VM_LOG2_PAGES, ''log2pages''),
     (VARIABLE F_HERE0, ''ram-base''),
     (push_bit 16 (STACK_CAPACITY - 1) OR (STACK_CAPACITY - 1), ''stack-masks''),
     (LF_DEADTIB, ''stop-tib''),
     (LF_CREATED, ''created''),
     (UDATA0, ''_udata0''),
     (TEXT0, ''_text0''),
     (VMI_CALL, ''_call''),
     (VMI_JUMP, ''_jump''),
     (VMI_LIT, ''_lit''),
     (VMI_ZBRAN, ''_0bran''),
     (VMI_BRAN, ''_bran''),
     (VMI_PBRAN, ''_pbran''),
     (VMI_RCALL, ''_rcall''),
     (VMI_NEXT, ''_next''),
     (VMI_PFX, ''_pfx''),
     (VMI_PFX1, ''_pfx1''),
     (VMI_USER, ''_user''),
     (VMI_API0, ''_api0''),
     (VMI_API1, ''_api1''),
     (W_PRIMITIVE, ''w_primitive''),
     (W_MACRO, ''w_macro''),
     (W_WIDE_INST, ''w_wide_inst''),
     (W_NO_TAIL_CALL, ''w_no_tail_call''),
     (A_SMUDGED, ''a_smudged''),
     (A_IMMEDIATE, ''a_immediate''),
     (A_CONSTANT, ''a_constant'')]"

section \<open>Names\<close>

text \<open>\<open>TheStringsMatch\<close> with \<open>case_insensitive\<close>, which is set and never changed: strings without their NULs,
  compared with capital letters A to Z taken as small ones.\<close>

definition lower_char :: "char \<Rightarrow> char" where
  "lower_char c = (let n = (of_char c :: nat) in if 65 \<le> n \<and> n \<le> 90 then char_of (n + 32) else c)"

fun TheStringsMatch :: "string \<Rightarrow> string \<Rightarrow> bool" where
  "TheStringsMatch [] [] = True"
| "TheStringsMatch [] (c2 # s2) = False"
| "TheStringsMatch (c1 # s1) [] = False"
| "TheStringsMatch (c1 # s1) (c2 # s2) = (if lower_char c1 \<noteq> lower_char c2 then False else TheStringsMatch s1 s2)"

fun constant_loop :: "(u32 \<times> string) list \<Rightarrow> string \<Rightarrow> ior \<times> u32 option" where
  "constant_loop [] s = (ERR_UNDEFINED_WORD, None)"
| "constant_loop ((v, n) # cs) s = (if TheStringsMatch s n then (0, Some v) else constant_loop cs s)"

text \<open>The ior, and the value stored through \<open>val\<close> if one is.\<close>

definition findConstant :: "string \<Rightarrow> ior \<times> u32 option" where
  "findConstant s = constant_loop constant_table s"

section \<open>Headers\<close>

record s_head = s_word +
  hlink :: u32
  hname :: string

record s_wid =
  whead :: u32
  wname :: string

text \<open>The state of the dictionary: the C structs by address, the heads of the built-in lists, the
  wordlists, and the temporary headers (\<open>head-\<close>), which lie in a block of the memory pool.\<close>

record dict_env = src_env +
  c_heads :: "u32 \<Rightarrow> s_head option"
  builtin_heads :: "u32 list"
  wids :: "s_wid list"
  wids_pointer :: int
  g_neighbor_w :: u32
  latest :: u32
  dpool :: pool_state
  pool_base :: u32
  temp_heads :: "nat option"
  temp_mode :: bool
  temp_hp :: u32
  temp_end :: u32
  temp_latest :: "u32 option"

text \<open>A table placed at a C address, 16 bytes a row, each row linked to the one before it and the
  first to \<open>prev\<close>.\<close>

fun table_at :: "u32 \<Rightarrow> u32 \<Rightarrow> row list \<Rightarrow> u32 \<Rightarrow> s_head option" where
  "table_at base prev [] a = None"
| "table_at base prev ((n, w, aux) # rs) a =
     (if a = base then Some \<lparr>hw = w, haux = aux, hlink = prev, hname = n\<rparr>
      else table_at (base + 16) base rs a)"

definition LAST_HEAD :: "u32 \<Rightarrow> row list \<Rightarrow> u32" where
  "LAST_HEAD base rs = base + 16 * word_of_nat (length rs - 1)"

definition LINK_BUILTIN :: "u32 \<Rightarrow> u32" where
  "LINK_BUILTIN n = push_bit 2 n OR 2"

definition wids_empty :: "s_wid list" where
  "wids_empty = [\<lparr>whead = LINK_BUILTIN 0, wname = ''forth''\<rparr>, \<lparr>whead = LINK_BUILTIN 1, wname = ''root''\<rparr>]"

section \<open>Links\<close>

text \<open>Bytes of a page, little-endian, and a C string in it (which ends with the page at the latest).\<close>

definition page_byte :: "vm_mem \<Rightarrow> u32 \<Rightarrow> nat \<Rightarrow> u8" where
  "page_byte mem page i = ucast (drop_bit (8 * (i mod 4)) (vm_memory mem ! unat page ! (i div 4)))"

definition page_word :: "vm_mem \<Rightarrow> u32 \<Rightarrow> nat \<Rightarrow> u32" where
  "page_word mem page i =
     ucast (page_byte mem page i) OR push_bit 8 (ucast (page_byte mem page (i + 1))) OR
     push_bit 16 (ucast (page_byte mem page (i + 2))) OR push_bit 24 (ucast (page_byte mem page (i + 3)))"

definition page_string :: "vm_mem \<Rightarrow> u32 \<Rightarrow> nat \<Rightarrow> string" where
  "page_string mem page i =
     map (\<lambda>b. char_of (unat b))
       (takeWhile (\<lambda>b. b \<noteq> 0) (map (page_byte mem page) [i..<4 * length (vm_memory mem ! unat page)]))"

text \<open>A pointer into VM memory is a page and a byte; None is NULL.\<close>

definition lfVmBytes :: "vm_mem \<Rightarrow> u32 \<Rightarrow> (u32 \<times> nat) option" where
  "lfVmBytes mem a =
     (let page = drop_bit (22 - VM_LOG2_PAGES) (a AND 0x3FFFFF); cell = a AND VM_PAGE_MASK in
      if vm_memory mem ! unat page = [] \<or> cell \<ge> rd_limit mem page then None
      else if page = vm_io_page mem then None
      else Some (page, 4 * unat cell + unat (drop_bit 25 a AND 3)))"

definition linkToVM :: "u32 \<Rightarrow> u32" where
  "linkToVM a = push_bit 1 a OR 1"

datatype head_ref = CHead u32 | VHead u32 nat

definition head_at :: "'a dict_env_scheme \<Rightarrow> vm_mem \<Rightarrow> head_ref \<Rightarrow> s_head" where
  "head_at e mem r =
     (case r of
        CHead p \<Rightarrow> the (c_heads e p)
      | VHead page i \<Rightarrow>
          \<lparr>hw = page_word mem page (i + 8), haux = page_word mem page (i + 12), hlink = page_word mem page i,
           hname = (case lfVmBytes mem (page_word mem page (i + 4)) of
                      None \<Rightarrow> [] | Some (npage, j) \<Rightarrow> page_string mem npage j)\<rparr>)"

text \<open>\<open>lfFollow\<close>: where a link leads, and the header there with its name. A C pointer that is no header
  is undefined in C and None here.\<close>

definition followRef :: "'a dict_env_scheme \<Rightarrow> vm_mem \<Rightarrow> u32 \<Rightarrow> head_ref option" where
  "followRef e mem link =
     (if link AND 1 \<noteq> 0 then
        (case lfVmBytes mem (drop_bit 1 link) of None \<Rightarrow> None | Some (page, i) \<Rightarrow> Some (VHead page i))
      else
        let p = (if link AND 2 \<noteq> 0 then
                   (let v = drop_bit 2 link in if unat v < EMPTY_WIDS then builtin_heads e ! unat v else 0)
                 else link)
        in if p = 0 \<or> c_heads e p = None then None else Some (CHead p))"

definition lfFollow :: "'a dict_env_scheme \<Rightarrow> vm_mem \<Rightarrow> u32 \<Rightarrow> s_head option" where
  "lfFollow e mem link = map_option (head_at e mem) (followRef e mem link)"

section \<open>Wordlists\<close>

definition lfResetWids :: "'a dict_env_scheme machine \<Rightarrow> 'a dict_env_scheme machine" where
  "lfResetWids = upd_comp (\<lambda>e. e\<lparr>wids := wids_empty @ drop EMPTY_WIDS (wids e), wids_pointer := int EMPTY_WIDS\<rparr>)"

definition lfAddWordlist :: "string option \<Rightarrow> 'a dict_env_scheme machine \<Rightarrow> int \<times> 'a dict_env_scheme machine" where
  "lfAddWordlist nm m =
     (let n = wids_pointer (env m) in
      if n \<ge> WIDS_MAX then (ERR_WID_OVERFLOW, m)
      else (n, upd_comp (\<lambda>e. e\<lparr>wids := (wids e)[nat n :=
             \<lparr>whead = 0, wname = (case nm of None \<Rightarrow> [] | Some s \<Rightarrow> take 11 s)\<rparr>], wids_pointer := n + 1\<rparr>) m))"

text \<open>\<open>CONTEXT[i]\<close> and \<open>*CURRENT\<close>, signed bytes of the RAM page.\<close>

definition CONTEXT :: "'e machine \<Rightarrow> nat \<Rightarrow> int" where
  "CONTEXT m i = sint (ram_byte m (4 * unat F_CONTEXT + i))"

definition CURRENT :: "'e machine \<Rightarrow> int" where
  "CURRENT m = sint (ram_byte m (4 * unat F_CURRENT))"

definition lfAPI_dotWid ::
  "nat \<Rightarrow> nat \<Rightarrow> 'a dict_env_scheme env_ops \<Rightarrow> 'a dict_env_scheme machine \<Rightarrow> (ior \<times> 'a dict_env_scheme machine) option" where
  "lfAPI_dotWid f gf ops m =
     (let (x, m) = mPop m; wid = (ucast x :: u8) in
      if uint wid \<ge> wids_pointer (env m) then Some (ERR_SEARCH_ORDER_OVERFLOW, m)
      else
        let s = wname (wids (env m) ! unat wid)
        in if s = [] then lfDot f gf ops (ucast wid) m
           else andThen (lf_puts f gf ops s m) (lfSpace f gf ops))"

section \<open>Lookup\<close>

definition visible :: "string option \<Rightarrow> u32 \<Rightarrow> s_head \<Rightarrow> bool" where
  "visible target flags h \<longleftrightarrow>
     (case target of None \<Rightarrow> True | Some s \<Rightarrow> TheStringsMatch (hname h) s) \<and>
     haux h AND A_SMUDGED = 0 \<and> haux h AND flags = flags"

text \<open>Where the header found is, if one is, and the w of the last one passed over that is not a constant.\<close>

partial_function (option) search_loop ::
  "'a dict_env_scheme \<Rightarrow> vm_mem \<Rightarrow> string option \<Rightarrow> u32 \<Rightarrow> u32 \<Rightarrow> u32 \<Rightarrow> (head_ref option \<times> u32) option" where
  "search_loop e mem target flags g link =
     (case followRef e mem link of
        None \<Rightarrow> Some (None, g)
      | Some r \<Rightarrow>
          let h = head_at e mem r in
          if visible target flags h then Some (Some r, g)
          else search_loop e mem target flags (if haux h AND A_CONSTANT = 0 then hw h else g) (hlink h))"

definition search_wordlist ::
  "int \<Rightarrow> string option \<Rightarrow> u32 \<Rightarrow> 'a dict_env_scheme machine \<Rightarrow> (head_ref option \<times> 'a dict_env_scheme machine) option" where
  "search_wordlist wid target flags m =
     (if wid < 0 \<or> wid \<ge> wids_pointer (env m) then Some (None, m)
      else map_option (\<lambda>(h, g). (h, upd_comp (\<lambda>e. e\<lparr>g_neighbor_w := g\<rparr>) m))
        (search_loop (env m) (vmem m) target flags (g_neighbor_w (env m)) (whead (wids (env m) ! nat wid))))"

fun context_loop ::
  "nat list \<Rightarrow> string option \<Rightarrow> u32 \<Rightarrow> 'a dict_env_scheme machine \<Rightarrow> (head_ref option \<times> 'a dict_env_scheme machine) option" where
  "context_loop [] target flags m = Some (None, m)"
| "context_loop (i # is) target flags m =
     (if CONTEXT m i = - 1 then Some (None, m)
      else
        (case search_wordlist (CONTEXT m i) target flags m of
           None \<Rightarrow> None
         | Some (Some h, m) \<Rightarrow> Some (Some h, m)
         | Some (None, m) \<Rightarrow> context_loop is target flags m))"

definition lfSearchContext ::
  "string option \<Rightarrow> u32 \<Rightarrow> 'a dict_env_scheme machine \<Rightarrow> (head_ref option \<times> 'a dict_env_scheme machine) option" where
  "lfSearchContext target flags m = context_loop [0..<unat CONTEXT_SIZE] target flags m"

definition search_context ::
  "string \<Rightarrow> 'a dict_env_scheme machine \<Rightarrow> (head_ref option \<times> 'a dict_env_scheme machine) option" where
  "search_context s m = lfSearchContext (Some s) 0 m"

text \<open>A word with a flag by the next name of the input; when there is none, the name is left there.\<close>

definition lfParseLabel :: "'a dict_env_scheme machine \<Rightarrow> (head_ref option \<times> 'a dict_env_scheme machine) option" where
  "lfParseLabel m =
     (let toin = lfTOINfetch m in
      case lfParseWord 32 m of
        None \<Rightarrow> None
      | Some (ior, token, m) \<Rightarrow>
          (case (if ior = 0 then lfSearchContext (Some token) A_UNRESOLVED m else Some (None, m)) of
             None \<Rightarrow> None
           | Some (Some h, m) \<Rightarrow> Some (Some h, m)
           | Some (None, m) \<Rightarrow> Some (None, snd (lfTOINstore toin m))))"

definition lfTickWord :: "'a dict_env_scheme machine \<Rightarrow> (head_ref option \<times> 'a dict_env_scheme machine) option" where
  "lfTickWord m =
     (case lfParseWord 32 m of
        None \<Rightarrow> None
      | Some (ior, token, m) \<Rightarrow> if ior \<noteq> 0 then Some (None, m) else search_context token m)"

text \<open>The name of a value: the first visible word whose w matches.\<close>

partial_function (option) label_loop ::
  "'a dict_env_scheme \<Rightarrow> vm_mem \<Rightarrow> u32 \<Rightarrow> u32 \<Rightarrow> u32 \<Rightarrow> u32 \<Rightarrow> u32 \<Rightarrow> string option option" where
  "label_loop e mem val m must expected link =
     (case lfFollow e mem link of
        None \<Rightarrow> Some None
      | Some h \<Rightarrow>
          if hw h AND must = expected \<and> hw h AND m = val \<and> haux h AND A_SMUDGED = 0 then Some (Some (hname h))
          else label_loop e mem val m must expected (hlink h))"

fun find_label ::
  "nat list \<Rightarrow> u32 \<Rightarrow> u32 \<Rightarrow> u32 \<Rightarrow> u32 \<Rightarrow> 'a dict_env_scheme machine \<Rightarrow> string option option" where
  "find_label [] val mk must expected m = Some None"
| "find_label (i # is) val mk must expected m =
     (if CONTEXT m i = - 1 then Some None
      else
        (case label_loop (env m) (vmem m) val mk must expected (whead (wids (env m) ! nat (CONTEXT m i))) of
           None \<Rightarrow> None
         | Some (Some n) \<Rightarrow> Some (Some n)
         | Some None \<Rightarrow> find_label is val mk must expected m))"

definition lfFindLabel :: "u32 \<Rightarrow> u32 \<Rightarrow> u32 \<Rightarrow> u32 \<Rightarrow> 'a dict_env_scheme machine \<Rightarrow> string option option" where
  "lfFindLabel val mk must expected m = find_label [0..<unat CONTEXT_SIZE] val mk must expected m"

section \<open>Names match but for case\<close>

lemma match_lower: "TheStringsMatch s t \<longleftrightarrow> map lower_char s = map lower_char t"
  by (induction s t rule: TheStringsMatch.induct) auto

section \<open>Lists of headers\<close>

text \<open>A link that leads through the given headers to an end, as a relation: a list that ends is what a
  search needs to return.\<close>

inductive chain :: "'a dict_env_scheme \<Rightarrow> vm_mem \<Rightarrow> u32 \<Rightarrow> head_ref list \<Rightarrow> bool"
  for e :: "'a dict_env_scheme" and mem :: vm_mem where
  chain_end: "followRef e mem link = None \<Longrightarrow> chain e mem link []"
| chain_step: "\<lbrakk>followRef e mem link = Some r; chain e mem (hlink (head_at e mem r)) rs\<rbrakk> \<Longrightarrow> chain e mem link (r # rs)"

inductive_simps chain_Nil: "chain e mem link []"
inductive_simps chain_Cons: "chain e mem link (r # rs)"

lemma chain_unique: "chain e mem link rs \<Longrightarrow> chain e mem link rs' \<Longrightarrow> rs = rs'"
proof (induction arbitrary: rs' rule: chain.induct)
  case (chain_end link)
  then show ?case by (cases rs') (simp_all add: chain_Cons)
next
  case (chain_step link r rs)
  then obtain rs2 where "rs' = r # rs2" "chain e mem (hlink (head_at e mem r)) rs2"
    by (elim chain.cases [of e mem link rs']) simp_all
  then show ?case using chain_step.IH by simp
qed

text \<open>A search over a list that ends gives its first visible header.\<close>

lemma search_chain:
  "chain e mem link rs \<Longrightarrow>
   \<exists>g'. search_loop e mem target flags g link = Some (find (\<lambda>r. visible target flags (head_at e mem r)) rs, g')"
proof (induction arbitrary: g rule: chain.induct)
  case (chain_end link)
  then show ?case by (simp add: search_loop.simps [of _ _ _ _ _ link])
next
  case (chain_step link r rs)
  then show ?case by (simp add: search_loop.simps [of _ _ _ _ _ link] Let_def)
qed

lemma search_wordlist_chain:
  assumes "chain (env m) (vmem m) (whead (wids (env m) ! nat wid)) rs" "0 \<le> wid" "wid < wids_pointer (env m)"
  shows "\<exists>g. search_wordlist wid target flags m =
    Some (find (\<lambda>r. visible target flags (head_at (env m) (vmem m) r)) rs, upd_comp (\<lambda>e. e\<lparr>g_neighbor_w := g\<rparr>) m)"
  using search_chain [OF assms(1), of target flags "g_neighbor_w (env m)"] assms(2,3)
  by (auto simp: search_wordlist_def)

section \<open>The built-in dictionary\<close>

definition row_head :: "u32 \<Rightarrow> row \<Rightarrow> s_head" where
  "row_head link r = (case r of (n, w, aux) \<Rightarrow> \<lparr>hw = w, haux = aux, hlink = link, hname = n\<rparr>)"

text \<open>A table in C memory: its addresses are those of C structs (multiples of 4, not NULL) and do not wrap.\<close>

definition placed :: "'a dict_env_scheme \<Rightarrow> u32 \<Rightarrow> u32 \<Rightarrow> row list \<Rightarrow> bool" where
  "placed e base prev rs \<longleftrightarrow>
     base AND 3 = 0 \<and> 0 < unat base \<and> unat base + 16 * length rs < 2 ^ 32 \<and>
     (\<forall>i < length rs. c_heads e (base + 16 * word_of_nat i) = table_at base prev rs (base + 16 * word_of_nat i))"

lemma row_address: "unat base + 16 * n < 2 ^ 32 \<Longrightarrow> i \<le> n \<Longrightarrow>
    unat (base + 16 * word_of_nat i :: u32) = unat base + 16 * i"
  by (simp add: unat_word_ariths unsigned_of_nat take_bit_nat_eq_self)

lemma table_row:
  "\<lbrakk>i < length rs; unat base + 16 * length rs < 2 ^ 32\<rbrakk> \<Longrightarrow>
   table_at base prev rs (base + 16 * word_of_nat i) =
     Some (row_head (if i = 0 then prev else base + 16 * word_of_nat (i - 1)) (rs ! i))"
proof (induction rs arbitrary: base prev i)
  case (Cons r rs)
  obtain n w aux where r: "r = (n, w, aux)" by (cases r) auto
  show ?case
  proof (cases i)
    case 0
    then show ?thesis by (simp add: r row_head_def)
  next
    case (Suc j)
    have a: "unat (base + 16 :: u32) = unat base + 16"
      using Cons.prems(2) by (simp add: unat_word_ariths)
    have ne: "base + 16 * word_of_nat i \<noteq> base"
      using row_address [OF Cons.prems(2), of i] Cons.prems(1) Suc by auto
    have "table_at base prev (r # rs) (base + 16 * word_of_nat i) =
        table_at (base + 16) base rs (base + 16 + 16 * word_of_nat j)"
      using ne by (simp add: r Suc algebra_simps)
    also have "\<dots> = Some (row_head (if j = 0 then base else base + 16 + 16 * word_of_nat (j - 1)) (rs ! j))"
      using Cons.IH [of j "base + 16" base] Cons.prems Suc a by simp
    also have "(if j = 0 then base else base + 16 + 16 * word_of_nat (j - 1)) = base + 16 * word_of_nat j"
      by (cases j) (simp_all add: algebra_simps)
    finally show ?thesis by (simp add: Suc)
  qed
qed simp

lemma aligned_address: "base AND 3 = 0 \<Longrightarrow> (base + 16 * x) AND 3 = (0 :: u32)"
proof -
  have m: "y AND 3 = 0 \<longleftrightarrow> 4 dvd unat y" for y :: u32
  proof -
    have "y AND 3 = take_bit 2 y"
      by (simp add: take_bit_eq_mask mask_eq_exp_minus_1)
    then have "unat (y AND 3) = unat y mod 4"
      by (simp add: unsigned_take_bit_eq take_bit_eq_mod [where 'a = nat])
    then show ?thesis
      by (metis dvd_eq_mod_eq_0 unat_eq_zero)
  qed
  have "4 dvd unat (base + 16 * x)" if "4 dvd unat base"
    using that by (simp add: unat_word_ariths dvd_mod_iff dvd_mod mod_simps)
  then show "base AND 3 = 0 \<Longrightarrow> (base + 16 * x) AND 3 = (0 :: u32)"
    by (simp add: m)
qed

end
