(* ===== verification/LF_Sealed.thy ===== *)
theory LF_Sealed
  imports LF_Ctr LF_Blake2s
begin

text \<open>
  Firmware update packages, \<^verbatim>\<open>src/src/sealed.c\<close> (built without \<^verbatim>\<open>SEALED_POOL\<close>): \<open>mount\<close> checks block 0 of
  a package and finds the board's content key, \<open>sealed_open_block\<close> checks a block against the hash tables and
  decrypts it, \<open>check_package\<close> checks a whole package. Ed25519 and X25519 are Monocypher's, and
  \<open>ctr_crypt_block\<close> is the build's: they are fields of \<open>seal_env\<close>. BLAKE2s and the key schedule are the
  models of LF_Blake2s and LF_Ctr. Messages are a datatype of reasons instead of text.

  The theorems: whatever is mounted has a block 0 signed by a release key that the root certifies, the hash
  of a block opened is in a table whose hash is in the signed bytes of block 0, and a package that passes
  has an image of the length and hash that block 0 says.
\<close>

section \<open>Layout\<close>

definition FORMAT_VERSION :: u8 where [const_defs]: "FORMAT_VERSION = 1"
definition SEALED_BLOCK_BYTES :: nat where [const_defs]: "SEALED_BLOCK_BYTES = 4096"
definition PER_TABLE :: u32 where [const_defs]: "PER_TABLE = 256"
definition ENTRY :: nat where [const_defs]: "ENTRY = 16"
definition TABLE_HASHES :: u32 where [const_defs]: "TABLE_HASHES = 192"
definition RECIPIENT :: u32 where [const_defs]: "RECIPIENT = 24"
definition SIG_AT :: nat where [const_defs]: "SIG_AT = SEALED_BLOCK_BYTES - 64"
definition IMAGE_HASH_AT :: nat where [const_defs]: "IMAGE_HASH_AT = SIG_AT - 32"
definition MMODE_SIG_AT :: nat where [const_defs]: "MMODE_SIG_AT = IMAGE_HASH_AT - 104"

definition SEALED_V5F :: u32 where [const_defs]: "SEALED_V5F = 1"
definition SEALED_STAGE1 :: u32 where [const_defs]: "SEALED_STAGE1 = 2"
definition SEALED_V5F_APP :: u32 where [const_defs]: "SEALED_V5F_APP = 3"

text \<open>A C string as bytes, and \<open>n\<close> bytes at an offset.\<close>

definition ascii :: "string \<Rightarrow> u8 list" where
  "ascii s = map (\<lambda>c. word_of_nat (of_char c :: nat)) s"

definition bytes_at :: "u8 list \<Rightarrow> nat \<Rightarrow> nat \<Rightarrow> u8 list" where
  "bytes_at h p n = take n (drop p h)"

definition PACKAGE_MAGIC :: "u8 list" where "PACKAGE_MAGIC = ascii ''LITEFORTHF''"
definition SEALED_MAGIC :: "u8 list" where "SEALED_MAGIC = ascii ''LITEFORTHS''"

definition get16 :: "u8 list \<Rightarrow> u32" where
  "get16 p = ucast (p ! 0) OR push_bit 8 (ucast (p ! 1))"

definition get32 :: "u8 list \<Rightarrow> u32" where
  "get32 p = get16 p OR push_bit 16 (get16 (drop 2 p))"

definition le64 :: "u32 \<Rightarrow> u8 list" where
  "le64 x = copy_at 0 (map (\<lambda>i. ucast (drop_bit (8 * i) x)) [0..<4]) (replicate 8 0)"

text \<open>\<open>sealed_not_blocks\<close>: why block 0 is not a block file's.\<close>

datatype not_blocks = AnUpdatePackage | ASealedBlockFile

definition sealed_not_blocks :: "u8 list \<Rightarrow> not_blocks option" where
  "sealed_not_blocks b0 =
     (if take 10 b0 = PACKAGE_MAGIC then Some AnUpdatePackage
      else if take 10 b0 = SEALED_MAGIC then Some ASealedBlockFile else None)"

section \<open>State\<close>

record sealed_board =
  board_uid :: "u8 list"
  private_key :: "u8 list"
  root :: "u8 list"
  product :: u32
  min_revision :: u32
  min_serial :: u32

record sealed_package =
  component :: u32
  hw_rev :: u32
  pkg_len :: u32
  min_version :: u32
  version :: u32
  image_hash :: "u8 list"
  mmode_addr :: u32
  mmode_len :: u32
  mmode_hash :: "u8 list"

text \<open>A reader gets a block number and returns an error, the block and the device after it.\<close>

type_synonym 'x sealed_read = "u32 \<Rightarrow> 'x \<Rightarrow> int \<times> u8 list \<times> 'x"

record 'x sealed_state =
  header :: "u8 list"
  table :: "u8 list"
  table_index :: u32
  skey :: ctr_key
  snonce :: "u8 list"
  content_end :: u32
  tables :: u32
  keyless :: bool
  read_raw :: "'x sealed_read option"

text \<open>\<open>ed25519_check\<close> (signature, public key, message) holds when Monocypher returns 0.\<close>

record seal_env =
  ed25519_check :: "u8 list \<Rightarrow> u8 list \<Rightarrow> u8 list \<Rightarrow> bool"
  seal_x25519 :: "u8 list \<Rightarrow> u8 list \<Rightarrow> u8 list"
  seal_x25519_public_key :: "u8 list \<Rightarrow> u8 list"
  seal_crypt_block :: "ctr_key \<Rightarrow> u8 list \<Rightarrow> u32 \<Rightarrow> u8 list \<Rightarrow> int \<times> u8 list"

datatype refusal =
  NotAPackage | UnknownVersion | UnknownCipher | UnknownFlags | OtherProduct | BadCounts | RecipientsDontFit
| ShortFile | ReservedData | UnknownComponent | UnknownImageFlags | LengthMismatch | BadCertificate
| ReplacedKey | BadSignature | OldRevision | MmodeData | MmodeSignature | NotARecipient | BadEphemeral | NoUnwrap

datatype seal_msg =
  NoMessage | Refused refusal | SignedOnly u32 u32 | Mounted u32 u32 u8 u32
| BlockFails u32 | ImageMismatch | Checked bool u32 u32 u32

datatype unwrap = KEYLESS | UNWRAP | SIGNED_ONLY

section \<open>Hashes\<close>

text \<open>\<open>b2s\<close>: BLAKE2s of data with a size, key, salt (NULL is None) and personalization.\<close>

definition person :: "string \<Rightarrow> u8 list" where
  "person s = copy_at 0 (take 8 (ascii s)) (replicate 8 0)"

definition b2s :: "int \<Rightarrow> u8 list \<Rightarrow> u8 list option \<Rightarrow> string \<Rightarrow> u8 list \<Rightarrow> u8 list" where
  "b2s n k salt p data =
     (let S = snd (b2s_init n k salt (Some (person p)) blake2s_init0);
          S = b2s_hmac_puts data S
      in fst (snd (b2s_hmac_final S)))"

section \<open>Mounting\<close>

definition sealed_unmount :: "'x sealed_state \<Rightarrow> 'x sealed_state" where
  "sealed_unmount s =
     s\<lparr>skey := ctr_wipe (skey s), snonce := replicate 8 0, content_end := 0, tables := 0, keyless := False,
       table_index := - 1, read_raw := None\<rparr>"

definition fail :: "refusal \<Rightarrow> 'x sealed_state \<Rightarrow> ior \<times> seal_msg \<times> 'x sealed_state" where
  "fail why s = (ERR_BLK_PARSE_FAIL, Refused why, sealed_unmount s)"

text \<open>The recipients start after the hashes of \<open>t\<close> tables.\<close>

definition recipients_at :: "u32 \<Rightarrow> u32" where
  "recipients_at t = TABLE_HASHES + 32 * t"

text \<open>The fields, in the order \<open>mount\<close> checks them.\<close>

definition fields_error :: "u8 list \<Rightarrow> u32 \<Rightarrow> sealed_board \<Rightarrow> refusal option" where
  "fields_error h file_blocks board =
     (let c = get32 (drop 24 h); t = get16 (drop 28 h); r = get16 (drop 30 h);
          stop = recipients_at t + RECIPIENT * r
      in if take 10 h \<noteq> PACKAGE_MAGIC then Some NotAPackage
      else if h ! 10 \<noteq> FORMAT_VERSION then Some UnknownVersion
      else if h ! 11 \<noteq> word_of_int CTR_AES128 \<and> h ! 11 \<noteq> word_of_int CTR_SM4 then Some UnknownCipher
      else if get32 (drop 12 h) \<noteq> 0 then Some UnknownFlags
      else if get32 (drop 16 h) \<noteq> product board then Some OtherProduct
      else if c < 2 \<or> t \<noteq> (c + PER_TABLE - 1) div PER_TABLE then Some BadCounts
      else if r = 0 \<or> stop > word_of_nat MMODE_SIG_AT then Some RecipientsDontFit
      else if c + t < c \<or> c + t > file_blocks then Some ShortFile
      else if list_ex (\<lambda>b. b \<noteq> 0) (drop (unat stop) (take MMODE_SIG_AT h)) then Some ReservedData
      else None)"

definition describe :: "u8 list \<Rightarrow> sealed_package \<Rightarrow> sealed_package" where
  "describe h pkg =
     pkg\<lparr>component := ucast (h ! 180), hw_rev := get16 (drop 182 h), pkg_len := get32 (drop 184 h),
         min_version := get32 (drop 188 h), version := get32 (drop 20 h),
         image_hash := bytes_at h IMAGE_HASH_AT 32\<rparr>"

definition image_error :: "u8 list \<Rightarrow> sealed_package \<Rightarrow> refusal option" where
  "image_error h pkg =
     (let c = get32 (drop 24 h) in
      if component pkg \<noteq> SEALED_V5F \<and> component pkg \<noteq> SEALED_STAGE1 \<and> component pkg \<noteq> SEALED_V5F_APP
      then Some UnknownComponent
      else if h ! 181 \<noteq> 0 then Some UnknownImageFlags
      else if pkg_len pkg \<le> (c - 2) * word_of_nat SEALED_BLOCK_BYTES \<or>
              pkg_len pkg > (c - 1) * word_of_nat SEALED_BLOCK_BYTES then Some LengthMismatch
      else None)"

definition certificate :: "u8 list \<Rightarrow> u8 list" where
  "certificate h = bytes_at h 16 4 @ bytes_at h 80 36"

definition signature_error :: "seal_env \<Rightarrow> u8 list \<Rightarrow> sealed_board \<Rightarrow> refusal option" where
  "signature_error env h board =
     (if \<not> ed25519_check env (bytes_at h 116 64) (root board) (certificate h) then Some BadCertificate
      else if get32 (drop 80 h) < min_serial board then Some ReplacedKey
      else if \<not> ed25519_check env (bytes_at h SIG_AT 64) (bytes_at h 84 32) (take SIG_AT h) then Some BadSignature
      else if get32 (drop 20 h) < min_revision board then Some OldRevision
      else None)"

text \<open>The root's signature of the machine-mode region.\<close>

definition mmode_fields :: "u8 list \<Rightarrow> sealed_package \<Rightarrow> sealed_package" where
  "mmode_fields h pkg =
     pkg\<lparr>mmode_addr := get32 (drop MMODE_SIG_AT h), mmode_len := get32 (drop (MMODE_SIG_AT + 4) h),
         mmode_hash := bytes_at h (MMODE_SIG_AT + 8) 32\<rparr>"

definition mmode_error :: "seal_env \<Rightarrow> u8 list \<Rightarrow> sealed_board \<Rightarrow> refusal option" where
  "mmode_error env h board =
     (let ms = drop MMODE_SIG_AT h in
      if get32 ms = 0 then (if list_ex (\<lambda>b. b \<noteq> 0) (take 104 ms) then Some MmodeData else None)
      else if \<not> ed25519_check env (bytes_at ms 40 64) (root board)
                (bytes_at h 16 4 @ bytes_at ms 0 8 @ bytes_at ms 8 32) then Some MmodeSignature
      else None)"

text \<open>The board's entry among the recipients, and its content key.\<close>

definition find_recipient :: "u8 list \<Rightarrow> u8 list \<Rightarrow> nat option" where
  "find_recipient h uid =
     (let t = get16 (drop 28 h); r = get16 (drop 30 h) in
      find (\<lambda>e. bytes_at h e 8 = uid)
        (map (\<lambda>i. unat (recipients_at t + RECIPIENT * word_of_nat i)) [0..<unat r]))"

definition content_key :: "seal_env \<Rightarrow> u8 list \<Rightarrow> sealed_board \<Rightarrow> nat \<Rightarrow> refusal + ctr_key" where
  "content_key env h board e =
     (let shared = seal_x25519 env (private_key board) (bytes_at h 40 32);
          board_pub = seal_x25519_public_key env (private_key board)
      in if shared = replicate 32 0 then Inl BadEphemeral
      else
        let pubs = bytes_at h 40 32 @ board_pub;
            salt = bytes_at h 20 4 @ bytes_at h 16 4;
            kek = b2s 16 shared (Some salt) ''LFwrap'' pubs;
            cek = map2 (XOR) (bytes_at h (e + 8) 16) kek;
            check = b2s 8 cek None ''LFcheck'' (bytes_at h 32 8)
        in if check = bytes_at h 72 8 then Inr (snd (ctr_setkey (uint (h ! 11)) cek)) else Inl NoUnwrap)"

definition mounted ::
  "'x sealed_read option \<Rightarrow> 'x sealed_state \<Rightarrow> ior \<times> seal_msg \<times> 'x sealed_state" where
  "mounted read s =
     (let h = header s in
      (0, Mounted (get32 (drop 20 h)) (get32 (drop 80 h)) (h ! 11) (get32 (drop 24 h)),
       s\<lparr>snonce := bytes_at h 32 8, content_end := get32 (drop 24 h), tables := get16 (drop 28 h),
         read_raw := read\<rparr>))"

definition mount_key ::
  "seal_env \<Rightarrow> sealed_board \<Rightarrow> 'x sealed_read option \<Rightarrow> unwrap \<Rightarrow> 'x sealed_state \<Rightarrow>
    ior \<times> seal_msg \<times> 'x sealed_state" where
  "mount_key env board read u s =
     (let h = header s in
      if u = SIGNED_ONLY
      then (0, SignedOnly (get32 (drop 20 h)) (get32 (drop 80 h)), sealed_unmount s)
      else
        (case find_recipient h (board_uid board) of
           None \<Rightarrow> fail NotARecipient s
         | Some e \<Rightarrow>
             if u = KEYLESS then mounted read (s\<lparr>keyless := True\<rparr>)
             else
               (case content_key env h board e of
                  Inl why \<Rightarrow> fail why s
                | Inr k \<Rightarrow> mounted read (s\<lparr>skey := k\<rparr>))))"

definition mount ::
  "seal_env \<Rightarrow> u8 list \<Rightarrow> u32 \<Rightarrow> sealed_board \<Rightarrow> 'x sealed_read option \<Rightarrow> sealed_package \<Rightarrow> unwrap \<Rightarrow>
    'x sealed_state \<Rightarrow> ior \<times> seal_msg \<times> sealed_package \<times> 'x sealed_state" where
  "mount env b0 file_blocks board read pkg u s =
     (let s = (sealed_unmount s)\<lparr>header := take SEALED_BLOCK_BYTES b0\<rparr>; h = header s in
      case fields_error h file_blocks board of
        Some why \<Rightarrow> let (err, msg, s) = fail why s in (err, msg, pkg, s)
      | None \<Rightarrow>
          let pkg = describe h pkg in
          (case image_error h pkg of
             Some why \<Rightarrow> let (err, msg, s) = fail why s in (err, msg, pkg, s)
           | None \<Rightarrow>
               (case signature_error env h board of
                  Some why \<Rightarrow> let (err, msg, s) = fail why s in (err, msg, pkg, s)
                | None \<Rightarrow>
                    let pkg = mmode_fields h pkg in
                    (case mmode_error env h board of
                       Some why \<Rightarrow> let (err, msg, s) = fail why s in (err, msg, pkg, s)
                     | None \<Rightarrow>
                         let (err, msg, s) = mount_key env board read u s in (err, msg, pkg, s)))))"

definition sealed_mount_package ::
  "seal_env \<Rightarrow> u8 list \<Rightarrow> u32 \<Rightarrow> sealed_board \<Rightarrow> 'x sealed_read \<Rightarrow> sealed_package \<Rightarrow> 'x sealed_state \<Rightarrow>
    ior \<times> seal_msg \<times> sealed_package \<times> 'x sealed_state" where
  "sealed_mount_package env b0 file_blocks board read pkg s =
     mount env b0 file_blocks board (Some read) pkg UNWRAP s"

definition sealed_check_signed ::
  "seal_env \<Rightarrow> u8 list \<Rightarrow> sealed_board \<Rightarrow> sealed_package \<Rightarrow> 'x sealed_state \<Rightarrow>
    ior \<times> seal_msg \<times> sealed_package \<times> 'x sealed_state" where
  "sealed_check_signed env b0 board pkg s = mount env b0 (- 1) board None pkg SIGNED_ONLY s"

definition sealed_blocks :: "'x sealed_state \<Rightarrow> u32" where
  "sealed_blocks s = content_end s"

section \<open>Opening a block\<close>

text \<open>The hash table that covers a block: read and checked, unless it is the one read last.\<close>

definition load_table ::
  "u32 \<Rightarrow> 'x sealed_state \<Rightarrow> 'x \<Rightarrow> ior \<times> bool \<times> 'x sealed_state \<times> 'x" where
  "load_table t s x =
     (if t = table_index s then (0, True, s, x)
      else
        let s = s\<lparr>table_index := - 1\<rparr>;
            (err, tb, x) = the (read_raw s) (content_end s + t) x;
            s = s\<lparr>table := tb\<rparr>
        in if err \<noteq> 0 then (err, True, s, x)
           else if b2s 32 [] (Some (le64 t)) ''LFtable'' tb \<noteq> bytes_at (header s) (unat (recipients_at t)) 32
           then (ERR_BLOCK_READ_ERROR, False, s, x)
           else (0, True, s\<lparr>table_index := t\<rparr>, x))"

definition zeroed :: "u8 list" where
  "zeroed = replicate SEALED_BLOCK_BYTES 0"

definition sealed_open_block ::
  "seal_env \<Rightarrow> u32 \<Rightarrow> u8 list \<Rightarrow> 'x sealed_state \<Rightarrow> 'x \<Rightarrow> ior \<times> u8 list \<times> 'x sealed_state \<times> 'x" where
  "sealed_open_block env n buf s x =
     (if n = 0 then (0, buf, s, x)
      else if n \<ge> content_end s then (ERR_BLK_BOUNDS, buf, s, x)
      else
        let t = n div PER_TABLE; (err, kept, s, x) = load_table t s x in
        if err \<noteq> 0 then (err, if kept then buf else zeroed, s, x)
        else if b2s 16 [] (Some (le64 n)) ''LFblock'' buf \<noteq> bytes_at (table s) (ENTRY * unat (n mod PER_TABLE)) 16
        then (ERR_BLOCK_READ_ERROR, zeroed, s, x)
        else if keyless s then (0, buf, s, x)
        else
          let (e, out) = seal_crypt_block env (skey s) (snonce s) n buf in
          if e \<noteq> 0 then (ERR_BLOCK_READ_ERROR, zeroed, s, x) else (0, out, s, x))"

section \<open>A whole package\<close>

text \<open>The bytes of block \<open>n\<close> that are the image's. Nothing in the loop changes \<open>content_end\<close>, so its blocks
  are a list.\<close>

definition image_part :: "sealed_package \<Rightarrow> u32 \<Rightarrow> nat" where
  "image_part pkg n =
     (let start = (n - 1) * word_of_nat SEALED_BLOCK_BYTES in
      unat (if pkg_len pkg - start < word_of_nat SEALED_BLOCK_BYTES then pkg_len pkg - start
            else word_of_nat SEALED_BLOCK_BYTES))"

primrec check_blocks ::
  "seal_env \<Rightarrow> 'x sealed_read \<Rightarrow> sealed_package \<Rightarrow> bool \<Rightarrow> u32 list \<Rightarrow> blake2s_state \<Rightarrow> 'x sealed_state \<Rightarrow> 'x \<Rightarrow>
    ior \<times> seal_msg \<times> blake2s_state \<times> 'x sealed_state \<times> 'x" where
  "check_blocks env read pkg decrypt [] S s x = (0, NoMessage, S, s, x)"
| "check_blocks env read pkg decrypt (n # ns) S s x =
     (let (err, buf, x) = read n x;
          (err, buf, s, x) = (if err = 0 then sealed_open_block env n buf s x else (err, buf, s, x))
      in if err \<noteq> 0 then (err, BlockFails n, S, s, x)
         else if \<not> decrypt then check_blocks env read pkg decrypt ns S s x
         else check_blocks env read pkg decrypt ns (b2s_hmac_puts (take (image_part pkg n) buf) S) s x)"

definition content_blocks :: "'x sealed_state \<Rightarrow> u32 list" where
  "content_blocks s = map word_of_nat [1..<unat (content_end s)]"

definition image_start :: blake2s_state where
  "image_start = snd (b2s_init 32 [] None (Some (person ''LFimage'')) blake2s_init0)"

definition check_package ::
  "seal_env \<Rightarrow> u32 \<Rightarrow> sealed_board \<Rightarrow> 'x sealed_read \<Rightarrow> sealed_package \<Rightarrow> unwrap \<Rightarrow> 'x sealed_state \<Rightarrow> 'x \<Rightarrow>
    ior \<times> seal_msg \<times> sealed_package \<times> 'x sealed_state \<times> 'x" where
  "check_package env file_blocks board read pkg u s x =
     (let b = board\<lparr>min_revision := 0\<rparr>;
          (err, buf, x) = read 0 x;
          (err, msg, pkg, s) =
            (if err = 0 then mount env buf file_blocks b (Some read) pkg u s else (err, NoMessage, pkg, s))
      in if err \<noteq> 0 then (err, msg, pkg, sealed_unmount s, x)
      else
        let (err, msg, S, s, x) = check_blocks env read pkg (u \<noteq> KEYLESS) (content_blocks s) image_start s x;
            h = fst (snd (b2s_hmac_final S));
            s = sealed_unmount s
        in if err \<noteq> 0 then (err, msg, pkg, s, x)
           else if u \<noteq> KEYLESS \<and> h \<noteq> image_hash pkg then (ERR_BLOCK_READ_ERROR, ImageMismatch, pkg, s, x)
           else (0, Checked (u \<noteq> KEYLESS) (component pkg) (pkg_len pkg) (version pkg), pkg, s, x))"

definition sealed_check_package ::
  "seal_env \<Rightarrow> u32 \<Rightarrow> sealed_board \<Rightarrow> 'x sealed_read \<Rightarrow> sealed_package \<Rightarrow> 'x sealed_state \<Rightarrow> 'x \<Rightarrow>
    ior \<times> seal_msg \<times> sealed_package \<times> 'x sealed_state \<times> 'x" where
  "sealed_check_package env file_blocks board read pkg s x = check_package env file_blocks board read pkg UNWRAP s x"

definition sealed_verify_package ::
  "seal_env \<Rightarrow> u32 \<Rightarrow> sealed_board \<Rightarrow> 'x sealed_read \<Rightarrow> sealed_package \<Rightarrow> 'x sealed_state \<Rightarrow> 'x \<Rightarrow>
    ior \<times> seal_msg \<times> sealed_package \<times> 'x sealed_state \<times> 'x" where
  "sealed_verify_package env file_blocks board read pkg s x = check_package env file_blocks board read pkg KEYLESS s x"

section \<open>Hashes are RFC 7693's\<close>

lemma length_store_all: "length (concat (map store32 ws)) = 4 * length ws"
  by (induction ws) simp_all

lemma length_rfc_blocks [simp]: "length (rfc_blocks h t m) = 8"
  by (induction h t m rule: rfc_blocks.induct) (subst rfc_blocks.simps, simp add: compress_h_def Let_def)

lemma length_rfc7693: "\<lbrakk>0 \<le> n; n \<le> 32\<rbrakk> \<Longrightarrow> length (rfc7693 n k salt p msg) = nat n"
  by (simp add: rfc7693_def length_store_all)

lemma fresh_hash:
  assumes "1 \<le> n" "n \<le> 32" "length k \<le> 32"
  shows "fst (snd (b2s_hmac_final (fold b2s_hmac_puts chunks (snd (b2s_init n k salt p S0))))) =
    rfc7693 n k (or_zeros salt) (or_zeros p) (concat chunks)"
proof -
  obtain S where S: "b2s_init n k salt p S0 = (n, S)" "running S 0" "boutlen S = n"
    "bh S = start_h n k (or_zeros salt) (or_zeros p)" "bbuf S = (if k = [] then [] else pad64 k)"
    using init_cases [OF assms] by blast
  have "buf_ok S"
    using assms(3) by (simp add: buf_ok_def S(5))
  from running_puts_final [OF S(2) this, of chunks] show ?thesis
    by (auto simp: S rfc7693_def)
qed

lemma b2s_rfc:
  "\<lbrakk>1 \<le> n; n \<le> 32; length k \<le> 32\<rbrakk> \<Longrightarrow>
   b2s n k salt p data = rfc7693 n k (or_zeros salt) (or_zeros (Some (person p))) data"
  using fresh_hash [of n k "[data]" salt "Some (person p)" blake2s_init0] by (simp add: b2s_def Let_def)

lemma length_b2s: "\<lbrakk>1 \<le> n; n \<le> 32; length k \<le> 32\<rbrakk> \<Longrightarrow> length (b2s n k salt p data) = nat n"
  by (simp add: b2s_rfc length_rfc7693)

section \<open>An opened block is authentic\<close>

text \<open>Block \<open>n\<close> of a package is authentic under block 0 and a table when its hash is in the table and the
  table's hash is in block 0.\<close>

definition authentic :: "u8 list \<Rightarrow> u8 list \<Rightarrow> u32 \<Rightarrow> u8 list \<Rightarrow> bool" where
  "authentic h tb n buf \<longleftrightarrow>
     (let t = n div PER_TABLE in
      bytes_at h (unat (recipients_at t)) 32 = rfc7693 32 [] (le64 t) (person ''LFtable'') tb \<and>
      bytes_at tb (ENTRY * unat (n mod PER_TABLE)) 16 = rfc7693 16 [] (le64 n) (person ''LFblock'') buf)"

definition table_ok :: "'x sealed_state \<Rightarrow> bool" where
  "table_ok s \<longleftrightarrow> table_index s = - 1 \<or>
     b2s 32 [] (Some (le64 (table_index s))) ''LFtable'' (table s) =
       bytes_at (header s) (unat (recipients_at (table_index s))) 32"

definition same_mount :: "'x sealed_state \<Rightarrow> 'x sealed_state \<Rightarrow> bool" where
  "same_mount s s' \<longleftrightarrow> s' = s\<lparr>table := table s', table_index := table_index s'\<rparr>"

lemma same_mountD:
  assumes "same_mount s s'"
  shows "header s' = header s" "skey s' = skey s" "snonce s' = snonce s" "content_end s' = content_end s"
    "tables s' = tables s" "keyless s' = keyless s" "read_raw s' = read_raw s"
  by (subst assms [unfolded same_mount_def], simp)+

lemma same_mount_self [simp]: "same_mount s s"
  by (simp add: same_mount_def)

lemma same_mount_trans: "same_mount s s' \<Longrightarrow> same_mount s' s'' \<Longrightarrow> same_mount s s''"
  by (cases s; cases s'; cases s'') (simp add: same_mount_def)

lemma length_le64 [simp]: "length (le64 x) = 8"
  by (simp add: le64_def)

lemma length_person [simp]: "length (person p) = 8"
  by (simp add: person_def)

lemma or_zeros_8 [simp]: "length xs = 8 \<Longrightarrow> or_zeros (Some xs) = xs"
  by (simp add: or_zeros_def)

lemma table_number: "n div PER_TABLE \<noteq> - 1"
proof
  assume "n div PER_TABLE = - 1"
  then have "unat (n div 256) = unat (- 1 :: u32)"
    by (simp add: PER_TABLE_def)
  moreover have "unat (n div 256) \<le> unat n div 256"
    by (simp add: unat_div)
  moreover have "unat n < 2 ^ 32"
    using unsigned_less [of n] by simp
  ultimately show False
    by (simp add: unsigned_minus_1_eq_mask mask_eq_exp_minus_1)
qed

lemma load_table_ok:
  assumes "load_table t s x = (err, kept, s', x')" "table_ok s"
  shows "same_mount s s'" "table_ok s'" "err = 0 \<Longrightarrow> table_index s' = t"
  using assms by (auto simp: load_table_def table_ok_def same_mount_def Let_def split: if_splits prod.splits)

lemma open_block_ok:
  assumes "sealed_open_block env n buf s x = (err, out, s', x')" "table_ok s"
  shows "same_mount s s'" "table_ok s'"
    "err = 0 \<Longrightarrow> n \<noteq> 0 \<Longrightarrow> n < content_end s \<and> authentic (header s) (table s') n buf \<and>
      (if keyless s then out = buf else seal_crypt_block env (skey s) (snonce s) n buf = (0, out))"
proof -
  obtain e kept s1 x1 where l: "load_table (n div PER_TABLE) s x = (e, kept, s1, x1)"
    by (cases "load_table (n div PER_TABLE) s x") auto
  note ok = load_table_ok [OF l assms(2)]
  show "same_mount s s'" "table_ok s'"
    using assms ok by (auto simp: sealed_open_block_def l Let_def split: if_splits prod.splits)
  show "n < content_end s \<and> authentic (header s) (table s') n buf \<and>
      (if keyless s then out = buf else seal_crypt_block env (skey s) (snonce s) n buf = (0, out))"
    if "err = 0" "n \<noteq> 0"
  proof -
    have n: "\<not> n \<ge> content_end s" and e: "e = 0"
      using assms(1) that by (auto simp: sealed_open_block_def l Let_def split: if_splits prod.splits)
    note keep = same_mountD [OF ok(1)]
    have t: "b2s 32 [] (Some (le64 (n div PER_TABLE))) ''LFtable'' (table s1) =
        bytes_at (header s) (unat (recipients_at (n div PER_TABLE))) 32"
      using ok(2) ok(3) [OF e] table_number [of n] by (simp add: table_ok_def keep)
    show ?thesis
      using assms(1) that n t
      by (auto simp: sealed_open_block_def l e keep authentic_def b2s_rfc Let_def split: if_splits prod.splits)
  qed
qed

text \<open>C30: Once a package is mounted and its hash table cache is sound, a block that \<open>sealed_open_block\<close>
  opens is one of the package's content blocks, its BLAKE2s hash is the entry for its number in a hash
  table, and the hash of that table is the one in block 0; what comes out is the block decrypted with the
  content key (the block itself without the key), and the cache stays sound for the next one.\<close>

theorem open_block_authentic:
  assumes "table_ok s" "sealed_open_block env n buf s x = (0, out, s', x')" "n \<noteq> 0"
    and "seal_crypt_block env = ctr_crypt_block"
  shows "table_ok s' \<and> same_mount s s' \<and> n < content_end s \<and> authentic (header s) (table s') n buf \<and>
    out = (if keyless s then buf else ctr_crypt_block_sw (skey s) (snonce s) n buf)"
  using open_block_ok [OF assms(2,1)] assms(3,4) by (auto simp: ctr_crypt_block_def split: if_splits)

definition demo_env :: seal_env where
  "demo_env = \<lparr>ed25519_check = \<lambda>_ _ _. True, seal_x25519 = \<lambda>_ _. replicate 32 1,
     seal_x25519_public_key = \<lambda>_. replicate 32 2, seal_crypt_block = ctr_crypt_block\<rparr>"

definition demo_table :: "u8 list \<Rightarrow> u8 list" where
  "demo_table buf = replicate 16 0 @ b2s 16 [] (Some (le64 1)) ''LFblock'' buf @ replicate 4064 0"

definition demo_state :: "u8 list \<Rightarrow> unit sealed_state" where
  "demo_state buf =
     \<lparr>header = replicate 192 0 @ b2s 32 [] (Some (le64 0)) ''LFtable'' (demo_table buf) @ replicate 3872 0,
      table = [], table_index = - 1, skey = zero_key, snonce = replicate 8 0, content_end = 2, tables = 1,
      keyless = False, read_raw = Some (\<lambda>n x. (0, demo_table buf, x))\<rparr>"

lemma open_block_authentic_witness:
  "authentic (header (demo_state (replicate 4096 7))) (demo_table (replicate 4096 7)) 1 (replicate 4096 7) \<and>
   fst (snd (sealed_open_block demo_env 1 (replicate 4096 7) (demo_state (replicate 4096 7)) ())) =
     ctr_crypt_block_sw zero_key (replicate 8 0) 1 (replicate 4096 7)"
proof -
  define buf :: "u8 list" where "buf = replicate 4096 7"
  define s1 where "s1 = (demo_state buf)\<lparr>table := demo_table buf, table_index := 0\<rparr>"
  have l: "load_table 0 (demo_state buf) () = (0, True, s1, ())"
    by (simp add: load_table_def demo_state_def s1_def bytes_at_def recipients_at_def TABLE_HASHES_def length_b2s Let_def)
  have "table_ok (demo_state buf)"
    by (simp add: table_ok_def demo_state_def)
  moreover have "sealed_open_block demo_env 1 buf (demo_state buf) () =
      (0, ctr_crypt_block_sw zero_key (replicate 8 0) 1 buf, s1, ())"
    by (simp add: sealed_open_block_def PER_TABLE_def l)
       (simp add: word_le_nat demo_state_def s1_def demo_env_def ENTRY_def demo_table_def bytes_at_def length_b2s
         ctr_crypt_block_def)
  ultimately show ?thesis
    using open_block_authentic [where s = "demo_state buf" and env = demo_env and n = 1 and buf = buf and s' = s1]
    by (simp add: demo_env_def s1_def demo_state_def flip: buf_def)
qed

section \<open>A mounted package is signed\<close>

text \<open>What the signatures of a block 0 promise, for the board it was mounted on.\<close>

definition signed_header :: "seal_env \<Rightarrow> sealed_board \<Rightarrow> u8 list \<Rightarrow> bool" where
  "signed_header env board h \<longleftrightarrow>
     ed25519_check env (bytes_at h 116 64) (root board) (certificate h) \<and>
     ed25519_check env (bytes_at h SIG_AT 64) (bytes_at h 84 32) (take SIG_AT h) \<and>
     get32 (drop 16 h) = product board \<and> min_serial board \<le> get32 (drop 80 h) \<and>
     min_revision board \<le> get32 (drop 20 h)"

text \<open>Its parts lie one after the other in the signed bytes: the table hashes, the recipients, and the
  image's hash; the blocks are counted without wrapping, and the image fills all but the last of them.\<close>

definition well_laid :: "u8 list \<Rightarrow> u32 \<Rightarrow> bool" where
  "well_laid h len \<longleftrightarrow>
     (let c = unat (get32 (drop 24 h)); t = unat (get16 (drop 28 h)); r = unat (get16 (drop 30 h)) in
      2 \<le> c \<and> t = (c + 255) div 256 \<and> 1 \<le> r \<and> 192 + 32 * t + 24 * r \<le> MMODE_SIG_AT \<and>
      (c - 2) * 4096 < unat len \<and> unat len \<le> (c - 1) * 4096)"

lemma get16_less: "unat (get16 p) < 2 ^ 16"
proof -
  have "get16 p = take_bit 16 (get16 p)"
    by (rule bit_word_eqI) (auto simp: get16_def bit_simps dest: bit_word_length)
  then have "unat (get16 p) = unat (get16 p) mod 2 ^ 16"
    by (metis take_bit_eq_mod unsigned_take_bit_eq)
  then show ?thesis
    by (metis mod_less_divisor zero_less_numeral zero_less_power)
qed

lemma fields_laid:
  assumes f: "fields_error h blocks board = None" and i: "image_error h pkg = None"
    and b: "unat blocks < 2 ^ 32 - 255"
  shows "well_laid h (pkg_len pkg)" "get32 (drop 16 h) = product board"
proof -
  define c where "c = get32 (drop 24 h)"
  define t where "t = get16 (drop 28 h)"
  define r where "r = get16 (drop 30 h)"
  have t16: "unat t < 65536" and r16: "unat r < 65536"
    using get16_less [of "drop 28 h"] get16_less [of "drop 30 h"] by (simp_all add: t_def r_def)
  have facts: "2 \<le> c" "t = (255 + c) div 256" "r \<noteq> 0" "recipients_at t + 24 * r \<le> 3896"
    "c \<le> c + t" "c + t \<le> blocks"
    using f by (auto simp: fields_error_def Let_def PER_TABLE_def RECIPIENT_def MMODE_SIG_AT_def IMAGE_HASH_AT_def
        SIG_AT_def SEALED_BLOCK_BYTES_def not_less not_le split: if_splits simp flip: c_def t_def r_def)
  show "get32 (drop 16 h) = product board"
    using f by (auto simp: fields_error_def Let_def split: if_splits)
  have "unat c \<le> unat blocks"
    using facts(5,6) by (simp add: word_le_nat)
  then have c255: "unat (255 + c) = unat c + 255"
    using b by (simp add: unat_word_ariths)
  have t: "unat t = (unat c + 255) div 256"
    using facts(2) c255 by (simp add: unat_div)
  have "unat (recipients_at t + 24 * r) = 192 + 32 * unat t + 24 * unat r"
    using t16 r16 by (simp add: recipients_at_def TABLE_HASHES_def unat_word_ariths)
  then have room: "192 + 32 * unat t + 24 * unat r \<le> 3896"
    using facts(4) by (simp add: word_le_nat)
  have c2: "2 \<le> unat c"
    using facts(1) by (simp add: word_le_nat)
  have c_small: "unat c \<le> 30000"
    using t room by linarith
  have "unat ((c - 2) * 4096) = (unat c - 2) * 4096" "unat ((c - 1) * 4096) = (unat c - 1) * 4096"
    using c2 c_small by (simp_all add: unat_word_ariths unat_sub word_le_nat)
  moreover have "(c - 2) * 4096 < pkg_len pkg" "pkg_len pkg \<le> (c - 1) * 4096"
    using i by (auto simp: image_error_def Let_def SEALED_BLOCK_BYTES_def not_less not_le split: if_splits
        simp flip: c_def)
  ultimately have "(unat c - 2) * 4096 < unat (pkg_len pkg)" "unat (pkg_len pkg) \<le> (unat c - 1) * 4096"
    by (simp_all add: word_le_nat word_less_nat)
  moreover have "1 \<le> unat r"
    using facts(3) by (simp add: unat_gt_0 Suc_le_eq)
  ultimately show "well_laid h (pkg_len pkg)"
    using c2 t room
    by (simp add: well_laid_def Let_def MMODE_SIG_AT_def IMAGE_HASH_AT_def SIG_AT_def SEALED_BLOCK_BYTES_def
        flip: c_def t_def r_def)
qed

lemma signature_signed:
  "\<lbrakk>signature_error env h board = None; get32 (drop 16 h) = product board\<rbrakk> \<Longrightarrow> signed_header env board h"
  by (auto simp: signature_error_def signed_header_def not_less split: if_splits)

lemma mount_key_ok:
  assumes "mount_key env board read u s = (0, msg, s')" "u \<noteq> SIGNED_ONLY"
  shows "header s' = header s \<and> table_index s' = table_index s \<and> content_end s' = get32 (drop 24 (header s)) \<and>
    tables s' = get16 (drop 28 (header s)) \<and> snonce s' = bytes_at (header s) 32 8 \<and> read_raw s' = read \<and>
    keyless s' = (u = KEYLESS \<or> keyless s) \<and>
    (\<exists>e. find_recipient (header s) (board_uid board) = Some e \<and>
      (u \<noteq> KEYLESS \<longrightarrow> content_key env (header s) board e = Inr (skey s')))"
  using assms by (cases u) (auto simp: mount_key_def mounted_def fail_def Let_def split: option.splits sum.splits)

lemma mount_ok:
  assumes "mount env b0 blocks board read pkg u s = (0, msg, pkg', s')"
  shows "fields_error (take 4096 b0) blocks board = None"
    "image_error (take 4096 b0) (describe (take 4096 b0) pkg) = None"
    "signature_error env (take 4096 b0) board = None" "mmode_error env (take 4096 b0) board = None"
    "pkg' = mmode_fields (take 4096 b0) (describe (take 4096 b0) pkg)"
    "mount_key env board read u ((sealed_unmount s)\<lparr>header := take 4096 b0\<rparr>) = (0, msg, s')"
  using assms
  by (auto simp: mount_def fail_def Let_def SEALED_BLOCK_BYTES_def split: option.splits prod.splits)

lemma mmode_fields_keep [simp]:
  "pkg_len (mmode_fields h p) = pkg_len p" "version (mmode_fields h p) = version p"
  "component (mmode_fields h p) = component p" "image_hash (mmode_fields h p) = image_hash p"
  "hw_rev (mmode_fields h p) = hw_rev p" "min_version (mmode_fields h p) = min_version p"
  by (simp_all add: mmode_fields_def)

lemma mount_signed:
  assumes m: "mount env b0 blocks board read pkg u s = (0, msg, pkg', s')" and u: "u \<noteq> SIGNED_ONLY"
    and b: "unat blocks < 2 ^ 32 - 255"
  shows "header s' = take 4096 b0 \<and> signed_header env board (header s') \<and> well_laid (header s') (pkg_len pkg') \<and>
    table_ok s' \<and> content_end s' = get32 (drop 24 (header s')) \<and>
    find_recipient (header s') (board_uid board) \<noteq> None \<and> version pkg' = get32 (drop 20 (header s')) \<and>
    image_hash pkg' = bytes_at (header s') IMAGE_HASH_AT 32"
proof -
  note ok = mount_ok [OF m]
  have "pkg_len pkg' = pkg_len (describe (take 4096 b0) pkg)"
    by (simp add: ok(5))
  moreover note fields_laid [OF ok(1,2) b] signature_signed [OF ok(3)] mount_key_ok [OF ok(6) u]
  ultimately show ?thesis
    by (auto simp: table_ok_def sealed_unmount_def ok(5)) (simp_all add: describe_def)
qed

text \<open>C29: When \<open>sealed_mount_package\<close> succeeds on a file of less than \<open>2^32 - 255\<close> blocks, the block 0 that
  stays mounted carries the release key's signature of its first 4032 bytes and the root's certificate of
  that release key, for this product, with a serial and a revision no older than the board's minimums; the
  table hashes, the recipients and the machine-mode field lie one after the other in the signed bytes, every
  content block has a table, the image ends in the last block, the board is among the recipients, and the
  hash table cache is sound.\<close>

theorem mounted_signed:
  assumes "sealed_mount_package env b0 blocks board read pkg s = (0, msg, pkg', s')"
    and "unat blocks < 2 ^ 32 - 255"
  shows "header s' = take 4096 b0 \<and> signed_header env board (header s') \<and> well_laid (header s') (pkg_len pkg') \<and>
    table_ok s' \<and> content_end s' = get32 (drop 24 (header s')) \<and>
    find_recipient (header s') (board_uid board) \<noteq> None \<and> version pkg' = get32 (drop 20 (header s')) \<and>
    image_hash pkg' = bytes_at (header s') IMAGE_HASH_AT 32"
  by (rule mount_signed [OF assms(1) [unfolded sealed_mount_package_def] _ assms(2)]) simp

section \<open>A checked package is what it says\<close>

lemma check_blocks_ok:
  assumes "check_blocks env read pkg decrypt ns S s x = (0, msg, S', s', x')"
    and "table_ok s" "0 \<notin> set ns" "seal_crypt_block env = ctr_crypt_block"
    and "\<And>n x. length (fst (snd (read n x))) = 4096" "decrypt = (\<not> keyless s)"
  shows "\<exists>raws tbs. length raws = length ns \<and> list_all (\<lambda>b. length b = 4096) raws \<and>
    (\<forall>i < length ns. authentic (header s) (tbs ! i) (ns ! i) (raws ! i)) \<and>
    S' = (if decrypt then
        fold b2s_hmac_puts (map2 (\<lambda>n b. take (image_part pkg n) (ctr_crypt_block_sw (skey s) (snonce s) n b)) ns raws) S
      else S)"
  using assms
proof (induction ns arbitrary: S s x)
  case Nil
  then show ?case by simp
next
  case (Cons n ns)
  obtain e buf x1 where r: "read n x = (e, buf, x1)" by (cases "read n x") auto
  have e: "e = 0"
    using Cons.prems(1) by (auto simp: r Let_def split: if_splits)
  obtain e2 out s2 x2 where o: "sealed_open_block env n buf s x1 = (e2, out, s2, x2)"
    by (cases "sealed_open_block env n buf s x1") auto
  have e2: "e2 = 0"
    using Cons.prems(1) by (auto simp: r e o Let_def split: if_splits)
  note ok = open_block_ok [OF o Cons.prems(2)]
  note keep = same_mountD [OF ok(1)]
  have auth: "authentic (header s) (table s2) n buf" and
    out: "out = (if keyless s then buf else ctr_crypt_block_sw (skey s) (snonce s) n buf)"
    using ok(3) e2 Cons.prems(3,4) by (auto simp: ctr_crypt_block_def)
  define S2 where "S2 = (if decrypt then b2s_hmac_puts (take (image_part pkg n) out) S else S)"
  have "check_blocks env read pkg decrypt ns S2 s2 x2 = (0, msg, S', s', x')"
    using Cons.prems(1) by (auto simp: r e o e2 S2_def Let_def)
  from Cons.IH [OF this ok(2) _ Cons.prems(4,5)] Cons.prems(3,6)
  obtain raws tbs where h: "length raws = length ns" "list_all (\<lambda>b. length b = 4096) raws"
    "\<forall>i < length ns. authentic (header s) (tbs ! i) (ns ! i) (raws ! i)"
    "S' = (if decrypt then
        fold b2s_hmac_puts (map2 (\<lambda>n b. take (image_part pkg n) (ctr_crypt_block_sw (skey s) (snonce s) n b)) ns raws) S2
      else S2)"
    by (auto simp: keep)
  have "length buf = 4096"
    using Cons.prems(5) [of n x] by (simp add: r)
  then show ?case
    using h auth out Cons.prems(6)
    by (intro exI [of _ "buf # raws"] exI [of _ "table s2 # tbs"])
       (auto simp: S2_def less_Suc_eq_0_disj)
qed

text \<open>The parts of the blocks that are the image's make up its bytes.\<close>

lemma length_package_blocks: "(\<And>i. i < k \<Longrightarrow> length (P i) = 4096) \<Longrightarrow> length (concat (map P [0..<k])) = 4096 * k"
  by (induction k) simp_all

lemma parts_of_image:
  assumes "\<And>i. i < k \<Longrightarrow> length (P i) = 4096"
  shows "concat (map (\<lambda>i. take (min 4096 (len - 4096 * i)) (P i)) [0..<k]) = take len (concat (map P [0..<k]))"
  using assms
proof (induction k)
  case (Suc k)
  have "length (concat (map P [0..<k])) = 4096 * k"
    using Suc.prems by (intro length_package_blocks) simp
  moreover have "take (min 4096 (len - 4096 * k)) (P k) = take (len - 4096 * k) (P k)"
    using Suc.prems [of k] by (simp add: min_def)
  ultimately show ?case
    using Suc by simp
qed simp

lemma image_part_min:
  assumes "well_laid h (pkg_len pkg)" "i + 1 < unat (get32 (drop 24 h))"
  shows "image_part pkg (word_of_nat (Suc i)) = min 4096 (unat (pkg_len pkg) - 4096 * i)"
proof -
  define c where "c = unat (get32 (drop 24 h))"
  have l: "2 \<le> c" "(c - 2) * 4096 < unat (pkg_len pkg)" "unat (pkg_len pkg) \<le> (c - 1) * 4096"
    using assms(1) by (simp_all add: well_laid_def Let_def c_def)
  have "unat (get16 (drop 28 h)) = (c + 255) div 256" "192 + 32 * unat (get16 (drop 28 h)) \<le> 3896"
    using assms(1) by (simp_all add: well_laid_def Let_def c_def MMODE_SIG_AT_def IMAGE_HASH_AT_def SIG_AT_def
        SEALED_BLOCK_BYTES_def)
  then have c: "c \<le> 30000"
    by linarith
  have i: "i \<le> c - 2"
    using assms(2) by (simp add: c_def)
  have s: "(word_of_nat (Suc i) - 1) * 4096 = (word_of_nat (4096 * i) :: u32)"
    by simp
  have u: "unat (word_of_nat (4096 * i) :: u32) = 4096 * i"
    using i c by (intro unat_of_small) simp
  have le: "4096 * i \<le> unat (pkg_len pkg)"
    using i l by (simp add: le_diff_conv2)
  have d: "unat (pkg_len pkg - word_of_nat (4096 * i)) = unat (pkg_len pkg) - 4096 * i"
    using le u unat_sub [of "word_of_nat (4096 * i)" "pkg_len pkg"] by (simp only: word_le_nat)
  show ?thesis
    unfolding image_part_def Let_def SEALED_BLOCK_BYTES_def of_nat_numeral s using d
    by (simp add: word_less_nat min_def)
qed

text \<open>The bytes of the image that the raw blocks of a package decrypt to.\<close>

definition package_image :: "ctr_key \<Rightarrow> u8 list \<Rightarrow> nat \<Rightarrow> u8 list list \<Rightarrow> u8 list" where
  "package_image k non len raws =
     take len (concat (map (\<lambda>i. ctr_crypt_block_sw k non (word_of_nat (Suc i)) (raws ! i)) [0..<length raws]))"

lemma hashed_image:
  assumes "well_laid h (pkg_len pkg)" "length raws = unat (get32 (drop 24 h)) - 1"
    and "list_all (\<lambda>b. length b = 4096) raws"
  shows "concat (map2 (\<lambda>n b. take (image_part pkg n) (ctr_crypt_block_sw k non n b))
      (map word_of_nat [1..<unat (get32 (drop 24 h))]) raws) = package_image k non (unat (pkg_len pkg)) raws"
    "length (package_image k non (unat (pkg_len pkg)) raws) = unat (pkg_len pkg)"
proof -
  define c where "c = unat (get32 (drop 24 h))"
  define P where "P = (\<lambda>i. ctr_crypt_block_sw k non (word_of_nat (Suc i)) (raws ! i))"
  have l: "length (P i) = 4096" if "i < length raws" for i
    using assms(3) that by (simp add: P_def list_all_length)
  have "map2 (\<lambda>n b. take (image_part pkg n) (ctr_crypt_block_sw k non n b)) (map word_of_nat [1..<c]) raws =
      map (\<lambda>i. take (min 4096 (unat (pkg_len pkg) - 4096 * i)) (P i)) [0..<length raws]"
    using assms(2) image_part_min [OF assms(1)]
    by (intro nth_equalityI) (simp_all add: P_def c_def)
  then show "concat (map2 (\<lambda>n b. take (image_part pkg n) (ctr_crypt_block_sw k non n b))
      (map word_of_nat [1..<unat (get32 (drop 24 h))]) raws) = package_image k non (unat (pkg_len pkg)) raws"
    using parts_of_image [of "length raws" P "unat (pkg_len pkg)"] l
    by (simp add: package_image_def P_def flip: c_def)
  have "unat (pkg_len pkg) \<le> (unat (get32 (drop 24 h)) - 1) * 4096"
    using assms(1) by (simp add: well_laid_def Let_def)
  then show "length (package_image k non (unat (pkg_len pkg)) raws) = unat (pkg_len pkg)"
    using length_package_blocks [of "length raws" P] l assms(2) by (simp add: package_image_def P_def)
qed

text \<open>C31: When \<open>sealed_check_package\<close> passes a package of less than \<open>2^32 - 255\<close> blocks, there is a block 0
  signed as \<open>sealed_mount_package\<close> checks it, and raw content blocks, as many as it says, each authentic under
  it; decrypted under one key and cut to the length in block 0 they are an image of exactly that length whose
  BLAKE2s hash is the one in block 0. Nothing stays mounted.\<close>

theorem package_checked:
  assumes "sealed_check_package env blocks board read pkg s x = (0, msg, pkg', s', x')"
    and "unat blocks < 2 ^ 32 - 255" "seal_crypt_block env = ctr_crypt_block"
    and "\<And>n x. length (fst (snd (read n x))) = 4096"
  shows "content_end s' = 0 \<and>
    (\<exists>h raws tbs k. signed_header env (board\<lparr>min_revision := 0\<rparr>) h \<and> well_laid h (pkg_len pkg') \<and>
      length raws = unat (get32 (drop 24 h)) - 1 \<and>
      (\<forall>i < length raws. authentic h (tbs ! i) (word_of_nat (Suc i)) (raws ! i)) \<and>
      length (package_image k (bytes_at h 32 8) (unat (pkg_len pkg')) raws) = unat (pkg_len pkg') \<and>
      rfc7693 32 [] (replicate 8 0) (person ''LFimage'') (package_image k (bytes_at h 32 8) (unat (pkg_len pkg')) raws) =
        bytes_at h IMAGE_HASH_AT 32)"
proof -
  obtain e b0 x0 where r: "read 0 x = (e, b0, x0)" by (cases "read 0 x") auto
  have e: "e = 0"
    using assms(1) by (auto simp: sealed_check_package_def check_package_def r Let_def split: if_splits prod.splits)
  obtain e1 m1 p1 s1 where m: "mount env b0 blocks (board\<lparr>min_revision := 0\<rparr>) (Some read) pkg UNWRAP s = (e1, m1, p1, s1)"
    by (cases "mount env b0 blocks (board\<lparr>min_revision := 0\<rparr>) (Some read) pkg UNWRAP s") auto
  have e1: "e1 = 0"
    using assms(1) by (auto simp: sealed_check_package_def check_package_def r e m Let_def split: if_splits prod.splits)
  obtain e2 m2 S s2 x2 where c: "check_blocks env read p1 True (content_blocks s1) image_start s1 x0 = (e2, m2, S, s2, x2)"
    by (cases "check_blocks env read p1 True (content_blocks s1) image_start s1 x0") auto
  have fin: "e2 = 0" "pkg' = p1" "fst (snd (b2s_hmac_final S)) = image_hash p1" "s' = sealed_unmount s2"
    using assms(1) by (auto simp: sealed_check_package_def check_package_def r e m e1 c Let_def split: if_splits)
  note sgn = mount_signed [OF m [unfolded e1] _ assms(2), simplified]
  have key: "\<not> keyless s1" "snonce s1 = bytes_at (header s1) 32 8"
    using mount_key_ok [OF mount_ok(6) [OF m [unfolded e1]]] sgn by (auto simp: sealed_unmount_def)
  have nz: "0 \<notin> set (content_blocks s1)"
  proof
    assume "0 \<in> set (content_blocks s1)"
    then obtain i where i: "1 \<le> i" "i < unat (content_end s1)" "word_of_nat i = (0 :: u32)"
      by (auto simp: content_blocks_def)
    have "unat (content_end s1) < 2 ^ 32"
      using unsigned_less [of "content_end s1"] by simp
    with i(2) have "unat (word_of_nat i :: u32) = i"
      by (intro unat_of_small) simp
    with i show False by simp
  qed
  obtain raws tbs where b: "length raws = length (content_blocks s1)" "list_all (\<lambda>b. length b = 4096) raws"
    "\<forall>i < length (content_blocks s1). authentic (header s1) (tbs ! i) (content_blocks s1 ! i) (raws ! i)"
    "S = fold b2s_hmac_puts (map2 (\<lambda>n b. take (image_part p1 n) (ctr_crypt_block_sw (skey s1) (snonce s1) n b))
      (content_blocks s1) raws) image_start"
    using check_blocks_ok [OF c [unfolded fin(1)] _ nz assms(3,4)] sgn key(1) by auto
  have blocks: "content_blocks s1 = map word_of_nat [1..<unat (get32 (drop 24 (header s1)))]"
    using sgn by (simp add: content_blocks_def)
  then have len: "length raws = unat (get32 (drop 24 (header s1))) - 1"
    by (simp add: b(1))
  have laid: "well_laid (header s1) (pkg_len p1)"
    using sgn by blast
  note img = hashed_image [OF laid len b(2), of "skey s1" "snonce s1"]
  have "fst (snd (b2s_hmac_final S)) = rfc7693 32 [] (replicate 8 0) (person ''LFimage'')
      (package_image (skey s1) (snonce s1) (unat (pkg_len p1)) raws)"
    unfolding b(4) image_start_def using img(1) [folded blocks] by (simp add: fresh_hash or_zeros_def [of None])
  then show ?thesis
    using sgn fin len img(2) b(3) blocks
    by (intro conjI exI [of _ "header s1"] exI [of _ raws] exI [of _ tbs] exI [of _ "skey s1"])
       (auto simp: sealed_unmount_def key(2))
qed

section \<open>A package that passes\<close>

text \<open>One content block under one table for one board, its hashes made with the model's BLAKE2s.\<close>

definition demo_key :: "u8 list" where
  "demo_key = map2 (XOR) (replicate 16 0)
     (b2s 16 (replicate 32 1) (Some (replicate 8 0)) ''LFwrap'' (replicate 32 0 @ replicate 32 2))"

definition demo_image :: "u8 list \<Rightarrow> u8 list" where
  "demo_image raw = ctr_crypt_block_sw (snd (ctr_setkey CTR_AES128 demo_key)) (replicate 8 0) 1 raw"

definition demo_header :: "u8 list \<Rightarrow> u8 list" where
  "demo_header raw =
     PACKAGE_MAGIC @ [1, 1] @ replicate 12 0 @ [2, 0, 0, 0, 1, 0, 1, 0] @ replicate 40 0 @
     b2s 8 demo_key None ''LFcheck'' (replicate 8 0) @ replicate 100 0 @ [1, 0, 0, 0, 0, 16, 0, 0, 0, 0, 0, 0] @
     b2s 32 [] (Some (le64 0)) ''LFtable'' (demo_table raw) @ replicate 3776 0 @
     b2s 32 [] None ''LFimage'' (demo_image raw) @ replicate 64 0"

definition demo_board :: sealed_board where
  "demo_board = \<lparr>board_uid = replicate 8 0, private_key = replicate 32 3, root = replicate 32 4, product = 0,
     min_revision = 0, min_serial = 0\<rparr>"

definition demo_package :: sealed_package where
  "demo_package = \<lparr>component = 0, hw_rev = 0, pkg_len = 0, min_version = 0, version = 0, image_hash = [],
     mmode_addr = 0, mmode_len = 0, mmode_hash = []\<rparr>"

lemma length_magic [simp]: "length PACKAGE_MAGIC = 10"
  by (simp add: PACKAGE_MAGIC_def ascii_def)

lemma length_demo_key [simp]: "length demo_key = 16"
  by (simp add: demo_key_def length_b2s)

lemmas layout_simps = bytes_at_def get32_def get16_def length_b2s nth_append

lemma demo_length [simp]: "length (demo_header raw) = 4096"
  by (simp add: demo_header_def length_b2s)

lemma demo_fields:
  "get32 (drop 24 (demo_header raw)) = 2" "get16 (drop 28 (demo_header raw)) = 1"
  "get16 (drop 30 (demo_header raw)) = 1" "demo_header raw ! 10 = 1" "demo_header raw ! 11 = 1"
  "get32 (drop 12 (demo_header raw)) = 0" "get32 (drop 16 (demo_header raw)) = 0" "get32 (drop 20 (demo_header raw)) = 0"
  "get32 (drop 80 (demo_header raw)) = 0" "get32 (drop 184 (demo_header raw)) = 4096" "demo_header raw ! 180 = 1"
  "demo_header raw ! 181 = 0" "get32 (drop 3896 (demo_header raw)) = 0" "take 10 (demo_header raw) = PACKAGE_MAGIC"
  by (simp_all add: demo_header_def layout_simps)

lemma demo_parts:
  "bytes_at (demo_header raw) 72 8 = b2s 8 demo_key None ''LFcheck'' (replicate 8 0)"
  "bytes_at (demo_header raw) 192 32 = b2s 32 [] (Some (le64 0)) ''LFtable'' (demo_table raw)"
  "bytes_at (demo_header raw) 4000 32 = b2s 32 [] None ''LFimage'' (demo_image raw)"
  "bytes_at (demo_header raw) 224 8 = replicate 8 0" "bytes_at (demo_header raw) 232 16 = replicate 16 0"
  "bytes_at (demo_header raw) 40 32 = replicate 32 0" "bytes_at (demo_header raw) 32 8 = replicate 8 0"
  "bytes_at (demo_header raw) 20 4 = replicate 4 0" "bytes_at (demo_header raw) 16 4 = replicate 4 0"
  by (simp_all add: demo_header_def layout_simps)

lemma all_zero [simp]: "\<not> list_ex (\<lambda>b. b \<noteq> 0) (replicate n (0 :: u8))"
  by (simp add: list_ex_iff)

lemma demo_zeros: "drop 248 (take 3896 (demo_header raw)) = replicate 3648 0" "take 104 (drop 3896 (demo_header raw)) = replicate 104 0"
  by (simp_all add: demo_header_def layout_simps)

definition demo_read :: "u8 list \<Rightarrow> unit sealed_read" where
  "demo_read raw n x = (0, if n = 0 then demo_header raw else if n = 1 then raw else demo_table raw, x)"

definition fresh_sealed :: "'x sealed_state" where
  "fresh_sealed = \<lparr>header = [], table = [], table_index = - 1, skey = zero_key, snonce = replicate 8 0,
     content_end = 0, tables = 0, keyless = False, read_raw = None\<rparr>"

definition demo_mounted :: "u8 list \<Rightarrow> 'x sealed_read \<Rightarrow> 'x sealed_state" where
  "demo_mounted raw read =
     \<lparr>header = demo_header raw, table = [], table_index = - 1, skey = snd (ctr_setkey CTR_AES128 demo_key),
      snonce = replicate 8 0, content_end = 2, tables = 1, keyless = False, read_raw = Some read\<rparr>"

definition demo_described :: "u8 list \<Rightarrow> sealed_package" where
  "demo_described raw = mmode_fields (demo_header raw) (describe (demo_header raw) demo_package)"

lemma demo_recipient: "find_recipient (demo_header raw) (replicate 8 0) = Some 224"
  by (simp add: find_recipient_def demo_fields recipients_at_def TABLE_HASHES_def RECIPIENT_def demo_parts)

lemma demo_content_key:
  "content_key demo_env (demo_header raw) demo_board 224 = Inr (snd (ctr_setkey CTR_AES128 demo_key))"
proof -
  have z: "replicate 4 0 @ replicate 4 0 = (replicate 8 0 :: u8 list)"
    by (simp flip: replicate_add)
  show ?thesis
    by (simp add: content_key_def demo_parts demo_fields demo_env_def demo_board_def z CTR_AES128_def
        flip: demo_key_def)
qed

lemma demo_uid: "board_uid demo_board = replicate 8 0"
  by (simp add: demo_board_def)

lemma demo_mount:
  "mount demo_env (demo_header raw) 3 demo_board (Some read) demo_package UNWRAP fresh_sealed =
    (0, Mounted 0 0 1 2, demo_described raw, demo_mounted raw read)"
proof -
  have f: "fields_error (demo_header raw) 3 demo_board = None"
    by (simp add: fields_error_def Let_def demo_fields demo_zeros demo_board_def const_defs recipients_at_def
        CTR_AES128_def word_le_nat word_less_nat)
  have i: "image_error (demo_header raw) (describe (demo_header raw) demo_package) = None"
    by (simp add: image_error_def describe_def Let_def demo_fields SEALED_V5F_def SEALED_BLOCK_BYTES_def
        word_le_nat word_less_nat)
  have s: "signature_error demo_env (demo_header raw) demo_board = None"
    by (simp add: signature_error_def demo_env_def demo_board_def demo_fields)
  have m: "mmode_error demo_env (demo_header raw) demo_board = None"
    by (simp add: mmode_error_def demo_env_def demo_fields demo_zeros Let_def const_defs)
  show ?thesis
    by (simp add: mount_def SEALED_BLOCK_BYTES_def f i s m Let_def)
       (simp add: mount_key_def mounted_def demo_recipient demo_content_key demo_fields demo_parts
         sealed_unmount_def fresh_sealed_def demo_mounted_def demo_described_def demo_uid ctr_wipe_def)
qed

lemma mounted_signed_witness:
  "signed_header demo_env demo_board (demo_header (replicate 4096 0)) \<and>
   well_laid (demo_header (replicate 4096 0)) (pkg_len (demo_described (replicate 4096 0)))"
proof -
  let ?raw = "replicate 4096 0"
  have "sealed_mount_package demo_env (demo_header ?raw) 3 demo_board (\<lambda>n x. (0, [], x)) demo_package fresh_sealed =
      (0, Mounted 0 0 1 2, demo_described ?raw, demo_mounted ?raw (\<lambda>n x. (0, [], x)))"
    by (simp add: sealed_mount_package_def demo_mount)
  from mounted_signed [OF this] show ?thesis
    by (auto simp: demo_mounted_def)
qed

lemma demo_check:
  assumes "length raw = 4096"
  shows "\<exists>s'. sealed_check_package demo_env 3 demo_board (demo_read raw) demo_package fresh_sealed () =
    (0, Checked True 1 4096 0, demo_described raw, s', ())"
proof -
  define s1 where "s1 = demo_mounted raw (demo_read raw)"
  define s2 where "s2 = s1\<lparr>table := demo_table raw, table_index := 0\<rparr>"
  have d: "demo_board\<lparr>min_revision := 0\<rparr> = demo_board"
    by (simp add: demo_board_def)
  have l: "load_table 0 s1 () = (0, True, s2, ())"
    using demo_parts(2) [of raw]
    by (simp add: load_table_def s1_def s2_def demo_mounted_def demo_read_def recipients_at_def const_defs Let_def)
  have o: "sealed_open_block demo_env 1 raw s1 () = (0, demo_image raw, s2, ())"
    by (simp add: sealed_open_block_def PER_TABLE_def l)
       (simp add: word_le_nat s1_def s2_def demo_mounted_def demo_env_def ENTRY_def demo_table_def bytes_at_def
         length_b2s ctr_crypt_block_def demo_image_def)
  have b: "content_blocks s1 = [1]"
    by (simp add: content_blocks_def s1_def demo_mounted_def upt_rec)
  have p: "image_part (demo_described raw) 1 = 4096"
    by (simp add: image_part_def demo_described_def describe_def demo_fields SEALED_BLOCK_BYTES_def word_less_nat)
  have i: "length (demo_image raw) = 4096"
    using assms by (simp add: demo_image_def)
  have c: "check_blocks demo_env (demo_read raw) (demo_described raw) True (content_blocks s1) image_start s1 () =
      (0, NoMessage, b2s_hmac_puts (demo_image raw) image_start, s2, ())"
    using o by (simp add: b demo_read_def p i)
  have h: "fst (snd (b2s_hmac_final (b2s_hmac_puts (demo_image raw) image_start))) = image_hash (demo_described raw)"
    using fresh_hash [of 32 "[]" "[demo_image raw]" None "Some (person ''LFimage'')" blake2s_init0]
    by (simp add: demo_described_def describe_def const_defs demo_parts b2s_rfc image_start_def)
  have f: "component (demo_described raw) = 1" "pkg_len (demo_described raw) = 4096" "version (demo_described raw) = 0"
    by (simp_all add: demo_described_def describe_def demo_fields)
  have r: "demo_read raw 0 () = (0, demo_header raw, ())"
    by (simp add: demo_read_def)
  show ?thesis
    by (simp add: sealed_check_package_def check_package_def r d demo_mount c h f Let_def flip: s1_def)
qed

lemma package_checked_witness:
  "\<exists>h raws tbs k. signed_header demo_env demo_board h \<and> well_laid h 4096 \<and>
    length raws = unat (get32 (drop 24 h)) - 1 \<and>
    (\<forall>i < length raws. authentic h (tbs ! i) (word_of_nat (Suc i)) (raws ! i)) \<and>
    rfc7693 32 [] (replicate 8 0) (person ''LFimage'') (package_image k (bytes_at h 32 8) 4096 raws) =
      bytes_at h IMAGE_HASH_AT 32"
proof -
  obtain s' where c: "sealed_check_package demo_env 3 demo_board (demo_read (replicate 4096 7)) demo_package fresh_sealed () =
      (0, Checked True 1 4096 0, demo_described (replicate 4096 7), s', ())"
    using demo_check [of "replicate 4096 7"] by auto
  have r: "length (fst (snd (demo_read (replicate 4096 7) n x))) = 4096" for n x
    by (simp add: demo_read_def demo_table_def length_b2s)
  have d: "demo_board\<lparr>min_revision := 0\<rparr> = demo_board"
    by (simp add: demo_board_def)
  have l: "unat (pkg_len (demo_described (replicate 4096 7))) = 4096"
    by (simp add: demo_described_def describe_def demo_fields)
  have "pkg_len (demo_described (replicate 4096 7)) = 4096"
    by (simp add: demo_described_def describe_def demo_fields)
  then show ?thesis
    using package_checked [OF c _ _ r, unfolded d l] by (auto simp: demo_env_def)
qed

end
