(* ===== verification/LF_Update.thy ===== *)
theory LF_Update
  imports LF_Sealed
begin

text \<open>
  Stage 1's firmware updates, \<^verbatim>\<open>src/src/update.c\<close>: the record and its two copies in flash, the backup on the
  card, and the steps of an update (\<open>start_update\<close>, \<open>install\<close>, \<open>roll_back\<close>, \<open>upd_boot\<close>, \<open>upd_confirm\<close>,
  \<open>upd_adopt\<close>, \<open>upd_mark_broken\<close>). The board is reached through \<open>upd_io\<close>, the C callbacks as functions on a
  state \<open>'x\<close> of the outside world; a NULL callback is None. Packages are those of LF_Sealed. Messages are a
  datatype of reasons. The record is stored as the bytes of the C struct on a little-endian machine.

  The offsets in the loops over flash do not wrap: the lengths are those of an image, far below \<open>2^32\<close>.

  The theorems: a store of the record is atomic under a power cut, no step lowers a minimum, a trial ends
  within three boots, and (in the locale \<open>flash_port\<close>) an image starts only if it has passed its check.
\<close>

section \<open>Layout\<close>

text \<open>The CH32H417 build's layout (\<^verbatim>\<open>stage1_layout.h\<close>), which replaces the defaults of \<^verbatim>\<open>update.h\<close>.\<close>

definition UPD_SECTOR :: u32 where [const_defs]: "UPD_SECTOR = 8192"
definition UPD_RECORD_A :: u32 where [const_defs]: "UPD_RECORD_A = 0x20000"
definition UPD_RECORD_B :: u32 where [const_defs]: "UPD_RECORD_B = 0x22000"
definition UPD_V5F_ADDR :: u32 where [const_defs]: "UPD_V5F_ADDR = 0x24000"
definition UPD_V5F_SLOT :: u32 where [const_defs]: "UPD_V5F_SLOT = 0x1C000"
definition UPD_PAGES_LEN :: u32 where [const_defs]: "UPD_PAGES_LEN = 0x40000"
definition UPD_HEADER :: u32 where [const_defs]: "UPD_HEADER = 0x80000"
definition STAGE1_FLASH_BASE :: u32 where [const_defs]: "STAGE1_FLASH_BASE = 0x08000000"
definition UPD_V5F_MMODE_LEN :: u32 where [const_defs]: "UPD_V5F_MMODE_LEN = 0x2000"
definition UPD_V5F_ENTRY :: u32 where [const_defs]: "UPD_V5F_ENTRY = 0x0803E000"
definition UPD_APP_SPAN :: u32 where [const_defs]: "UPD_APP_SPAN = UPD_V5F_SLOT + UPD_PAGES_LEN"
definition UPD_TRIAL_BOOTS :: u32 where [const_defs]: "UPD_TRIAL_BOOTS = 3"
definition UPD_BLOCK :: u32 where [const_defs]: "UPD_BLOCK = 4096"
definition RECORD_MAGIC :: u32 where [const_defs]: "RECORD_MAGIC = 0x4C465243"
definition RECORD_FORMAT :: u32 where [const_defs]: "RECORD_FORMAT = 1"
definition BACKUP_MAGIC :: "u8 list" where "BACKUP_MAGIC = ascii ''LFBACKUP''"

definition UPD_IDLE :: u32 where [const_defs]: "UPD_IDLE = 0"
definition UPD_BACKING_UP :: u32 where [const_defs]: "UPD_BACKING_UP = 1"
definition UPD_INSTALLING :: u32 where [const_defs]: "UPD_INSTALLING = 2"
definition UPD_TRIAL :: u32 where [const_defs]: "UPD_TRIAL = 3"
definition UPD_ROLLING_BACK :: u32 where [const_defs]: "UPD_ROLLING_BACK = 4"

definition UPD_R_NONE :: u32 where [const_defs]: "UPD_R_NONE = 0"
definition UPD_R_INSTALLED :: u32 where [const_defs]: "UPD_R_INSTALLED = 1"
definition UPD_R_REFUSED :: u32 where [const_defs]: "UPD_R_REFUSED = 2"
definition UPD_R_NO_BACKUP :: u32 where [const_defs]: "UPD_R_NO_BACKUP = 3"
definition UPD_R_ROLLED_BACK :: u32 where [const_defs]: "UPD_R_ROLLED_BACK = 4"
definition UPD_R_BROKEN :: u32 where [const_defs]: "UPD_R_BROKEN = 5"

definition UPD_START :: ior where [const_defs]: "UPD_START = 0"
definition UPD_RECOVERY :: ior where [const_defs]: "UPD_RECOVERY = 1"

section \<open>The board and the record\<close>

record 'x upd_io =
  flash_read :: "u32 \<Rightarrow> u32 \<Rightarrow> 'x \<Rightarrow> int \<times> u8 list \<times> 'x"
  flash_erase :: "u32 \<Rightarrow> 'x \<Rightarrow> int \<times> 'x"
  flash_write :: "u32 \<Rightarrow> u8 list \<Rightarrow> 'x \<Rightarrow> int \<times> 'x"
  stage_read :: "'x sealed_read"
  stage_blocks :: u32
  backup_read :: "'x sealed_read option"
  backup_write :: "(u32 \<Rightarrow> u8 list \<Rightarrow> 'x \<Rightarrow> int \<times> 'x) option"
  backup_blocks :: u32
  random :: "nat \<Rightarrow> 'x \<Rightarrow> int \<times> u8 list \<times> 'x"
  io_hw_rev :: u32
  adopt_blank :: bool
  check_pages :: bool
  check_signature :: bool

record upd_record =
  rmagic :: u32
  rformat :: u32
  seq :: u32
  token :: "u8 list"
  v5f_version :: u32
  v5f_length :: u32
  v5f_mac :: "u8 list"
  min_v5f :: u32
  rmin_serial :: u32
  ustate :: u32
  progress :: u32
  pkg_version :: u32
  pkg_length :: u32
  pkg_min :: u32
  pkg_hash :: "u8 list"
  backup_version :: u32
  backup_length :: u32
  backup_tag :: "u8 list"
  uresult :: u32
  rec_hash :: "u8 list"

datatype upd_msg =
  NothingToDo | NoStageFile int | Package seal_msg | NotAV5FImage | OtherHardware u32 | OnlyApps | LargerThanSlot
| NotTheWholeApp | PackageBlockFails seal_msg | WrongImageHash | BackupTooSmall u32 | BackupTooOld | BackupMissing
| RolledBack u32 | OnTrialNow u32 | NewRecord bool | NeverConfirmed u32 | TrialBoot u32 u32 | UnknownState u32
| NoWorkingImage | AdoptedChanged | FailsItsCheck | NoRecord | UnderWay | AdoptFailed ior | AdoptedImage
| MarkFailed ior | MarkedBroken

text \<open>The struct as it lies in flash: everything up to the hash, and all of it.\<close>

definition record_body :: "upd_record \<Rightarrow> u8 list" where
  "record_body r =
     store32 (rmagic r) @ store32 (rformat r) @ store32 (seq r) @ token r @ store32 (v5f_version r) @
     store32 (v5f_length r) @ v5f_mac r @ store32 (min_v5f r) @ store32 (rmin_serial r) @ store32 (ustate r) @
     store32 (progress r) @ store32 (pkg_version r) @ store32 (pkg_length r) @ store32 (pkg_min r) @ pkg_hash r @
     store32 (backup_version r) @ store32 (backup_length r) @ backup_tag r @ store32 (uresult r)"

definition record_bytes :: "upd_record \<Rightarrow> u8 list" where
  "record_bytes r = record_body r @ rec_hash r"

definition RECORD_SIZE :: u32 where [const_defs]: "RECORD_SIZE = 220"

definition record_of :: "u8 list \<Rightarrow> upd_record" where
  "record_of b =
     \<lparr>rmagic = load32 b, rformat = load32 (drop 4 b), seq = load32 (drop 8 b), token = bytes_at b 12 32,
      v5f_version = load32 (drop 44 b), v5f_length = load32 (drop 48 b), v5f_mac = bytes_at b 52 32,
      min_v5f = load32 (drop 84 b), rmin_serial = load32 (drop 88 b), ustate = load32 (drop 92 b),
      progress = load32 (drop 96 b), pkg_version = load32 (drop 100 b), pkg_length = load32 (drop 104 b),
      pkg_min = load32 (drop 108 b), pkg_hash = bytes_at b 112 32, backup_version = load32 (drop 144 b),
      backup_length = load32 (drop 148 b), backup_tag = bytes_at b 152 32, uresult = load32 (drop 184 b),
      rec_hash = bytes_at b 188 32\<rparr>"

text \<open>\<open>memset (r, 0, sizeof *r)\<close>.\<close>

definition zero_record :: upd_record where
  "zero_record = record_of (replicate 220 0)"

section \<open>Hashes and keys\<close>

definition b2s_start :: "int \<Rightarrow> u8 list \<Rightarrow> string \<Rightarrow> blake2s_state" where
  "b2s_start n key p = snd (b2s_init n key None (Some (person p)) blake2s_init0)"

definition b2s_done :: "blake2s_state \<Rightarrow> u8 list" where
  "b2s_done S = fst (snd (b2s_hmac_final S))"

definition derive :: "int \<Rightarrow> u8 list \<Rightarrow> string \<Rightarrow> u8 list" where
  "derive n tok p = b2s_done (b2s_start n tok p)"

definition put32 :: "u32 \<Rightarrow> u8 list" where
  "put32 x = map (\<lambda>i. ucast (drop_bit (8 * i) x)) [0..<4]"

text \<open>The bytes of a piece of flash put into a hash, at most a block at a time.\<close>

definition part_size :: "u32 \<Rightarrow> u32 \<Rightarrow> u32" where
  "part_size len start = (if len - start < UPD_BLOCK then len - start else UPD_BLOCK)"

primrec flash_puts ::
  "'x upd_io \<Rightarrow> u32 \<Rightarrow> u32 \<Rightarrow> u32 list \<Rightarrow> blake2s_state \<Rightarrow> 'x \<Rightarrow> int \<times> blake2s_state \<times> 'x" where
  "flash_puts io addr len [] S x = (0, S, x)"
| "flash_puts io addr len (at # ats) S x =
     (let n = part_size len at; (err, bs, x) = flash_read io (addr + at) n x in
      if err \<noteq> 0 then (err, S, x) else flash_puts io addr len ats (b2s_hmac_puts bs S) x)"

definition offsets :: "u32 \<Rightarrow> u32 list" where
  "offsets len = map (\<lambda>i. word_of_nat (4096 * i)) [0..<(unat len + 4095) div 4096]"

definition image_mac ::
  "'x upd_io \<Rightarrow> upd_record \<Rightarrow> u32 \<Rightarrow> u32 \<Rightarrow> u32 \<Rightarrow> 'x \<Rightarrow> int \<times> u8 list \<times> 'x" where
  "image_mac io r addr ver len x =
     (let k = derive 32 (token r) ''LFimage'';
          S = b2s_hmac_puts (put32 ver @ put32 len) (b2s_start 32 k ''LFimgmac'');
          (err, S, x) = flash_puts io addr len (offsets len) S x
      in if err \<noteq> 0 then (err, [], x) else (0, b2s_done S, x))"

definition region_hash :: "'x upd_io \<Rightarrow> u32 \<Rightarrow> u32 \<Rightarrow> string \<Rightarrow> 'x \<Rightarrow> int \<times> u8 list \<times> 'x" where
  "region_hash io addr len p x =
     (let (err, S, x) = flash_puts io addr len (offsets len) (b2s_start 32 [] p) x
      in if err \<noteq> 0 then (err, [], x) else (0, b2s_done S, x))"

definition flash_image_hash :: "'x upd_io \<Rightarrow> u32 \<Rightarrow> u32 \<Rightarrow> 'x \<Rightarrow> int \<times> u8 list \<times> 'x" where
  "flash_image_hash io addr len x = region_hash io addr len ''LFimage'' x"

section \<open>The record in flash\<close>

definition record_hash :: "upd_record \<Rightarrow> u8 list" where
  "record_hash r = b2s_done (b2s_hmac_puts (record_body r) (b2s_start 32 [] ''LFrecord''))"

definition record_valid :: "upd_record \<Rightarrow> bool" where
  "record_valid r \<longleftrightarrow> rmagic r = RECORD_MAGIC \<and> rformat r = RECORD_FORMAT \<and> record_hash r = rec_hash r"

definition upd_record_load :: "'x upd_io \<Rightarrow> upd_record \<Rightarrow> 'x \<Rightarrow> int \<times> upd_record \<times> 'x" where
  "upd_record_load io r x =
     (let (err, a, x) = flash_read io UPD_RECORD_A RECORD_SIZE x in
      if err \<noteq> 0 then (err, r, x)
      else
        let (err, b, x) = flash_read io UPD_RECORD_B RECORD_SIZE x in
        if err \<noteq> 0 then (err, r, x)
        else
          let a = record_of a; b = record_of b; va = record_valid a; vb = record_valid b in
          if \<not> va \<and> \<not> vb then (1, r, x)
          else (0, if va \<and> (\<not> vb \<or> seq a \<ge> seq b) then a else b, x))"

definition record_at :: "u32 \<Rightarrow> u32" where
  "record_at s = (if s AND 1 \<noteq> 0 then UPD_RECORD_B else UPD_RECORD_A)"

text \<open>Erase, write, read back and compare: the shape of every write to flash.\<close>

definition write_checked :: "'x upd_io \<Rightarrow> bool \<Rightarrow> u32 \<Rightarrow> u32 \<Rightarrow> u8 list \<Rightarrow> 'x \<Rightarrow> int \<times> 'x" where
  "write_checked io erase at n buf x =
     (let data = take (unat n) buf; (err, x) = (if erase then flash_erase io at x else (0, x)) in
      if err \<noteq> 0 then (err, x)
      else
        let (err, x) = flash_write io at data x in
        if err \<noteq> 0 then (err, x)
        else
          let (err, back, x) = flash_read io at n x in
          if err \<noteq> 0 then (err, x) else if back \<noteq> data then (ERR_FLASH_WRITE_SECTOR, x) else (0, x))"

definition next_record :: "upd_record \<Rightarrow> upd_record" where
  "next_record r = (let r = r\<lparr>seq := seq r + 1\<rparr> in r\<lparr>rec_hash := record_hash r\<rparr>)"

definition record_store :: "'x upd_io \<Rightarrow> upd_record \<Rightarrow> 'x \<Rightarrow> int \<times> upd_record \<times> 'x" where
  "record_store io r x =
     (let r = next_record r; (err, x) = write_checked io True (record_at (seq r)) RECORD_SIZE (record_bytes r) x
      in (err, r, x))"

section \<open>Programming\<close>

definition program_block :: "'x upd_io \<Rightarrow> u32 \<Rightarrow> u8 list \<Rightarrow> 'x \<Rightarrow> int \<times> 'x" where
  "program_block io blk data x =
     (let at = UPD_V5F_ADDR + blk * UPD_BLOCK in write_checked io (at mod UPD_SECTOR = 0) at UPD_BLOCK data x)"

definition sector_done :: "u32 \<Rightarrow> u32 \<Rightarrow> bool" where
  "sector_done blk blocks \<longleftrightarrow> ((blk + 1) * UPD_BLOCK) mod UPD_SECTOR = 0 \<or> blk + 1 = blocks"

definition blocks_of :: "u32 \<Rightarrow> u32" where
  "blocks_of len = (len + UPD_BLOCK - 1) div UPD_BLOCK"

definition mac_length :: "'x upd_io \<Rightarrow> u32 \<Rightarrow> u32" where
  "mac_length io len =
     (if check_pages io then UPD_APP_SPAN else if len \<le> UPD_V5F_SLOT then len else UPD_V5F_SLOT)"

definition installed_mac :: "'x upd_io \<Rightarrow> upd_record \<Rightarrow> 'x \<Rightarrow> int \<times> u8 list \<times> 'x" where
  "installed_mac io r x = image_mac io r UPD_V5F_ADDR (v5f_version r) (mac_length io (v5f_length r)) x"

definition installed_length :: "'x upd_io \<Rightarrow> u32 \<Rightarrow> u32" where
  "installed_length io len = (if check_pages io then UPD_APP_SPAN else len)"

definition header_store :: "'x upd_io \<Rightarrow> u8 list \<Rightarrow> 'x \<Rightarrow> int \<times> 'x" where
  "header_store io b0 x = write_checked io True UPD_HEADER UPD_BLOCK b0 x"

section \<open>Checking the installed image\<close>

definition no_package :: sealed_package where
  "no_package = \<lparr>component = 0, hw_rev = 0, pkg_len = 0, min_version = 0, version = 0, image_hash = replicate 32 0,
     mmode_addr = 0, mmode_len = 0, mmode_hash = replicate 32 0\<rparr>"

text \<open>The board's keys with the record's minimums.\<close>

definition board_of :: "sealed_board \<Rightarrow> upd_record \<Rightarrow> sealed_board" where
  "board_of keys r = keys\<lparr>min_revision := min_v5f r, min_serial := rmin_serial r\<rparr>"

text \<open>The machine-mode region: the root signed its hash; it must be the window of the slot.\<close>

definition mmode_ok :: "'x upd_io \<Rightarrow> sealed_package \<Rightarrow> 'x \<Rightarrow> int \<times> 'x" where
  "mmode_ok io pkg x =
     (if mmode_addr pkg \<noteq> UPD_V5F_ENTRY \<or> mmode_len pkg \<noteq> UPD_V5F_MMODE_LEN then (0, x)
      else
        let (err, h, x) = region_hash io (mmode_addr pkg - STAGE1_FLASH_BASE) (mmode_len pkg) ''LFmmode'' x
        in if err \<noteq> 0 then (err, x) else (if h = mmode_hash pkg then 1 else 0, x))"

definition signed_ok ::
  "seal_env \<Rightarrow> 'x upd_io \<Rightarrow> sealed_board \<Rightarrow> upd_record \<Rightarrow> u32 \<Rightarrow> u32 \<Rightarrow> 'x sealed_state \<Rightarrow> 'x \<Rightarrow>
    int \<times> 'x sealed_state \<times> 'x" where
  "signed_ok env io keys r ver len s x =
     (let (err, buf, x) = flash_read io UPD_HEADER UPD_BLOCK x in
      if err \<noteq> 0 then (err, s, x)
      else
        let (bad, _, pkg, s) = sealed_check_signed env buf (board_of keys r) no_package s in
        if bad \<noteq> 0 \<or> component pkg \<noteq> SEALED_V5F_APP \<or> version pkg \<noteq> ver \<or> pkg_len pkg \<noteq> len \<or>
           (hw_rev pkg \<noteq> 0 \<and> hw_rev pkg \<noteq> io_hw_rev io)
        then (0, s, x)
        else
          let (err, h, x) = flash_image_hash io UPD_V5F_ADDR (pkg_len pkg) x in
          if err \<noteq> 0 then (err, s, x)
          else if h \<noteq> image_hash pkg then (0, s, x)
          else let (ok, x) = mmode_ok io pkg x in (ok, s, x))"

definition installed_ok ::
  "seal_env \<Rightarrow> 'x upd_io \<Rightarrow> sealed_board \<Rightarrow> upd_record \<Rightarrow> 'x sealed_state \<Rightarrow> 'x \<Rightarrow> int \<times> 'x sealed_state \<times> 'x" where
  "installed_ok env io keys r s x =
     (let (err, mac, x) = installed_mac io r x in
      if err \<noteq> 0 then (err, s, x)
      else if mac \<noteq> v5f_mac r then (0, s, x)
      else if check_signature io then signed_ok env io keys r (v5f_version r) (v5f_length r) s x
      else (1, s, x))"

section \<open>The package on the card\<close>

text \<open>Why a mounted package is not for this board.\<close>

definition package_refused :: "'x upd_io \<Rightarrow> sealed_package \<Rightarrow> upd_msg option" where
  "package_refused io pkg =
     (if component pkg \<noteq> SEALED_V5F \<and> component pkg \<noteq> SEALED_V5F_APP then Some NotAV5FImage
      else if hw_rev pkg \<noteq> 0 \<and> hw_rev pkg \<noteq> io_hw_rev io then Some (OtherHardware (hw_rev pkg))
      else if check_signature io \<and> component pkg \<noteq> SEALED_V5F_APP then Some OnlyApps
      else if component pkg = SEALED_V5F \<and> pkg_len pkg > UPD_V5F_SLOT then Some LargerThanSlot
      else if component pkg = SEALED_V5F_APP \<and> pkg_len pkg \<noteq> UPD_APP_SPAN then Some NotTheWholeApp
      else None)"

text \<open>The blocks are checked by the loop of \<open>check_package\<close>, which is the same as the one here.\<close>

definition mount_package ::
  "seal_env \<Rightarrow> 'x upd_io \<Rightarrow> sealed_board \<Rightarrow> upd_record \<Rightarrow> bool \<Rightarrow> 'x sealed_state \<Rightarrow> 'x \<Rightarrow>
    int \<times> upd_msg \<times> sealed_package \<times> 'x sealed_state \<times> 'x" where
  "mount_package env io keys r check_all s x =
     (let (err, buf, x) = stage_read io 0 x in
      if err \<noteq> 0 then (err, NoStageFile err, no_package, s, x)
      else
        let (err, msg, pkg, s) =
          sealed_mount_package env buf (stage_blocks io) (board_of keys r) (stage_read io) no_package s
        in if err \<noteq> 0 then (err, Package msg, pkg, s, x)
        else
          (case package_refused io pkg of
             Some why \<Rightarrow> (ERR_BLK_PARSE_FAIL, why, pkg, s, x)
           | None \<Rightarrow>
               if \<not> check_all then (0, Package msg, pkg, s, x)
               else
                 let (err, m, S, s, x) =
                   check_blocks env (stage_read io) pkg True (content_blocks s) (b2s_start 32 [] ''LFimage'') s x
                 in if err \<noteq> 0 then (err, PackageBlockFails m, pkg, s, x)
                    else if b2s_done S \<noteq> image_hash pkg then (ERR_BLK_PARSE_FAIL, WrongImageHash, pkg, s, x)
                    else (0, Package msg, pkg, s, x)))"

section \<open>The backup on the card\<close>

definition backup_keys :: "upd_record \<Rightarrow> ctr_key \<times> u8 list" where
  "backup_keys r =
     (snd (ctr_setkey CTR_AES128 (derive 16 (token r) ''LFcardenc'')), derive 32 (token r) ''LFcardmac'')"

primrec backup_puts ::
  "'x sealed_read \<Rightarrow> u32 list \<Rightarrow> blake2s_state \<Rightarrow> 'x \<Rightarrow> int \<times> blake2s_state \<times> 'x" where
  "backup_puts read [] S x = (0, S, x)"
| "backup_puts read (n # ns) S x =
     (let (err, buf, x) = read n x in if err \<noteq> 0 then (err, S, x) else backup_puts read ns (b2s_hmac_puts buf S) x)"

definition backup_mac ::
  "'x upd_io \<Rightarrow> upd_record \<Rightarrow> u32 \<Rightarrow> u32 \<Rightarrow> 'x \<Rightarrow> int \<times> u8 list \<times> 'x" where
  "backup_mac io r len hb x =
     (let (err, S, x) =
        backup_puts (the (backup_read io)) (map word_of_nat [0..<Suc (unat (blocks_of len + hb))])
          (b2s_start 32 (snd (backup_keys r)) ''LFbackup'') x
      in (err, b2s_done S, x))"

definition backup_header :: "upd_record \<Rightarrow> u8 list \<Rightarrow> u32 \<Rightarrow> u8 list" where
  "backup_header r non hb =
     (let buf = copy_at 0 BACKUP_MAGIC (replicate 4096 0);
          buf = copy_at 8 (put32 (v5f_version r)) buf;
          buf = copy_at 12 (put32 (v5f_length r)) buf;
          buf = copy_at 16 non buf
      in copy_at 24 (put32 hb) buf)"

definition block_numbers :: "u32 \<Rightarrow> u32 list" where
  "block_numbers blocks = map word_of_nat [1..<Suc (unat blocks)]"

text \<open>Copying the image to the card, encrypted; and reading it back against the flash.\<close>

primrec backup_image ::
  "seal_env \<Rightarrow> 'x upd_io \<Rightarrow> ctr_key \<Rightarrow> u8 list \<Rightarrow> u32 \<Rightarrow> u32 list \<Rightarrow> 'x \<Rightarrow> int \<times> 'x" where
  "backup_image env io k non len [] x = (0, x)"
| "backup_image env io k non len (n # ns) x =
     (let at = (n - 1) * UPD_BLOCK; (err, bs, x) = flash_read io (UPD_V5F_ADDR + at) (part_size len at) x in
      if err \<noteq> 0 then (err, x)
      else
        let (e, buf) = seal_crypt_block env k non n (copy_at 0 bs (replicate 4096 0xFF)) in
        if e \<noteq> 0 then (ERR_BLOCK_READ_ERROR, x)
        else
          let (err, x) = the (backup_write io) n buf x in
          if err \<noteq> 0 then (err, x) else backup_image env io k non len ns x)"

primrec backup_verify ::
  "seal_env \<Rightarrow> 'x upd_io \<Rightarrow> ctr_key \<Rightarrow> u8 list \<Rightarrow> u32 \<Rightarrow> u32 list \<Rightarrow> 'x \<Rightarrow> int \<times> 'x" where
  "backup_verify env io k non len [] x = (0, x)"
| "backup_verify env io k non len (n # ns) x =
     (let at = (n - 1) * UPD_BLOCK; n_bytes = part_size len at; (err, buf, x) = the (backup_read io) n x in
      if err \<noteq> 0 then (err, x)
      else
        let (e, buf) = seal_crypt_block env k non n buf in
        if e \<noteq> 0 then (ERR_BLOCK_READ_ERROR, x)
        else
          let (err, chk, x) = flash_read io (UPD_V5F_ADDR + at) n_bytes x in
          if err \<noteq> 0 then (err, x)
          else if take (unat n_bytes) buf \<noteq> chk then (ERR_BLOCK_READ_ERROR, x)
          else backup_verify env io k non len ns x)"

definition backup_block0 :: "'x upd_io \<Rightarrow> u32 \<Rightarrow> 'x \<Rightarrow> int \<times> 'x" where
  "backup_block0 io blocks x =
     (if \<not> check_signature io then (0, x)
      else
        let (err, buf, x) = flash_read io UPD_HEADER UPD_BLOCK x in
        if err \<noteq> 0 then (err, x) else the (backup_write io) (blocks + 1) buf x)"

definition make_backup ::
  "seal_env \<Rightarrow> 'x upd_io \<Rightarrow> upd_record \<Rightarrow> 'x \<Rightarrow> int \<times> upd_record \<times> 'x" where
  "make_backup env io r x =
     (let len = v5f_length r; blocks = blocks_of len; hb = (if check_signature io then 1 else 0);
          k = fst (backup_keys r); (err, non, x) = random io 8 x
      in if err \<noteq> 0 then (err, r, x)
      else
        let (err, x) = the (backup_write io) 0 (backup_header r non hb) x in
        if err \<noteq> 0 then (err, r, x)
        else
          let (err, x) = backup_image env io k non len (block_numbers blocks) x in
          if err \<noteq> 0 then (err, r, x)
          else
            let (err, x) = backup_block0 io blocks x in
            if err \<noteq> 0 then (err, r, x)
            else
              let (err, mac, x) = backup_mac io r len hb x; r = r\<lparr>backup_tag := mac\<rparr> in
              if err \<noteq> 0 then (err, r, x)
              else
                let (err, x) = backup_verify env io k non len (block_numbers blocks) x in
                if err \<noteq> 0 then (err, r, x)
                else (0, r\<lparr>backup_version := v5f_version r, backup_length := len\<rparr>, x))"

text \<open>Whether the backup is what the record says, and its nonce.\<close>

definition backup_good :: "'x upd_io \<Rightarrow> upd_record \<Rightarrow> 'x \<Rightarrow> bool \<times> u8 list \<times> 'x" where
  "backup_good io r x =
     (if backup_length r = 0 \<or> backup_read io = None \<or>
         (check_pages io \<and> backup_length r \<noteq> UPD_APP_SPAN) then (False, [], x)
      else
        let (err, buf, x) = the (backup_read io) 0 x in
        if err \<noteq> 0 \<or> take 8 buf \<noteq> BACKUP_MAGIC \<or> get32 (drop 8 buf) \<noteq> backup_version r \<or>
           get32 (drop 12 buf) \<noteq> backup_length r then (False, [], x)
        else
          let hb = get32 (drop 24 buf); non = bytes_at buf 16 8 in
          if hb > 1 \<or> (check_signature io \<and> hb \<noteq> 1) then (False, non, x)
          else
            let (err, mac, x) = backup_mac io r (backup_length r) hb x
            in (err = 0 \<and> mac = backup_tag r, non, x))"

section \<open>The steps\<close>

text \<open>After a block is programmed: the progress is stored at the end of a sector and after the last block.\<close>

definition note_progress :: "'x upd_io \<Rightarrow> u32 \<Rightarrow> u32 \<Rightarrow> upd_record \<Rightarrow> 'x \<Rightarrow> int \<times> upd_record \<times> 'x" where
  "note_progress io blk blocks r x =
     (if sector_done blk blocks then record_store io (r\<lparr>progress := blk + 1\<rparr>) x else (0, r, x))"

definition blocks_from :: "u32 \<Rightarrow> u32 \<Rightarrow> u32 list" where
  "blocks_from p blocks = map word_of_nat [unat p..<unat blocks]"

primrec restore_blocks ::
  "seal_env \<Rightarrow> 'x upd_io \<Rightarrow> ctr_key \<Rightarrow> u8 list \<Rightarrow> u32 \<Rightarrow> u32 list \<Rightarrow> upd_record \<Rightarrow> 'x \<Rightarrow>
    int \<times> upd_record \<times> 'x" where
  "restore_blocks env io k non blocks [] r x = (0, r, x)"
| "restore_blocks env io k non blocks (blk # blks) r x =
     (let (err, buf, x) = the (backup_read io) (blk + 1) x in
      if err \<noteq> 0 then (err, r, x)
      else
        let (e, buf) = seal_crypt_block env k non (blk + 1) buf in
        if e \<noteq> 0 then (ERR_BLOCK_READ_ERROR, r, x)
        else
          let (err, x) = program_block io blk buf x in
          if err \<noteq> 0 then (err, r, x)
          else
            let (err, r, x) = note_progress io blk blocks r x in
            if err \<noteq> 0 then (err, r, x) else restore_blocks env io k non blocks blks r x)"

text \<open>The last steps of a rollback: the image restored is the one installed.\<close>

definition restored :: "'x upd_io \<Rightarrow> upd_record \<Rightarrow> upd_msg \<Rightarrow> 'x \<Rightarrow> int \<times> upd_msg \<times> upd_record \<times> 'x" where
  "restored io r msg x =
     (let r = r\<lparr>v5f_version := backup_version r, v5f_length := backup_length r\<rparr>;
          (err, mac, x) = installed_mac io r x
      in if err \<noteq> 0 then (err, msg, r, x)
      else
        let r = r\<lparr>v5f_mac := mac, ustate := UPD_IDLE, progress := 0, uresult := UPD_R_ROLLED_BACK\<rparr>;
            (err, r, x) = record_store io r x
        in (err, RolledBack (v5f_version r), r, x))"

definition restore_header :: "'x upd_io \<Rightarrow> u32 \<Rightarrow> 'x \<Rightarrow> int \<times> 'x" where
  "restore_header io blocks x =
     (if \<not> check_signature io then (0, x)
      else
        let (err, buf, x) = the (backup_read io) (blocks + 1) x in
        if err \<noteq> 0 then (err, x) else header_store io buf x)"

definition roll_back ::
  "seal_env \<Rightarrow> 'x upd_io \<Rightarrow> upd_record \<Rightarrow> upd_msg \<Rightarrow> 'x \<Rightarrow> int \<times> upd_msg \<times> upd_record \<times> 'x" where
  "roll_back env io r msg x =
     (let (good, non, x) = backup_good io r x in
      if \<not> good \<or> backup_version r < min_v5f r then
        let r = r\<lparr>ustate := UPD_IDLE, uresult := UPD_R_BROKEN, v5f_length := 0\<rparr>;
            msg = (if backup_length r \<noteq> 0 \<and> backup_version r < min_v5f r then BackupTooOld else BackupMissing);
            (err, r, x) = record_store io r x
        in (err, msg, r, x)
      else
        let blocks = blocks_of (backup_length r);
            (err, r, x) =
              restore_blocks env io (fst (backup_keys r)) non blocks (blocks_from (progress r) blocks) r x
        in if err \<noteq> 0 then (err, msg, r, x)
        else
          let (err, x) = restore_header io blocks x in
          if err \<noteq> 0 then (err, msg, r, x) else restored io r msg x)"

text \<open>To UPD_ROLLING_BACK from the start.\<close>

definition start_rollback ::
  "seal_env \<Rightarrow> 'x upd_io \<Rightarrow> upd_record \<Rightarrow> upd_msg \<Rightarrow> 'x \<Rightarrow> int \<times> upd_msg \<times> upd_record \<times> 'x" where
  "start_rollback env io r msg x =
     (let (err, r, x) = record_store io (r\<lparr>ustate := UPD_ROLLING_BACK, progress := 0\<rparr>) x in
      if err \<noteq> 0 then (err, msg, r, x) else roll_back env io r msg x)"

primrec install_blocks ::
  "seal_env \<Rightarrow> 'x upd_io \<Rightarrow> u32 \<Rightarrow> u32 list \<Rightarrow> upd_record \<Rightarrow> 'x sealed_state \<Rightarrow> 'x \<Rightarrow>
    int \<times> upd_record \<times> 'x sealed_state \<times> 'x" where
  "install_blocks env io blocks [] r s x = (0, r, s, x)"
| "install_blocks env io blocks (blk # blks) r s x =
     (let (err, buf, x) = stage_read io (blk + 1) x in
      if err \<noteq> 0 then (err, r, s, x)
      else
        let (err, buf, s, x) = sealed_open_block env (blk + 1) buf s x in
        if err \<noteq> 0 then (err, r, s, x)
        else
          let (err, x) = program_block io blk buf x in
          if err \<noteq> 0 then (err, r, s, x)
          else
            let (err, r, x) = note_progress io blk blocks r x in
            if err \<noteq> 0 then (err, r, s, x) else install_blocks env io blocks blks r s x)"

text \<open>The check of what was installed: the image's hash, and its block 0 with \<open>check_signature\<close>.\<close>

definition installed_check ::
  "seal_env \<Rightarrow> 'x upd_io \<Rightarrow> sealed_board \<Rightarrow> upd_record \<Rightarrow> sealed_package \<Rightarrow> 'x sealed_state \<Rightarrow> 'x \<Rightarrow>
    int \<times> 'x sealed_state \<times> 'x" where
  "installed_check env io keys r pkg s x =
     (let (err, h, x) = flash_image_hash io UPD_V5F_ADDR (pkg_len pkg) x in
      if err \<noteq> 0 then (err, s, x)
      else if h \<noteq> image_hash pkg then (ERR_BLOCK_READ_ERROR, s, x)
      else if \<not> check_signature io then (0, s, x)
      else
        let (err, buf, x) = stage_read io 0 x in
        if err \<noteq> 0 then (err, s, x)
        else
          let (err, x) = header_store io buf x in
          if err \<noteq> 0 then (err, s, x)
          else
            let (ok, s, x) = signed_ok env io keys r (version pkg) (installed_length io (pkg_len pkg)) s x
            in (if ok < 0 then ok else if ok \<noteq> 0 then 0 else ERR_BLOCK_READ_ERROR, s, x))"

definition on_trial ::
  "'x upd_io \<Rightarrow> upd_record \<Rightarrow> sealed_package \<Rightarrow> upd_msg \<Rightarrow> 'x \<Rightarrow> int \<times> upd_msg \<times> upd_record \<times> 'x" where
  "on_trial io r pkg msg x =
     (let r = r\<lparr>v5f_version := version pkg, v5f_length := installed_length io (pkg_len pkg)\<rparr>;
          (err, mac, x) = installed_mac io r x
      in if err \<noteq> 0 then (err, msg, r, x)
      else
        let (err, r, x) = record_store io (r\<lparr>v5f_mac := mac, ustate := UPD_TRIAL, progress := 0\<rparr>) x
        in (err, OnTrialNow (version pkg), r, x))"

definition install ::
  "seal_env \<Rightarrow> 'x upd_io \<Rightarrow> sealed_board \<Rightarrow> upd_record \<Rightarrow> upd_msg \<Rightarrow> 'x sealed_state \<Rightarrow> 'x \<Rightarrow>
    int \<times> upd_msg \<times> upd_record \<times> 'x sealed_state \<times> 'x" where
  "install env io keys r msg s x =
     (let (err, _, pkg, s, x) = mount_package env io keys r False s x in
      if err \<noteq> 0 \<or> version pkg \<noteq> pkg_version r \<or> pkg_len pkg \<noteq> pkg_length r \<or> image_hash pkg \<noteq> pkg_hash r then
        let (err, msg, r, x) = start_rollback env io r msg x in (err, msg, r, sealed_unmount s, x)
      else
        let blocks = blocks_of (pkg_len pkg);
            (err, r, s, x) = install_blocks env io blocks (blocks_from (progress r) blocks) r s x;
            s = sealed_unmount s;
            (err, s, x) = (if err = 0 then installed_check env io keys r pkg s x else (err, s, x))
        in if err = ERR_BLOCK_READ_ERROR then
             let (err, msg, r, x) = start_rollback env io r msg x in (err, msg, r, s, x)
           else if err \<noteq> 0 then (err, msg, r, s, x)
           else let (err, msg, r, x) = on_trial io r pkg msg x in (err, msg, r, s, x))"

text \<open>\<open>keep\<close>: whether the installed image is worth a backup (it passes its check), or an error.\<close>

definition worth_keeping ::
  "seal_env \<Rightarrow> 'x upd_io \<Rightarrow> sealed_board \<Rightarrow> upd_record \<Rightarrow> 'x sealed_state \<Rightarrow> 'x \<Rightarrow> int \<times> 'x sealed_state \<times> 'x" where
  "worth_keeping env io keys r s x = (if v5f_length r \<noteq> 0 then installed_ok env io keys r s x else (0, s, x))"

definition backup_need :: "'x upd_io \<Rightarrow> upd_record \<Rightarrow> u32" where
  "backup_need io r = 1 + blocks_of (v5f_length r) + (if check_signature io then 1 else 0)"

definition begin_update :: "upd_record \<Rightarrow> sealed_package \<Rightarrow> bool \<Rightarrow> upd_record" where
  "begin_update r pkg keep =
     r\<lparr>pkg_version := version pkg, pkg_length := pkg_len pkg, pkg_min := min_version pkg,
       pkg_hash := image_hash pkg, ustate := UPD_BACKING_UP, progress := 0, uresult := UPD_R_NONE,
       backup_length := (if keep then 0 else backup_length r)\<rparr>"

definition start_update ::
  "seal_env \<Rightarrow> 'x upd_io \<Rightarrow> sealed_board \<Rightarrow> upd_record \<Rightarrow> 'x sealed_state \<Rightarrow> 'x \<Rightarrow>
    int \<times> upd_msg \<times> upd_record \<times> 'x sealed_state \<times> 'x" where
  "start_update env io keys r s x =
     (let (err, msg, pkg, s, x) = mount_package env io keys r True s x; s = sealed_unmount s in
      if err \<noteq> 0 then
        let (err, r, x) = record_store io (r\<lparr>uresult := UPD_R_REFUSED\<rparr>) x in (err, msg, r, s, x)
      else
        let (keep, s, x) = worth_keeping env io keys r s x in
        if keep < 0 then (keep, msg, r, s, x)
        else if keep \<noteq> 0 \<and> (backup_write io = None \<or> backup_blocks io < backup_need io r) then
          let (err, r', x) = record_store io (r\<lparr>uresult := UPD_R_NO_BACKUP\<rparr>) x
          in (err, BackupTooSmall (backup_need io r), r', s, x)
        else
          let (err, r, x) = record_store io (begin_update r pkg (keep \<noteq> 0)) x in
          if err \<noteq> 0 then (err, msg, r, s, x)
          else
            let (err, r, x) = (if keep \<noteq> 0 then make_backup env io r x else (0, r, x)) in
            if err \<noteq> 0 then (err, msg, r, s, x)
            else
              let (err, r, x) = record_store io (r\<lparr>ustate := UPD_INSTALLING\<rparr>) x in
              if err \<noteq> 0 then (err, msg, r, s, x) else install env io keys r msg s x)"

section \<open>Booting\<close>

text \<open>A blank record: a new token, and with \<open>adopt_blank\<close> the image in flash as installed.\<close>

definition new_record ::
  "'x upd_io \<Rightarrow> 'x \<Rightarrow> int \<times> upd_record \<times> 'x" where
  "new_record io x =
     (let r = zero_record\<lparr>rmagic := RECORD_MAGIC, rformat := RECORD_FORMAT\<rparr>; (err, t, x) = random io 32 x in
      if err \<noteq> 0 then (err, r, x)
      else
        let r = r\<lparr>token := t\<rparr> in
        if \<not> adopt_blank io then record_store io r x
        else
          let r = r\<lparr>v5f_length := installed_length io UPD_V5F_SLOT\<rparr>; (err, mac, x) = installed_mac io r x in
          if err \<noteq> 0 then (err, r, x) else record_store io (r\<lparr>v5f_mac := mac\<rparr>) x)"

definition boot_record ::
  "'x upd_io \<Rightarrow> upd_record \<Rightarrow> 'x \<Rightarrow> int \<times> upd_msg \<times> upd_record \<times> 'x" where
  "boot_record io r x =
     (let (err, r, x) = upd_record_load io r x in
      if err = 1 then
        let (err, r, x) = new_record io x
        in (err, if err \<noteq> 0 then NothingToDo else NewRecord (adopt_blank io), r, x)
      else (if err < 0 then err else 0, NothingToDo, r, x))"

text \<open>A boot on trial.\<close>

definition trial_boot ::
  "seal_env \<Rightarrow> 'x upd_io \<Rightarrow> upd_record \<Rightarrow> upd_msg \<Rightarrow> 'x \<Rightarrow> int \<times> upd_msg \<times> upd_record \<times> 'x" where
  "trial_boot env io r msg x =
     (let r = r\<lparr>progress := progress r + 1\<rparr> in
      if progress r > UPD_TRIAL_BOOTS then
        if backup_length r = 0 then
          let (err, r', x) =
            record_store io (r\<lparr>ustate := UPD_IDLE, uresult := UPD_R_BROKEN, v5f_length := 0\<rparr>) x
          in (err, NeverConfirmed (v5f_version r), r', x)
        else start_rollback env io r msg x
      else
        let (err, r', x) = record_store io r x in (err, TrialBoot (v5f_version r) (progress r), r', x))"

text \<open>The switch on the state.\<close>

definition boot_step ::
  "seal_env \<Rightarrow> 'x upd_io \<Rightarrow> sealed_board \<Rightarrow> bool \<Rightarrow> upd_record \<Rightarrow> upd_msg \<Rightarrow> 'x sealed_state \<Rightarrow> 'x \<Rightarrow>
    int \<times> upd_msg \<times> upd_record \<times> 'x sealed_state \<times> 'x" where
  "boot_step env io keys waiting r msg s x =
     (if ustate r = UPD_IDLE then
        (if waiting then start_update env io keys r s x else (0, msg, r, s, x))
      else if ustate r = UPD_BACKING_UP then start_update env io keys (r\<lparr>ustate := UPD_IDLE\<rparr>) s x
      else if ustate r = UPD_INSTALLING then install env io keys r msg s x
      else if ustate r = UPD_TRIAL then
        let (err, msg, r, x) = trial_boot env io r msg x in (err, msg, r, s, x)
      else if ustate r = UPD_ROLLING_BACK then
        let (err, msg, r, x) = roll_back env io r msg x in (err, msg, r, s, x)
      else (ERR_BLK_PARSE_FAIL, UnknownState (ustate r), r, s, x))"

definition broken ::
  "'x upd_io \<Rightarrow> upd_record \<Rightarrow> 'x sealed_state \<Rightarrow> 'x \<Rightarrow> ior \<times> upd_msg \<times> upd_record \<times> 'x sealed_state \<times> 'x" where
  "broken io r s x =
     (let (err, r, x) = record_store io (r\<lparr>uresult := UPD_R_BROKEN, v5f_length := 0\<rparr>) x
      in (if err \<noteq> 0 then err else UPD_RECOVERY, FailsItsCheck, r, s, x))"

definition adopt_changed ::
  "'x upd_io \<Rightarrow> upd_record \<Rightarrow> upd_msg \<Rightarrow> 'x sealed_state \<Rightarrow> 'x \<Rightarrow>
    ior \<times> upd_msg \<times> upd_record \<times> 'x sealed_state \<times> 'x" where
  "adopt_changed io r msg s x =
     (let r = r\<lparr>ustate := UPD_IDLE, progress := 0, v5f_version := 0,
          v5f_length := installed_length io UPD_V5F_SLOT, uresult := UPD_R_NONE\<rparr>;
          (err, mac, x) = installed_mac io r x
      in if err \<noteq> 0 then (err, msg, r, s, x)
      else
        let (err, r, x) = record_store io (r\<lparr>v5f_mac := mac\<rparr>) x in
        if err \<noteq> 0 then (err, msg, r, s, x) else (UPD_START, AdoptedChanged, r, s, x))"

text \<open>The image the V5F would run.\<close>

definition boot_image ::
  "seal_env \<Rightarrow> 'x upd_io \<Rightarrow> sealed_board \<Rightarrow> upd_record \<Rightarrow> upd_msg \<Rightarrow> 'x sealed_state \<Rightarrow> 'x \<Rightarrow>
    ior \<times> upd_msg \<times> upd_record \<times> 'x sealed_state \<times> 'x" where
  "boot_image env io keys r msg s x =
     (if v5f_length r = 0 then (UPD_RECOVERY, if msg = NothingToDo then NoWorkingImage else msg, r, s, x)
      else
        let (ok, s, x) = installed_ok env io keys r s x in
        if ok < 0 then (ok, msg, r, s, x)
        else if ok \<noteq> 0 then (UPD_START, msg, r, s, x)
        else if adopt_blank io then adopt_changed io r msg s x
        else if ustate r = UPD_IDLE \<and> backup_length r \<noteq> 0 then
          let (err, msg, r, x) = start_rollback env io r msg x in
          if err \<noteq> 0 then (err, msg, r, s, x)
          else
            let (ok, s, x) = installed_ok env io keys r s x in
            if ok < 0 then (ok, msg, r, s, x)
            else if ok \<noteq> 0 \<and> uresult r = UPD_R_ROLLED_BACK then (UPD_START, msg, r, s, x)
            else broken io r s x
        else broken io r s x)"

definition upd_boot ::
  "seal_env \<Rightarrow> 'x upd_io \<Rightarrow> sealed_board \<Rightarrow> bool \<Rightarrow> upd_record \<Rightarrow> 'x sealed_state \<Rightarrow> 'x \<Rightarrow>
    ior \<times> upd_msg \<times> upd_record \<times> 'x sealed_state \<times> 'x" where
  "upd_boot env io keys waiting r s x =
     (let (err, msg, r, x) = boot_record io r x in
      if err \<noteq> 0 then (err, msg, r, s, x)
      else
        let (err, msg, r, s, x) = boot_step env io keys waiting r msg s x in
        if err < 0 then (err, msg, r, s, x) else boot_image env io keys r msg s x)"

section \<open>Other operations\<close>

definition upd_board_key :: "upd_record \<Rightarrow> u8 list" where
  "upd_board_key r = derive 32 (token r) ''LFboard''"

definition upd_confirm :: "'x upd_io \<Rightarrow> 'x \<Rightarrow> int \<times> 'x" where
  "upd_confirm io x =
     (let (err, r, x) = upd_record_load io zero_record x in
      if err \<noteq> 0 then (if err < 0 then err else 0, x)
      else if ustate r \<noteq> UPD_TRIAL then (0, x)
      else
        let r = r\<lparr>ustate := UPD_IDLE, progress := 0, uresult := UPD_R_INSTALLED,
              min_v5f := (if pkg_min r > min_v5f r then pkg_min r else min_v5f r)\<rparr>;
            (err, _, x) = record_store io r x
        in (err, x))"

definition upd_adopt :: "'x upd_io \<Rightarrow> 'x \<Rightarrow> int \<times> upd_msg \<times> 'x" where
  "upd_adopt io x =
     (let (err, r, x) = upd_record_load io zero_record x in
      if err \<noteq> 0 then (if err < 0 then err else ERR_BLK_PARSE_FAIL, NoRecord, x)
      else if ustate r \<noteq> UPD_IDLE then (ERR_BLK_PARSE_FAIL, UnderWay, x)
      else
        let r = r\<lparr>v5f_version := 0, v5f_length := installed_length io UPD_V5F_SLOT\<rparr>;
            (err, mac, x) = installed_mac io r x
        in if err \<noteq> 0 then (err, AdoptFailed err, x)
        else
          let (err, _, x) = record_store io (r\<lparr>v5f_mac := mac, uresult := UPD_R_NONE\<rparr>) x
          in (err, if err \<noteq> 0 then AdoptFailed err else AdoptedImage, x))"

definition upd_mark_broken :: "'x upd_io \<Rightarrow> 'x \<Rightarrow> int \<times> upd_msg \<times> 'x" where
  "upd_mark_broken io x =
     (let (err, r, x) = upd_record_load io zero_record x in
      if err \<noteq> 0 then (if err < 0 then err else ERR_BLK_PARSE_FAIL, NoRecord, x)
      else if ustate r \<noteq> UPD_IDLE then (0, UnderWay, x)
      else
        let (err, _, x) = record_store io (r\<lparr>v5f_length := 0, uresult := UPD_R_BROKEN\<rparr>) x
        in (err, if err \<noteq> 0 then MarkFailed err else MarkedBroken, x))"

section \<open>The record survives a power cut\<close>

lemma put32_is_store32: "put32 x = store32 x"
  by (simp add: put32_def store32_def upt_rec)

text \<open>The fields that are arrays have 32 bytes.\<close>

definition record_wf :: "upd_record \<Rightarrow> bool" where
  "record_wf r \<longleftrightarrow> length (token r) = 32 \<and> length (v5f_mac r) = 32 \<and> length (pkg_hash r) = 32 \<and>
     length (backup_tag r) = 32 \<and> length (rec_hash r) = 32"

lemma load_skip: "load32 (drop n (xs @ ys)) = load32 (drop (n - length xs) ys)" if "length xs \<le> n"
  using that by simp

lemma record_round:
  assumes "record_wf r"
  shows "record_of (record_bytes r) = r" "length (record_bytes r) = 220"
  using assms by (simp_all add: record_wf_def record_bytes_def record_body_def record_of_def bytes_at_def)

lemma record_at_odd: "record_at s = (if odd s then UPD_RECORD_B else UPD_RECORD_A)"
  by (simp add: record_at_def and_one_eq odd_iff_mod_2_eq_one)

lemma next_record_fields [simp]: "seq (next_record r) = seq r + 1" "rmagic (next_record r) = rmagic r"
  "rformat (next_record r) = rformat r"
  by (simp_all add: next_record_def Let_def)

lemma record_hash_cong: "record_hash (r\<lparr>rec_hash := h\<rparr>) = record_hash r"
  by (simp add: record_hash_def record_body_def)

lemma next_record_valid: "\<lbrakk>rmagic r = RECORD_MAGIC; rformat r = RECORD_FORMAT\<rbrakk> \<Longrightarrow> record_valid (next_record r)"
  by (simp add: record_valid_def next_record_def Let_def record_hash_cong)

lemma length_done: "length (b2s_done (fold b2s_hmac_puts chunks (b2s_start 32 [] p))) = 32"
  using fresh_hash [of 32 "[]" chunks None "Some (person p)" blake2s_init0]
  by (simp add: b2s_done_def b2s_start_def length_rfc7693)

lemma next_record_wf: "record_wf r \<Longrightarrow> record_wf (next_record r)"
  using length_done [of "[record_body (r\<lparr>seq := seq r + 1\<rparr>)]" "''LFrecord''"]
  by (simp add: record_wf_def next_record_def record_hash_def Let_def)

text \<open>
  What is asked of the flash where the record's two copies lie: \<open>copy p x\<close> is what the copy at \<open>p\<close> holds
  in the world \<open>x\<close>. Reading changes no copy, and a read that reports no error gives the copy. An erase or a
  write of a copy, whether it succeeds, fails or is cut off by the power, changes no more than that copy,
  and leaves a valid record in it only if it left the old one or completed the new one: a torn write
  does not happen to have the right hash.
\<close>

definition touched :: "(u32 \<Rightarrow> 'x \<Rightarrow> u8 list) \<Rightarrow> u32 \<Rightarrow> u8 list option \<Rightarrow> 'x \<Rightarrow> 'x \<Rightarrow> bool" where
  "touched copy p new x y \<longleftrightarrow>
     (\<forall>q \<in> {UPD_RECORD_A, UPD_RECORD_B}. q \<noteq> p \<longrightarrow> copy q y = copy q x) \<and>
     (record_valid (record_of (copy p y)) \<longrightarrow> copy p y = copy p x \<or> new = Some (copy p y))"

definition record_port :: "(u32 \<Rightarrow> 'x \<Rightarrow> u8 list) \<Rightarrow> 'x upd_io \<Rightarrow> bool" where
  "record_port copy io \<longleftrightarrow>
     (\<forall>a n x. fst (flash_read io a n x) \<le> 0) \<and>
     (\<forall>p \<in> {UPD_RECORD_A, UPD_RECORD_B}. \<forall>x. length (copy p x) = 220 \<and>
       (\<forall>a n. copy p (snd (snd (flash_read io a n x))) = copy p x) \<and>
       (fst (flash_read io p RECORD_SIZE x) = 0 \<longrightarrow> fst (snd (flash_read io p RECORD_SIZE x)) = copy p x) \<and>
       fst (flash_erase io p x) \<le> 0 \<and> touched copy p None x (snd (flash_erase io p x)) \<and>
       (\<forall>bs. length bs = 220 \<longrightarrow>
         fst (flash_write io p bs x) \<le> 0 \<and> touched copy p (Some bs) x (snd (flash_write io p bs x))))"

text \<open>What an erase and a write leave when the power goes during them.\<close>

definition torn :: "(u32 \<Rightarrow> 'x \<Rightarrow> u8 list) \<Rightarrow> (u32 \<Rightarrow> 'x \<Rightarrow> 'x) \<Rightarrow> (u32 \<Rightarrow> u8 list \<Rightarrow> 'x \<Rightarrow> 'x) \<Rightarrow> bool" where
  "torn copy erased written \<longleftrightarrow>
     (\<forall>p \<in> {UPD_RECORD_A, UPD_RECORD_B}. \<forall>x. touched copy p None x (erased p x) \<and>
       (\<forall>bs. length bs = 220 \<longrightarrow> touched copy p (Some bs) x (written p bs x)))"

text \<open>A board that loses power: with \<open>Some k\<close>, k more erases and writes of the flash complete and the next
  one is cut off; with \<open>None\<close> the power is gone and nothing happens any more.\<close>

definition cut_io ::
  "(u32 \<Rightarrow> 'x \<Rightarrow> 'x) \<Rightarrow> (u32 \<Rightarrow> u8 list \<Rightarrow> 'x \<Rightarrow> 'x) \<Rightarrow> 'x upd_io \<Rightarrow> ('x \<times> nat option) upd_io" where
  "cut_io erased written io =
     \<lparr>flash_read = (\<lambda>a n (x, k). case k of
          None \<Rightarrow> (ERR_FLASH_WRITE_SECTOR, [], x, k)
        | Some _ \<Rightarrow> let (e, bs, y) = flash_read io a n x in (e, bs, y, k)),
      flash_erase = (\<lambda>a (x, k). case k of
          None \<Rightarrow> (ERR_FLASH_WRITE_SECTOR, x, None)
        | Some 0 \<Rightarrow> (ERR_FLASH_WRITE_SECTOR, erased a x, None)
        | Some (Suc i) \<Rightarrow> let (e, y) = flash_erase io a x in (e, y, Some i)),
      flash_write = (\<lambda>a bs (x, k). case k of
          None \<Rightarrow> (ERR_FLASH_WRITE_SECTOR, x, None)
        | Some 0 \<Rightarrow> (ERR_FLASH_WRITE_SECTOR, written a bs x, None)
        | Some (Suc i) \<Rightarrow> let (e, y) = flash_write io a bs x in (e, y, Some i)),
      stage_read = (\<lambda>n (x, k). let (e, bs, y) = stage_read io n x in (e, bs, y, k)),
      stage_blocks = stage_blocks io,
      backup_read = map_option (\<lambda>read n (x, k). let (e, bs, y) = read n x in (e, bs, y, k)) (backup_read io),
      backup_write = map_option (\<lambda>put n bs (x, k). let (e, y) = put n bs x in (e, y, k)) (backup_write io),
      backup_blocks = backup_blocks io,
      random = (\<lambda>n (x, k). let (e, bs, y) = random io n x in (e, bs, y, k)),
      io_hw_rev = io_hw_rev io, adopt_blank = adopt_blank io, check_pages = check_pages io,
      check_signature = check_signature io\<rparr>"

lemma touched_trans:
  "touched copy p None x y \<Longrightarrow> touched copy p new y z \<Longrightarrow> touched copy p new x z"
  unfolding touched_def by (metis option.distinct(1))

lemma touched_weaken: "touched copy p None x y \<Longrightarrow> touched copy p new x y"
  unfolding touched_def by auto

lemma touched_same:
  "\<lbrakk>touched copy p new x y; \<And>q. q \<in> {UPD_RECORD_A, UPD_RECORD_B} \<Longrightarrow> copy q z = copy q y;
    p \<in> {UPD_RECORD_A, UPD_RECORD_B}\<rbrakk> \<Longrightarrow> touched copy p new x z"
  unfolding touched_def by auto

lemma record_portD:
  assumes "record_port copy io" "p \<in> {UPD_RECORD_A, UPD_RECORD_B}"
  shows "length (copy p x) = 220" "copy p (snd (snd (flash_read io a n x))) = copy p x"
    "fst (flash_read io p RECORD_SIZE x) = 0 \<Longrightarrow> fst (snd (flash_read io p RECORD_SIZE x)) = copy p x"
    "fst (flash_erase io p x) \<le> 0" "touched copy p None x (snd (flash_erase io p x))"
    "length bs = 220 \<Longrightarrow> fst (flash_write io p bs x) \<le> 0"
    "length bs = 220 \<Longrightarrow> touched copy p (Some bs) x (snd (flash_write io p bs x))"
  using assms unfolding record_port_def by blast+

lemma record_port_code: "record_port copy io \<Longrightarrow> fst (flash_read io a n x) \<le> 0"
  by (simp add: record_port_def)

lemma negative_code: "ERR_FLASH_WRITE_SECTOR < 0"
  by (simp add: const_defs)

lemma cut_port:
  assumes "record_port copy io" "torn copy erased written"
  shows "record_port (\<lambda>p w. copy p (fst w)) (cut_io erased written io)"
proof -
  have lift: "touched (\<lambda>p w. copy p (fst w)) p new (x, k) w \<longleftrightarrow> touched copy p new x (fst w)" for p new x k w
    by (simp add: touched_def)
  have neg: "ERR_FLASH_WRITE_SECTOR \<le> 0" using negative_code by simp
  have nz: "ERR_FLASH_WRITE_SECTOR \<noteq> 0" using negative_code by simp
  show ?thesis
    unfolding record_port_def
  proof (intro conjI allI ballI impI)
    fix a n and w :: "'a \<times> nat option"
    show "fst (flash_read (cut_io erased written io) a n w) \<le> 0"
      using record_port_code [OF assms(1)] neg
      by (cases w) (simp add: cut_io_def Let_def case_prod_unfold split: option.split)
  next
    fix p and w :: "'a \<times> nat option"
    assume p: "p \<in> {UPD_RECORD_A, UPD_RECORD_B}"
    obtain x k where w: "w = (x, k)" by (cases w) auto
    note port = record_portD [OF assms(1) p]
    have t: "touched copy p None x (erased p x)" "length bs = 220 \<Longrightarrow> touched copy p (Some bs) x (written p bs x)" for bs
      using assms(2) p by (auto simp: torn_def)
    have self: "touched copy p new x x" for new by (simp add: touched_def)
    show "length (copy p (fst w)) = 220" by (rule port(1))
    show "copy p (fst (snd (snd (flash_read (cut_io erased written io) a n w)))) = copy p (fst w)" for a n
      by (simp add: w cut_io_def Let_def case_prod_unfold port(2) split: option.split)
    show "fst (snd (flash_read (cut_io erased written io) p RECORD_SIZE w)) = copy p (fst w)"
      if "fst (flash_read (cut_io erased written io) p RECORD_SIZE w) = 0"
      using that nz by (auto simp: w cut_io_def Let_def case_prod_unfold port(3) split: option.splits)
    show "fst (flash_erase (cut_io erased written io) p w) \<le> 0"
      by (simp add: w cut_io_def Let_def case_prod_unfold port(4) neg split: option.split nat.split)
    show "touched (\<lambda>p w. copy p (fst w)) p None w (snd (flash_erase (cut_io erased written io) p w))"
      by (simp add: w lift cut_io_def Let_def case_prod_unfold port(5) t self split: option.split nat.split)
    fix bs :: "u8 list" assume l: "length bs = 220"
    show "fst (flash_write (cut_io erased written io) p bs w) \<le> 0"
      by (simp add: w cut_io_def Let_def case_prod_unfold port(6) [OF l] neg split: option.split nat.split)
    show "touched (\<lambda>p w. copy p (fst w)) p (Some bs) w (snd (flash_write (cut_io erased written io) p bs w))"
      by (simp add: w lift cut_io_def Let_def case_prod_unfold port(7) [OF l] t(2) [OF l] self
          split: option.split nat.split)
  qed
qed

text \<open>A valid copy lies where its sequence number says; and the newest valid record is \<open>r\<close>.\<close>

definition placed :: "(u32 \<Rightarrow> 'x \<Rightarrow> u8 list) \<Rightarrow> 'x \<Rightarrow> bool" where
  "placed copy x \<longleftrightarrow>
     (\<forall>p \<in> {UPD_RECORD_A, UPD_RECORD_B}. record_valid (record_of (copy p x)) \<longrightarrow>
       record_at (seq (record_of (copy p x))) = p)"

definition newest :: "(u32 \<Rightarrow> 'x \<Rightarrow> u8 list) \<Rightarrow> upd_record \<Rightarrow> 'x \<Rightarrow> bool" where
  "newest copy r x \<longleftrightarrow> placed copy x \<and> record_valid r \<and> record_of (copy (record_at (seq r)) x) = r \<and>
     (\<forall>p \<in> {UPD_RECORD_A, UPD_RECORD_B}. p \<noteq> record_at (seq r) \<and> record_valid (record_of (copy p x)) \<longrightarrow>
       seq (record_of (copy p x)) < seq r)"

lemma ab_differ: "UPD_RECORD_A \<noteq> UPD_RECORD_B" "UPD_RECORD_B \<noteq> UPD_RECORD_A"
  by (simp_all add: const_defs)

lemma record_at_place: "record_at s \<in> {UPD_RECORD_A, UPD_RECORD_B}"
  by (simp add: record_at_def)

lemma placed_same:
  "(\<And>q. q \<in> {UPD_RECORD_A, UPD_RECORD_B} \<Longrightarrow> copy q y = copy q x) \<Longrightarrow> placed copy y = placed copy x"
  by (simp add: placed_def)

lemma newest_same:
  "(\<And>q. q \<in> {UPD_RECORD_A, UPD_RECORD_B} \<Longrightarrow> copy q y = copy q x) \<Longrightarrow> newest copy r y = newest copy r x"
  using record_at_place placed_same [of copy y x] by (simp add: newest_def)

lemma newest_fst: "newest (\<lambda>p w. copy p (fst w)) r w = newest copy r (fst w)"
  by (simp add: newest_def placed_def)

text \<open>What a load reads, when both reads say 0.\<close>

lemma load_reads:
  assumes "record_port copy io" "upd_record_load io r0 x = (e, t, y)"
  shows "(\<forall>q \<in> {UPD_RECORD_A, UPD_RECORD_B}. copy q y = copy q x) \<and>
    (e < 0 \<or> (let a = record_of (copy UPD_RECORD_A x); b = record_of (copy UPD_RECORD_B x);
        va = record_valid a; vb = record_valid b
      in if \<not> va \<and> \<not> vb then e = 1 else e = 0 \<and> t = (if va \<and> (\<not> vb \<or> seq b \<le> seq a) then a else b)))"
proof -
  obtain e1 a x1 where r1: "flash_read io UPD_RECORD_A RECORD_SIZE x = (e1, a, x1)"
    by (cases "flash_read io UPD_RECORD_A RECORD_SIZE x") auto
  obtain e2 b x2 where r2: "flash_read io UPD_RECORD_B RECORD_SIZE x1 = (e2, b, x2)"
    by (cases "flash_read io UPD_RECORD_B RECORD_SIZE x1") auto
  have s: "copy q x1 = copy q x" "copy q x2 = copy q x" if "q \<in> {UPD_RECORD_A, UPD_RECORD_B}" for q
    using record_portD(2) [OF assms(1) that, of UPD_RECORD_A RECORD_SIZE x]
      record_portD(2) [OF assms(1) that, of UPD_RECORD_B RECORD_SIZE x1] r1 r2 by simp_all
  have c: "e1 \<le> 0" "e2 \<le> 0"
    using record_port_code [OF assms(1), of UPD_RECORD_A RECORD_SIZE x]
      record_port_code [OF assms(1), of UPD_RECORD_B RECORD_SIZE x1] r1 r2 by simp_all
  have d: "e1 = 0 \<Longrightarrow> a = copy UPD_RECORD_A x" "e2 = 0 \<Longrightarrow> b = copy UPD_RECORD_B x"
    using record_portD(3) [OF assms(1), of UPD_RECORD_A x] record_portD(3) [OF assms(1), of UPD_RECORD_B x1]
      r1 r2 s by simp_all
  consider "e1 \<noteq> 0" | "e1 = 0" "e2 \<noteq> 0" | "e1 = 0" "e2 = 0" by blast
  then show ?thesis
  proof cases
    case 1
    then have "y = x1" "e = e1" using assms(2) by (simp_all add: upd_record_load_def r1)
    with 1 c s show ?thesis by simp
  next
    case 2
    then have "y = x2" "e = e2" using assms(2) by (simp_all add: upd_record_load_def r1 r2)
    with 2 c s show ?thesis by simp
  next
    case 3
    then have ab: "a = copy UPD_RECORD_A x" "b = copy UPD_RECORD_B x" using d by simp_all
    have y: "y = x2"
      using assms(2) 3 by (simp add: upd_record_load_def r1 r2 Let_def split: if_splits)
    then have "\<forall>q \<in> {UPD_RECORD_A, UPD_RECORD_B}. copy q y = copy q x" using s by blast
    moreover have "let a = record_of (copy UPD_RECORD_A x); b = record_of (copy UPD_RECORD_B x);
        va = record_valid a; vb = record_valid b
      in if \<not> va \<and> \<not> vb then e = 1 else e = 0 \<and> t = (if va \<and> (\<not> vb \<or> seq b \<le> seq a) then a else b)"
      using assms(2) 3 by (auto simp: upd_record_load_def r1 r2 ab Let_def split: if_splits)
    ultimately show ?thesis by blast
  qed
qed

lemma load_newest:
  assumes "record_port copy io" "newest copy r x" "upd_record_load io r0 x = (e, t, y)"
  shows "(e < 0 \<or> e = 0 \<and> t = r) \<and> newest copy r y"
proof -
  note l = load_reads [OF assms(1,3)]
  have n: "newest copy r y" using newest_same [of copy y x r] l assms(2) by blast
  have "e = 0 \<and> t = r" if "\<not> e < 0"
  proof (cases "even (seq r)")
    case True
    then have at: "record_at (seq r) = UPD_RECORD_A" by (simp add: record_at_odd)
    then show ?thesis
      using l that assms(2) by (auto simp: newest_def at Let_def ab_differ dest: less_imp_le)
  next
    case False
    then have at: "record_at (seq r) = UPD_RECORD_B" by (simp add: record_at_odd)
    then show ?thesis
      using l that assms(2) by (auto simp: newest_def at Let_def ab_differ split: if_splits)
  qed
  with n show ?thesis by blast
qed

lemma record_of_wf: "length b = 220 \<Longrightarrow> record_wf (record_of b)"
  by (simp add: record_of_def record_wf_def bytes_at_def)

lemma load_placed:
  assumes "record_port copy io" "placed copy x" "upd_record_load io r0 x = (0, r, y)"
  shows "newest copy r x \<and> newest copy r y \<and> record_wf r"
proof -
  note l = load_reads [OF assms(1,3)]
  define a b where "a = record_of (copy UPD_RECORD_A x)" and "b = record_of (copy UPD_RECORD_B x)"
  have p: "record_valid a \<Longrightarrow> record_at (seq a) = UPD_RECORD_A" "record_valid b \<Longrightarrow> record_at (seq b) = UPD_RECORD_B"
    using assms(2) by (auto simp: placed_def a_def b_def)
  then have ne: "record_valid a \<Longrightarrow> record_valid b \<Longrightarrow> seq a \<noteq> seq b" using ab_differ by auto
  have r: "r = a \<and> record_valid a \<and> (record_valid b \<longrightarrow> seq b \<le> seq a) \<or>
      r = b \<and> record_valid b \<and> (record_valid a \<longrightarrow> \<not> seq b \<le> seq a)"
    using l by (auto simp: Let_def a_def b_def split: if_splits)
  have "newest copy r x"
    using r p ne assms(2) ab_differ by (auto simp: newest_def a_def b_def)
  moreover have "record_wf r"
    using r record_of_wf record_portD(1) [OF assms(1)] by (auto simp: a_def b_def)
  ultimately show ?thesis using newest_same [of copy y x r] l by blast
qed

lemma write_copy:
  assumes "record_port copy io" "p \<in> {UPD_RECORD_A, UPD_RECORD_B}" "length d = 220"
    "write_checked io True p RECORD_SIZE d x = (e, y)"
  shows "e \<le> 0 \<and> touched copy p (Some d) x y \<and> (e = 0 \<longrightarrow> copy p y = d)"
proof -
  note port = record_portD [OF assms(1,2)]
  obtain e1 x1 where o1: "flash_erase io p x = (e1, x1)" by (cases "flash_erase io p x") auto
  obtain e2 x2 where o2: "flash_write io p d x1 = (e2, x2)" by (cases "flash_write io p d x1") auto
  obtain e3 chk x3 where o3: "flash_read io p RECORD_SIZE x2 = (e3, chk, x3)"
    by (cases "flash_read io p RECORD_SIZE x2") auto
  have d: "take (unat RECORD_SIZE) d = d" using assms(3) by (simp add: RECORD_SIZE_def)
  have e: "e1 \<le> 0" "e2 \<le> 0" "e3 \<le> 0" "ERR_FLASH_WRITE_SECTOR < 0"
    using port(4) [of x] port(6) [OF assms(3), of x1] record_port_code [OF assms(1), of p RECORD_SIZE x2] o1 o2 o3
      negative_code by simp_all
  have t1: "touched copy p None x x1" using port(5) [of x] o1 by simp
  have t2: "touched copy p (Some d) x x2"
    using touched_trans [OF t1] port(7) [OF assms(3), of x1] o2 by simp
  have s3: "copy q x3 = copy q x2" if "q \<in> {UPD_RECORD_A, UPD_RECORD_B}" for q
    using record_portD(2) [OF assms(1) that, of p RECORD_SIZE x2] o3 by simp
  have t3: "touched copy p (Some d) x x3" using touched_same [OF t2 s3 assms(2)] .
  have chk: "e3 = 0 \<Longrightarrow> chk = copy p x3" using port(3) [of x2] o3 s3 [OF assms(2)] by simp
  show ?thesis
    using assms(4) e touched_weaken [OF t1, of "Some d"] t2 t3 chk
    by (auto simp: write_checked_def d o1 o2 o3 Let_def split: if_splits)
qed

lemma seq_up: "seq r \<noteq> - 1 \<Longrightarrow> seq r < seq r + 1"
proof -
  assume "seq r \<noteq> - 1"
  then have "1 + seq r \<noteq> 0"
    by (metis add.commute eq_neg_iff_add_eq_0)
  then show ?thesis
    using unatSuc [of "seq r"] by (simp add: word_less_nat add.commute)
qed

text \<open>The same kind of record with the same number: what the steps store after loading \<open>r\<close>.\<close>

definition follows :: "upd_record \<Rightarrow> upd_record \<Rightarrow> bool" where
  "follows r q \<longleftrightarrow> seq q = seq r \<and> rmagic q = rmagic r \<and> rformat q = rformat r \<and> record_wf q"

lemma store_newest:
  assumes "record_port copy io" "newest copy r x" "follows r q" "seq r \<noteq> - 1"
    "record_store io q x = (e, q', y)"
  shows "q' = next_record q \<and> e \<le> 0 \<and> (newest copy r y \<or> newest copy q' y) \<and> (e = 0 \<longrightarrow> newest copy q' y)"
proof -
  define p where "p = record_at (seq q')"
  have q': "q' = next_record q" using assms(5) by (auto simp: record_store_def Let_def split: prod.splits)
  then have wf: "record_wf q'" using assms(3) next_record_wf by (simp add: follows_def)
  note round = record_round [OF wf]
  have s: "seq q' = seq r + 1" "seq r < seq q'" using q' assms(3) seq_up [OF assms(4)] by (simp_all add: follows_def)
  have p: "p \<in> {UPD_RECORD_A, UPD_RECORD_B}" "p \<noteq> record_at (seq r)" "record_at (seq r) \<in> {UPD_RECORD_A, UPD_RECORD_B}"
    using s(1) ab_differ by (auto simp: p_def record_at_odd)
  have valid: "record_valid r" "record_valid q'"
    using assms(2,3) next_record_valid [of q] by (auto simp: newest_def follows_def q' record_valid_def)
  have "write_checked io True p RECORD_SIZE (record_bytes q') x = (e, y)"
    using assms(5) by (auto simp: record_store_def p_def q' Let_def split: prod.splits)
  note w = write_copy [OF assms(1) p(1) round(2) this]
  have other: "copy (record_at (seq r)) y = copy (record_at (seq r)) x"
    using w p(2,3) unfolding touched_def by metis
  have both: "q = p \<or> q = record_at (seq r)" if "q \<in> {UPD_RECORD_A, UPD_RECORD_B}" for q
    using that p by auto
  have r: "record_of (copy (record_at (seq r)) y) = r" using assms(2) other by (simp add: newest_def)
  have old: "newest copy r y" if "\<not> record_valid (record_of (copy p y)) \<or> copy p y = copy p x"
  proof -
    have pl: "record_at (seq (record_of (copy p y))) = p \<and> seq (record_of (copy p y)) < seq r"
      if v: "record_valid (record_of (copy p y))"
    proof -
      have "copy p y = copy p x" using \<open>_ \<or> _\<close> v by blast
      then show ?thesis using v assms(2) p by (auto simp: newest_def placed_def)
    qed
    have "placed copy y"
      unfolding placed_def using both pl r by metis
    moreover have "seq (record_of (copy q y)) < seq r"
      if "q \<in> {UPD_RECORD_A, UPD_RECORD_B}" "q \<noteq> record_at (seq r)" "record_valid (record_of (copy q y))" for q
      using both [OF that(1)] that(2,3) pl by metis
    ultimately show ?thesis using r valid(1) unfolding newest_def by blast
  qed
  have new: "newest copy q' y" if "copy p y = record_bytes q'"
  proof -
    have n: "record_of (copy p y) = q'" using that round(1) by simp
    have "placed copy y"
      unfolding placed_def using both n r p_def by metis
    moreover have "seq (record_of (copy q y)) < seq q'"
      if "q \<in> {UPD_RECORD_A, UPD_RECORD_B}" "q \<noteq> record_at (seq q')" for q
      using both [OF that(1)] that(2) r s(2) p_def by metis
    ultimately show ?thesis using n valid(2) unfolding newest_def p_def by blast
  qed
  have "newest copy r y \<or> newest copy q' y"
    using w old new unfolding touched_def by (metis option.inject)
  then show ?thesis using w new q' by blast
qed

text \<open>C32: Storing the record is atomic under a power cut. Let \<open>upd_record_load\<close> give \<open>r\<close>, and let
  \<open>record_store\<close> store a record of the same number on a board whose power goes during its erase, during its
  write or not at all (\<open>cut_io\<close>), with flash as above. However far the store got, and whatever it reported,
  a later load that can read the flash gives \<open>r\<close> or the new record, and the new one if the store
  reported success; and each valid copy lies where its number says, so that the next store is atomic too.\<close>

theorem store_is_atomic:
  assumes "record_port copy io" "torn copy erased written"
    and "placed copy x" "upd_record_load io r0 x = (0, r, x0)"
    and "seq q = seq r" "rmagic q = rmagic r" "rformat q = rformat r" "record_wf q" "seq r \<noteq> - 1"
    and "record_store (cut_io erased written io) q (x0, supply) = (err, q', y, supply')"
    and "upd_record_load io t0 y = (e, t, z)"
  shows "(e < 0 \<or> e = 0 \<and> t \<in> {r, next_record q} \<and> (err = 0 \<longrightarrow> t = next_record q)) \<and> placed copy y"
proof -
  have "newest copy r x0" using load_placed [OF assms(1,3,4)] by blast
  then have n: "newest (\<lambda>p w. copy p (fst w)) r (x0, supply)"
    by (simp add: newest_fst)
  have "follows r q" using assms(5-8) by (simp add: follows_def)
  from store_newest [OF cut_port [OF assms(1,2)] n this assms(9,10)]
  have s: "newest copy r y \<or> newest copy (next_record q) y" "err = 0 \<longrightarrow> newest copy (next_record q) y"
    unfolding newest_fst fst_conv by metis+
  have l: "e < 0 \<or> e = 0 \<and> t = u" if "newest copy u y" for u
    using load_newest [OF assms(1) that assms(11)] by blast
  have "placed copy y" using s(1) by (auto simp: newest_def)
  with s l show ?thesis by blast
qed

text \<open>A world of two copies, for the witnesses; they always have 220 bytes.\<close>

definition full_copy :: "u8 list \<Rightarrow> u8 list" where
  "full_copy c = take 220 (c @ replicate 220 0)"

definition two_copies :: "(u8 list \<times> u8 list) upd_io" where
  "two_copies =
     \<lparr>flash_read = \<lambda>at n x. (0, if at = UPD_RECORD_A then full_copy (fst x) else if at = UPD_RECORD_B then full_copy (snd x) else [], x),
      flash_erase = \<lambda>at x. (0, if at = UPD_RECORD_A then ([], snd x) else (fst x, [])),
      flash_write = \<lambda>at bs x. (0, if at = UPD_RECORD_A then (bs, snd x) else (fst x, bs)),
      stage_read = \<lambda>n x. (0, [], x), stage_blocks = 0, backup_read = None, backup_write = None, backup_blocks = 0,
      random = \<lambda>n x. (0, replicate n 0, x), io_hw_rev = 0, adopt_blank = False, check_pages = False,
      check_signature = False\<rparr>"

definition demo_copy :: "u32 \<Rightarrow> u8 list \<times> u8 list \<Rightarrow> u8 list" where
  "demo_copy p x = full_copy (if p = UPD_RECORD_A then fst x else snd x)"

lemma two_copies_read [simp]:
  "flash_read two_copies UPD_RECORD_A n x = (0, full_copy (fst x), x)"
  "flash_read two_copies UPD_RECORD_B n x = (0, full_copy (snd x), x)"
  by (simp_all add: two_copies_def const_defs)

lemma full_copy_same [simp]: "length c = 220 \<Longrightarrow> full_copy c = c"
  by (simp add: full_copy_def)

definition demo_record :: upd_record where
  "demo_record = next_record (zero_record\<lparr>rmagic := RECORD_MAGIC, rformat := RECORD_FORMAT, seq := 1\<rparr>)"

lemma zero_record_wf: "record_wf zero_record"
  by (simp add: zero_record_def record_of_def record_wf_def bytes_at_def)

lemma demo_record_facts: "record_wf demo_record" "record_valid demo_record" "seq demo_record = 2"
  using zero_record_wf
  by (auto simp: demo_record_def record_wf_def intro!: next_record_valid next_record_wf [unfolded record_wf_def])

lemma zeros_invalid: "\<not> record_valid (record_of (replicate 220 0))"
  by (simp add: record_valid_def record_of_def load32_def RECORD_MAGIC_def)

lemma erased_invalid: "\<not> record_valid (record_of (full_copy []))"
  using zeros_invalid by (simp add: full_copy_def)

lemma two_copies_port: "record_port demo_copy two_copies"
proof -
  have "length (full_copy c) = 220" for c by (simp add: full_copy_def)
  then show ?thesis
    using erased_invalid ab_differ
    by (auto simp: record_port_def demo_copy_def touched_def two_copies_def)
qed

lemma demo_torn: "torn demo_copy (\<lambda>p x. if p = UPD_RECORD_A then ([], snd x) else (fst x, [])) (\<lambda>p bs x. x)"
  using erased_invalid ab_differ by (auto simp: torn_def demo_copy_def touched_def)

text \<open>The power goes during the write: copy B is erased, and the load gives the old record in copy A.\<close>

lemma store_is_atomic_witness:
  "fst (snd (upd_record_load two_copies zero_record (record_bytes demo_record, []))) \<in>
    {demo_record, next_record demo_record}"
proof -
  note d = demo_record_facts record_round [OF demo_record_facts(1)] zeros_invalid
  let ?x = "(record_bytes demo_record, replicate 220 0)"
  let ?cut = "cut_io (\<lambda>p x. if p = UPD_RECORD_A then ([], snd x) else (fst x, [])) (\<lambda>p bs x. x) two_copies"
  have p: "placed demo_copy ?x"
    using d ab_differ by (simp add: placed_def demo_copy_def record_at_odd)
  have l: "upd_record_load two_copies zero_record ?x = (0, demo_record, ?x)"
    using d by (simp add: upd_record_load_def Let_def)
  have at: "record_at (seq (next_record demo_record)) = UPD_RECORD_B"
    by (simp add: record_at_odd d)
  have e: "flash_erase two_copies UPD_RECORD_B y = (0, fst y, [])" for y
    by (simp add: two_copies_def ab_differ)
  have "write_checked ?cut True UPD_RECORD_B RECORD_SIZE bs (?x, Some 1) =
      (ERR_FLASH_WRITE_SECTOR, (record_bytes demo_record, []), None)" for bs
    using negative_code by (simp add: write_checked_def cut_io_def e Let_def)
  then have st: "record_store ?cut demo_record (?x, Some 1) =
      (ERR_FLASH_WRITE_SECTOR, next_record demo_record, (record_bytes demo_record, []), None)"
    unfolding record_store_def Let_def at by simp
  have "upd_record_load two_copies zero_record (record_bytes demo_record, []) =
      (0, demo_record, (record_bytes demo_record, []))"
    using d erased_invalid by (simp add: upd_record_load_def Let_def)
  then show ?thesis
    using store_is_atomic [OF two_copies_port demo_torn p l refl refl refl d(1) _ st, of zero_record]
    by (simp add: d)
qed

section \<open>What the steps leave alone\<close>

text \<open>The token and the minimums.\<close>

definition keeps :: "upd_record \<Rightarrow> upd_record \<Rightarrow> bool" where
  "keeps r r' \<longleftrightarrow> token r' = token r \<and> min_v5f r' = min_v5f r \<and> rmin_serial r' = rmin_serial r"

text \<open>Everything but the sequence number, the progress and the hash.\<close>

definition progressed :: "upd_record \<Rightarrow> upd_record \<Rightarrow> bool" where
  "progressed r r' \<longleftrightarrow> r' = r\<lparr>seq := seq r', progress := progress r', rec_hash := rec_hash r'\<rparr>"

lemma progressed_self [simp]: "progressed r r"
  by (simp add: progressed_def)

lemma progressed_trans: "progressed r r' \<Longrightarrow> progressed r' r'' \<Longrightarrow> progressed r r''"
  by (cases r; cases r'; cases r'') (simp add: progressed_def)

lemma progressed_step [simp]: "progressed r (r\<lparr>progress := p\<rparr>)"
  by (simp add: progressed_def)

lemma progressed_fields:
  assumes "progressed r r'"
  shows "token r' = token r" "min_v5f r' = min_v5f r" "rmin_serial r' = rmin_serial r" "ustate r' = ustate r"
    "backup_length r' = backup_length r" "backup_version r' = backup_version r" "uresult r' = uresult r"
    "v5f_length r' = v5f_length r" "v5f_version r' = v5f_version r" "v5f_mac r' = v5f_mac r" "pkg_hash r' = pkg_hash r"
    "pkg_version r' = pkg_version r" "pkg_length r' = pkg_length r" "pkg_min r' = pkg_min r" "backup_tag r' = backup_tag r"
  by (subst assms [unfolded progressed_def], simp)+

lemma record_keeps_self [simp]: "keeps r r"
  by (simp add: keeps_def)

lemma record_keeps_trans [trans]: "keeps r r' \<Longrightarrow> keeps r' r'' \<Longrightarrow> keeps r r''"
  by (simp add: keeps_def)

lemma progressed_keeps: "progressed r r' \<Longrightarrow> keeps r r'"
  by (simp add: keeps_def progressed_fields)

lemma next_record_progressed: "progressed r (next_record r)"
  by (simp add: progressed_def next_record_def Let_def)

lemma record_store_progressed: "record_store io r x = (err, r', x') \<Longrightarrow> r' = next_record r \<and> progressed r r'"
  using next_record_progressed [of r] by (auto simp: record_store_def Let_def split: prod.splits)

lemma record_store_keeps [simp]: "keeps r (fst (snd (record_store io q x))) \<longleftrightarrow> keeps r q"
  using next_record_progressed [of q]
  by (simp add: record_store_def Let_def case_prod_unfold keeps_def progressed_fields)

lemma note_progress_progressed: "note_progress io blk blocks r x = (err, r', x') \<Longrightarrow> progressed r r'"
  by (auto simp: note_progress_def split: if_splits dest!: record_store_progressed
      intro: progressed_trans [OF progressed_step])

lemma restore_blocks_progressed:
  "restore_blocks env io k non blocks blks r x = (err, r', x') \<Longrightarrow> progressed r r'"
proof (induction blks arbitrary: r x)
  case (Cons blk blks)
  then show ?case
    by (auto simp: Let_def split: prod.splits if_splits intro: progressed_trans dest: note_progress_progressed)
qed simp

lemma install_blocks_progressed:
  "install_blocks env io blocks blks r s x = (err, r', s', x') \<Longrightarrow> progressed r r'"
proof (induction blks arbitrary: r s x)
  case (Cons blk blks)
  then show ?case
    by (auto simp: Let_def split: prod.splits if_splits intro: progressed_trans dest: note_progress_progressed)
qed simp

lemma keeps_update [simp]:
  "keeps r (q\<lparr>ustate := a\<rparr>) = keeps r q" "keeps r (q\<lparr>progress := a\<rparr>) = keeps r q"
  "keeps r (q\<lparr>uresult := a\<rparr>) = keeps r q" "keeps r (q\<lparr>v5f_length := a\<rparr>) = keeps r q"
  "keeps r (q\<lparr>v5f_version := a\<rparr>) = keeps r q" "keeps r (q\<lparr>v5f_mac := h\<rparr>) = keeps r q"
  "keeps r (q\<lparr>backup_tag := h\<rparr>) = keeps r q" "keeps r (q\<lparr>backup_version := a\<rparr>) = keeps r q"
  "keeps r (q\<lparr>backup_length := a\<rparr>) = keeps r q" "keeps r (q\<lparr>pkg_version := a\<rparr>) = keeps r q"
  "keeps r (q\<lparr>pkg_length := a\<rparr>) = keeps r q" "keeps r (q\<lparr>pkg_min := a\<rparr>) = keeps r q"
  "keeps r (q\<lparr>pkg_hash := h\<rparr>) = keeps r q"
  by (simp_all add: keeps_def)

lemma keeps_from [simp]:
  "keeps (r\<lparr>ustate := a\<rparr>) q = keeps r q" "keeps (r\<lparr>progress := a\<rparr>) q = keeps r q"
  "keeps (r\<lparr>uresult := a\<rparr>) q = keeps r q"
  by (simp_all add: keeps_def)

lemma restored_keeps [simp]: "keeps r q \<Longrightarrow> keeps r (fst (snd (snd (restored io q msg x))))"
  by (simp add: restored_def Let_def case_prod_unfold)

lemma restore_blocks_keeps [simp]:
  "keeps r q \<Longrightarrow> keeps r (fst (snd (restore_blocks env io k non blocks blks q x)))"
  by (cases "restore_blocks env io k non blocks blks q x") (auto dest!: restore_blocks_progressed progressed_keeps intro: record_keeps_trans)

lemma install_blocks_keeps [simp]:
  "keeps r q \<Longrightarrow> keeps r (fst (snd (install_blocks env io blocks blks q s x)))"
  by (cases "install_blocks env io blocks blks q s x") (auto dest!: install_blocks_progressed progressed_keeps intro: record_keeps_trans)

lemma roll_back_keeps [simp]: "keeps r q \<Longrightarrow> keeps r (fst (snd (snd (roll_back env io q msg x))))"
  by (simp add: roll_back_def Let_def case_prod_unfold)

lemma start_rollback_keeps [simp]: "keeps r q \<Longrightarrow> keeps r (fst (snd (snd (start_rollback env io q msg x))))"
  by (simp add: start_rollback_def Let_def case_prod_unfold)

lemma on_trial_keeps [simp]: "keeps r q \<Longrightarrow> keeps r (fst (snd (snd (on_trial io q pkg msg x))))"
  by (simp add: on_trial_def Let_def case_prod_unfold)

lemma install_keeps [simp]: "keeps r q \<Longrightarrow> keeps r (fst (snd (snd (install env io keys q msg s x))))"
  by (simp add: install_def Let_def case_prod_unfold)

lemma make_backup_keeps [simp]: "keeps r q \<Longrightarrow> keeps r (fst (snd (make_backup env io q x)))"
  by (simp add: make_backup_def Let_def case_prod_unfold)

lemma begin_update_keeps [simp]: "keeps r (begin_update q pkg k) = keeps r q"
  by (simp add: begin_update_def)

lemma start_update_keeps [simp]: "keeps r q \<Longrightarrow> keeps r (fst (snd (snd (start_update env io keys q s x))))"
  by (simp add: start_update_def Let_def case_prod_unfold)

lemma trial_boot_keeps [simp]: "keeps r q \<Longrightarrow> keeps r (fst (snd (snd (trial_boot env io q msg x))))"
  by (simp add: trial_boot_def Let_def case_prod_unfold)

lemma boot_step_keeps [simp]: "keeps r q \<Longrightarrow> keeps r (fst (snd (snd (boot_step env io keys w q msg s x))))"
  by (simp add: boot_step_def Let_def case_prod_unfold)

lemma boot_image_keeps [simp]: "keeps r q \<Longrightarrow> keeps r (fst (snd (snd (boot_image env io keys q msg s x))))"
  by (simp add: boot_image_def broken_def adopt_changed_def Let_def case_prod_unfold)

text \<open>The record of a confirmed image.\<close>

definition confirmed :: "upd_record \<Rightarrow> upd_record" where
  "confirmed r = r\<lparr>ustate := UPD_IDLE, progress := 0, uresult := UPD_R_INSTALLED, min_v5f := max (min_v5f r) (pkg_min r)\<rparr>"

lemma upd_confirm_stores:
  assumes "upd_record_load io zero_record x = (0, r, x1)"
  shows "upd_confirm io x =
    (if ustate r = UPD_TRIAL then (fst (record_store io (confirmed r) x1), snd (snd (record_store io (confirmed r) x1)))
     else (0, x1))"
proof -
  have m: "(if pkg_min r > min_v5f r then pkg_min r else min_v5f r) = max (min_v5f r) (pkg_min r)"
    by (auto simp: max_def)
  show ?thesis
    using assms by (simp only: upd_confirm_def Let_def case_prod_unfold m fst_conv snd_conv) (simp add: confirmed_def)
qed

text \<open>C33: No step of an update lowers a minimum or changes the device token: when \<open>upd_boot\<close> has loaded a
  record, the one it ends with has the same token, minimum version and minimum serial, whatever the flash,
  the card and the package do; and confirming an image on trial stores the record with the larger of the
  minimum version and the one the package asked for.\<close>

theorem minimums_kept:
  assumes "upd_record_load io zero_record x = (0, r, x1)"
  shows "keeps r (fst (snd (snd (upd_boot env io keys w zero_record s x)))) \<and>
    upd_confirm io x =
      (if ustate r = UPD_TRIAL
       then (fst (record_store io (confirmed r) x1), snd (snd (record_store io (confirmed r) x1))) else (0, x1)) \<and>
    token (confirmed r) = token r \<and> rmin_serial (confirmed r) = rmin_serial r \<and>
    min_v5f (confirmed r) = max (min_v5f r) (pkg_min r)"
  using assms upd_confirm_stores [OF assms]
  by (simp add: upd_boot_def boot_record_def Let_def case_prod_unfold) (simp add: confirmed_def)

lemma minimums_kept_witness:
  "keeps demo_record (fst (snd (snd (upd_boot demo_env two_copies demo_board False zero_record fresh_sealed
    (record_bytes demo_record, replicate 220 0)))))"
proof -
  have "upd_record_load two_copies zero_record (record_bytes demo_record, replicate 220 0) =
      (0, demo_record, (record_bytes demo_record, replicate 220 0))"
    using record_round [OF demo_record_facts(1)] demo_record_facts zeros_invalid
    by (simp add: upd_record_load_def Let_def)
  from minimums_kept [OF this] show ?thesis by blast
qed

section \<open>What starts has been checked\<close>

text \<open>The image in flash is the one that the block 0 beside it describes, and that block 0 is signed by a
  release key that the root certifies, for this board and no older than the minimums; the machine-mode window
  has the hash that the root signed.\<close>

definition image_signed :: "seal_env \<Rightarrow> 'x upd_io \<Rightarrow> sealed_board \<Rightarrow> upd_record \<Rightarrow> 'x \<Rightarrow> bool" where
  "image_signed env io keys r x \<longleftrightarrow>
     (\<exists>b0. flash_read io UPD_HEADER UPD_BLOCK x = (0, b0, x) \<and>
       (let h = take 4096 b0 in
        signed_header env (board_of keys r) h \<and> get32 (drop 20 h) = v5f_version r \<and> get32 (drop 184 h) = v5f_length r \<and>
        flash_image_hash io UPD_V5F_ADDR (v5f_length r) x = (0, bytes_at h IMAGE_HASH_AT 32, x) \<and>
        ed25519_check env (bytes_at h (MMODE_SIG_AT + 40) 64) (root keys)
          (bytes_at h 16 4 @ bytes_at h MMODE_SIG_AT 8 @ bytes_at h (MMODE_SIG_AT + 8) 32) \<and>
        region_hash io (UPD_V5F_ENTRY - STAGE1_FLASH_BASE) UPD_V5F_MMODE_LEN ''LFmmode'' x =
          (0, bytes_at h (MMODE_SIG_AT + 8) 32, x)))"

definition image_checked :: "seal_env \<Rightarrow> 'x upd_io \<Rightarrow> sealed_board \<Rightarrow> upd_record \<Rightarrow> 'x \<Rightarrow> bool" where
  "image_checked env io keys r x \<longleftrightarrow>
     installed_mac io r x = (0, v5f_mac r, x) \<and> (check_signature io \<longrightarrow> image_signed env io keys r x)"

text \<open>What \<open>sealed_check_signed\<close> has checked when it says 0.\<close>

lemma check_signed_ok:
  assumes "sealed_check_signed env b0 board pkg s = (0, msg, pkg', s')"
  shows "signed_header env board (take 4096 b0)" "version pkg' = get32 (drop 20 (take 4096 b0))"
    "pkg_len pkg' = get32 (drop 184 (take 4096 b0))" "image_hash pkg' = bytes_at (take 4096 b0) IMAGE_HASH_AT 32"
    "mmode_error env (take 4096 b0) board = None" "mmode_addr pkg' = get32 (drop MMODE_SIG_AT (take 4096 b0))"
    "mmode_hash pkg' = bytes_at (take 4096 b0) (MMODE_SIG_AT + 8) 32"
proof -
  note ok = mount_ok [OF assms [unfolded sealed_check_signed_def]]
  have "get32 (drop 16 (take 4096 b0)) = product board"
    using ok(1) by (auto simp: fields_error_def Let_def split: if_splits)
  with ok(3) show "signed_header env board (take 4096 b0)"
    by (rule signature_signed)
  show "version pkg' = get32 (drop 20 (take 4096 b0))" "pkg_len pkg' = get32 (drop 184 (take 4096 b0))"
    "image_hash pkg' = bytes_at (take 4096 b0) IMAGE_HASH_AT 32"
    by (simp_all add: ok(5)) (simp_all add: describe_def)
  show "mmode_error env (take 4096 b0) board = None" by (rule ok(4))
  show "mmode_addr pkg' = get32 (drop MMODE_SIG_AT (take 4096 b0))"
    "mmode_hash pkg' = bytes_at (take 4096 b0) (MMODE_SIG_AT + 8) 32"
    by (simp_all add: ok(5) mmode_fields_def)
qed

text \<open>How a rollback that does not stop on an error ends.\<close>

lemma roll_back_ends:
  assumes "roll_back env io q m x = (0, msg, r, x')"
  shows "ustate r = UPD_IDLE \<and>
    (uresult r = UPD_R_BROKEN \<and> v5f_length r = 0 \<or>
     uresult r = UPD_R_ROLLED_BACK \<and> v5f_length r = backup_length q \<and> v5f_length r \<noteq> 0 \<and>
       v5f_version r = backup_version q \<and> min_v5f q \<le> backup_version q)"
proof -
  obtain good non x1 where g: "backup_good io q x = (good, non, x1)"
    by (cases "backup_good io q x") auto
  show ?thesis
  proof (cases "\<not> good \<or> backup_version q < min_v5f q")
    case True
    then show ?thesis
      using assms
      by (auto simp: roll_back_def g Let_def progressed_fields split: prod.splits dest!: record_store_progressed)
  next
    case False
    have bl: "backup_length q \<noteq> 0"
      using g False by (auto simp: backup_good_def split: if_splits)
    define blocks where "blocks = blocks_of (backup_length q)"
    obtain e1 r1 x2 where b: "restore_blocks env io (fst (backup_keys q)) non blocks (blocks_from (progress q) blocks) q x1 =
        (e1, r1, x2)"
      by (cases "restore_blocks env io (fst (backup_keys q)) non blocks (blocks_from (progress q) blocks) q x1") auto
    note p = progressed_fields [OF restore_blocks_progressed [OF b]]
    obtain e2 x3 where h: "restore_header io blocks x2 = (e2, x3)"
      by (cases "restore_header io blocks x2") auto
    have z: "e1 = 0" "e2 = 0" "restored io r1 m x3 = (0, msg, r, x')"
      using assms False by (auto simp: roll_back_def g b h Let_def simp flip: blocks_def split: if_splits)
    from z(3) show ?thesis
      using bl False p
      by (auto simp: restored_def Let_def progressed_fields not_less split: prod.splits if_splits
          dest!: record_store_progressed)
  qed
qed

lemma start_rollback_ends:
  assumes "start_rollback env io q m x = (0, msg, r, x')"
  shows "ustate r = UPD_IDLE \<and>
    (uresult r = UPD_R_BROKEN \<and> v5f_length r = 0 \<or>
     uresult r = UPD_R_ROLLED_BACK \<and> v5f_length r = backup_length q \<and> v5f_length r \<noteq> 0 \<and>
       v5f_version r = backup_version q \<and> min_v5f q \<le> backup_version q)"
proof -
  obtain e q1 x1 where st: "record_store io (q\<lparr>ustate := UPD_ROLLING_BACK, progress := 0\<rparr>) x = (e, q1, x1)"
    by (cases "record_store io (q\<lparr>ustate := UPD_ROLLING_BACK, progress := 0\<rparr>) x") auto
  have "roll_back env io q1 m x1 = (0, msg, r, x')"
    using assms by (auto simp: start_rollback_def st Let_def split: if_splits)
  from roll_back_ends [OF this] record_store_progressed [OF st] show ?thesis
    by (auto simp: progressed_fields)
qed

text \<open>A flash port: reading changes nothing and says 0 or a negative code.\<close>

locale flash_port =
  fixes io :: "'x upd_io"
  assumes read_keeps: "snd (snd (flash_read io a n x)) = x"
    and read_code: "fst (flash_read io a n x) \<le> 0"
begin

lemma read_cases: "\<exists>e bs. flash_read io a n x = (e, bs, x) \<and> e \<le> 0"
  using read_keeps [of a n x] read_code [of a n x] by (cases "flash_read io a n x") auto

lemma flash_puts_keeps: "\<exists>e S'. flash_puts io a len ats S x = (e, S', x) \<and> e \<le> 0"
proof (induction ats arbitrary: S)
  case (Cons at ats)
  obtain e bs where "flash_read io (a + at) (part_size len at) x = (e, bs, x)" "e \<le> 0"
    using read_cases by blast
  then show ?case
    using Cons.IH by (auto simp: Let_def)
qed simp

lemma region_hash_keeps: "\<exists>e h. region_hash io a len p x = (e, h, x) \<and> e \<le> 0"
  using flash_puts_keeps [of a len "offsets len" "b2s_start 32 [] p" x] by (auto simp: region_hash_def)

lemma installed_mac_keeps: "\<exists>e h. installed_mac io r x = (e, h, x) \<and> e \<le> 0"
proof -
  define len where "len = mac_length io (v5f_length r)"
  obtain e S where "flash_puts io UPD_V5F_ADDR len (offsets len)
      (b2s_hmac_puts (put32 (v5f_version r) @ put32 len) (b2s_start 32 (derive 32 (token r) ''LFimage'') ''LFimgmac'')) x = (e, S, x)"
    "e \<le> 0"
    using flash_puts_keeps by blast
  then show ?thesis
    by (auto simp: installed_mac_def image_mac_def Let_def simp flip: len_def)
qed

lemma mmode_ok_keeps:
  "\<exists>e. mmode_ok io pkg x = (e, x) \<and> (0 < e \<longrightarrow> e = 1 \<and> mmode_addr pkg = UPD_V5F_ENTRY \<and>
     region_hash io (UPD_V5F_ENTRY - STAGE1_FLASH_BASE) UPD_V5F_MMODE_LEN ''LFmmode'' x = (0, mmode_hash pkg, x))"
  using region_hash_keeps [of "UPD_V5F_ENTRY - STAGE1_FLASH_BASE" "UPD_V5F_MMODE_LEN" "''LFmmode''" x]
  by (auto simp: mmode_ok_def Let_def)

lemma signed_ok_signed:
  assumes "signed_ok env io keys r (v5f_version r) (v5f_length r) s x = (e, s', x')"
  shows "x' = x \<and> (0 < e \<longrightarrow> e = 1 \<and> image_signed env io keys r x)"
proof -
  obtain e1 b0 where b0: "flash_read io UPD_HEADER UPD_BLOCK x = (e1, b0, x)" "e1 \<le> 0"
    using read_cases by blast
  obtain bad msg pkg s1 where c: "sealed_check_signed env b0 (board_of keys r) no_package s = (bad, msg, pkg, s1)"
    by (cases "sealed_check_signed env b0 (board_of keys r) no_package s") auto
  obtain e2 h where h: "flash_image_hash io UPD_V5F_ADDR (pkg_len pkg) x = (e2, h, x)" "e2 \<le> 0"
    using region_hash_keeps unfolding flash_image_hash_def by blast
  obtain e3 where m: "mmode_ok io pkg x = (e3, x)" "0 < e3 \<longrightarrow> e3 = 1 \<and> mmode_addr pkg = UPD_V5F_ENTRY \<and>
      region_hash io (UPD_V5F_ENTRY - STAGE1_FLASH_BASE) UPD_V5F_MMODE_LEN ''LFmmode'' x = (0, mmode_hash pkg, x)"
    using mmode_ok_keeps by blast
  have "x' = x"
    using assms b0 h m by (auto simp: signed_ok_def c Let_def split: if_splits)
  moreover have "e = 1 \<and> image_signed env io keys r x" if "0 < e"
  proof -
    have z: "e1 = 0" "bad = 0" "e2 = 0" "h = image_hash pkg" "version pkg = v5f_version r" "pkg_len pkg = v5f_length r"
      "e = e3"
      using assms b0 h m that by (auto simp: signed_ok_def c Let_def split: if_splits)
    note ok = check_signed_ok [OF c [unfolded z(2)]]
    have mm: "e3 = 1" "mmode_addr pkg = UPD_V5F_ENTRY"
      "region_hash io (UPD_V5F_ENTRY - STAGE1_FLASH_BASE) UPD_V5F_MMODE_LEN ''LFmmode'' x = (0, mmode_hash pkg, x)"
      using m(2) that z(7) by auto
    have "get32 (drop MMODE_SIG_AT (take 4096 b0)) \<noteq> 0"
      using mm(2) ok(6) by (simp add: const_defs)
    then have "ed25519_check env (bytes_at (take 4096 b0) (MMODE_SIG_AT + 40) 64) (root keys)
        (bytes_at (take 4096 b0) 16 4 @ bytes_at (take 4096 b0) MMODE_SIG_AT 8 @ bytes_at (take 4096 b0) (MMODE_SIG_AT + 8) 32)"
      using ok(5) by (auto simp: mmode_error_def Let_def bytes_at_def board_of_def add.commute split: if_splits)
    then show ?thesis
      using b0 h z ok mm by (simp add: image_signed_def Let_def)
  qed
  ultimately show ?thesis by blast
qed

lemma installed_ok_checked:
  assumes "installed_ok env io keys r s x = (e, s', x')"
  shows "x' = x \<and> (0 < e \<longrightarrow> image_checked env io keys r x)"
  using assms installed_mac_keeps [of r x] signed_ok_signed [of env keys r s x]
  by (auto simp: installed_ok_def image_checked_def Let_def split: if_splits)

lemma boot_image_checked:
  assumes "boot_image env io keys r msg s x = (UPD_START, msg', r', s', x')" "\<not> adopt_blank io"
  shows "v5f_length r' \<noteq> 0 \<and> image_checked env io keys r' x'"
proof -
  have len: "v5f_length r \<noteq> 0"
    using assms(1) by (auto simp: boot_image_def const_defs)
  obtain ok s1 x1 where i: "installed_ok env io keys r s x = (ok, s1, x1)"
    by (cases "installed_ok env io keys r s x") auto
  obtain err m2 r2 x2 where b: "start_rollback env io r msg x1 = (err, m2, r2, x2)"
    by (cases "start_rollback env io r msg x1") auto
  obtain ok2 s3 x3 where j: "installed_ok env io keys r2 s1 x2 = (ok2, s3, x3)"
    by (cases "installed_ok env io keys r2 s1 x2") auto
  have nb: "fst (broken io q t y) \<noteq> UPD_START" for q t y
    by (simp add: broken_def Let_def case_prod_unfold const_defs)
  have "0 < ok \<and> r' = r \<and> x' = x1 \<or>
      err = 0 \<and> 0 < ok2 \<and> uresult r2 = UPD_R_ROLLED_BACK \<and> r' = r2 \<and> x' = x3"
    using assms len nb [of r s1 x1] nb [of r2 s3 x3]
    by (auto simp: boot_image_def i b j Let_def UPD_START_def split: if_splits)
  then show ?thesis
  proof (elim disjE conjE)
    assume "0 < ok" "r' = r" "x' = x1"
    then show ?thesis
      using installed_ok_checked [OF i] len by simp
  next
    assume a: "err = 0" "0 < ok2" "uresult r2 = UPD_R_ROLLED_BACK" "r' = r2" "x' = x3"
    from start_rollback_ends [OF b [unfolded a(1)]] a(3) have "v5f_length r2 \<noteq> 0"
      by (auto simp: const_defs)
    then show ?thesis
      using installed_ok_checked [OF j] a by simp
  qed
qed

lemma boot_checked:
  assumes "upd_boot env io keys w r s x = (UPD_START, msg, r', s', x')" "\<not> adopt_blank io"
  shows "v5f_length r' \<noteq> 0 \<and> image_checked env io keys r' x'"
  using assms boot_image_checked
  by (auto simp: upd_boot_def Let_def UPD_START_def split: prod.splits if_splits)

end

section \<open>A trial ends\<close>

lemma record_store_fields [simp]:
  "ustate (fst (snd (record_store io q x))) = ustate q" "progress (fst (snd (record_store io q x))) = progress q"
  by (simp_all add: record_store_def next_record_def Let_def case_prod_unfold)

lemma restore_blocks_state [simp]: "ustate (fst (snd (restore_blocks env io k non blocks blks q x))) = ustate q"
  by (cases "restore_blocks env io k non blocks blks q x") (auto dest!: restore_blocks_progressed simp: progressed_fields)

lemma roll_back_state: "ustate q \<noteq> UPD_TRIAL \<Longrightarrow> ustate (fst (snd (snd (roll_back env io q msg x)))) \<noteq> UPD_TRIAL"
  by (simp add: roll_back_def restored_def Let_def case_prod_unfold) (simp add: UPD_TRIAL_def UPD_IDLE_def)

lemma start_rollback_state: "ustate (fst (snd (snd (start_rollback env io q msg x)))) \<noteq> UPD_TRIAL"
proof -
  have "UPD_ROLLING_BACK \<noteq> UPD_TRIAL"
    by (simp add: const_defs)
  then show ?thesis
    by (simp add: start_rollback_def Let_def case_prod_unfold roll_back_state)
qed

lemma boot_image_state:
  assumes "ustate (fst (snd (snd (boot_image env io keys q msg s x)))) = UPD_TRIAL"
  shows "ustate q = UPD_TRIAL \<and> progress (fst (snd (snd (boot_image env io keys q msg s x)))) = progress q"
proof -
  have t: "UPD_IDLE \<noteq> UPD_TRIAL"
    by (simp add: const_defs)
  show ?thesis
    using assms t start_rollback_state [of env io q msg]
    by (auto simp: boot_image_def broken_def adopt_changed_def Let_def case_prod_unfold split: if_splits)
qed

text \<open>A boot on trial that does not stop on an error counts itself and goes on to the image.\<close>

lemma boot_on_trial:
  assumes "upd_boot env io keys w r0 s x = (res, msg, r', s', x')" "upd_record_load io r0 x = (0, r, x1)"
    "0 \<le> res" "ustate r = UPD_TRIAL" "ustate r' = UPD_TRIAL"
  obtains e m1 r1 x2 where "record_store io (r\<lparr>progress := progress r + 1\<rparr>) x1 = (e, r1, x2)" "\<not> e < 0"
    "progress r + 1 \<le> UPD_TRIAL_BOOTS" "boot_image env io keys r1 m1 s x2 = (res, msg, r', s', x')"
proof -
  obtain e m1 r1 x2 where t: "trial_boot env io r NothingToDo x1 = (e, m1, r1, x2)"
    by (cases "trial_boot env io r NothingToDo x1") auto
  have ne: "UPD_TRIAL \<noteq> UPD_IDLE" "UPD_TRIAL \<noteq> UPD_BACKING_UP" "UPD_TRIAL \<noteq> UPD_INSTALLING"
    by (simp_all add: const_defs)
  have st: "boot_step env io keys w r NothingToDo s x1 = (e, m1, r1, s, x2)"
    using assms(4) ne by (simp add: boot_step_def t)
  have b: "\<not> e < 0" "boot_image env io keys r1 m1 s x2 = (res, msg, r', s', x')"
    using assms(1,2,3) by (auto simp: upd_boot_def boot_record_def st Let_def split: if_splits)
  from boot_image_state [of env io keys r1 m1 s x2] b(2) assms(5)
  have r1: "ustate r1 = UPD_TRIAL" by auto
  have n: "progress r + 1 \<le> UPD_TRIAL_BOOTS"
  proof (rule ccontr)
    assume m: "\<not> progress r + 1 \<le> UPD_TRIAL_BOOTS"
    show False
    proof (cases "backup_length r = 0")
      case True
      then have "r1 = fst (snd (record_store io (r\<lparr>progress := progress r + 1, ustate := UPD_IDLE,
          uresult := UPD_R_BROKEN, v5f_length := 0\<rparr>) x1))"
        using t m by (simp add: trial_boot_def Let_def not_le case_prod_unfold)
      with r1 ne(1) show False by simp
    next
      case False
      then have "r1 = fst (snd (snd (start_rollback env io (r\<lparr>progress := progress r + 1\<rparr>) NothingToDo x1)))"
        using t m by (simp add: trial_boot_def Let_def not_le)
      with r1 start_rollback_state [of env io "r\<lparr>progress := progress r + 1\<rparr>" NothingToDo x1] show False by simp
    qed
  qed
  then have "\<not> UPD_TRIAL_BOOTS < progress r + 1" by (simp only: not_less not_False_eq_True)
  then have "record_store io (r\<lparr>progress := progress r + 1\<rparr>) x1 = (e, r1, x2)"
    using t by (auto simp: trial_boot_def Let_def split: prod.splits)
  with n b show ?thesis by (rule_tac that)
qed

text \<open>Checking the installed image only reads the flash.\<close>

lemma installed_ok_copies:
  assumes "record_port copy io" "p \<in> {UPD_RECORD_A, UPD_RECORD_B}"
  shows "copy p (snd (snd (installed_ok env io keys r s x))) = copy p x"
proof -
  note [simp] = record_portD(2) [OF assms]
  have [simp]: "copy p (snd (snd (flash_puts io a len ats S x))) = copy p x" for a len ats S x
    by (induction ats arbitrary: S x) (simp_all add: Let_def case_prod_unfold)
  have [simp]: "copy p (snd (snd (region_hash io a len q x))) = copy p x" for a len q x
    by (simp add: region_hash_def Let_def case_prod_unfold)
  have [simp]: "copy p (snd (snd (installed_mac io r x))) = copy p x"
    by (simp add: installed_mac_def image_mac_def Let_def case_prod_unfold)
  have [simp]: "copy p (snd (mmode_ok io pkg x)) = copy p x" for pkg x
    by (simp add: mmode_ok_def Let_def case_prod_unfold)
  have [simp]: "copy p (snd (snd (signed_ok env io keys r v l s x))) = copy p x" for v l s x
    by (simp add: signed_ok_def flash_image_hash_def Let_def case_prod_unfold)
  show ?thesis
    by (simp add: installed_ok_def Let_def case_prod_unfold)
qed

lemma seq_room: "unat (seq r) + 2 < 2 ^ 32 \<Longrightarrow> seq r \<noteq> - 1 \<and> unat (seq r + 1) = unat (seq r) + 1"
proof -
  assume "unat (seq r) + 2 < 2 ^ 32"
  then have "unat (seq r + 1) = unat (seq r) + 1" by (simp add: unat_word_ariths)
  then show ?thesis by auto
qed

text \<open>What a boot on trial that ends on trial leaves in flash: the record it ended with.\<close>

lemma boot_trial_stored:
  assumes port: "record_port copy io" and "newest copy r x" "record_wf r" "unat (seq r) + 3 < 2 ^ 32"
    and "upd_boot env io keys w zero_record s x = (res, msg, r', s', x')" "0 \<le> res"
    "ustate r = UPD_TRIAL" "ustate r' = UPD_TRIAL"
  shows "newest copy r' x' \<and> record_wf r' \<and> progress r' = progress r + 1 \<and> progress r' \<le> UPD_TRIAL_BOOTS \<and>
    unat (seq r') \<le> unat (seq r) + 2"
proof -
  obtain e0 t0 x1 where l: "upd_record_load io zero_record x = (e0, t0, x1)"
    by (cases "upd_record_load io zero_record x") auto
  have "\<not> e0 < 0"
    using assms(5,6) by (auto simp: upd_boot_def boot_record_def l Let_def split: if_splits)
  then have l: "upd_record_load io zero_record x = (0, r, x1)" and n1: "newest copy r x1"
    using load_newest [OF port assms(2) l] l by auto
  obtain e m1 r1 x2 where st: "record_store io (r\<lparr>progress := progress r + 1\<rparr>) x1 = (e, r1, x2)" "\<not> e < 0"
    "progress r + 1 \<le> UPD_TRIAL_BOOTS" "boot_image env io keys r1 m1 s x2 = (res, msg, r', s', x')"
    using boot_on_trial [OF assms(5) l assms(6-8)] by metis
  have f: "follows r (r\<lparr>progress := progress r + 1\<rparr>)"
    using assms(3) by (simp add: follows_def record_wf_def)
  have s: "seq r \<noteq> - 1" "unat (seq r + 1) = unat (seq r) + 1" using seq_room [of r] assms(4) by auto
  have r1: "r1 = next_record (r\<lparr>progress := progress r + 1\<rparr>)" "newest copy r1 x2"
    using store_newest [OF port n1 f s(1) st(1)] st(2) by auto
  then have f1: "record_wf r1" "seq r1 = seq r + 1" "progress r1 = progress r + 1" "ustate r1 = UPD_TRIAL"
    using f assms(7) next_record_wf [of "r\<lparr>progress := progress r + 1\<rparr>"]
    by (simp_all add: follows_def next_record_def Let_def)
  obtain ok s1 x3 where i: "installed_ok env io keys r1 s x2 = (ok, s1, x3)"
    by (cases "installed_ok env io keys r1 s x2") auto
  have "copy q x3 = copy q x2" if "q \<in> {UPD_RECORD_A, UPD_RECORD_B}" for q
    using installed_ok_copies [OF port that, of env keys r1 s x2] i by simp
  then have n3: "newest copy r1 x3" using newest_same [of copy x3 x2 r1] r1(2) by blast
  have ne: "UPD_TRIAL \<noteq> UPD_IDLE" by (simp add: const_defs)
  have na: "ustate (fst (snd (snd (adopt_changed io r1 m1 s1 x3)))) \<noteq> UPD_TRIAL"
    using ne by (simp add: adopt_changed_def Let_def case_prod_unfold)
  consider "r' = r1" "x' = x2" | "r' = r1" "x' = x3"
    | "broken io r1 s1 x3 = (res, msg, r', s', x')"
    using st(4) assms(6,8) f1(4) ne na i
    by (auto simp: boot_image_def Let_def split: if_splits)
  then show ?thesis
  proof cases
    case 3
    obtain e3 r3 x4 where b: "record_store io (r1\<lparr>uresult := UPD_R_BROKEN, v5f_length := 0\<rparr>) x3 = (e3, r3, x4)"
      by (cases "record_store io (r1\<lparr>uresult := UPD_R_BROKEN, v5f_length := 0\<rparr>) x3") auto
    have f3: "follows r1 (r1\<lparr>uresult := UPD_R_BROKEN, v5f_length := 0\<rparr>)"
      using f1(1) by (simp add: follows_def record_wf_def)
    have s1: "seq r1 \<noteq> - 1" "unat (seq r1 + 1) = unat (seq r) + 2"
      using seq_room [of r1] assms(4) s f1(2) by auto
    have e: "r' = r3" "x' = x4" "e3 = 0"
      using 3 assms(6) store_newest [OF port n3 f3 s1(1) b]
      by (auto simp: broken_def b Let_def split: if_splits)
    have r3: "r3 = next_record (r1\<lparr>uresult := UPD_R_BROKEN, v5f_length := 0\<rparr>)" "newest copy r3 x4"
      using store_newest [OF port n3 f3 s1(1) b] e(3) by auto
    then have "record_wf r3" "seq r3 = seq r1 + 1" "progress r3 = progress r1"
      using f3 next_record_wf [of "r1\<lparr>uresult := UPD_R_BROKEN, v5f_length := 0\<rparr>"]
      by (simp_all add: follows_def next_record_def Let_def)
    with r3(2) e s1 st(3) f1(3) show ?thesis by simp
  qed (use r1 n3 f1 s st in auto)
qed

text \<open>Boots of an image on trial, one after the other, that do not stop on an error and that nobody confirms:
  each starts from the world that the one before left, with its two copies of the record untouched since.
  When the trial begins, the sequence number is not about to wrap.\<close>

inductive trial_boots ::
  "(u32 \<Rightarrow> 'x \<Rightarrow> u8 list) \<Rightarrow> seal_env \<Rightarrow> 'x upd_io \<Rightarrow> sealed_board \<Rightarrow> nat \<Rightarrow> 'x \<Rightarrow> bool"
  for copy :: "u32 \<Rightarrow> 'x \<Rightarrow> u8 list" and env :: seal_env and io :: "'x upd_io" and keys :: sealed_board where
  trial_begun: "\<lbrakk>placed copy x; upd_record_load io zero_record x = (0, r, y); ustate r = UPD_TRIAL; progress r = 0;
    unat (seq r) + 9 < 2 ^ 32\<rbrakk> \<Longrightarrow> trial_boots copy env io keys 0 x"
| booted_again: "\<lbrakk>trial_boots copy env io keys n x; upd_boot env io keys w zero_record s x = (res, msg, r, s', y); 0 \<le> res;
    ustate r = UPD_TRIAL; copy UPD_RECORD_A z = copy UPD_RECORD_A y; copy UPD_RECORD_B z = copy UPD_RECORD_B y\<rbrakk>
    \<Longrightarrow> trial_boots copy env io keys (Suc n) z"

lemma trial_counted:
  assumes "record_port copy io" "trial_boots copy env io keys n x"
  shows "n \<le> 3 \<and> (\<exists>r. newest copy r x \<and> record_wf r \<and> ustate r = UPD_TRIAL \<and> progress r = word_of_nat n \<and>
    unat (seq r) + 9 < 2 ^ 32 + 2 * n)"
  using assms(2)
proof (induction rule: trial_boots.induct)
  case (trial_begun x r y)
  then show ?case using load_placed [OF assms(1)] by fastforce
next
  case (booted_again n x w s res msg r' s' y z)
  from booted_again.IH obtain r where r: "n \<le> 3" "newest copy r x" "record_wf r" "ustate r = UPD_TRIAL"
    "progress r = word_of_nat n" "unat (seq r) + 9 < 2 ^ 32 + 2 * n" by blast
  then have "unat (seq r) + 3 < 2 ^ 32" by linarith
  note b = boot_trial_stored [OF assms(1) r(2,3) this booted_again.hyps(2,3) r(4) booted_again.hyps(4)]
  have p: "progress r' = word_of_nat (Suc n)" using b r(5) by simp
  have "unat (word_of_nat (Suc n) :: u32) = Suc n"
    using r(1) by (intro unat_of_small) simp
  moreover have "progress r' \<le> UPD_TRIAL_BOOTS" using b by blast
  then have "progress r' \<le> 3" by (simp only: UPD_TRIAL_BOOTS_def)
  then have "unat (word_of_nat (Suc n) :: u32) \<le> 3" unfolding p by (simp only: word_le_nat) simp
  ultimately have "Suc n \<le> 3" by simp
  have "newest copy r' z"
    using b newest_same [of copy z y r'] booted_again.hyps(5,6) by blast
  moreover have "unat (seq r') \<le> unat (seq r) + 2" using b by blast
  then have "unat (seq r') + 9 < 2 ^ 32 + 2 * Suc n" using r(6) by simp
  ultimately show ?case using \<open>Suc n \<le> 3\<close> p b booted_again.hyps(4) by blast
qed

text \<open>C34: A trial ends. However often the board boots without a confirm, and whatever the image, the card and
  the flash outside the record do, at most three boots in a row that do not stop on an error leave the record on
  trial: the fourth rolls back, goes to recovery or (with \<open>adopt_blank\<close>) adopts what is in flash. After the
  n-th, what a load of the flash gives (when it can read it) is a record on trial that has counted n boots.\<close>

theorem trial_ends:
  assumes "record_port copy io" "trial_boots copy env io keys n x"
  shows "n \<le> 3 \<and> (\<forall>r0 e r y. upd_record_load io r0 x = (e, r, y) \<and> 0 \<le> e \<longrightarrow>
    e = 0 \<and> ustate r = UPD_TRIAL \<and> progress r = word_of_nat n)"
  using trial_counted [OF assms] load_newest [OF assms(1)] by (metis not_less)

definition trial_record :: upd_record where
  "trial_record = demo_record\<lparr>ustate := UPD_TRIAL, rec_hash := record_hash (demo_record\<lparr>ustate := UPD_TRIAL\<rparr>)\<rparr>"

lemma trial_record_facts:
  "record_wf trial_record" "record_wf (next_record (trial_record\<lparr>progress := 1\<rparr>))" "record_valid trial_record"
  "seq trial_record = 2" "ustate trial_record = UPD_TRIAL" "progress trial_record = 0" "v5f_length trial_record = 0"
proof -
  have h: "length (record_hash q) = 32" for q
    using length_done [of "[record_body q]" "''LFrecord''"] by (simp add: record_hash_def)
  show "record_wf trial_record" "record_wf (next_record (trial_record\<lparr>progress := 1\<rparr>))"
    using demo_record_facts(1) h by (auto simp: trial_record_def record_wf_def intro!: next_record_wf [unfolded record_wf_def])
  show "record_valid trial_record"
    using demo_record_facts(2) by (simp add: trial_record_def record_valid_def record_hash_cong)
  show "seq trial_record = 2" "ustate trial_record = UPD_TRIAL" "progress trial_record = 0" "v5f_length trial_record = 0"
    using demo_record_facts(3)
    by (simp_all add: trial_record_def) (simp_all add: demo_record_def next_record_def zero_record_def record_of_def load32_def Let_def)
qed

lemma trial_ends_witness:
  "trial_boots demo_copy demo_env two_copies demo_board 1
      (record_bytes trial_record, record_bytes (next_record (trial_record\<lparr>progress := 1\<rparr>))) \<and>
   progress (fst (snd (upd_record_load two_copies zero_record
      (record_bytes trial_record, record_bytes (next_record (trial_record\<lparr>progress := 1\<rparr>)))))) = 1"
proof -
  note wf = trial_record_facts(1,2) and v = trial_record_facts(3) and f = trial_record_facts(4-7)
  let ?x = "(record_bytes trial_record, replicate 220 0)" and ?q = "next_record (trial_record\<lparr>progress := 1\<rparr>)"
  let ?y = "(record_bytes trial_record, record_bytes ?q)"
  note len = record_round(2) [OF wf(1)] record_round(2) [OF wf(2)]
  have l: "upd_record_load two_copies zero_record ?x = (0, trial_record, ?x)"
    using record_round(1) [OF wf(1)] len v zeros_invalid by (simp add: upd_record_load_def Let_def)
  have p: "placed demo_copy ?x"
    using record_round(1) [OF wf(1)] len f(1) v zeros_invalid ab_differ
    by (simp add: placed_def demo_copy_def record_at_odd)
  have w: "flash_erase two_copies UPD_RECORD_B y = (0, fst y, [])"
    "flash_write two_copies UPD_RECORD_B bs y = (0, fst y, bs)" for y bs
    by (simp_all add: two_copies_def const_defs)
  have st: "record_store two_copies (trial_record\<lparr>progress := 1\<rparr>) ?x = (0, ?q, ?y)"
    using f(1) len by (simp add: record_store_def write_checked_def record_at_odd w Let_def RECORD_SIZE_def)
  have "upd_boot demo_env two_copies demo_board False zero_record fresh_sealed ?x =
      (UPD_RECOVERY, TrialBoot (v5f_version trial_record) 1, ?q, fresh_sealed, ?y)"
  proof -
    have ne: "UPD_TRIAL \<noteq> UPD_IDLE" "UPD_TRIAL \<noteq> UPD_BACKING_UP" "UPD_TRIAL \<noteq> UPD_INSTALLING" "\<not> UPD_TRIAL_BOOTS < 1"
      by (simp_all add: const_defs word_less_nat)
    have t: "trial_boot demo_env two_copies trial_record NothingToDo ?x =
        (0, TrialBoot (v5f_version trial_record) 1, ?q, ?y)"
      using f(3) ne(4) st by (simp add: trial_boot_def Let_def)
    have i: "boot_image demo_env two_copies demo_board ?q m fresh_sealed y =
        (UPD_RECOVERY, if m = NothingToDo then NoWorkingImage else m, ?q, fresh_sealed, y)" for m y
      using f(4) by (simp add: boot_image_def next_record_def Let_def)
    show ?thesis
      using f(2) ne by (simp add: upd_boot_def boot_record_def l boot_step_def t i del: next_record_fields)
  qed
  moreover have "ustate ?q = UPD_TRIAL"
    using f by (simp add: next_record_def Let_def)
  moreover have "trial_boots demo_copy demo_env two_copies demo_board 0 ?x"
    by (rule trial_begun [OF p l f(2,3)]) (simp add: f(1))
  ultimately have b: "trial_boots demo_copy demo_env two_copies demo_board (Suc 0) ?y"
    using booted_again [where r = ?q and z = ?y] by (simp add: UPD_RECOVERY_def)
  have q: "record_valid ?q" using v by (intro next_record_valid) (simp_all add: record_valid_def)
  obtain t z where t: "upd_record_load two_copies zero_record ?y = (0, t, z)"
    using record_round(1) [OF wf(1)] record_round(1) [OF wf(2)] len v q by (simp add: upd_record_load_def Let_def)
  with trial_ends [OF two_copies_port b] have "progress t = 1" by fastforce
  with b t show ?thesis by simp
qed

text \<open>An image on trial that fails its check is not rolled back at once, though there may be a backup.\<close>

lemma trial_fails_to_recovery:
  assumes "ustate r = UPD_TRIAL" "v5f_length r \<noteq> 0" "\<not> adopt_blank io" "installed_ok env io keys r s x = (0, s1, x1)"
  shows "boot_image env io keys r msg s x = broken io r s1 x1"
  using assms by (simp add: boot_image_def const_defs)

end
