(* ===== verification/LF_Cdc.thy ===== *)
theory LF_Cdc
  imports LF_Bytes
begin

text \<open>
  The terminal's byte streams between the two cores of the CH32H417: the rings in shared memory
  (\<^verbatim>\<open>Common/cdc_shared.h\<close>), the V3F's side that moves bytes between them and USB (\<^verbatim>\<open>Common/cdc_bridge.c\<close>,
  with the endpoint interrupts of \<^verbatim>\<open>Common/ch32h417_usbfs_device.c\<close> it works with), and the V5F's side
  (\<^verbatim>\<open>V5F/User/serial_io.c\<close>, \<^verbatim>\<open>V5F/User/crumbs.c\<close>). The fences order the accesses, so the steps of the two
  cores interleave: a wait for the other core is None, and the caller tries again. A function that resets
  the chip or sleeps for good leaves that in \<open>power\<close>.

  The theorems: however the steps interleave, the V5F reads what the host sent, in order, and three Ctrl+X
  reset the chip.
\<close>

section \<open>The shared block\<close>

definition CDC_SHARED_MAGIC :: u32 where [const_defs]: "CDC_SHARED_MAGIC = 0x43444331"
definition CDC_RING_SIZE :: u32 where [const_defs]: "CDC_RING_SIZE = 4096"
definition CDC_SAFE_BOOT_MAGIC :: u32 where [const_defs]: "CDC_SAFE_BOOT_MAGIC = 0x5AFEB007"
definition CDC_CTRL_X :: u8 where [const_defs]: "CDC_CTRL_X = 0x18"
definition CDC_STANDBY_MAGIC :: u32 where [const_defs]: "CDC_STANDBY_MAGIC = 0x5133B00B"
definition CDC_BINARY_MAGIC :: u32 where [const_defs]: "CDC_BINARY_MAGIC = 0xB1A4DA7A"
definition CDC_UPDATE_MAGIC :: u32 where [const_defs]: "CDC_UPDATE_MAGIC = 0x5A9E0F11"
definition CDC_CONFIRM_MAGIC :: u32 where [const_defs]: "CDC_CONFIRM_MAGIC = 0xC0F1A3ED"
definition CDC_RECOVER_MAGIC :: u32 where [const_defs]: "CDC_RECOVER_MAGIC = 0x2EC0BE27"
definition CDC_NOSTART_MAGIC :: u32 where [const_defs]: "CDC_NOSTART_MAGIC = 0x4E530000"
definition CDC_CTRLX_RESET_MAGIC :: u32 where [const_defs]: "CDC_CTRLX_RESET_MAGIC = 0xC7A1B007"
definition CDC_REVISION_MAGIC :: u32 where [const_defs]: "CDC_REVISION_MAGIC = 0x5E7E4510"
definition CDC_ENROLL_ASK :: u32 where [const_defs]: "CDC_ENROLL_ASK = 0xE4A011A5"
definition CDC_ENROLL_DONE :: u32 where [const_defs]: "CDC_ENROLL_DONE = 0xE4A011D0"
definition CDC_ENROLL_NONE :: u32 where [const_defs]: "CDC_ENROLL_NONE = 0xE4A0110E"
definition RING_MASK :: u32 where [const_defs]: "RING_MASK = CDC_RING_SIZE - 1"

record cdc_ring =
  ring_head :: u32
  ring_tail :: u32
  ring_data :: "u8 list"

record cdc_shared =
  sh_magic :: u32
  sh_host_open :: u32
  sh_safe_boot :: u32
  sh_v5f_starts :: u32
  sh_standby :: u32
  sh_rtc_wake :: u32
  sh_binary :: u32
  sh_update :: u32
  sh_recover :: u32
  sh_nostart :: u32
  sh_rx :: cdc_ring
  sh_tx :: cdc_ring
  sh_ctrlx_reset :: u32
  sh_revision :: u32
  sh_rev_magic :: u32
  sh_enroll :: u32
  sh_board_pub :: "u8 list"

definition cdc_ring_count :: "cdc_ring \<Rightarrow> u32" where
  "cdc_ring_count r = ring_head r - ring_tail r"

definition cdc_ring_space :: "cdc_ring \<Rightarrow> u32" where
  "cdc_ring_space r = CDC_RING_SIZE - (ring_head r - ring_tail r)"

text \<open>The byte put at the head and the byte taken at the tail, as both cores do it.\<close>

definition ring_put :: "u8 \<Rightarrow> cdc_ring \<Rightarrow> cdc_ring" where
  "ring_put c r =
     r\<lparr>ring_data := (ring_data r)[unat (ring_head r AND RING_MASK) := c], ring_head := ring_head r + 1\<rparr>"

definition ring_get :: "cdc_ring \<Rightarrow> u8 \<times> cdc_ring" where
  "ring_get r = (ring_data r ! unat (ring_tail r AND RING_MASK), r\<lparr>ring_tail := ring_tail r + 1\<rparr>)"

section \<open>The V5F's side\<close>

record crumb =
  ctag :: u32
  crumb_a :: u32
  crumb_b :: u32
  crumb_t :: u32

record crumb_log =
  cmagic :: u32
  cnext :: u32
  centries :: "crumb list"

definition CRUMB_MAGIC :: u32 where [const_defs]: "CRUMB_MAGIC = 0xC2C2B0B0"
definition CRUMB_COUNT :: u32 where [const_defs]: "CRUMB_COUNT = 128"
definition TAG_LINE :: u32 where [const_defs]: "TAG_LINE = 0x454E494C"

text \<open>\<open>now\<close> is \<open>lfGetTimeMicroSec ()\<close>.\<close>

definition crumb :: "u32 \<Rightarrow> u32 \<Rightarrow> u32 \<Rightarrow> u32 \<Rightarrow> crumb_log \<Rightarrow> crumb_log" where
  "crumb now tg a b c =
     (if cmagic c \<noteq> CRUMB_MAGIC then c
      else
        let n = cnext c in
        c\<lparr>centries := (centries c)[unat (n mod CRUMB_COUNT) := \<lparr>ctag = tg, crumb_a = a, crumb_b = b, crumb_t = now\<rparr>],
          cnext := n + 1\<rparr>)"

definition host_open :: "cdc_shared \<Rightarrow> bool" where
  "host_open sh \<longleftrightarrow> sh_host_open sh \<noteq> 0"

text \<open>One turn of each waiting loop: None when it goes on waiting.\<close>

definition serial_open :: "cdc_shared \<Rightarrow> cdc_shared option" where
  "serial_open sh =
     (if sh_magic sh \<noteq> CDC_SHARED_MAGIC then None
      else Some (sh\<lparr>sh_rx := (sh_rx sh)\<lparr>ring_tail := ring_head (sh_rx sh)\<rparr>, sh_binary := 0,
                    sh_v5f_starts := sh_v5f_starts sh + 1\<rparr>))"

definition serial_close :: "cdc_shared \<Rightarrow> cdc_shared option" where
  "serial_close sh = (if cdc_ring_count (sh_tx sh) \<noteq> 0 \<and> host_open sh then None else Some sh)"

definition serial_ready :: "cdc_shared \<Rightarrow> bool" where
  "serial_ready sh \<longleftrightarrow> cdc_ring_count (sh_rx sh) \<noteq> 0"

definition serial_busy :: "cdc_shared \<Rightarrow> bool" where
  "serial_busy sh \<longleftrightarrow> cdc_ring_space (sh_tx sh) = 0 \<and> host_open sh"

definition serial_getc :: "u32 \<Rightarrow> cdc_shared \<times> crumb_log \<Rightarrow> (u8 \<times> cdc_shared \<times> crumb_log) option" where
  "serial_getc now s =
     (let (sh, log) = s in
      if cdc_ring_count (sh_rx sh) = 0 then None
      else
        let (c, r) = ring_get (sh_rx sh);
            log = (if c = 10 \<or> c = 13 then crumb now TAG_LINE (ring_tail r) (ucast c) log else log)
        in Some (c, sh\<lparr>sh_rx := r\<rparr>, log))"

definition serial_putc :: "u8 \<Rightarrow> cdc_shared \<Rightarrow> cdc_shared option" where
  "serial_putc c sh =
     (if cdc_ring_space (sh_tx sh) = 0 then (if host_open sh then None else Some sh)
      else Some (sh\<lparr>sh_tx := ring_put c (sh_tx sh)\<rparr>))"

definition serial_binary :: "bool \<Rightarrow> cdc_shared \<Rightarrow> cdc_shared" where
  "serial_binary on sh = sh\<lparr>sh_binary := if on then CDC_BINARY_MAGIC else 0\<rparr>"

section \<open>The V3F's side: state\<close>

definition DEF_UARTx_TX_BUF_NUM_MAX :: u16 where [const_defs]: "DEF_UARTx_TX_BUF_NUM_MAX = 16"
definition CDC_PACKET :: u32 where [const_defs]: "CDC_PACKET = 64"
definition CDC_TX_TIMEOUT :: u16 where [const_defs]: "CDC_TX_TIMEOUT = 1000"

text \<open>\<open>Uart\<close>, as far as the bridge uses it, with \<open>UART_Tx_Buf\<close>.\<close>

record uart_ctl =
  load_num :: u16
  deal_num :: u16
  remain_num :: u16
  pack_len :: "u16 list"
  cur_ptr :: u16
  up_ing :: bool
  up_timeout :: u16
  pack0 :: bool
  down_stop :: bool
  uart_buf :: "u8 list"

text \<open>The endpoints: whether 2 answers ACK, whether 3 has a packet to send, and its buffer. What the driver does
  to the other bits of the control registers (the toggles) is left out.\<close>

datatype power = Running | Reset | Standby

record bridge =
  shared :: cdc_shared
  uart :: uart_ctl
  ep2_ack :: bool
  ep3_ack :: bool
  ep3_len :: u16
  ep3_buf :: "u8 list"
  dev_enum :: bool
  ctrl_x_armed :: bool
  ctrl_x_run :: u8
  stalled :: bool
  was_open :: bool
  power :: power

definition cdc_shared_init :: "bridge \<Rightarrow> bridge" where
  "cdc_shared_init b =
     (let sh = shared b in
      b\<lparr>ctrl_x_armed := sh_ctrlx_reset sh = CDC_CTRLX_RESET_MAGIC,
        shared := sh\<lparr>sh_rx := (sh_rx sh)\<lparr>ring_head := 0, ring_tail := 0\<rparr>,
          sh_tx := (sh_tx sh)\<lparr>ring_head := 0, ring_tail := 0\<rparr>, sh_host_open := 0, sh_standby := 0,
          sh_binary := 0, sh_ctrlx_reset := 0, sh_rev_magic := 0, sh_enroll := 0, sh_magic := CDC_SHARED_MAGIC\<rparr>\<rparr>)"

section \<open>Host to ring\<close>

definition slot_release :: "bridge \<Rightarrow> bridge" where
  "slot_release b =
     (let u = uart b; d = deal_num u + 1;
          u = u\<lparr>pack_len := (pack_len u)[unat (deal_num u) := 0], cur_ptr := 0,
                deal_num := if d \<ge> DEF_UARTx_TX_BUF_NUM_MAX then 0 else d, remain_num := remain_num u - 1\<rparr>
      in if down_stop u \<and> remain_num u < 2 then b\<lparr>uart := u\<lparr>down_stop := False\<rparr>, ep2_ack := True\<rparr>
         else b\<lparr>uart := u\<rparr>)"

definition ctrl_x_seen :: "u8 \<Rightarrow> bridge \<Rightarrow> bool \<times> bridge" where
  "ctrl_x_seen c b =
     (if c \<noteq> CDC_CTRL_X \<or> sh_binary (shared b) = CDC_BINARY_MAGIC
      then (False, b\<lparr>ctrl_x_run := 0, ctrl_x_armed := False\<rparr>)
      else
        let n = ctrl_x_run b + 1 in
        if n < 3 then (False, b\<lparr>ctrl_x_run := n\<rparr>) else (True, b\<lparr>ctrl_x_run := 0\<rparr>))"

definition v5f_safe_restart :: "bridge \<Rightarrow> bridge" where
  "v5f_safe_restart b =
     (let sh = shared b in
      if sh_safe_boot sh = CDC_SAFE_BOOT_MAGIC \<or> ctrl_x_armed b
      then b\<lparr>ctrl_x_run := 0, shared := sh\<lparr>sh_recover := CDC_RECOVER_MAGIC\<rparr>, power := Reset\<rparr>
      else b\<lparr>ctrl_x_run := 0,
             shared := sh\<lparr>sh_safe_boot := CDC_SAFE_BOOT_MAGIC, sh_ctrlx_reset := CDC_CTRLX_RESET_MAGIC\<rparr>,
             power := Reset\<rparr>)"

text \<open>The copy of a piece of a packet to the ring, from index \<open>at\<close>; the new head is stored after it.\<close>

primrec copy_bytes :: "u8 list \<Rightarrow> u32 \<Rightarrow> bool \<Rightarrow> bridge \<Rightarrow> bool \<times> bridge" where
  "copy_bytes [] at restart b = (restart, b)"
| "copy_bytes (c # cs) at restart b =
     (let sh = shared b; r = sh_rx sh;
          b = b\<lparr>shared := sh\<lparr>sh_rx := r\<lparr>ring_data := (ring_data r)[unat (at AND RING_MASK) := c]\<rparr>\<rparr>\<rparr>;
          (seen, b) = ctrl_x_seen c b
      in copy_bytes cs (at + 1) (restart \<or> seen) b)"

definition slot_bytes :: "uart_ctl \<Rightarrow> nat \<Rightarrow> nat \<Rightarrow> nat \<Rightarrow> u8 list" where
  "slot_bytes u k pos n = take n (drop (64 * k + pos) (uart_buf u))"

text \<open>One turn of the loop; the first result says whether it goes on.\<close>

definition slot_turn :: "bool \<Rightarrow> bridge \<Rightarrow> bool \<times> bool \<times> bridge" where
  "slot_turn restart b =
     (let u = uart b; k = unat (deal_num u); pos = cur_ptr u; len = pack_len u ! k in
      if pos < len then
        let r = sh_rx (shared b); space = cdc_ring_space r in
        if space = 0 then (False, restart, b)
        else
          let n = ucast len - ucast pos; n = (if n > space then space else n); h = ring_head r;
              (restart, b) = copy_bytes (slot_bytes u k (unat pos) (unat n)) h restart b;
              sh = shared b;
              b = b\<lparr>shared := sh\<lparr>sh_rx := (sh_rx sh)\<lparr>ring_head := h + n\<rparr>\<rparr>\<rparr>;
              pos = pos + ucast n
          in if pos < len then (False, restart, b\<lparr>uart := (uart b)\<lparr>cur_ptr := pos\<rparr>\<rparr>)
             else (True, restart, slot_release b)
      else (True, restart, slot_release b))"

text \<open>Every turn that goes on uses up a slot, so \<open>remain_num\<close> turns are enough.\<close>

primrec slots_loop :: "nat \<Rightarrow> bool \<Rightarrow> bridge \<Rightarrow> bool \<times> bridge" where
  "slots_loop 0 restart b = (restart, b)"
| "slots_loop (Suc f) restart b =
     (if remain_num (uart b) = 0 then (restart, b)
      else
        let (go, restart, b) = slot_turn restart b in
        if go then slots_loop f restart b else (restart, b))"

definition host_to_ring :: "bridge \<Rightarrow> bridge" where
  "host_to_ring b =
     (let (restart, b) = slots_loop (unat (remain_num (uart b))) False b
      in if restart then v5f_safe_restart b else b)"

section \<open>Ring to host\<close>

definition ep3_arm :: "u16 \<Rightarrow> bridge \<Rightarrow> bridge" where
  "ep3_arm len b =
     b\<lparr>uart := (uart b)\<lparr>up_ing := True, up_timeout := 0, pack0 := ucast len = CDC_PACKET\<rparr>, ep3_len := len,
       ep3_ack := True\<rparr>"

definition ring_discard :: "cdc_ring \<Rightarrow> cdc_ring" where
  "ring_discard t = (if cdc_ring_count t = 0 then t else t\<lparr>ring_tail := ring_head t\<rparr>)"

text \<open>The bytes of the packet in \<open>USBFS_EP3_Buf\<close>.\<close>

definition ring_peek :: "cdc_ring \<Rightarrow> nat \<Rightarrow> u8 list" where
  "ring_peek t n = map (\<lambda>i. ring_data t ! unat ((ring_tail t + word_of_nat i) AND RING_MASK)) [0..<n]"

definition ring_to_host :: "bridge \<Rightarrow> bridge" where
  "ring_to_host b =
     (let opened = dev_enum b \<and> sh_host_open (shared b) \<noteq> 0;
          b = (if opened \<and> \<not> was_open b then b\<lparr>uart := (uart b)\<lparr>up_timeout := 0\<rparr>, stalled := False\<rparr> else b);
          b = b\<lparr>was_open := opened\<rparr>; u = uart b; sh = shared b
      in if \<not> opened then b
      else if up_ing u then
        let b = (if up_timeout u \<ge> CDC_TX_TIMEOUT then b\<lparr>stalled := True\<rparr> else b)
        in if stalled b then b\<lparr>shared := sh\<lparr>sh_tx := ring_discard (sh_tx sh)\<rparr>\<rparr> else b
      else
        let b = b\<lparr>stalled := False\<rparr>; t = sh_tx sh; n = cdc_ring_count t in
        if n = 0 then (if pack0 u then ep3_arm 0 b else b)
        else
          let n = (if n > CDC_PACKET then CDC_PACKET else n) in
          ep3_arm (ucast n)
            (b\<lparr>ep3_buf := ring_peek t (unat n) @ drop (unat n) (ep3_buf b),
               shared := sh\<lparr>sh_tx := t\<lparr>ring_tail := ring_tail t + n\<rparr>\<rparr>\<rparr>))"

text \<open>USB off, interrupts off, and asleep until the V5F resets the chip.\<close>

definition cdc_standby :: "bridge \<Rightarrow> bridge" where
  "cdc_standby b = b\<lparr>power := Standby\<rparr>"

definition cdc_bridge_poll :: "bridge \<Rightarrow> bridge" where
  "cdc_bridge_poll b =
     (if sh_standby (shared b) = CDC_STANDBY_MAGIC then cdc_standby b
      else
        let b = host_to_ring b in
        if power b \<noteq> Running then b else ring_to_host b)"

section \<open>The USB interrupts\<close>

text \<open>A packet of at most 64 bytes arrives at endpoint 2, while it answers ACK.\<close>

definition usb_out :: "u8 list \<Rightarrow> bridge \<Rightarrow> bridge" where
  "usb_out p b =
     (let u = uart b; k = unat (load_num u); l = load_num u + 1;
          u = u\<lparr>uart_buf := copy_at (64 * k) p (uart_buf u),
                pack_len := (pack_len u)[k := word_of_nat (length p)],
                load_num := if l \<ge> DEF_UARTx_TX_BUF_NUM_MAX then 0 else l, remain_num := remain_num u + 1\<rparr>
      in if remain_num u \<ge> DEF_UARTx_TX_BUF_NUM_MAX - 2 then b\<lparr>uart := u\<lparr>down_stop := True\<rparr>, ep2_ack := False\<rparr>
         else b\<lparr>uart := u\<rparr>)"

text \<open>The host takes the packet of endpoint 3: its bytes.\<close>

definition usb_in :: "bridge \<Rightarrow> u8 list \<times> bridge" where
  "usb_in b = (take (unat (ep3_len b)) (ep3_buf b), b\<lparr>ep3_ack := False, uart := (uart b)\<lparr>up_ing := False\<rparr>\<rparr>)"

text \<open>A bus reset: the slots and the endpoints start again.\<close>

definition uart_para_init :: "uart_ctl \<Rightarrow> uart_ctl" where
  "uart_para_init u =
     u\<lparr>load_num := 0, deal_num := 0, remain_num := 0, pack_len := replicate 16 0, cur_ptr := 0, up_ing := False,
       up_timeout := 0, pack0 := False, down_stop := False\<rparr>"

definition usb_bus_reset :: "bridge \<Rightarrow> bridge" where
  "usb_bus_reset b =
     b\<lparr>ep2_ack := True, ep3_len := 0, ep3_ack := False, uart := uart_para_init (uart b),
       shared := (shared b)\<lparr>sh_host_open := 0\<rparr>\<rparr>"

text \<open>The host says with DTR whether a program has the port open.\<close>

definition set_line_state :: "u16 \<Rightarrow> bridge \<Rightarrow> bridge" where
  "set_line_state v b = b\<lparr>shared := (shared b)\<lparr>sh_host_open := ucast (v AND 1)\<rparr>\<rparr>"

text \<open>SET_LINE_CODING, when its data has come (\<open>UART_USB_Init\<close>): the slots start again and endpoint 2 answers
  ACK; endpoint 3 is left as it is. (The UART it also sets up is not used.)\<close>

definition set_line_coding :: "bridge \<Rightarrow> bridge" where
  "set_line_coding b = b\<lparr>uart := uart_para_init (uart b), ep2_ack := True\<rparr>"

section \<open>One store at a time\<close>

text \<open>
  \<open>host_to_ring\<close> as the V5F and the USB interrupt see it: between calls (\<open>V3Idle\<close>), at the test of its loop,
  copying (its local \<open>restart\<close>, the head it read, n and i), and with the USB interrupt on again
  (\<open>V3Done\<close>). A step makes at most one store that the V5F can see. While it is in the loop the USB
  interrupt is off.
\<close>

datatype v3f_pc = V3Idle | V3Turn bool | V3Copy bool u32 u32 nat | V3Done bool

fun v3f_step :: "v3f_pc \<times> bridge \<Rightarrow> v3f_pc \<times> bridge" where
  "v3f_step (V3Idle, b) = (if remain_num (uart b) = 0 then V3Idle else V3Turn False, b)"
| "v3f_step (V3Turn re, b) =
     (let u = uart b; pos = cur_ptr u; len = pack_len u ! unat (deal_num u) in
      if remain_num u = 0 then (V3Done re, b)
      else if pos < len then
        let r = sh_rx (shared b); space = cdc_ring_space r in
        if space = 0 then (V3Done re, b)
        else
          let n = ucast len - ucast pos; n = (if n > space then space else n)
          in (V3Copy re (ring_head r) n 0, b)
      else (V3Turn re, slot_release b))"
| "v3f_step (V3Copy re h n i, b) =
     (let u = uart b; sh = shared b; r = sh_rx sh in
      if i < unat n then
        let c = uart_buf u ! (64 * unat (deal_num u) + unat (cur_ptr u) + i);
            b = b\<lparr>shared := sh\<lparr>sh_rx := r\<lparr>ring_data := (ring_data r)[unat ((h + word_of_nat i) AND RING_MASK) := c]\<rparr>\<rparr>\<rparr>;
            (seen, b) = ctrl_x_seen c b
        in (V3Copy (re \<or> seen) h n (Suc i), b)
      else
        let b = b\<lparr>shared := sh\<lparr>sh_rx := r\<lparr>ring_head := h + n\<rparr>\<rparr>\<rparr>; pos = cur_ptr u + ucast n in
        if pos < pack_len u ! unat (deal_num u) then (V3Done re, b\<lparr>uart := u\<lparr>cur_ptr := pos\<rparr>\<rparr>)
        else (V3Turn re, slot_release b))"
| "v3f_step (V3Done re, b) = (V3Idle, if re then v5f_safe_restart b else b)"

text \<open>\<open>serial_getc\<close>: it has seen a byte in the ring, it has read it, it stores the tail. The first result is what it
  returns.\<close>

datatype v5f_pc = V5Idle | V5Ready | V5Got u8

fun v5f_step :: "v5f_pc \<times> cdc_shared \<Rightarrow> u8 list \<times> v5f_pc \<times> cdc_shared" where
  "v5f_step (V5Idle, sh) = ([], if cdc_ring_count (sh_rx sh) = 0 then V5Idle else V5Ready, sh)"
| "v5f_step (V5Ready, sh) =
     ([], V5Got (ring_data (sh_rx sh) ! unat (ring_tail (sh_rx sh) AND RING_MASK)), sh)"
| "v5f_step (V5Got c, sh) = ([c], V5Idle, sh\<lparr>sh_rx := (sh_rx sh)\<lparr>ring_tail := ring_tail (sh_rx sh) + 1\<rparr>\<rparr>)"

section \<open>The ring is a queue\<close>

text \<open>What both cores rely on: a queue of bytes, one end each.\<close>

locale byte_fifo =
  fixes fput :: "u8 \<Rightarrow> 'r \<Rightarrow> 'r"
    and fget :: "'r \<Rightarrow> u8 \<times> 'r"
    and bytes :: "'r \<Rightarrow> u8 list"
    and room :: "'r \<Rightarrow> nat"
    and ok :: "'r \<Rightarrow> bool"
  assumes put_law: "\<lbrakk>ok r; 0 < room r\<rbrakk> \<Longrightarrow> ok (fput c r) \<and> bytes (fput c r) = bytes r @ [c] \<and> Suc (room (fput c r)) = room r"
    and get_law: "\<lbrakk>ok r; bytes r = c # cs; fget r = (d, r')\<rbrakk> \<Longrightarrow> d = c \<and> ok r' \<and> bytes r' = cs"
begin

lemma put_all:
  "\<lbrakk>ok r; length cs \<le> room r\<rbrakk> \<Longrightarrow>
     ok (fold fput cs r) \<and> bytes (fold fput cs r) = bytes r @ cs \<and> room (fold fput cs r) + length cs = room r"
proof (induction cs arbitrary: r)
  case (Cons c cs)
  then show ?case
    using put_law [of r c] Cons.IH [of "fput c r"] by auto
qed simp

end

definition ring_ok :: "cdc_ring \<Rightarrow> bool" where
  "ring_ok r \<longleftrightarrow> length (ring_data r) = 4096 \<and> unat (cdc_ring_count r) \<le> 4096"

definition ring_bytes :: "cdc_ring \<Rightarrow> u8 list" where
  "ring_bytes r = ring_peek r (unat (cdc_ring_count r))"

lemma ring_index: "unat (x AND RING_MASK) = unat x mod 4096"
proof -
  have "x AND RING_MASK = take_bit 12 x"
    by (simp add: const_defs take_bit_eq_mask mask_numeral)
  then show ?thesis
    by (simp add: unsigned_take_bit_eq take_bit_eq_mod [where 'a = nat])
qed

lemma ring_index_add: "unat ((x + word_of_nat i) AND RING_MASK) = (unat x + i) mod 4096"
proof -
  have "unat (x + word_of_nat i) = (unat x + i) mod 2 ^ 32"
    by (simp add: unat_word_ariths unsigned_of_nat take_bit_eq_mod [where 'a = nat] mod_simps)
  then show ?thesis
    by (simp add: ring_index mod_mod_cancel)
qed

lemma ring_space_room: "ring_ok r \<Longrightarrow> unat (cdc_ring_space r) = 4096 - unat (cdc_ring_count r)"
  by (simp add: ring_ok_def cdc_ring_space_def cdc_ring_count_def unat_sub word_le_nat_alt const_defs)

lemma ring_put_law:
  assumes "ring_ok r" "0 < unat (cdc_ring_space r)"
  shows "ring_ok (ring_put c r) \<and> ring_bytes (ring_put c r) = ring_bytes r @ [c] \<and>
    Suc (unat (cdc_ring_space (ring_put c r))) = unat (cdc_ring_space r)"
proof -
  let ?n = "unat (cdc_ring_count r)"
  have lt: "?n < 4096"
    using assms ring_space_room [OF assms(1)] by simp
  have "ring_head r + 1 - ring_tail r = cdc_ring_count r + 1"
    by (simp add: cdc_ring_count_def)
  then have "cdc_ring_count (ring_put c r) = cdc_ring_count r + 1"
    by (simp add: cdc_ring_count_def ring_put_def)
  then have n: "unat (cdc_ring_count (ring_put c r)) = Suc ?n"
    using lt by (simp add: unat_word_ariths)
  have hd: "ring_head r = ring_tail r + word_of_nat ?n"
    by (simp add: cdc_ring_count_def)
  have at: "unat (ring_head r AND RING_MASK) = (unat (ring_tail r) + ?n) mod 4096"
    by (subst hd) (rule ring_index_add)
  have ok: "ring_ok (ring_put c r)"
    using assms(1) n lt by (simp add: ring_ok_def ring_put_def)
  moreover have "ring_bytes (ring_put c r) = ring_bytes r @ [c]"
  proof (rule nth_equalityI)
    show "length (ring_bytes (ring_put c r)) = length (ring_bytes r @ [c])"
      using n by (simp add: ring_bytes_def ring_peek_def)
    fix i assume "i < length (ring_bytes (ring_put c r))"
    then have i: "i < Suc ?n"
      using n by (simp add: ring_bytes_def ring_peek_def)
    have len: "(unat (ring_tail r) + k) mod 4096 < length (ring_data r)" for k
      using assms(1) by (simp add: ring_ok_def)
    have ne: "(unat (ring_tail r) + i) mod 4096 \<noteq> (unat (ring_tail r) + ?n) mod 4096" if "i < ?n"
    proof
      assume "(unat (ring_tail r) + i) mod 4096 = (unat (ring_tail r) + ?n) mod 4096"
      then have "4096 dvd ?n - i"
        using that mod_eq_dvd_iff_nat [of "unat (ring_tail r) + i" "unat (ring_tail r) + ?n" 4096] by simp
      then show False
        using that lt by (auto dest!: dvd_imp_le)
    qed
    show "ring_bytes (ring_put c r) ! i = (ring_bytes r @ [c]) ! i"
    proof (cases "i < ?n")
      case True
      then show ?thesis
        using i n ne len by (simp add: ring_bytes_def ring_peek_def ring_put_def ring_index_add at nth_append del: upt_Suc)
    next
      case False
      then have "i = ?n"
        using i by simp
      then show ?thesis
        using n len by (simp add: ring_bytes_def ring_peek_def ring_put_def ring_index_add at nth_append del: upt_Suc)
    qed
  qed
  moreover have "Suc (unat (cdc_ring_space (ring_put c r))) = unat (cdc_ring_space r)"
    using ring_space_room [OF ok] ring_space_room [OF assms(1)] n lt by simp
  ultimately show ?thesis by simp
qed

lemma ring_get_law:
  assumes "ring_ok r" "ring_bytes r = c # cs" "ring_get r = (d, r')"
  shows "d = c \<and> ring_ok r' \<and> ring_bytes r' = cs"
proof -
  let ?n = "unat (cdc_ring_count r)"
  have n: "?n = Suc (length cs)"
    using arg_cong [OF assms(2), of length] by (simp add: ring_bytes_def ring_peek_def)
  have r': "r' = r\<lparr>ring_tail := ring_tail r + 1\<rparr>" "d = ring_data r ! unat (ring_tail r AND RING_MASK)"
    using assms(3) by (simp_all add: ring_get_def)
  have c1: "cdc_ring_count r' = cdc_ring_count r - 1"
    by (simp add: r' cdc_ring_count_def)
  have "(1 :: u32) \<le> cdc_ring_count r"
    using n by (simp add: word_le_nat_alt)
  then have n': "unat (cdc_ring_count r') = length cs"
    using n by (simp add: c1 unat_sub)
  have peek: "ring_peek r (Suc (length cs)) = c # cs"
    using assms(2) n by (simp add: ring_bytes_def)
  have "d = c"
    using arg_cong [OF peek, of hd] by (simp add: r' ring_peek_def upt_rec del: upt_Suc)
  moreover have "ring_bytes r' = cs"
  proof -
    have "ring_bytes r' = ring_peek r' (length cs)"
      by (simp add: ring_bytes_def n')
    also have "\<dots> = tl (ring_peek r (Suc (length cs)))"
      by (rule nth_equalityI) (simp_all add: ring_peek_def r' map_tl [symmetric] tl_upt ac_simps del: upt_Suc)
    finally have "ring_bytes r' = tl (ring_peek r (Suc (length cs)))" .
    then show ?thesis
      by (simp add: peek)
  qed
  moreover have "ring_ok r'"
    using assms(1) n n' by (simp add: ring_ok_def r')
  ultimately show ?thesis by simp
qed

interpretation cdc: byte_fifo ring_put ring_get ring_bytes "\<lambda>r. unat (cdc_ring_space r)" ring_ok
  by unfold_locales (use ring_put_law ring_get_law in blast)+

section \<open>Nothing from the host is lost\<close>

text \<open>What waits in the slots, from the one read next.\<close>

definition slot_rest :: "uart_ctl \<Rightarrow> nat \<Rightarrow> u8 list" where
  "slot_rest u i =
     (let k = (unat (deal_num u) + i) mod 16; pos = (if i = 0 then unat (cur_ptr u) else 0)
      in slot_bytes u k pos (unat (pack_len u ! k) - pos))"

definition pending :: "uart_ctl \<Rightarrow> u8 list" where
  "pending u = concat (map (slot_rest u) [0..<unat (remain_num u)])"

definition uart_ok :: "uart_ctl \<Rightarrow> bool" where
  "uart_ok u \<longleftrightarrow> length (pack_len u) = 16 \<and> length (uart_buf u) = 1024 \<and> (\<forall>l\<in>set (pack_len u). unat l \<le> 64) \<and>
     unat (deal_num u) < 16 \<and> unat (remain_num u) \<le> 16 \<and>
     unat (load_num u) = (unat (deal_num u) + unat (remain_num u)) mod 16 \<and> (remain_num u = 0 \<longrightarrow> cur_ptr u = 0)"

text \<open>The invariant of the input side. While endpoint 2 answers ACK there is a free slot.\<close>

definition input_ok :: "bridge \<Rightarrow> bool" where
  "input_ok b \<longleftrightarrow> ring_ok (sh_rx (shared b)) \<and> uart_ok (uart b) \<and>
     (ep2_ack b \<longrightarrow> unat (remain_num (uart b)) < 14)"

abbreviation waiting :: "bridge \<Rightarrow> u8 list" where
  "waiting b \<equiv> ring_bytes (sh_rx (shared b)) @ pending (uart b)"

lemma ctrl_x_keeps:
  "shared (snd (ctrl_x_seen c b)) = shared b" "uart (snd (ctrl_x_seen c b)) = uart b"
  "ep2_ack (snd (ctrl_x_seen c b)) = ep2_ack b" "power (snd (ctrl_x_seen c b)) = power b"
  by (simp_all add: ctrl_x_seen_def Let_def)

text \<open>The copy is a sequence of \<open>ring_put\<close>, but for the head.\<close>

lemma fold_put_head: "ring_head (fold ring_put cs r) = ring_head r + word_of_nat (length cs)"
  by (induction cs arbitrary: r) (simp_all add: ring_put_def)

lemma fold_put_other: "ring_tail (fold ring_put cs r) = ring_tail r"
  by (induction cs arbitrary: r) (simp_all add: ring_put_def)

lemma copy_bytes_puts:
  "copy_bytes cs at restart b = (restart', b') \<Longrightarrow>
     uart b' = uart b \<and> ep2_ack b' = ep2_ack b \<and> power b' = power b \<and>
     shared b' = (shared b)\<lparr>sh_rx := (fold ring_put cs ((sh_rx (shared b))\<lparr>ring_head := at\<rparr>))
       \<lparr>ring_head := ring_head (sh_rx (shared b))\<rparr>\<rparr>"
proof (induction cs arbitrary: at restart b)
  case (Cons c cs)
  let ?r = "sh_rx (shared b)"
  let ?b = "b\<lparr>shared := (shared b)\<lparr>sh_rx := ?r\<lparr>ring_data := (ring_data ?r)[unat (at AND RING_MASK) := c]\<rparr>\<rparr>\<rparr>"
  obtain seen b1 where b1: "ctrl_x_seen c ?b = (seen, b1)"
    by (cases "ctrl_x_seen c ?b")
  have "copy_bytes cs (at + 1) (restart \<or> seen) b1 = (restart', b')"
    using Cons.prems by (simp add: Let_def b1)
  from Cons.IH [OF this] ctrl_x_keeps [of c ?b]
  show ?case
    by (simp add: b1 ring_put_def)
qed simp

lemma copy_bytes_ring:
  assumes "copy_bytes cs (ring_head (sh_rx (shared b))) restart b = (restart', b')"
  shows "(sh_rx (shared b'))\<lparr>ring_head := ring_head (sh_rx (shared b)) + word_of_nat (length cs)\<rparr> =
    fold ring_put cs (sh_rx (shared b))"
  using copy_bytes_puts [OF assms] fold_put_head [of cs "sh_rx (shared b)"]
  by (cases "fold ring_put cs (sh_rx (shared b))") simp

lemma next_slot: "unat d < 16 \<Longrightarrow> unat (if d + 1 \<ge> 16 then 0 else d + 1 :: u16) = Suc (unat d) mod 16"
  by (cases "unat d = 15") (simp_all add: word_le_nat_alt unat_word_ariths mod_if)

lemma slot_rest_release:
  assumes u: "uart_ok u" and d: "deal_num u' = (if deal_num u + 1 \<ge> 16 then 0 else deal_num u + 1)"
    and rest: "uart_buf u' = uart_buf u" "cur_ptr u' = 0" "pack_len u' = (pack_len u)[unat (deal_num u) := 0]"
    and i: "Suc i < 16"
  shows "slot_rest u' i = slot_rest u (Suc i)"
proof -
  have lt: "unat (deal_num u) < 16"
    using u by (simp add: uart_ok_def)
  then have "unat (deal_num u') = Suc (unat (deal_num u)) mod 16"
    unfolding d by (rule next_slot)
  then have k: "(unat (deal_num u') + i) mod 16 = (unat (deal_num u) + Suc i) mod 16"
    by (simp add: mod_simps)
  have "(unat (deal_num u) + Suc i) mod 16 \<noteq> unat (deal_num u)"
    using lt i by (auto simp: mod_if split: if_splits)
  then show ?thesis
    using rest by (simp add: slot_rest_def slot_bytes_def Let_def k)
qed

lemma released:
  assumes "input_ok b" "remain_num (uart b) \<noteq> 0"
  shows "input_ok (slot_release b) \<and> pending (uart b) = slot_rest (uart b) 0 @ pending (uart (slot_release b)) \<and>
    shared (slot_release b) = shared b \<and> power (slot_release b) = power b \<and>
    Suc (unat (remain_num (uart (slot_release b)))) = unat (remain_num (uart b))"
proof -
  let ?u = "uart b" and ?v = "uart (slot_release b)"
  have u: "uart_ok ?u"
    using assms(1) by (simp add: input_ok_def)
  have v: "deal_num ?v = (if deal_num ?u + 1 \<ge> 16 then 0 else deal_num ?u + 1)" "uart_buf ?v = uart_buf ?u"
    "cur_ptr ?v = 0" "pack_len ?v = (pack_len ?u)[unat (deal_num ?u) := 0]" "remain_num ?v = remain_num ?u - 1"
    "load_num ?v = load_num ?u"
    by (simp_all add: slot_release_def Let_def const_defs)
  have "(1 :: u16) \<le> remain_num ?u"
    using assms(2) by (simp add: word_le_nat_alt unat_gt_0 Suc_le_eq)
  then have n: "Suc (unat (remain_num ?v)) = unat (remain_num ?u)"
    by (simp add: v unat_sub word_le_nat_alt)
  have lt: "unat (deal_num ?u) < 16" "unat (remain_num ?u) \<le> 16"
    using u by (simp_all add: uart_ok_def)
  have dv: "unat (deal_num ?v) = Suc (unat (deal_num ?u)) mod 16"
    unfolding v(1) using lt(1) by (rule next_slot)
  have "unat (load_num ?v) = (unat (deal_num ?u) + Suc (unat (remain_num ?v))) mod 16"
    using u by (simp add: v(6) n uart_ok_def)
  then have "unat (load_num ?v) = (unat (deal_num ?v) + unat (remain_num ?v)) mod 16"
    by (simp add: dv mod_add_left_eq)
  moreover have "\<forall>l\<in>set (pack_len ?v). unat l \<le> 64"
    using u set_update_subset_insert [of "pack_len ?u" "unat (deal_num ?u)" 0] by (auto simp: v uart_ok_def)
  ultimately have "uart_ok ?v"
    using u n lt dv by (simp add: uart_ok_def v(2-4))
  moreover have "ep2_ack (slot_release b) \<longrightarrow> unat (remain_num ?v) < 14"
    using assms(1) n by (auto simp: slot_release_def Let_def input_ok_def word_less_nat_alt)
  moreover have "pending ?u = slot_rest ?u 0 @ pending ?v"
  proof -
    have "map (slot_rest ?u) [0..<unat (remain_num ?u)] =
        slot_rest ?u 0 # map (\<lambda>i. slot_rest ?u (Suc i)) [0..<unat (remain_num ?v)]"
      by (simp add: n [symmetric] upt_rec [of 0] map_Suc_upt [symmetric] comp_def del: upt_Suc)
    moreover have "map (\<lambda>i. slot_rest ?u (Suc i)) [0..<unat (remain_num ?v)] = map (slot_rest ?v) [0..<unat (remain_num ?v)]"
      using slot_rest_release [OF u v(1,2,3,4)] n lt by simp
    ultimately show ?thesis
      by (simp add: pending_def)
  qed
  ultimately show ?thesis
    using assms(1) n by (simp add: input_ok_def) (simp add: slot_release_def Let_def)
qed

lemma slot_bytes_append: "slot_bytes u k pos n @ slot_bytes u k (pos + n) m = slot_bytes u k pos (n + m)"
proof -
  have "64 * k + (pos + n) = n + (64 * k + pos)"
    by simp
  then show ?thesis
    by (simp only: slot_bytes_def take_add drop_drop)
qed

lemma length_slot_bytes: "\<lbrakk>uart_ok u; k < 16; pos + n \<le> 64\<rbrakk> \<Longrightarrow> length (slot_bytes u k pos n) = n"
  by (simp add: slot_bytes_def uart_ok_def)

lemma pending_first: "remain_num u \<noteq> 0 \<Longrightarrow> pending u = slot_rest u 0 @ concat (map (slot_rest u) [1..<unat (remain_num u)])"
  by (simp add: pending_def upt_rec [of 0] unat_gt_0 del: upt_Suc)

text \<open>What one copy does: \<open>n\<close> bytes go from the slot to the ring.\<close>

lemma slot_copied:
  assumes b: "input_ok b" "remain_num (uart b) \<noteq> 0"
    and n: "unat (cur_ptr (uart b)) + n \<le> unat (pack_len (uart b) ! unat (deal_num (uart b)))"
      "n \<le> unat (cdc_ring_space (sh_rx (shared b)))"
    and copy: "copy_bytes (slot_bytes (uart b) (unat (deal_num (uart b))) (unat (cur_ptr (uart b))) n)
      (ring_head (sh_rx (shared b))) restart b = (restart', b1)"
  defines "b2 \<equiv> b1\<lparr>shared := (shared b1)\<lparr>sh_rx := (sh_rx (shared b1))
      \<lparr>ring_head := ring_head (sh_rx (shared b)) + word_of_nat n\<rparr>\<rparr>,
      uart := (uart b1)\<lparr>cur_ptr := cur_ptr (uart b) + word_of_nat n\<rparr>\<rparr>"
  shows "input_ok b2 \<and> waiting b2 = waiting b \<and> power b2 = power b \<and> ep2_ack b2 = ep2_ack b \<and>
    uart b2 = (uart b)\<lparr>cur_ptr := cur_ptr (uart b) + word_of_nat n\<rparr> \<and>
    shared b2 = (shared b)\<lparr>sh_rx := sh_rx (shared b2)\<rparr> \<and>
    unat (cdc_ring_space (sh_rx (shared b2))) + n = unat (cdc_ring_space (sh_rx (shared b)))"
proof -
  let ?u = "uart b" and ?r = "sh_rx (shared b)"
  let ?k = "unat (deal_num ?u)" and ?pos = "unat (cur_ptr ?u)"
  let ?cs = "slot_bytes ?u ?k ?pos n"
  have u: "uart_ok ?u" and r: "ring_ok ?r"
    using b by (simp_all add: input_ok_def)
  have k: "?k < 16" and l64: "unat (pack_len ?u ! ?k) \<le> 64"
    using u by (auto simp: uart_ok_def)
  have len: "length ?cs = n"
    using n(1) l64 by (intro length_slot_bytes [OF u k]) simp
  note puts = copy_bytes_puts [OF copy]
  have rx: "sh_rx (shared b2) = fold ring_put ?cs ?r"
    using copy_bytes_ring [OF copy] len by (simp add: b2_def)
  note all = cdc.put_all [OF r, of ?cs, unfolded len, OF n(2)]
  have pos: "unat (cur_ptr ?u + word_of_nat n) = ?pos + n"
    using n(1) l64 by (simp add: unat_word_ariths unsigned_of_nat take_bit_nat_eq_self)
  have u2: "uart b2 = ?u\<lparr>cur_ptr := cur_ptr ?u + word_of_nat n\<rparr>"
    using puts by (simp add: b2_def)
  have "slot_rest ?u 0 = ?cs @ slot_rest (uart b2) 0"
    using k n(1) slot_bytes_append [of ?u ?k ?pos n "unat (pack_len ?u ! ?k) - (?pos + n)"]
    by (simp add: slot_rest_def Let_def u2 pos) (simp add: slot_bytes_def)
  moreover have "concat (map (slot_rest (uart b2)) [1..<m]) = concat (map (slot_rest ?u) [1..<m])" for m
    by (rule arg_cong [where f = concat]) (simp add: slot_rest_def Let_def u2 slot_bytes_def)
  ultimately have "pending ?u = ?cs @ pending (uart b2)"
    using b(2) by (simp add: pending_first u2)
  moreover have "uart_ok (uart b2)"
    using u b(2) by (simp add: u2 uart_ok_def)
  ultimately show ?thesis
    using puts all rx u2 b by (simp add: input_ok_def) (simp add: b2_def)
qed

lemma slot_turn_ok:
  assumes b: "input_ok b" "remain_num (uart b) \<noteq> 0" and t: "slot_turn restart b = (go, restart', b')"
  shows "input_ok b' \<and> waiting b' = waiting b \<and> power b' = power b \<and>
    shared b' = (shared b)\<lparr>sh_rx := sh_rx (shared b')\<rparr> \<and>
    (if go then Suc (unat (remain_num (uart b'))) = unat (remain_num (uart b))
     else cdc_ring_space (sh_rx (shared b')) = 0)"
proof -
  let ?u = "uart b" and ?r = "sh_rx (shared b)"
  let ?len = "pack_len ?u ! unat (deal_num ?u)" and ?pos = "cur_ptr ?u"
  have u: "uart_ok ?u"
    using b by (simp add: input_ok_def)
  then have len64: "unat ?len \<le> 64"
    by (auto simp: uart_ok_def)
  note rel = released [OF b]
  show ?thesis
  proof (cases "?pos < ?len")
    case False
    then have "slot_rest ?u 0 = []"
      using u by (simp add: slot_rest_def slot_bytes_def Let_def uart_ok_def word_less_nat_alt)
    then show ?thesis
      using t False rel by (simp add: slot_turn_def Let_def)
  next
    case pos: True
    show ?thesis
    proof (cases "cdc_ring_space ?r = 0")
      case True
      then show ?thesis
        using t pos b by (simp add: slot_turn_def Let_def)
    next
      case space: False
      define avail :: u32 where "avail = ucast ?len - ucast ?pos"
      define n where "n = (if avail > cdc_ring_space ?r then cdc_ring_space ?r else avail)"
      have "(ucast ?pos :: u32) \<le> ucast ?len"
        using pos by (simp add: word_le_nat_alt word_less_nat_alt unat_ucast_wide)
      then have avail: "unat avail = unat ?len - unat ?pos"
        by (simp add: avail_def unat_sub unat_ucast_wide)
      have n1: "unat ?pos + unat n \<le> unat ?len" "unat n \<le> unat (cdc_ring_space ?r)"
        using pos avail by (auto simp: n_def word_less_nat_alt split: if_splits)
      obtain re b1 where copy: "copy_bytes (slot_bytes ?u (unat (deal_num ?u)) (unat ?pos) (unat n)) (ring_head ?r) restart b = (re, b1)"
        by (cases "copy_bytes (slot_bytes ?u (unat (deal_num ?u)) (unat ?pos) (unat n)) (ring_head ?r) restart b")
      define b2 where "b2 = b1\<lparr>shared := (shared b1)\<lparr>sh_rx := (sh_rx (shared b1))\<lparr>ring_head := ring_head ?r + n\<rparr>\<rparr>,
        uart := (uart b1)\<lparr>cur_ptr := ?pos + ucast n\<rparr>\<rparr>"
      have w16: "(word_of_nat (unat n) :: u16) = ucast n"
        by (rule of_nat_unat)
      have w32: "(word_of_nat (unat n) :: u32) = n"
        by simp
      note sc = slot_copied [OF b n1 copy, unfolded w16 w32, folded b2_def]
      have c: "input_ok b2" "waiting b2 = waiting b" "power b2 = power b" "uart b2 = ?u\<lparr>cur_ptr := ?pos + ucast n\<rparr>"
          "shared b2 = (shared b)\<lparr>sh_rx := sh_rx (shared b2)\<rparr>"
          "unat (cdc_ring_space (sh_rx (shared b2))) + unat n = unat (cdc_ring_space ?r)"
        using sc by blast+
      have pos2: "unat (?pos + ucast n) = unat ?pos + unat n"
        using n1(1) len64 by (simp add: unat_word_ariths unsigned_ucast_eq take_bit_nat_eq_self)
      have turn: "(go, restart', b') =
          (if ?pos + ucast n < ?len then (False, re, b2) else (True, re, slot_release b2))"
      proof -
        have "slot_release (b1\<lparr>shared := (shared b1)\<lparr>sh_rx := (sh_rx (shared b1))\<lparr>ring_head := ring_head ?r + n\<rparr>\<rparr>\<rparr>) =
            slot_release b2"
          by (simp add: b2_def slot_release_def Let_def)
        then show ?thesis
          using t [symmetric] pos space copy
          by (simp add: slot_turn_def Let_def b2_def flip: avail_def n_def)
      qed
      show ?thesis
      proof (cases "?pos + ucast n < ?len")
        case True
        then have "unat n < unat avail"
          using pos2 avail by (simp add: word_less_nat_alt)
        then have "n = cdc_ring_space ?r"
          by (auto simp: n_def word_less_nat_alt split: if_splits)
        then show ?thesis
          using True turn c by (simp add: unat_eq_0 [symmetric])
      next
        case False
        then have z: "slot_rest (uart b2) 0 = []"
          using pos2 by (simp add: c(4) slot_rest_def slot_bytes_def Let_def word_less_nat_alt mod_less [of _ 16] u [unfolded uart_ok_def])
        have r2: "remain_num (uart b2) = remain_num ?u"
          by (simp add: c(4))
        note rel2 = released [OF c(1), unfolded r2, OF b(2)]
        show ?thesis
          using False turn rel2 c z by simp
      qed
    qed
  qed
qed

lemma slots_loop_ok:
  "\<lbrakk>input_ok b; unat (remain_num (uart b)) \<le> f; slots_loop f restart b = (restart', b')\<rbrakk> \<Longrightarrow>
     input_ok b' \<and> waiting b' = waiting b \<and> power b' = power b \<and> shared b' = (shared b)\<lparr>sh_rx := sh_rx (shared b')\<rparr> \<and>
     (remain_num (uart b') = 0 \<or> cdc_ring_space (sh_rx (shared b')) = 0)"
proof (induction f arbitrary: restart b)
  case 0
  then show ?case by (simp add: unat_eq_0)
next
  case (Suc f)
  show ?case
  proof (cases "remain_num (uart b) = 0")
    case True
    then show ?thesis using Suc.prems by simp
  next
    case False
    obtain go re b1 where t: "slot_turn restart b = (go, re, b1)"
      by (cases "slot_turn restart b") auto
    note ok = slot_turn_ok [OF Suc.prems(1) False t]
    show ?thesis
    proof (cases go)
      case True
      then have "slots_loop f re b1 = (restart', b')"
        using Suc.prems(3) False t by simp
      then have "input_ok b' \<and> waiting b' = waiting b1 \<and> power b' = power b1 \<and>
          shared b' = (shared b1)\<lparr>sh_rx := sh_rx (shared b')\<rparr> \<and>
          (remain_num (uart b') = 0 \<or> cdc_ring_space (sh_rx (shared b')) = 0)"
        using ok True Suc.prems(2) by (intro Suc.IH) auto
      moreover have "(shared b1)\<lparr>sh_rx := r\<rparr> = (shared b)\<lparr>sh_rx := r\<rparr>" for r
        using arg_cong [OF conjunct1 [OF conjunct2 [OF conjunct2 [OF conjunct2 [OF ok]]]], of "\<lambda>s. s\<lparr>sh_rx := r\<rparr>"] by simp
      ultimately show ?thesis
        using ok by simp
    next
      case False
      then show ?thesis
        using Suc.prems(3) \<open>remain_num (uart b) \<noteq> 0\<close> t ok by simp
    qed
  qed
qed

lemma restart_keeps:
  "sh_rx (shared (v5f_safe_restart b)) = sh_rx (shared b)" "uart (v5f_safe_restart b) = uart b"
  "ep2_ack (v5f_safe_restart b) = ep2_ack b"
  by (simp_all add: v5f_safe_restart_def Let_def)

text \<open>Everything that waits stays in order, and stops waiting in the slots only if the ring is full.\<close>

lemma host_to_ring_ok:
  assumes "input_ok b"
  shows "input_ok (host_to_ring b) \<and> waiting (host_to_ring b) = waiting b \<and>
    (remain_num (uart (host_to_ring b)) = 0 \<or> cdc_ring_space (sh_rx (shared (host_to_ring b))) = 0)"
proof -
  obtain re b' where l: "slots_loop (unat (remain_num (uart b))) False b = (re, b')"
    by fastforce
  show ?thesis
    using slots_loop_ok [OF assms le_refl l] restart_keeps [of b'] by (simp add: host_to_ring_def l input_ok_def)
qed

text \<open>The other direction touches only its own fields.\<close>

definition output_only :: "bridge \<Rightarrow> bridge \<Rightarrow> bool" where
  "output_only b b' \<longleftrightarrow> sh_rx (shared b') = sh_rx (shared b) \<and> ep2_ack b' = ep2_ack b \<and>
     (uart b')\<lparr>up_ing := up_ing (uart b), up_timeout := up_timeout (uart b), pack0 := pack0 (uart b)\<rparr> = uart b"

lemma output_only_updates:
  "output_only b (ep3_arm n b') = output_only b b'" "output_only b (b'\<lparr>stalled := x\<rparr>) = output_only b b'"
  "output_only b (b'\<lparr>was_open := x\<rparr>) = output_only b b'" "output_only b (b'\<lparr>ep3_buf := y\<rparr>) = output_only b b'"
  "sh_rx sh = sh_rx (shared b') \<Longrightarrow> output_only b (b'\<lparr>shared := sh\<rparr>) = output_only b b'"
  "output_only b (b'\<lparr>uart := (uart b')\<lparr>up_timeout := t\<rparr>\<rparr>) = output_only b b'" "output_only b b"
  by (simp_all add: output_only_def ep3_arm_def)

lemma ring_to_host_keeps: "output_only b (ring_to_host b)"
proof -
  let ?o = "dev_enum b \<and> sh_host_open (shared b) \<noteq> 0"
  define b1 where "b1 = (if ?o \<and> \<not> was_open b then b\<lparr>uart := (uart b)\<lparr>up_timeout := 0\<rparr>, stalled := False\<rparr> else b)
      \<lparr>was_open := ?o\<rparr>"
  have b1: "output_only b b1"
    by (simp add: b1_def output_only_updates)
  have sh: "shared b1 = shared b"
    by (simp add: b1_def)
  show ?thesis
    unfolding ring_to_host_def Let_def b1_def [symmetric]
    using b1 by (simp add: output_only_updates sh)
qed

lemma output_only_input:
  assumes "output_only b b'"
  shows "input_ok b' = input_ok b" "waiting b' = waiting b"
proof -
  let ?v = "(uart b')\<lparr>up_ing := up_ing (uart b), up_timeout := up_timeout (uart b), pack0 := pack0 (uart b)\<rparr>"
  have v: "?v = uart b"
    using assms by (simp add: output_only_def)
  have "uart_ok (uart b') = uart_ok ?v" "remain_num (uart b') = remain_num ?v"
    by (simp_all add: uart_ok_def)
  then show "input_ok b' = input_ok b"
    using assms by (simp only: v input_ok_def output_only_def)
  have "slot_rest (uart b') = slot_rest ?v"
    by (rule ext) (simp add: slot_rest_def slot_bytes_def Let_def)
  then have "pending (uart b') = pending ?v"
    by (simp add: pending_def)
  then show "waiting b' = waiting b"
    using assms by (simp only: v output_only_def)
qed

lemma usb_out_ok:
  assumes "input_ok b" "ep2_ack b" "length p \<le> 64"
  shows "input_ok (usb_out p b) \<and> waiting (usb_out p b) = waiting b @ p"
proof -
  let ?u = "uart b" and ?v = "uart (usb_out p b)"
  let ?k = "unat (load_num ?u)" and ?n = "unat (remain_num ?u)"
  have u: "uart_ok ?u" and n: "?n < 14"
    using assms by (simp_all add: input_ok_def)
  then have k: "?k < 16" "?k = (unat (deal_num ?u) + ?n) mod 16" "unat (deal_num ?u) < 16"
    by (simp_all add: uart_ok_def)
  have v: "uart_buf ?v = copy_at (64 * ?k) p (uart_buf ?u)"
    "pack_len ?v = (pack_len ?u)[?k := word_of_nat (length p)]" "remain_num ?v = remain_num ?u + 1"
    "load_num ?v = (if load_num ?u + 1 \<ge> 16 then 0 else load_num ?u + 1)" "deal_num ?v = deal_num ?u"
    "cur_ptr ?v = cur_ptr ?u" "shared (usb_out p b) = shared b"
    by (simp_all add: usb_out_def Let_def const_defs)
  have lp: "unat (word_of_nat (length p) :: u16) = length p"
    using assms(3) by (simp add: unsigned_of_nat take_bit_nat_eq_self)
  have n1: "unat (remain_num ?u + 1) = Suc ?n"
    using n by (simp add: unat_word_ariths)
  have load: "unat (load_num ?v) = Suc ?k mod 16"
    unfolding v(4) using k(1) by (rule next_slot)
  have "\<forall>l\<in>set (pack_len ?v). unat l \<le> 64"
    using u assms(3) set_update_subset_insert [of "pack_len ?u" ?k "word_of_nat (length p)"] lp by (auto simp: v uart_ok_def)
  moreover have "unat (load_num ?v) = (unat (deal_num ?v) + unat (remain_num ?v)) mod 16"
    by (simp add: load v(3,5) n1 k(2) mod_simps)
  ultimately have ok: "uart_ok ?v"
    using u n k assms(3) n1 by (auto simp: uart_ok_def v unat_eq_0 [symmetric])
  have other: "slot_rest ?v i = slot_rest ?u i" if "i < ?n" for i
  proof -
    let ?j = "(unat (deal_num ?u) + i) mod 16"
    have ne: "?j \<noteq> ?k"
      using that n k by (auto simp: mod_if split: if_splits)
    have "unat (pack_len ?u ! ?j) \<le> 64"
      using u by (auto simp: uart_ok_def)
    moreover have "64 * ?k + length p \<le> length (uart_buf ?u)"
      using u k(1) assms(3) by (simp add: uart_ok_def)
    ultimately have "take (unat (pack_len ?u ! ?j) - pos) (drop (64 * ?j + pos) (uart_buf ?v)) =
        take (unat (pack_len ?u ! ?j) - pos) (drop (64 * ?j + pos) (uart_buf ?u))" for pos
      using ne assms(3) unfolding v(1)
      by (cases "pos < unat (pack_len ?u ! ?j)") (intro take_beside, auto)
    then show ?thesis
      using ne by (simp add: slot_rest_def slot_bytes_def Let_def v)
  qed
  have "slot_rest ?v ?n = p"
  proof -
    have "?n = 0 \<longrightarrow> cur_ptr ?u = 0"
      using u by (simp add: uart_ok_def unat_eq_0)
    then show ?thesis
      using k u assms(3) lp by (simp add: slot_rest_def slot_bytes_def Let_def v uart_ok_def copy_at_def)
  qed
  moreover have "concat (map (slot_rest ?v) [0..<?n]) = concat (map (slot_rest ?u) [0..<?n])"
    using other by (intro arg_cong [where f = concat]) simp
  ultimately have "pending ?v = pending ?u @ p"
    by (simp add: pending_def v(3) n1)
  moreover have "ep2_ack (usb_out p b) \<longrightarrow> unat (remain_num ?v) < 14"
    by (auto simp: usb_out_def Let_def const_defs word_le_nat_alt)
  ultimately show ?thesis
    using assms(1) ok by (simp add: input_ok_def v(7))
qed

section \<open>The functions are their steps\<close>

definition v3f_runs :: "v3f_pc \<times> bridge \<Rightarrow> v3f_pc \<times> bridge \<Rightarrow> bool" where
  "v3f_runs s t \<longleftrightarrow> (\<exists>k. (v3f_step ^^ k) s = t)"

lemma v3f_runs_self: "v3f_runs s s"
  unfolding v3f_runs_def by (metis funpow_0)

lemma v3f_runs_step: "v3f_runs (v3f_step s) t \<Longrightarrow> v3f_runs s t"
  unfolding v3f_runs_def by (metis comp_apply funpow_Suc_right)

lemma v3f_runs_trans: "v3f_runs s t \<Longrightarrow> v3f_runs t u \<Longrightarrow> v3f_runs s u"
  unfolding v3f_runs_def by (metis comp_apply funpow_add)

lemma copy_steps:
  assumes "uart_ok (uart b)" "unat (deal_num (uart b)) < 16" "unat (cur_ptr (uart b)) + unat n \<le> 64" "i \<le> unat n"
    and "copy_bytes (drop i (slot_bytes (uart b) (unat (deal_num (uart b))) (unat (cur_ptr (uart b))) (unat n)))
      (h + word_of_nat i) re b = (re', b')"
  shows "v3f_runs (V3Copy re h n i, b) (V3Copy re' h n (unat n), b')"
  using assms
proof (induction "unat n - i" arbitrary: i re b)
  case 0
  have len: "length (slot_bytes (uart b) (unat (deal_num (uart b))) (unat (cur_ptr (uart b))) (unat n)) = unat n"
    using 0(2-4) by (intro length_slot_bytes)
  have "i = unat n" using 0 by simp
  with 0 len show ?case by (simp add: v3f_runs_self)
next
  case (Suc j)
  let ?u = "uart b"
  let ?src = "slot_bytes ?u (unat (deal_num ?u)) (unat (cur_ptr ?u)) (unat n)"
  have i: "i < unat n" using Suc.hyps(2) by simp
  have len: "length ?src = unat n"
    using Suc.prems(1-3) by (intro length_slot_bytes)
  have src: "?src ! i = uart_buf ?u ! (64 * unat (deal_num ?u) + unat (cur_ptr ?u) + i)"
    using i len by (simp add: slot_bytes_def)
  have d: "drop i ?src = ?src ! i # drop (Suc i) ?src" using i len by (simp add: Cons_nth_drop_Suc)
  let ?b = "b\<lparr>shared := (shared b)\<lparr>sh_rx := (sh_rx (shared b))\<lparr>ring_data :=
    (ring_data (sh_rx (shared b)))[unat ((h + word_of_nat i) AND RING_MASK) := ?src ! i]\<rparr>\<rparr>\<rparr>"
  obtain seen b1 where b1: "ctrl_x_seen (?src ! i) ?b = (seen, b1)"
    by (cases "ctrl_x_seen (?src ! i) ?b") auto
  then have u1: "uart b1 = ?u" using ctrl_x_keeps(2) [of "?src ! i" ?b] by simp
  have step: "v3f_step (V3Copy re h n i, b) = (V3Copy (re \<or> seen) h n (Suc i), b1)"
    using i b1 by (simp add: Let_def flip: src)
  have rest: "copy_bytes (drop (Suc i) ?src) (h + word_of_nat (Suc i)) (re \<or> seen) b1 = (re', b')"
  proof -
    have "h + word_of_nat i + 1 = h + word_of_nat (Suc i)" by simp
    moreover have "copy_bytes (?src ! i # drop (Suc i) ?src) (h + word_of_nat i) re b =
        copy_bytes (drop (Suc i) ?src) (h + word_of_nat i + 1) (re \<or> seen) b1"
      by (simp add: Let_def b1)
    ultimately show ?thesis using Suc.prems(5) unfolding d by metis
  qed
  have "v3f_runs (V3Copy (re \<or> seen) h n (Suc i), b1) (V3Copy re' h n (unat n), b')"
    using Suc.hyps Suc.prems(1-3) rest i by (intro Suc.hyps(1)) (simp_all add: u1)
  then show ?case by - (rule v3f_runs_step, simp only: step)
qed

lemma turn_steps:
  assumes "input_ok b" "remain_num (uart b) \<noteq> 0" "slot_turn re b = (go, re', b')"
  shows "v3f_runs (V3Turn re, b) (if go then V3Turn re' else V3Done re', b')"
proof -
  let ?u = "uart b" and ?r = "sh_rx (shared b)"
  let ?len = "pack_len ?u ! unat (deal_num ?u)" and ?pos = "cur_ptr ?u"
  have u: "uart_ok ?u" using assms(1) by (simp add: input_ok_def)
  then have lt: "unat (deal_num ?u) < 16" and len64: "unat ?len \<le> 64"
    by (auto simp: uart_ok_def)
  show ?thesis
  proof (cases "?pos < ?len \<and> cdc_ring_space ?r \<noteq> 0")
    case False
    then have "v3f_step (V3Turn re, b) = (if go then V3Turn re' else V3Done re', b')"
      using assms(2,3) by (auto simp: slot_turn_def Let_def split: if_splits)
    then show ?thesis by - (rule v3f_runs_step, simp only: v3f_runs_self)
  next
    case True
    define avail :: u32 where "avail = ucast ?len - ucast ?pos"
    define n where "n = (if avail > cdc_ring_space ?r then cdc_ring_space ?r else avail)"
    have "(ucast ?pos :: u32) \<le> ucast ?len"
      using True by (simp add: word_le_nat_alt word_less_nat_alt unat_ucast_wide)
    then have "unat avail = unat ?len - unat ?pos"
      by (simp add: avail_def unat_sub unat_ucast_wide)
    then have n64: "unat ?pos + unat n \<le> 64"
      using True len64 by (auto simp: n_def word_less_nat_alt split: if_splits)
    obtain re1 b1 where copy: "copy_bytes (slot_bytes ?u (unat (deal_num ?u)) (unat ?pos) (unat n)) (ring_head ?r) re b = (re1, b1)"
      by (cases "copy_bytes (slot_bytes ?u (unat (deal_num ?u)) (unat ?pos) (unat n)) (ring_head ?r) re b")
    have u1: "uart b1 = ?u" using copy_bytes_puts [OF copy] by blast
    have first: "v3f_step (V3Turn re, b) = (V3Copy re (ring_head ?r) n 0, b)"
      using True assms(2) by (simp add: Let_def n_def avail_def)
    have "v3f_runs (V3Copy re (ring_head ?r) n 0, b) (V3Copy re1 (ring_head ?r) n (unat n), b1)"
      using copy by (intro copy_steps [OF u lt n64]) simp_all
    then have a: "v3f_runs (V3Turn re, b) (V3Copy re1 (ring_head ?r) n (unat n), b1)"
      by - (rule v3f_runs_step, simp only: first)
    have "v3f_step (V3Copy re1 (ring_head ?r) n (unat n), b1) = (if go then V3Turn re' else V3Done re', b')"
      using assms(3) True copy
      by (auto simp: slot_turn_def Let_def u1 simp flip: avail_def n_def split: if_splits)
    then have "v3f_runs (V3Copy re1 (ring_head ?r) n (unat n), b1) (if go then V3Turn re' else V3Done re', b')"
      by - (rule v3f_runs_step, simp only: v3f_runs_self)
    with a show ?thesis by (rule v3f_runs_trans)
  qed
qed

lemma loop_steps:
  "\<lbrakk>input_ok b; unat (remain_num (uart b)) \<le> f; slots_loop f re b = (re', b')\<rbrakk> \<Longrightarrow>
     v3f_runs (V3Turn re, b) (V3Done re', b')"
proof (induction f arbitrary: re b)
  case 0
  then have "v3f_step (V3Turn re, b) = (V3Done re', b')" by (simp add: unat_eq_0 Let_def)
  then show ?case by - (rule v3f_runs_step, simp only: v3f_runs_self)
next
  case (Suc f)
  show ?case
  proof (cases "remain_num (uart b) = 0")
    case True
    then have "v3f_step (V3Turn re, b) = (V3Done re', b')" using Suc.prems by (simp add: Let_def)
    then show ?thesis by - (rule v3f_runs_step, simp only: v3f_runs_self)
  next
    case False
    obtain go re1 b1 where t: "slot_turn re b = (go, re1, b1)"
      by (cases "slot_turn re b") auto
    note ok = slot_turn_ok [OF Suc.prems(1) False t] and steps = turn_steps [OF Suc.prems(1) False t]
    show ?thesis
    proof (cases go)
      case True
      then have "v3f_runs (V3Turn re1, b1) (V3Done re', b')"
        using Suc.prems False t ok by (intro Suc.IH) auto
      with steps True show ?thesis by (auto intro: v3f_runs_trans)
    next
      case go: False
      with Suc.prems False t steps show ?thesis by simp
    qed
  qed
qed

text \<open>A call of \<open>host_to_ring\<close> that nothing interrupts is a run of its steps.\<close>

lemma host_to_ring_steps:
  assumes "input_ok b"
  shows "v3f_runs (V3Idle, b) (V3Idle, host_to_ring b)"
proof (cases "remain_num (uart b) = 0")
  case True
  then show ?thesis by (simp add: host_to_ring_def v3f_runs_self)
next
  case False
  obtain re b1 where l: "slots_loop (unat (remain_num (uart b))) False b = (re, b1)" by fastforce
  have "v3f_runs (V3Turn False, b) (V3Done re, b1)"
    by (rule loop_steps [OF assms le_refl l])
  moreover have "v3f_runs (V3Done re, b1) (V3Idle, host_to_ring b)"
    by (rule v3f_runs_step) (simp add: host_to_ring_def l v3f_runs_self)
  ultimately have "v3f_runs (V3Turn False, b) (V3Idle, host_to_ring b)" by (rule v3f_runs_trans)
  then show ?thesis by - (rule v3f_runs_step, simp add: False)
qed

lemma getc_steps:
  assumes "serial_getc now (sh, log) = Some (c, sh', log')"
  shows "v5f_step (V5Idle, sh) = ([], V5Ready, sh) \<and>
    (\<exists>d. v5f_step (V5Ready, sh) = ([], V5Got d, sh) \<and> v5f_step (V5Got d, sh) = ([c], V5Idle, sh'))"
  using assms by (auto simp: serial_getc_def ring_get_def Let_def split: if_splits)

section \<open>The two cores together\<close>

text \<open>
  The steps of the two cores and of the USB interrupt, in any order: \<open>sent\<close> is what the host has sent (less what a
  reset of the slots dropped), \<open>got\<close> what \<open>serial_getc\<close> has returned. It starts when the V5F's \<open>serial_open\<close> has
  dropped earlier input. A packet from the host and the requests of the host that reach the slots come in
  while the USB interrupt is on. A bus reset and SET_LINE_CODING drop what is still in the slots, and only
  that. Everything else that runs touches only the output side (\<open>output_only\<close>): the V3F's \<open>ring_to_host\<close> and
  \<open>cdc_standby\<close>, endpoint 3, the tick of TIM7, the V5F's \<open>serial_putc\<close>, the line state and \<open>serial_binary\<close>.
\<close>

definition usb_irq_on :: "v3f_pc \<Rightarrow> bool" where
  "usb_irq_on p = (case p of V3Idle \<Rightarrow> True | V3Done re \<Rightarrow> True | _ \<Rightarrow> False)"

inductive stream :: "u8 list \<Rightarrow> bridge \<Rightarrow> v3f_pc \<Rightarrow> v5f_pc \<Rightarrow> u8 list \<Rightarrow> bool" where
  stream_start: "input_ok b \<Longrightarrow> stream (waiting b) b V3Idle V5Idle []"
| stream_v3f: "\<lbrakk>stream sent b p q got; v3f_step (p, b) = (p', b')\<rbrakk> \<Longrightarrow> stream sent b' p' q got"
| stream_v5f: "\<lbrakk>stream sent b p q got; v5f_step (q, shared b) = (cs, q', sh)\<rbrakk> \<Longrightarrow>
    stream sent (b\<lparr>shared := sh\<rparr>) p q' (got @ cs)"
| stream_out: "\<lbrakk>stream sent b p q got; usb_irq_on p; ep2_ack b; length d \<le> 64\<rbrakk> \<Longrightarrow>
    stream (sent @ d) (usb_out d b) p q got"
| stream_reset: "\<lbrakk>stream (kept @ pending (uart b)) b p q got; usb_irq_on p\<rbrakk> \<Longrightarrow> stream kept (usb_bus_reset b) p q got"
| stream_coding: "\<lbrakk>stream (kept @ pending (uart b)) b p q got; usb_irq_on p\<rbrakk> \<Longrightarrow>
    stream kept (set_line_coding b) p q got"
| stream_output: "\<lbrakk>stream sent b p q got; output_only b b'\<rbrakk> \<Longrightarrow> stream sent b' p q got"

lemma output_steps:
  "output_only b (ring_to_host b)" "output_only b (cdc_standby b)" "output_only b (snd (usb_in b))"
  "output_only b (set_line_state v b)" "output_only b (b\<lparr>uart := (uart b)\<lparr>up_timeout := t\<rparr>\<rparr>)"
  "output_only b (b\<lparr>shared := serial_binary on (shared b)\<rparr>)"
  "serial_putc c (shared b) = Some sh \<Longrightarrow> output_only b (b\<lparr>shared := sh\<rparr>)"
  by (simp_all add: ring_to_host_keeps, auto simp: output_only_def cdc_standby_def usb_in_def set_line_state_def
      serial_binary_def serial_putc_def split: if_splits)

text \<open>What the V3F has copied but not published: the ring as it will be.\<close>

fun ahead :: "v3f_pc \<Rightarrow> cdc_ring \<Rightarrow> cdc_ring" where
  "ahead (V3Copy re h n i) r = r\<lparr>ring_head := h + word_of_nat i\<rparr>"
| "ahead p r = r"

fun copying_ok :: "v3f_pc \<Rightarrow> bridge \<Rightarrow> bool" where
  "copying_ok (V3Copy re h n i) b =
     (let u = uart b; r = sh_rx (shared b); k = unat (deal_num u); pos = unat (cur_ptr u) in
      h = ring_head r \<and> i \<le> unat n \<and> remain_num u \<noteq> 0 \<and> pos + unat n \<le> unat (pack_len u ! k) \<and>
      unat n \<le> unat (cdc_ring_space r) \<and>
      ring_bytes (ahead (V3Copy re h n i) r) = ring_bytes r @ take i (slot_bytes u k pos (unat n)))"
| "copying_ok p b = True"

fun reading_ok :: "v5f_pc \<Rightarrow> cdc_ring \<Rightarrow> bool" where
  "reading_ok V5Idle r = True"
| "reading_ok V5Ready r = (ring_bytes r \<noteq> [])"
| "reading_ok (V5Got c) r = (\<exists>cs. ring_bytes r = c # cs)"

lemma reading_ok_more: "reading_ok q r \<Longrightarrow> ring_bytes r' = ring_bytes r @ cs \<Longrightarrow> reading_ok q r'"
  by (cases q) auto

lemma ring_peek_head [simp]: "ring_peek (r\<lparr>ring_head := h\<rparr>) n = ring_peek r n"
  by (simp add: ring_peek_def)

lemma length_ring_bytes: "length (ring_bytes r) = unat (cdc_ring_count r)"
  by (simp add: ring_bytes_def ring_peek_def)

lemma take_ring_peek: "n \<le> m \<Longrightarrow> take n (ring_peek r m) = ring_peek r n"
  by (simp add: ring_peek_def take_map take_upt)

text \<open>A ring ahead of the published one holds the published bytes first.\<close>

lemma ahead_count:
  assumes "ring_ok r" "i \<le> unat (cdc_ring_space r)"
  shows "ring_ok (r\<lparr>ring_head := ring_head r + word_of_nat i\<rparr>) \<and>
    unat (cdc_ring_count (r\<lparr>ring_head := ring_head r + word_of_nat i\<rparr>)) = unat (cdc_ring_count r) + i \<and>
    unat (cdc_ring_space (r\<lparr>ring_head := ring_head r + word_of_nat i\<rparr>)) + i = unat (cdc_ring_space r)"
proof -
  let ?r = "r\<lparr>ring_head := ring_head r + word_of_nat i\<rparr>"
  have room: "i \<le> 4096 - unat (cdc_ring_count r)" using assms ring_space_room by simp
  have c: "unat (cdc_ring_count r) \<le> 4096" using assms(1) by (simp add: ring_ok_def)
  have "cdc_ring_count ?r = cdc_ring_count r + word_of_nat i" by (simp add: cdc_ring_count_def)
  then have n: "unat (cdc_ring_count ?r) = unat (cdc_ring_count r) + i"
    using room c by (simp add: unat_word_ariths unsigned_of_nat take_bit_nat_eq_self)
  then have ok: "ring_ok ?r" using assms(1) room c by (simp add: ring_ok_def)
  show ?thesis using n ok ring_space_room [OF ok] ring_space_room [OF assms(1)] room c by simp
qed

lemma ahead_prefix:
  assumes "ring_ok r" "i \<le> unat (cdc_ring_space r)"
  shows "ring_bytes r = take (unat (cdc_ring_count r)) (ring_bytes (r\<lparr>ring_head := ring_head r + word_of_nat i\<rparr>))"
  using conjunct1 [OF conjunct2 [OF ahead_count [OF assms]]]
  by (simp add: ring_bytes_def take_ring_peek)

definition stream_ok :: "u8 list \<Rightarrow> bridge \<Rightarrow> v3f_pc \<Rightarrow> v5f_pc \<Rightarrow> u8 list \<Rightarrow> bool" where
  "stream_ok sent b p q got \<longleftrightarrow> input_ok b \<and> copying_ok p b \<and> reading_ok q (sh_rx (shared b)) \<and> sent = got @ waiting b"

lemma pending_advance:
  assumes "uart_ok u" "remain_num u \<noteq> 0" "unat (cur_ptr u) + n \<le> unat (pack_len u ! unat (deal_num u))"
  defines "v \<equiv> u\<lparr>cur_ptr := cur_ptr u + word_of_nat n\<rparr>"
  shows "pending u = slot_bytes u (unat (deal_num u)) (unat (cur_ptr u)) n @ pending v \<and> uart_ok v \<and>
    unat (cur_ptr v) = unat (cur_ptr u) + n"
proof -
  let ?k = "unat (deal_num u)" and ?pos = "unat (cur_ptr u)"
  have k: "?k < 16" and l64: "unat (pack_len u ! ?k) \<le> 64"
    using assms(1) by (auto simp: uart_ok_def)
  have pos: "unat (cur_ptr v) = ?pos + n"
    using assms(3) l64 by (simp add: v_def unat_word_ariths unsigned_of_nat take_bit_nat_eq_self)
  have same: "slot_bytes v = slot_bytes u" "deal_num v = deal_num u" "pack_len v = pack_len u" "remain_num v = remain_num u"
    by (simp_all add: v_def fun_eq_iff slot_bytes_def)
  have "slot_rest u 0 = slot_bytes u ?k ?pos n @ slot_rest v 0"
    using k assms(3) slot_bytes_append [of u ?k ?pos n "unat (pack_len u ! ?k) - (?pos + n)"]
    by (simp add: slot_rest_def Let_def same pos)
  moreover have "concat (map (slot_rest v) [1..<m]) = concat (map (slot_rest u) [1..<m])" for m
    by (rule arg_cong [where f = concat]) (simp add: slot_rest_def Let_def same)
  ultimately have "pending u = slot_bytes u ?k ?pos n @ pending v"
    using assms(2) by (simp add: pending_first same)
  moreover have "uart_ok v"
    using assms(1,2) by (simp add: v_def uart_ok_def)
  ultimately show ?thesis using pos by blast
qed

lemma used_up: "uart_ok u \<Longrightarrow> \<not> cur_ptr u < pack_len u ! unat (deal_num u) \<Longrightarrow> slot_rest u 0 = []"
  by (simp add: slot_rest_def slot_bytes_def Let_def uart_ok_def word_less_nat_alt)

text \<open>A byte copied behind the head.\<close>

lemma copied_byte:
  fixes c :: u8
  assumes "ring_ok r" "i < unat (cdc_ring_space r)"
  defines "s \<equiv> r\<lparr>ring_data := (ring_data r)[unat ((ring_head r + word_of_nat i) AND RING_MASK) := c]\<rparr>"
  shows "ring_ok s \<and> ring_bytes s = ring_bytes r \<and> cdc_ring_space s = cdc_ring_space r \<and>
    ring_bytes (s\<lparr>ring_head := ring_head r + word_of_nat (Suc i)\<rparr>) =
      ring_bytes (r\<lparr>ring_head := ring_head r + word_of_nat i\<rparr>) @ [c]"
proof -
  let ?e = "r\<lparr>ring_head := ring_head r + word_of_nat i\<rparr>"
  note e = ahead_count [OF assms(1), of i]
  have p: "s\<lparr>ring_head := ring_head r + word_of_nat (Suc i)\<rparr> = ring_put c ?e"
    by (simp add: s_def ring_put_def ac_simps)
  have put: "ring_bytes (ring_put c ?e) = ring_bytes ?e @ [c]"
    using ring_put_law [of ?e c] e assms(2) by simp
  have sp: "cdc_ring_space s = cdc_ring_space r" "cdc_ring_count s = cdc_ring_count r" "ring_head s = ring_head r"
    by (simp_all add: s_def cdc_ring_space_def cdc_ring_count_def)
  have ok: "ring_ok s" using assms(1) sp by (simp add: ring_ok_def) (simp add: s_def)
  have "ring_bytes s = take (unat (cdc_ring_count r)) (ring_bytes ?e @ [c])"
    using ahead_prefix [OF ok, of "Suc i"] assms(2) sp p put by simp
  also have "\<dots> = take (unat (cdc_ring_count r)) (ring_bytes ?e)"
    using e assms(2) by (simp add: length_ring_bytes)
  also have "\<dots> = ring_bytes r"
    using ahead_prefix [OF assms(1), of i] assms(2) by simp
  finally show ?thesis using ok sp p put by simp
qed

lemma copy_step_ok:
  assumes "stream_ok sent b (V3Copy re h n i) q got" "v3f_step (V3Copy re h n i, b) = (p', b')"
  shows "stream_ok sent b' p' q got"
proof -
  let ?u = "uart b" and ?r = "sh_rx (shared b)"
  let ?k = "unat (deal_num ?u)" and ?pos = "unat (cur_ptr ?u)"
  let ?src = "slot_bytes ?u ?k ?pos (unat n)"
  have b: "input_ok b" "reading_ok q ?r" "sent = got @ waiting b" and u: "uart_ok ?u" and r: "ring_ok ?r"
    using assms(1) by (simp_all add: stream_ok_def input_ok_def)
  have c: "h = ring_head ?r" "i \<le> unat n" "remain_num ?u \<noteq> 0" "?pos + unat n \<le> unat (pack_len ?u ! ?k)"
    "unat n \<le> unat (cdc_ring_space ?r)"
    "ring_bytes (?r\<lparr>ring_head := h + word_of_nat i\<rparr>) = ring_bytes ?r @ take i ?src"
    using assms(1) unfolding stream_ok_def copying_ok.simps ahead.simps Let_def by blast+
  have k: "?k < 16" and l64: "unat (pack_len ?u ! ?k) \<le> 64"
    using u by (auto simp: uart_ok_def)
  have len: "length ?src = unat n"
    using c(4) l64 by (intro length_slot_bytes [OF u k]) simp
  show ?thesis
  proof (cases "i < unat n")
    case True
    define d where "d = uart_buf ?u ! (64 * ?k + ?pos + i)"
    have d: "d = ?src ! i" using True len by (simp add: d_def slot_bytes_def)
    define s where "s = ?r\<lparr>ring_data := (ring_data ?r)[unat ((h + word_of_nat i) AND RING_MASK) := d]\<rparr>"
    let ?b = "b\<lparr>shared := (shared b)\<lparr>sh_rx := s\<rparr>\<rparr>"
    have "p' = V3Copy (re \<or> fst (ctrl_x_seen d ?b)) h n (Suc i)" "b' = snd (ctrl_x_seen d ?b)"
      using assms(2) True by (simp_all add: Let_def case_prod_unfold flip: d_def s_def)
    moreover have "i < unat (cdc_ring_space ?r)" using True c(5) by simp
    note cb = copied_byte [OF r this, where c = d, folded c(1), folded s_def]
    have "ring_bytes (s\<lparr>ring_head := h + word_of_nat (Suc i)\<rparr>) = ring_bytes ?r @ take (Suc i) ?src"
      using cb c(6) True len d by (simp add: take_Suc_conv_app_nth)
    moreover have "ring_head s = h" by (simp add: s_def c(1))
    ultimately show ?thesis
      using b u c(2-5) cb True ctrl_x_keeps [of d ?b]
      by (auto simp: stream_ok_def input_ok_def Let_def intro: reading_ok_more [where cs = "[]"] simp del: of_nat_Suc)
  next
    case False
    then have i: "i = unat n" using c(2) by simp
    define s where "s = ?r\<lparr>ring_head := h + n\<rparr>"
    have s: "ring_bytes s = ring_bytes ?r @ ?src" "ring_ok s"
      using c(1,5,6) len ahead_count [OF r c(5)] by (simp_all add: s_def i)
    have w16: "(word_of_nat (unat n) :: u16) = ucast n" by (rule of_nat_unat)
    note adv = pending_advance [OF u c(3,4), unfolded w16]
    let ?b = "b\<lparr>shared := (shared b)\<lparr>sh_rx := s\<rparr>, uart := ?u\<lparr>cur_ptr := cur_ptr ?u + ucast n\<rparr>\<rparr>"
    have ok: "stream_ok sent ?b (V3Turn re) q got"
      using b s adv reading_ok_more [OF b(2) s(1)] by (simp add: stream_ok_def input_ok_def)
    show ?thesis
    proof (cases "cur_ptr ?u + ucast n < pack_len ?u ! ?k")
      case True
      then have "p' = V3Done re" "b' = ?b" using assms(2) i by (simp_all add: Let_def flip: s_def)
      with ok show ?thesis by (simp add: stream_ok_def)
    next
      case full: False
      have "slot_release (b\<lparr>shared := (shared b)\<lparr>sh_rx := s\<rparr>\<rparr>) = slot_release ?b"
        by (simp add: slot_release_def Let_def)
      then have p: "p' = V3Turn re" "b' = slot_release ?b"
        using assms(2) i full by (simp_all add: Let_def flip: s_def)
      have ib: "input_ok ?b" "remain_num (uart ?b) \<noteq> 0" using ok c(3) by (simp_all add: stream_ok_def)
      have "slot_rest (uart ?b) 0 = []"
        using adv full by (intro used_up) simp_all
      with released [OF ib] ok show ?thesis unfolding p by (simp add: stream_ok_def)
    qed
  qed
qed

lemma v3f_step_ok:
  assumes "stream_ok sent b p q got" "v3f_step (p, b) = (p', b')"
  shows "stream_ok sent b' p' q got"
proof (cases p)
  case V3Idle
  then show ?thesis using assms by (auto simp: stream_ok_def split: if_splits)
next
  case (V3Copy re h n i)
  then show ?thesis using assms copy_step_ok by blast
next
  case (V3Done re)
  then show ?thesis using assms restart_keeps [of b] by (auto simp: stream_ok_def input_ok_def split: if_splits)
next
  case (V3Turn re)
  let ?u = "uart b" and ?r = "sh_rx (shared b)"
  let ?len = "pack_len ?u ! unat (deal_num ?u)" and ?pos = "cur_ptr ?u"
  have b: "input_ok b" and u: "uart_ok ?u" using assms(1) by (simp_all add: stream_ok_def input_ok_def)
  show ?thesis
  proof (cases "remain_num ?u = 0 \<or> ?pos < ?len \<and> cdc_ring_space ?r = 0")
    case True
    then have "p' = V3Done re \<and> b' = b" using assms(2) V3Turn by (auto simp: Let_def split: if_splits)
    then show ?thesis using assms(1) by (simp add: stream_ok_def)
  next
    case go: False
    show ?thesis
    proof (cases "?pos < ?len")
      case False
      then have "p' = V3Turn re \<and> b' = slot_release b" using go assms(2) V3Turn by (auto simp: Let_def)
      then show ?thesis
        using released [OF b] go assms(1) used_up [OF u False] by (simp add: stream_ok_def)
    next
      case True
      define avail :: u32 where "avail = ucast ?len - ucast ?pos"
      define n where "n = (if avail > cdc_ring_space ?r then cdc_ring_space ?r else avail)"
      have "(ucast ?pos :: u32) \<le> ucast ?len"
        using True by (simp add: word_le_nat_alt word_less_nat_alt unat_ucast_wide)
      then have avail: "unat avail = unat ?len - unat ?pos"
        by (simp add: avail_def unat_sub unat_ucast_wide)
      have n1: "unat ?pos + unat n \<le> unat ?len" "unat n \<le> unat (cdc_ring_space ?r)"
        using True avail by (auto simp: n_def word_less_nat_alt split: if_splits)
      have "p' = V3Copy re (ring_head ?r) n 0 \<and> b' = b"
        using go assms(2) V3Turn True by (auto simp: Let_def avail_def n_def)
      then show ?thesis using assms(1) n1 go by (simp add: stream_ok_def Let_def)
    qed
  qed
qed

lemma v5f_step_ok:
  assumes "stream_ok sent b p q got" "v5f_step (q, shared b) = (cs, q', sh)"
  shows "stream_ok sent (b\<lparr>shared := sh\<rparr>) p q' (got @ cs)"
proof -
  let ?r = "sh_rx (shared b)"
  have r: "ring_ok ?r" using assms(1) by (simp add: stream_ok_def input_ok_def)
  have same: "b\<lparr>shared := shared b\<rparr> = b" by simp
  show ?thesis
  proof (cases q)
    case V5Idle
    then have q': "cs = []" "sh = shared b" "q' = (if cdc_ring_count ?r = 0 then V5Idle else V5Ready)"
      using assms(2) by auto
    have "ring_bytes ?r \<noteq> []" if "cdc_ring_count ?r \<noteq> 0"
      using that length_ring_bytes [of ?r] by (auto simp: unat_eq_0)
    then show ?thesis using assms(1) q' same by (simp add: stream_ok_def)
  next
    case V5Ready
    then have q': "cs = []" "sh = shared b" "q' = V5Got (fst (ring_get ?r))"
      using assms(2) by (auto simp: ring_get_def)
    obtain c ds where c: "ring_bytes ?r = c # ds"
      using assms(1) V5Ready by (cases "ring_bytes ?r") (auto simp: stream_ok_def)
    then have "fst (ring_get ?r) = c" using ring_get_law [OF r c] by (cases "ring_get ?r") auto
    then show ?thesis using assms(1) q' same c by (simp add: stream_ok_def)
  next
    case (V5Got c)
    let ?s = "?r\<lparr>ring_tail := ring_tail ?r + 1\<rparr>"
    have q': "cs = [c]" "sh = (shared b)\<lparr>sh_rx := ?s\<rparr>" "q' = V5Idle"
      using assms(2) V5Got by auto
    obtain ds where c: "ring_bytes ?r = c # ds" using assms(1) V5Got by (auto simp: stream_ok_def)
    have g: "ring_get x = (fst (ring_get x), x\<lparr>ring_tail := ring_tail x + 1\<rparr>)" for x by (simp add: ring_get_def)
    have s: "ring_ok ?s" "ring_bytes ?s = ds" using ring_get_law [OF r c g] by blast+
    have sp: "unat (cdc_ring_space ?r) \<le> unat (cdc_ring_space ?s)"
      using ring_space_room [OF r] ring_space_room [OF s(1)] length_ring_bytes [of ?r] length_ring_bytes [of ?s] s(2) c
      by simp
    have "copying_ok p (b\<lparr>shared := sh\<rparr>)"
    proof (cases p)
      case (V3Copy re h n i)
      let ?u = "uart b"
      let ?src = "slot_bytes ?u (unat (deal_num ?u)) (unat (cur_ptr ?u)) (unat n)"
      let ?e = "?r\<lparr>ring_head := h + word_of_nat i\<rparr>"
      have cp: "h = ring_head ?r" "i \<le> unat n" "unat n \<le> unat (cdc_ring_space ?r)"
        "ring_bytes ?e = ring_bytes ?r @ take i ?src" "remain_num ?u \<noteq> 0"
        "unat (cur_ptr ?u) + unat n \<le> unat (pack_len ?u ! unat (deal_num ?u))"
        using assms(1) unfolding V3Copy stream_ok_def copying_ok.simps ahead.simps Let_def by blast+
      have e: "ring_ok ?e" using ahead_count [OF r, of i] cp by simp
      have "ring_bytes ?e = c # (ds @ take i ?src)" using cp(4) c by simp
      moreover have "?s\<lparr>ring_head := h + word_of_nat i\<rparr> = ?e\<lparr>ring_tail := ring_tail ?e + 1\<rparr>" by (rule cdc_ring.equality) simp_all
      ultimately have "ring_bytes (?s\<lparr>ring_head := h + word_of_nat i\<rparr>) = ds @ take i ?src"
        using ring_get_law [OF e _ g] by metis
      with cp sp s(2) V3Copy show ?thesis by (simp add: q'(2) Let_def)
    qed simp_all
    then show ?thesis using assms(1) q' s c by (simp add: stream_ok_def input_ok_def)
  qed
qed

lemma irq_on_copying: "usb_irq_on p \<Longrightarrow> copying_ok p b"
  by (cases p) (simp_all add: usb_irq_on_def)

lemma para_init_ok: "uart_ok u \<Longrightarrow> uart_ok (uart_para_init u) \<and> pending (uart_para_init u) = [] \<and> remain_num (uart_para_init u) = 0"
  by (simp add: uart_ok_def uart_para_init_def pending_def)

lemma output_copying:
  assumes "output_only b b'"
  shows "copying_ok p b' = copying_ok p b"
proof -
  let ?v = "(uart b')\<lparr>up_ing := up_ing (uart b), up_timeout := up_timeout (uart b), pack0 := pack0 (uart b)\<rparr>"
  have v: "?v = uart b" using assms by (simp add: output_only_def)
  have "remain_num (uart b') = remain_num ?v" "deal_num (uart b') = deal_num ?v" "cur_ptr (uart b') = cur_ptr ?v"
    "pack_len (uart b') = pack_len ?v" "slot_bytes (uart b') = slot_bytes ?v"
    by (simp_all add: fun_eq_iff slot_bytes_def)
  moreover have "sh_rx (shared b') = sh_rx (shared b)" using assms by (simp add: output_only_def)
  ultimately show ?thesis unfolding v by (cases p) (simp_all add: Let_def)
qed

lemma stream_kept: "stream sent b p q got \<Longrightarrow> stream_ok sent b p q got"
proof (induction rule: stream.induct)
  case (stream_v3f sent b p q got p' b')
  then show ?case using v3f_step_ok by blast
next
  case (stream_v5f sent b p q got cs q' sh)
  then show ?case using v5f_step_ok by blast
next
  case (stream_out sent b p q got d)
  have "shared (usb_out d b) = shared b" by (simp add: usb_out_def Let_def)
  with stream_out usb_out_ok [of b d] show ?case by (simp add: stream_ok_def irq_on_copying)
next
  case (stream_reset kept b p q got)
  then show ?case
    using para_init_ok [of "uart b"] by (simp add: stream_ok_def irq_on_copying usb_bus_reset_def input_ok_def)
next
  case (stream_coding kept b p q got)
  then show ?case
    using para_init_ok [of "uart b"] by (simp add: stream_ok_def irq_on_copying set_line_coding_def input_ok_def)
next
  case (stream_output sent b p q got b')
  have "sh_rx (shared b') = sh_rx (shared b)" using stream_output.hyps(2) by (simp add: output_only_def)
  with stream_output output_only_input [OF stream_output.hyps(2)] output_copying [OF stream_output.hyps(2)] show ?case
    by (simp add: stream_ok_def)
qed (simp_all add: stream_ok_def)


definition empty_ring :: cdc_ring where
  "empty_ring = \<lparr>ring_head = 0, ring_tail = 0, ring_data = replicate 4096 0\<rparr>"

definition fresh_shared :: cdc_shared where
  "fresh_shared = \<lparr>sh_magic = CDC_SHARED_MAGIC, sh_host_open = 1, sh_safe_boot = 0, sh_v5f_starts = 0, sh_standby = 0,
     sh_rtc_wake = 0, sh_binary = 0, sh_update = 0, sh_recover = 0, sh_nostart = 0, sh_rx = empty_ring,
     sh_tx = empty_ring, sh_ctrlx_reset = 0, sh_revision = 0, sh_rev_magic = 0, sh_enroll = 0,
     sh_board_pub = replicate 32 0\<rparr>"

definition fresh_uart :: uart_ctl where
  "fresh_uart = \<lparr>load_num = 0, deal_num = 0, remain_num = 0, pack_len = replicate 16 0, cur_ptr = 0, up_ing = False,
     up_timeout = 0, pack0 = False, down_stop = False, uart_buf = replicate 1024 0\<rparr>"

definition fresh_bridge :: bridge where
  "fresh_bridge = \<lparr>shared = fresh_shared, uart = fresh_uart, ep2_ack = True, ep3_ack = False, ep3_len = 0,
     ep3_buf = replicate 64 0, dev_enum = True, ctrl_x_armed = False, ctrl_x_run = 0, stalled = False,
     was_open = False, power = Running\<rparr>"

lemma fresh_ok: "input_ok fresh_bridge" "waiting fresh_bridge = []" "ep2_ack fresh_bridge"
  by (simp_all add: fresh_bridge_def input_ok_def ring_ok_def empty_ring_def fresh_shared_def cdc_ring_count_def
      uart_ok_def fresh_uart_def ring_bytes_def ring_peek_def pending_def)

text \<open>The V3F is in the middle of the copy when the V5F finds the ring empty; after another byte and the publish
  it waits there.\<close>

definition after_copy :: "nat \<Rightarrow> v3f_pc \<times> bridge" where
  "after_copy k = (v3f_step ^^ k) (V3Idle, usb_out [72, 105] fresh_bridge)"


section \<open>A packet overwritten\<close>

text \<open>SET_LINE_CODING clears \<open>USB_Up_IngFlag\<close> while endpoint 3 still has a packet for the host, so the next poll puts
  the next bytes into the same buffer: the packet is lost.\<close>

lemma line_coding_drops_packet:
  assumes "ep3_ack b" "dev_enum b" "sh_host_open (shared b) \<noteq> 0" "cdc_ring_count (sh_tx (shared b)) = 1"
  shows "ep3_ack (set_line_coding b) \<and>
    ep3_buf (ring_to_host (set_line_coding b)) = ring_peek (sh_tx (shared b)) 1 @ drop 1 (ep3_buf b)"
  using assms
  by (simp add: set_line_coding_def uart_para_init_def ring_to_host_def ep3_arm_def Let_def CDC_PACKET_def)

section \<open>Ctrl+X\<close>

text \<open>Three Ctrl+X that come with another byte after them in one packet: the byte disarms \<open>ctrl_x_armed\<close> before the
  restart looks at it, so the chip does not go into recovery.\<close>

lemma armed_lost:
  assumes "remain_num (uart b) = 1" "cur_ptr (uart b) = 0" "pack_len (uart b) ! unat (deal_num (uart b)) = 4"
    and bytes: "slot_bytes (uart b) (unat (deal_num (uart b))) 0 4 = [0x18, 0x18, 0x18, 0x78]"
    and "cdc_ring_space (sh_rx (shared b)) \<ge> 4" "ctrl_x_run b = 0" "ctrl_x_armed b" "sh_binary (shared b) = 0"
      "sh_safe_boot (shared b) = 0"
  shows "power (host_to_ring b) = Reset \<and> sh_safe_boot (shared (host_to_ring b)) = CDC_SAFE_BOOT_MAGIC \<and>
    sh_recover (shared (host_to_ring b)) = sh_recover (shared b)"
proof -
  have sp: "cdc_ring_space (sh_rx (shared b)) \<noteq> 0" "\<not> cdc_ring_space (sh_rx (shared b)) < 4"
    using assms(5) by (auto simp: word_le_nat_alt word_less_nat_alt)
  show ?thesis
    using assms sp
    by (simp add: host_to_ring_def slot_turn_def Let_def ctrl_x_seen_def CDC_CTRL_X_def CDC_BINARY_MAGIC_def
        v5f_safe_restart_def slot_release_def CDC_SAFE_BOOT_MAGIC_def)
qed

end
