(* ===== verification/LF_Exfat.thy ===== *)
theory LF_Exfat
  imports LF_Bytes
begin

text \<open>
  The exFAT reader, \<^verbatim>\<open>src/src/exfat.c\<close>: mounting a volume, walking a directory along the FAT, finding and
  listing files. The function that reads a sector of the card is an argument, over a state \<open>'x\<close> of the
  card; the file's static buffers are the record \<open>fs\<close>. A walk takes fuel, and 1048577 entries are always enough.

  The theorems: a mounted volume lies in its partition and in 32 bits, the file that is found lies in the
  volume, whatever its directory entry says, and a walk ends, whatever the FAT says.
\<close>

section \<open>Layout\<close>

definition BS_NAME :: nat where [const_defs]: "BS_NAME = 3"
definition BS_ZERO :: nat where [const_defs]: "BS_ZERO = 11"
definition BS_ZERO_LEN :: nat where [const_defs]: "BS_ZERO_LEN = 53"
definition BS_VOL_LENGTH :: nat where [const_defs]: "BS_VOL_LENGTH = 72"
definition BS_FAT_OFFSET :: nat where [const_defs]: "BS_FAT_OFFSET = 80"
definition BS_FAT_LENGTH :: nat where [const_defs]: "BS_FAT_LENGTH = 84"
definition BS_HEAP_OFFSET :: nat where [const_defs]: "BS_HEAP_OFFSET = 88"
definition BS_CLUSTERS :: nat where [const_defs]: "BS_CLUSTERS = 92"
definition BS_ROOT :: nat where [const_defs]: "BS_ROOT = 96"
definition BS_FLAGS :: nat where [const_defs]: "BS_FLAGS = 106"
definition BS_BPS_SHIFT :: nat where [const_defs]: "BS_BPS_SHIFT = 108"
definition BS_SPC_SHIFT :: nat where [const_defs]: "BS_SPC_SHIFT = 109"
definition BS_FATS :: nat where [const_defs]: "BS_FATS = 110"
definition MBR_TABLE :: nat where [const_defs]: "MBR_TABLE = 446"
definition MBR_ENTRY_SIZE :: nat where [const_defs]: "MBR_ENTRY_SIZE = 16"
definition MBR_TYPE :: nat where [const_defs]: "MBR_TYPE = 4"
definition MBR_START :: nat where [const_defs]: "MBR_START = 8"
definition MBR_SECTORS :: nat where [const_defs]: "MBR_SECTORS = 12"
definition PART_TYPE_EXFAT :: u8 where [const_defs]: "PART_TYPE_EXFAT = 7"
definition ENTRY_BYTES :: nat where [const_defs]: "ENTRY_BYTES = 32"
definition ENTRIES_PER_SECTOR :: u32 where [const_defs]: "ENTRIES_PER_SECTOR = 16"
definition T_END :: u8 where [const_defs]: "T_END = 0"
definition T_BITMAP :: u8 where [const_defs]: "T_BITMAP = 0x81"
definition T_FILE :: u8 where [const_defs]: "T_FILE = 0x85"
definition T_STREAM :: u8 where [const_defs]: "T_STREAM = 0xC0"
definition T_NAME :: u8 where [const_defs]: "T_NAME = 0xC1"
definition T_INUSE :: u8 where [const_defs]: "T_INUSE = 0x80"
definition T_SECONDARY :: u8 where [const_defs]: "T_SECONDARY = 0x40"
definition NAME_CHARS :: nat where [const_defs]: "NAME_CHARS = 15"
definition ATTR_DIRECTORY :: u16 where [const_defs]: "ATTR_DIRECTORY = 0x10"
definition FLAG_NOFATCHAIN :: u8 where [const_defs]: "FLAG_NOFATCHAIN = 2"
definition FAT_END :: u32 where [const_defs]: "FAT_END = 0xFFFFFFFF"
definition MAX_DIR_BYTES :: u32 where [const_defs]: "MAX_DIR_BYTES = 2 * 2 ^ 20"
definition EXFAT_NOFATCHAIN :: u8 where [const_defs]: "EXFAT_NOFATCHAIN = 1"
definition EXFAT_CONTIGUOUS :: u8 where [const_defs]: "EXFAT_CONTIGUOUS = 2"
definition EXFAT_DIRECTORY :: u8 where [const_defs]: "EXFAT_DIRECTORY = 4"

section \<open>State\<close>

record exfat_vol =
  vstart :: u32
  vsectors :: u32
  vfat :: u32
  vheap :: u32
  vclusters :: u32
  vroot :: u32
  vbitmap :: u32
  vbitmap_bytes :: u32
  spc_shift :: u8
  vdirty :: bool

record exfat_file =
  flength :: u64
  fvalid :: u64
  first_cluster :: u32
  first_sector :: u32
  entry_sector :: u32
  entry_offset :: u16
  fflags :: u8

text \<open>\<open>exfat_read_fn\<close>: an error, the sector's bytes as they are in the buffer after it, and the card after it.\<close>

type_synonym 'x exfat_read = "u32 \<Rightarrow> 'x \<Rightarrow> int \<times> u8 list \<times> 'x"

record 'x fs =
  dir_buf :: "u8 list"
  fat_buf :: "u8 list"
  fat_cached :: u32
  card :: 'x

record dir_cursor =
  dcluster :: u32
  dsector :: u32
  dindex :: u32
  dloaded :: u32
  dvisited :: u32
  dend :: bool

section \<open>Numbers and sums\<close>

definition le16 :: "u8 list \<Rightarrow> u16" where
  "le16 p = ucast (p ! 0) OR push_bit 8 (ucast (p ! 1))"

definition le32 :: "u8 list \<Rightarrow> u32" where
  "le32 p = ucast (p ! 0) OR push_bit 8 (ucast (p ! 1)) OR push_bit 16 (ucast (p ! 2)) OR push_bit 24 (ucast (p ! 3))"

definition le64q :: "u8 list \<Rightarrow> u64" where
  "le64q p = ucast (le32 p) OR push_bit 32 (ucast (le32 (drop 4 p)))"

definition exfat_sum16 :: "u16 \<Rightarrow> u8 list \<Rightarrow> u16" where
  "exfat_sum16 start p = foldl (\<lambda>s b. (if s AND 1 \<noteq> 0 then 0x8000 else 0) + drop_bit 1 s + ucast b) start p"

definition ascii_upper :: "u16 \<Rightarrow> u16" where
  "ascii_upper c = (if 97 \<le> c \<and> c \<le> 122 then c - 97 + 65 else c)"

section \<open>Clusters and the FAT\<close>

definition exfat_cluster_sector :: "exfat_vol \<Rightarrow> u32 \<Rightarrow> u32" where
  "exfat_cluster_sector vol c =
     (if c < 2 \<or> c - 2 \<ge> vclusters vol then 0 else vheap vol + push_bit (unat (spc_shift vol)) (c - 2))"

text \<open>The sector of the FAT, if it is not the one in the buffer.\<close>

definition fat_load :: "'x exfat_read \<Rightarrow> u32 \<Rightarrow> 'x fs \<Rightarrow> int \<times> 'x fs" where
  "fat_load read sector fs =
     (if sector \<noteq> fat_cached fs then
        let (err, b, x) = read sector (card fs); fs = fs\<lparr>fat_buf := b, card := x\<rparr>
        in if err \<noteq> 0 then (err, fs\<lparr>fat_cached := 0\<rparr>) else (0, fs\<lparr>fat_cached := sector\<rparr>)
      else (0, fs))"

definition fat_next :: "'x exfat_read \<Rightarrow> exfat_vol \<Rightarrow> u32 \<Rightarrow> 'x fs \<Rightarrow> int \<times> u32 \<times> 'x fs" where
  "fat_next read vol c fs =
     (let (err, fs) = fat_load read (vfat vol + c div 128) fs
      in if err \<noteq> 0 then (err, 0, fs) else (0, le32 (drop (4 * unat (c mod 128)) (fat_buf fs)), fs))"

section \<open>Directories\<close>

definition dir_open :: "u32 \<Rightarrow> dir_cursor" where
  "dir_open cluster = \<lparr>dcluster = cluster, dsector = 0, dindex = 0, dloaded = 0, dvisited = 1, dend = False\<rparr>"

text \<open>The current entry, or None with an error (0 at the end). \<open>at_sector\<close> is \<open>dloaded\<close> after it.\<close>

definition dir_entry ::
  "'x exfat_read \<Rightarrow> exfat_vol \<Rightarrow> dir_cursor \<Rightarrow> 'x fs \<Rightarrow> u8 list option \<times> int \<times> dir_cursor \<times> 'x fs" where
  "dir_entry read vol d fs =
     (if dend d then (None, 0, d, fs)
      else
        let sector = exfat_cluster_sector vol (dcluster d) in
        if sector = 0 then (None, ERR_BLK_PARSE_FAIL, d, fs)
        else
          let sector = sector + dsector d;
              (err, d, fs) =
                (if sector \<noteq> dloaded d then
                   let (err, b, x) = read sector (card fs); fs = fs\<lparr>dir_buf := b, card := x\<rparr>
                   in if err \<noteq> 0 then (err, d\<lparr>dloaded := 0\<rparr>, fs) else (0, d\<lparr>dloaded := sector\<rparr>, fs)
                 else (0, d, fs))
          in if err \<noteq> 0 then (None, err, d, fs)
             else (Some (take 32 (drop (32 * unat (dindex d)) (dir_buf fs))), 0, d, fs))"

definition dir_advance ::
  "'x exfat_read \<Rightarrow> exfat_vol \<Rightarrow> dir_cursor \<Rightarrow> 'x fs \<Rightarrow> int \<times> dir_cursor \<times> 'x fs" where
  "dir_advance read vol d fs =
     (let d = d\<lparr>dindex := dindex d + 1\<rparr> in
      if dindex d < ENTRIES_PER_SECTOR then (0, d, fs)
      else
        let d = d\<lparr>dindex := 0, dsector := dsector d + 1\<rparr> in
        if dsector d < push_bit (unat (spc_shift vol)) 1 then (0, d, fs)
        else
          let d = d\<lparr>dsector := 0\<rparr>; (err, nxt, fs) = fat_next read vol (dcluster d) fs in
          if err \<noteq> 0 then (err, d, fs)
          else if nxt = FAT_END then (0, d\<lparr>dend := True\<rparr>, fs)
          else if nxt < 2 \<or> nxt - 2 \<ge> vclusters vol then (ERR_BLK_PARSE_FAIL, d, fs)
          else
            let d = d\<lparr>dvisited := dvisited d + 1\<rparr> in
            if dvisited d > drop_bit (9 + unat (spc_shift vol)) MAX_DIR_BYTES then (ERR_BLK_PARSE_FAIL, d, fs)
            else (0, d\<lparr>dcluster := nxt\<rparr>, fs))"

section \<open>Mounting\<close>

definition is_exfat_boot :: "u8 list \<Rightarrow> bool" where
  "is_exfat_boot b \<longleftrightarrow>
     take 8 (drop BS_NAME b) = [0x45, 0x58, 0x46, 0x41, 0x54, 0x20, 0x20, 0x20] \<and> b ! 510 = 0x55 \<and> b ! 511 = 0xAA \<and>
     list_all (\<lambda>i. b ! (BS_ZERO + i) = 0) [0..<BS_ZERO_LEN]"

definition take_boot :: "u8 list \<Rightarrow> u32 \<Rightarrow> u32 \<Rightarrow> exfat_vol \<Rightarrow> int \<times> exfat_vol" where
  "take_boot b start limit vol =
     (let len = le64q (drop BS_VOL_LENGTH b); fat = le32 (drop BS_FAT_OFFSET b);
          fat_len = le32 (drop BS_FAT_LENGTH b); heap = le32 (drop BS_HEAP_OFFSET b);
          clusters = le32 (drop BS_CLUSTERS b); spc = b ! BS_SPC_SHIFT
      in if limit \<noteq> 0 \<and> len > ucast limit then (ERR_BLK_PARSE_FAIL, vol)
      else if b ! BS_BPS_SHIFT \<noteq> 9 \<or> spc > 16 \<or> b ! BS_FATS \<noteq> 1 \<or> clusters = 0 \<or> len > 0xFFFFFFFF \<or>
              ucast start + len > 0xFFFFFFFF \<or> fat < 24 \<or> (ucast fat :: u64) + ucast fat_len > ucast heap \<or>
              ucast heap \<ge> len \<or> (ucast fat_len :: u64) * 128 < ucast clusters + 2 \<or>
              push_bit (unat spc) (ucast clusters) > len - ucast heap then (ERR_BLK_PARSE_FAIL, vol)
      else
        let vol = vol\<lparr>vstart := start, vsectors := ucast len, vfat := start + fat, vheap := start + heap,
                vclusters := clusters, vroot := le32 (drop BS_ROOT b), spc_shift := spc,
                vdirty := drop_bit 1 (b ! BS_FLAGS) AND 1 \<noteq> 0, vbitmap := 0, vbitmap_bytes := 0\<rparr>
        in if exfat_cluster_sector vol (vroot vol) = 0 then (ERR_BLK_PARSE_FAIL, vol) else (0, vol))"

text \<open>The allocation bitmap's entry, checked.\<close>

definition take_bitmap :: "u8 list \<Rightarrow> exfat_vol \<Rightarrow> int \<times> exfat_vol" where
  "take_bitmap e vol =
     (let bytes = le64q (drop 24 e);
          vol = vol\<lparr>vbitmap := le32 (drop 20 e), vbitmap_bytes := if bytes > 0xFFFFFFFF then 0xFFFFFFFF else ucast bytes\<rparr>
      in if exfat_cluster_sector vol (vbitmap vol) = 0 \<or> bytes < ucast ((vclusters vol + 7) div 8)
         then (ERR_BLK_PARSE_FAIL, vol) else (0, vol))"

fun find_bitmap ::
  "nat \<Rightarrow> 'x exfat_read \<Rightarrow> exfat_vol \<Rightarrow> dir_cursor \<Rightarrow> 'x fs \<Rightarrow> (int \<times> exfat_vol \<times> 'x fs) option" where
  "find_bitmap 0 read vol d fs = None"
| "find_bitmap (Suc f) read vol d fs =
     (let (e, err, d, fs) = dir_entry read vol d fs in
      case e of
        None \<Rightarrow> Some (if err \<noteq> 0 then err else ERR_BLK_PARSE_FAIL, vol, fs)
      | Some e \<Rightarrow>
          if e ! 0 = T_END then Some (ERR_BLK_PARSE_FAIL, vol, fs)
          else if e ! 0 = T_BITMAP \<and> e ! 1 AND 1 = 0 then
            let (err, vol) = take_bitmap e vol in Some (err, vol, fs)
          else
            let (err, d, fs) = dir_advance read vol d fs in
            if err \<noteq> 0 then Some (err, vol, fs) else find_bitmap f read vol d fs)"

definition try_volume ::
  "nat \<Rightarrow> 'x exfat_read \<Rightarrow> u32 \<Rightarrow> u32 \<Rightarrow> exfat_vol \<Rightarrow> 'x fs \<Rightarrow> (int \<times> exfat_vol \<times> 'x fs) option" where
  "try_volume f read start limit vol fs =
     (let (err, b, x) = read start (card fs); fs = fs\<lparr>dir_buf := b, card := x\<rparr> in
      if err \<noteq> 0 then Some (err, vol, fs)
      else if \<not> is_exfat_boot b then Some (ERR_BLK_PARSE_FAIL, vol, fs)
      else
        let (err, vol) = take_boot b start limit vol in
        if err \<noteq> 0 then Some (err, vol, fs) else find_bitmap f read vol (dir_open (vroot vol)) fs)"

text \<open>The partitions of type 07, and the first one that works; the last one's error.\<close>

definition partitions :: "u8 list \<Rightarrow> (u32 \<times> u32) list" where
  "partitions b =
     map (\<lambda>e. (le32 (drop MBR_START e), le32 (drop MBR_SECTORS e)))
       (filter (\<lambda>e. e ! MBR_TYPE = PART_TYPE_EXFAT \<and> le32 (drop MBR_START e) \<noteq> 0)
         (map (\<lambda>i. drop (MBR_TABLE + i * MBR_ENTRY_SIZE) b) [0..<4]))"

fun try_volumes ::
  "nat \<Rightarrow> 'x exfat_read \<Rightarrow> (u32 \<times> u32) list \<Rightarrow> int \<Rightarrow> exfat_vol \<Rightarrow> 'x fs \<Rightarrow> (int \<times> exfat_vol \<times> 'x fs) option" where
  "try_volumes f read [] err vol fs = Some (err, vol, fs)"
| "try_volumes f read ((start, len) # ps) err vol fs =
     (case try_volume f read start len vol fs of
        None \<Rightarrow> None
      | Some (err, vol, fs) \<Rightarrow> if err = 0 then Some (0, vol, fs) else try_volumes f read ps err vol fs)"

definition exfat_mount ::
  "nat \<Rightarrow> 'x exfat_read \<Rightarrow> exfat_vol \<Rightarrow> 'x fs \<Rightarrow> (int \<times> exfat_vol \<times> 'x fs) option" where
  "exfat_mount f read vol fs =
     (let (err, b, x) = read 0 (card fs); fs = fs\<lparr>fat_cached := 0, dir_buf := b, card := x\<rparr> in
      if err \<noteq> 0 then Some (err, vol, fs)
      else if is_exfat_boot b then try_volume f read 0 0 vol fs
      else if b ! 510 \<noteq> 0x55 \<or> b ! 511 \<noteq> 0xAA then Some (ERR_BLK_PARSE_FAIL, vol, fs)
      else try_volumes f read (partitions b) ERR_BLK_PARSE_FAIL vol fs)"

section \<open>Files\<close>

text \<open>Following the FAT, \<open>n\<close> clusters from \<open>c\<close>: whether they are contiguous.\<close>

fun extent_loop :: "'x exfat_read \<Rightarrow> exfat_vol \<Rightarrow> nat \<Rightarrow> u32 \<Rightarrow> 'x fs \<Rightarrow> int \<times> bool \<times> 'x fs" where
  "extent_loop read vol 0 c fs = (0, False, fs)"
| "extent_loop read vol (Suc k) c fs =
     (let (err, nxt, fs) = fat_next read vol c fs in
      if err \<noteq> 0 then (err, False, fs)
      else if k = 0 then (0, nxt = FAT_END, fs)
      else if nxt \<noteq> c + 1 then (0, False, fs)
      else extent_loop read vol k nxt fs)"

definition clusters_of :: "exfat_vol \<Rightarrow> u64 \<Rightarrow> u64" where
  "clusters_of vol len = (let s = 9 + unat (spc_shift vol) in drop_bit s (len + push_bit s 1 - 1))"

definition file_extent ::
  "'x exfat_read \<Rightarrow> exfat_vol \<Rightarrow> u8 \<Rightarrow> exfat_file \<Rightarrow> 'x fs \<Rightarrow> int \<times> exfat_file \<times> 'x fs" where
  "file_extent read vol stream_flags f fs =
     (if fvalid f > flength f then (ERR_BLK_PARSE_FAIL, f, fs)
      else if first_cluster f = 0 then
        (if flength f = 0 then 0 else ERR_BLK_PARSE_FAIL, f\<lparr>fflags := fflags f OR EXFAT_CONTIGUOUS\<rparr>, fs)
      else
        let n = clusters_of vol (flength f); c = first_cluster f in
        if n = 0 \<or> c < 2 \<or> c - 2 \<ge> vclusters vol \<or> n > ucast (vclusters vol - (c - 2)) then (ERR_BLK_PARSE_FAIL, f, fs)
        else
          let f = f\<lparr>first_sector := exfat_cluster_sector vol c\<rparr> in
          if stream_flags AND FLAG_NOFATCHAIN \<noteq> 0
          then (0, f\<lparr>fflags := fflags f OR (EXFAT_NOFATCHAIN OR EXFAT_CONTIGUOUS)\<rparr>, fs)
          else
            let (err, contiguous, fs) = extent_loop read vol (unat n) c fs
            in (err, if contiguous then f\<lparr>fflags := fflags f OR EXFAT_CONTIGUOUS\<rparr> else f, fs))"

text \<open>
  An entry set: what its entries after the first one add up to. The names' characters are kept as they
  are: \<open>exfat_find\<close> compares them and \<open>exfat_list\<close> converts them.
\<close>

record entry_set =
  es_sum :: u16
  es_flags :: u8
  es_name_len :: u8
  es_hash :: u16
  es_chars :: "u16 list"
  es_file :: exfat_file

definition no_file :: exfat_file where
  "no_file = \<lparr>flength = 0, fvalid = 0, first_cluster = 0, first_sector = 0, entry_sector = 0, entry_offset = 0, fflags = 0\<rparr>"

definition set_start :: "u8 list \<Rightarrow> dir_cursor \<Rightarrow> entry_set" where
  "set_start e d =
     \<lparr>es_sum = exfat_sum16 (exfat_sum16 0 (take 2 e)) (drop 4 e), es_flags = 0, es_name_len = 0, es_hash = 0,
      es_chars = [], es_file = no_file\<lparr>entry_sector := dloaded d, entry_offset := ucast (dindex d) * 32\<rparr>\<rparr>"

definition set_entry :: "nat \<Rightarrow> u8 list \<Rightarrow> entry_set \<Rightarrow> entry_set" where
  "set_entry k e s =
     (let s = s\<lparr>es_sum := exfat_sum16 (es_sum s) e\<rparr> in
      if k = 1 then
        s\<lparr>es_flags := e ! 1, es_name_len := e ! 3, es_hash := le16 (drop 4 e),
          es_file := (es_file s)\<lparr>fvalid := le64q (drop 8 e), first_cluster := le32 (drop 20 e),
                                 flength := le64q (drop 24 e)\<rparr>\<rparr>
      else if e ! 0 = T_NAME then
        s\<lparr>es_chars := take (unat (es_name_len s))
            (es_chars s @ map (\<lambda>j. le16 (drop (2 + 2 * j) e)) [0..<NAME_CHARS])\<rparr>
      else s)"

definition not_in_set :: "nat \<Rightarrow> u8 list \<Rightarrow> bool" where
  "not_in_set k e \<longleftrightarrow> e ! 0 AND (T_INUSE OR T_SECONDARY) \<noteq> T_INUSE OR T_SECONDARY \<or> (k = 1 \<and> e ! 0 \<noteq> T_STREAM)"

text \<open>Its entries \<open>k\<close> to \<open>count\<close>. The first result is an error, or whether they are all of the set.\<close>

function read_set ::
  "'x exfat_read \<Rightarrow> exfat_vol \<Rightarrow> nat \<Rightarrow> nat \<Rightarrow> entry_set \<Rightarrow> dir_cursor \<Rightarrow> 'x fs \<Rightarrow>
    (int + bool) \<times> entry_set \<times> dir_cursor \<times> 'x fs" where
  "read_set read vol k count s d fs =
     (if k \<le> count then
        let (err, d, fs) = dir_advance read vol d fs in
        if err \<noteq> 0 then (Inl err, s, d, fs)
        else
          let (e, err, d, fs) = dir_entry read vol d fs in
          (case e of
             None \<Rightarrow> (Inl (if err \<noteq> 0 then err else ERR_BLK_PARSE_FAIL), s, d, fs)
           | Some e \<Rightarrow>
               if not_in_set k e then (Inr False, s, d, fs)
               else read_set read vol (k + 1) count (set_entry k e s) d fs)
      else (Inr True, s, d, fs))"
  by pat_completeness auto
termination by (relation "measure (\<lambda>(read, vol, k, count, s, d, fs). Suc count - k)") auto

declare read_set.simps [simp del]

definition name_hash :: "u8 list \<Rightarrow> u16" where
  "name_hash name = foldl (\<lambda>h c. exfat_sum16 h [ucast (ascii_upper (ucast c)), 0]) 0 name"

definition matched :: "u8 list \<Rightarrow> u16 list \<Rightarrow> nat" where
  "matched name cs = length (filter (\<lambda>(c, n). ascii_upper c = ascii_upper (ucast n)) (zip cs name))"

definition is_set :: "u8 list \<Rightarrow> bool" where
  "is_set e \<longleftrightarrow> e ! 0 = T_FILE \<and> 2 \<le> e ! 1 \<and> e ! 1 \<le> 18"

definition with_directory :: "u8 list \<Rightarrow> exfat_file \<Rightarrow> exfat_file" where
  "with_directory e f = (if le16 (drop 4 e) AND ATTR_DIRECTORY \<noteq> 0 then f\<lparr>fflags := fflags f OR EXFAT_DIRECTORY\<rparr> else f)"

fun find_loop ::
  "nat \<Rightarrow> 'x exfat_read \<Rightarrow> exfat_vol \<Rightarrow> u8 list \<Rightarrow> exfat_file \<Rightarrow> dir_cursor \<Rightarrow> 'x fs \<Rightarrow>
    (int \<times> exfat_file \<times> 'x fs) option" where
  "find_loop 0 read vol name out d fs = None"
| "find_loop (Suc f) read vol name out d fs =
     (let (e, err, d, fs) = dir_entry read vol d fs in
      case e of
        None \<Rightarrow> Some (if err \<noteq> 0 then err else ERR_FILE_NOT_FOUND, out, fs)
      | Some e \<Rightarrow>
          if e ! 0 = T_END then Some (ERR_FILE_NOT_FOUND, out, fs)
          else if \<not> is_set e then
            let (err, d, fs) = dir_advance read vol d fs in
            if err \<noteq> 0 then Some (err, out, fs) else find_loop f read vol name out d fs
          else
            let (r, s, d, fs) = read_set read vol 1 (unat (e ! 1)) (set_start e d) d fs in
            (case r of
               Inl err \<Rightarrow> Some (err, out, fs)
             | Inr whole \<Rightarrow>
                 if whole \<and> es_sum s = le16 (drop 2 e) \<and> unat (es_name_len s) = length name \<and>
                    es_hash s = name_hash name \<and> matched name (es_chars s) = length name then
                   let (err, file, fs) = file_extent read vol (es_flags s) (with_directory e (es_file s)) fs
                   in Some (err, if err \<noteq> 0 then out else file, fs)
                 else if whole then
                   let (err, d, fs) = dir_advance read vol d fs in
                   if err \<noteq> 0 then Some (err, out, fs) else find_loop f read vol name out d fs
                 else find_loop f read vol name out d fs))"

definition exfat_find ::
  "nat \<Rightarrow> 'x exfat_read \<Rightarrow> exfat_vol \<Rightarrow> u32 \<Rightarrow> u8 list \<Rightarrow> exfat_file \<Rightarrow> 'x fs \<Rightarrow> (int \<times> exfat_file \<times> 'x fs) option" where
  "exfat_find f read vol dir name out fs =
     (if name = [] \<or> length name > 255 then Some (ERR_FILE_NOT_FOUND, out, fs)
      else find_loop f read vol name out (dir_open dir) (fs\<lparr>fat_cached := 0\<rparr>))"

text \<open>\<open>exfat_list\<close>: the callback gets the name and the file, over a state \<open>'c\<close> of its own.\<close>

definition list_name :: "u16 list \<Rightarrow> u8 list" where
  "list_name cs = map (\<lambda>c. if 0x20 \<le> c \<and> c < 0x7F then ucast c else 63) cs"

definition listed_file :: "u8 list \<Rightarrow> entry_set \<Rightarrow> exfat_file" where
  "listed_file e s =
     with_directory e ((es_file s)\<lparr>fflags := if es_flags s AND FLAG_NOFATCHAIN \<noteq> 0
        then fflags (es_file s) OR EXFAT_NOFATCHAIN else fflags (es_file s)\<rparr>)"

fun list_loop ::
  "nat \<Rightarrow> 'x exfat_read \<Rightarrow> exfat_vol \<Rightarrow> (u8 list \<Rightarrow> exfat_file \<Rightarrow> 'c \<Rightarrow> int \<times> 'c) \<Rightarrow> 'c \<Rightarrow> dir_cursor \<Rightarrow> 'x fs \<Rightarrow>
    (int \<times> 'c \<times> 'x fs) option" where
  "list_loop 0 read vol g ctx d fs = None"
| "list_loop (Suc f) read vol g ctx d fs =
     (let (e, err, d, fs) = dir_entry read vol d fs in
      case e of
        None \<Rightarrow> Some (err, ctx, fs)
      | Some e \<Rightarrow>
          if e ! 0 = T_END then Some (0, ctx, fs)
          else if \<not> is_set e then
            let (err, d, fs) = dir_advance read vol d fs in
            if err \<noteq> 0 then Some (err, ctx, fs) else list_loop f read vol g ctx d fs
          else
            let (r, s, d, fs) = read_set read vol 1 (unat (e ! 1)) (set_start e d) d fs in
            (case r of
               Inl err \<Rightarrow> Some (err, ctx, fs)
             | Inr whole \<Rightarrow>
                 let (stop, ctx) =
                   (if whole \<and> es_sum s = le16 (drop 2 e) \<and> 0 < es_name_len s \<and>
                       length (es_chars s) = unat (es_name_len s)
                    then g (list_name (es_chars s)) (listed_file e s) ctx else (0, ctx))
                 in if stop \<noteq> 0 then Some (stop, ctx, fs)
                    else if whole then
                      let (err, d, fs) = dir_advance read vol d fs in
                      if err \<noteq> 0 then Some (err, ctx, fs) else list_loop f read vol g ctx d fs
                    else list_loop f read vol g ctx d fs))"

definition exfat_list ::
  "nat \<Rightarrow> 'x exfat_read \<Rightarrow> exfat_vol \<Rightarrow> u32 \<Rightarrow> (u8 list \<Rightarrow> exfat_file \<Rightarrow> 'c \<Rightarrow> int \<times> 'c) \<Rightarrow> 'c \<Rightarrow> 'x fs \<Rightarrow>
    (int \<times> 'c \<times> 'x fs) option" where
  "exfat_list f read vol dir g ctx fs = list_loop f read vol g ctx (dir_open dir) (fs\<lparr>fat_cached := 0\<rparr>)"

section \<open>Volumes\<close>

text \<open>A volume whose clusters lie in it, in 32 bits.\<close>

definition heap_sectors :: "exfat_vol \<Rightarrow> nat" where
  "heap_sectors vol = unat (vclusters vol) * 2 ^ unat (spc_shift vol)"

definition vol_ok :: "exfat_vol \<Rightarrow> bool" where
  "vol_ok vol \<longleftrightarrow> unat (spc_shift vol) \<le> 16 \<and> unat (vstart vol) + 24 \<le> unat (vfat vol) \<and> vfat vol < vheap vol \<and>
     unat (vheap vol) + heap_sectors vol \<le> unat (vstart vol) + unat (vsectors vol) \<and>
     unat (vstart vol) + unat (vsectors vol) < 2 ^ 32 \<and> 2 \<le> vroot vol \<and> vroot vol - 2 < vclusters vol"

lemma word_add_bound: "unat a + unat b < 2 ^ LENGTH('a::len) \<Longrightarrow> unat (a + b :: 'a word) = unat a + unat b"
  by (simp add: unat_word_ariths)

lemma unat_shl: "unat (x :: 'a::len word) * 2 ^ n < 2 ^ LENGTH('a) \<Longrightarrow> unat (push_bit n x) = unat x * 2 ^ n"
  by (simp add: unsigned_push_bit_eq push_bit_eq_mult [where 'a = nat] take_bit_nat_eq_self)

lemma cluster_sector_nat:
  assumes "vol_ok vol" "2 \<le> c" "c - 2 < vclusters vol"
  shows "unat (exfat_cluster_sector vol c) = unat (vheap vol) + (unat c - 2) * 2 ^ unat (spc_shift vol)"
proof -
  let ?p = "2 ^ unat (spc_shift vol) :: nat"
  have c: "unat (c - 2) = unat c - 2"
    using assms(2) by (simp add: unat_sub)
  have "(unat c - 2) * ?p \<le> heap_sectors vol"
    using assms(3) c by (simp add: heap_sectors_def word_less_nat_alt)
  then have lt: "unat (vheap vol) + (unat c - 2) * ?p < 2 ^ 32"
    using assms(1) by (simp add: vol_ok_def)
  then have "unat (push_bit (unat (spc_shift vol)) (c - 2)) = (unat c - 2) * ?p"
    by (subst unat_shl) (simp_all add: c)
  moreover have "\<not> c < 2" "\<not> vclusters vol \<le> c - 2"
    using assms(2,3) by (simp_all add: not_less not_le)
  ultimately show ?thesis
    using lt by (simp add: exfat_cluster_sector_def word_add_bound)
qed

text \<open>What \<open>take_boot\<close> checks is enough.\<close>

lemma take_boot_ok:
  assumes "take_boot b start limit vol = (0, vol')"
  shows "vol_ok vol' \<and> vstart vol' = start \<and> (limit \<noteq> 0 \<longrightarrow> vsectors vol' \<le> limit)"
proof -
  define len fat flen heap cl spc where "len = le64q (drop BS_VOL_LENGTH b)" and "fat = le32 (drop BS_FAT_OFFSET b)"
    and "flen = le32 (drop BS_FAT_LENGTH b)" and "heap = le32 (drop BS_HEAP_OFFSET b)"
    and "cl = le32 (drop BS_CLUSTERS b)" and "spc = b ! BS_SPC_SHIFT"
  note defs = len_def fat_def flen_def heap_def cl_def spc_def
  have c: "\<not> (limit \<noteq> 0 \<and> len > ucast limit)" "spc \<le> 16" "len \<le> 0xFFFFFFFF" "ucast start + len \<le> 0xFFFFFFFF"
      "24 \<le> fat" "(ucast fat :: u64) + ucast flen \<le> ucast heap" "(ucast heap :: u64) < len" "cl \<noteq> 0"
      "(ucast flen :: u64) * 128 \<ge> ucast cl + 2" "push_bit (unat spc) (ucast cl) \<le> len - ucast heap"
    and r: "exfat_cluster_sector vol' (vroot vol') \<noteq> 0"
    and v: "vstart vol' = start" "vsectors vol' = ucast len" "vfat vol' = start + fat" "vheap vol' = start + heap"
      "vclusters vol' = cl" "spc_shift vol' = spc"
    using assms unfolding take_boot_def Let_def defs [symmetric]
    by (auto simp: not_less not_le split: if_splits)
  have w: "unat (ucast x :: u64) = unat x" for x :: u32
    by (rule unat_ucast_wide) simp
  have b32: "unat x < 2 ^ 32" for x :: u32
    using unsigned_less [of x] by simp
  have len: "unat len < 2 ^ 32" "unat (ucast len :: u32) = unat len"
    using c(3) by (simp_all add: word_le_nat_alt unsigned_ucast_eq take_bit_nat_eq_self)
  have end32: "unat start + unat len < 2 ^ 32"
    using c(4) len(1) b32 [of start] by (simp add: word_le_nat_alt unat_word_ariths w)
  have fh: "unat fat + unat flen \<le> unat heap" "unat heap < unat len"
    using c(6,7) b32 [of fat] b32 [of flen] by (simp_all add: word_le_nat_alt word_less_nat_alt unat_word_ariths w)
  have flen: "flen \<noteq> 0"
  proof
    assume "flen = 0"
    then have "(ucast cl :: u64) + 2 = 0"
      using c(9) by simp
    then have "unat ((ucast cl :: u64) + 2) = 0"
      by simp
    then show False
      using b32 [of cl] by (simp add: unat_word_ariths w)
  qed
  have spc16: "unat spc \<le> 16"
    using c(2) by (simp add: word_le_nat_alt)
  have "unat cl * 2 ^ unat spc < 2 ^ 32 * 2 ^ 16"
    using b32 [of cl] power_increasing [OF spc16, of "2 :: nat"] by (intro mult_less_le_imp_less) simp_all
  then have "unat (push_bit (unat spc) (ucast cl) :: u64) = unat cl * 2 ^ unat spc"
    by (subst unat_shl) (simp_all add: w)
  moreover have "unat (len - ucast heap) = unat len - unat heap"
    using c(7) by (simp add: unat_sub w)
  ultimately have heap: "unat heap + unat cl * 2 ^ unat spc \<le> unat len"
    using c(10) fh(2) by (simp add: word_le_nat_alt)
  have u: "unat (start + fat) = unat start + unat fat" "unat (start + heap) = unat start + unat heap"
    using end32 fh by (simp_all add: word_add_bound)
  have "2 \<le> vroot vol' \<and> vroot vol' - 2 < vclusters vol'"
    using r by (auto simp: exfat_cluster_sector_def not_le not_less split: if_splits)
  moreover have "0 < unat flen"
    using flen by (simp add: unat_gt_0)
  ultimately have "vol_ok vol'"
    using spc16 heap end32 fh c(5) u len
    by (simp add: vol_ok_def heap_sectors_def v word_le_nat_alt word_less_nat_alt)
  moreover have "vsectors vol' \<le> limit" if "limit \<noteq> 0"
    using c(1) that by (auto simp: v word_le_nat_alt len(2) w not_less)
  ultimately show ?thesis
    using v by simp
qed

text \<open>The bitmap's entry changes only its own fields.\<close>

lemma take_bitmap_ok:
  assumes "vol_ok vol" "take_bitmap e vol = (err, vol')"
  shows "vol_ok vol' \<and> vstart vol' = vstart vol \<and> vsectors vol' = vsectors vol \<and>
    (err = 0 \<longrightarrow> exfat_cluster_sector vol' (vbitmap vol') \<noteq> 0 \<and> unat (vclusters vol') \<le> 8 * unat (vbitmap_bytes vol'))"
proof -
  define bytes where "bytes = le64q (drop 24 e)"
  let ?cl = "vclusters vol"
  define nb :: u32 where "nb = (if bytes > 0xFFFFFFFF then 0xFFFFFFFF else ucast bytes)"
  have v: "vol' = vol\<lparr>vbitmap := le32 (drop 20 e), vbitmap_bytes := nb\<rparr>"
    using assms(2) by (auto simp: take_bitmap_def Let_def nb_def bytes_def split: if_splits)
  have "unat ?cl \<le> heap_sectors vol"
    by (simp add: heap_sectors_def)
  then have cl: "unat ?cl + 7 < 2 ^ 32"
    using assms(1) by (simp add: vol_ok_def word_less_nat_alt)
  have "unat ?cl \<le> 8 * unat nb" if "err = 0"
  proof -
    have "bytes \<ge> ucast ((?cl + 7) div 8)"
      using assms(2) that by (auto simp: take_bitmap_def Let_def bytes_def not_less split: if_splits)
    then have ge: "(unat ?cl + 7) div 8 \<le> unat bytes"
      using cl by (simp add: word_le_nat_alt unat_ucast_wide unat_div word_add_bound)
    have "unat nb = min (unat bytes) (2 ^ 32 - 1)"
      by (auto simp: nb_def word_less_nat_alt unsigned_ucast_eq take_bit_nat_eq_self min_def)
    then have "(unat ?cl + 7) div 8 \<le> unat nb"
      using ge cl by simp
    then show ?thesis by simp
  qed
  moreover have "err = 0 \<longrightarrow> exfat_cluster_sector vol' (vbitmap vol') \<noteq> 0"
    using assms(2) v by (auto simp: take_bitmap_def Let_def nb_def bytes_def split: if_splits)
  moreover have "vol_ok vol'"
    using assms(1) by (simp add: v vol_ok_def heap_sectors_def)
  ultimately show ?thesis
    by (simp add: v)
qed

lemma find_bitmap_ok:
  "\<lbrakk>vol_ok vol; find_bitmap f read vol d fs = Some (err, vol', fs')\<rbrakk> \<Longrightarrow>
     vol_ok vol' \<and> vstart vol' = vstart vol \<and> vsectors vol' = vsectors vol \<and>
     (err = 0 \<longrightarrow> exfat_cluster_sector vol' (vbitmap vol') \<noteq> 0 \<and> unat (vclusters vol') \<le> 8 * unat (vbitmap_bytes vol'))"
proof (induction f arbitrary: d fs)
  case (Suc f)
  obtain e err1 d1 fs1 where e: "dir_entry read vol d fs = (e, err1, d1, fs1)"
    by (cases "dir_entry read vol d fs") auto
  show ?case
  proof (cases e)
    case None
    then show ?thesis using Suc.prems e by (auto split: if_splits)
  next
    case (Some en)
    obtain err2 d2 fs2 where a: "dir_advance read vol d1 fs1 = (err2, d2, fs2)"
      by (cases "dir_advance read vol d1 fs1") auto
    obtain err3 vol3 where b: "take_bitmap en vol = (err3, vol3)"
      by fastforce
    show ?thesis
      using Suc.prems take_bitmap_ok [OF Suc.prems(1) b] Suc.IH [OF Suc.prems(1), of d2 fs2]
      by (auto simp: e Some a b Let_def split: if_splits)
  qed
qed simp

lemma try_volume_ok:
  assumes "try_volume f read start limit vol fs = Some (0, vol', fs')"
  shows "vol_ok vol' \<and> vstart vol' = start \<and> (limit \<noteq> 0 \<longrightarrow> vsectors vol' \<le> limit) \<and>
    exfat_cluster_sector vol' (vbitmap vol') \<noteq> 0 \<and> unat (vclusters vol') \<le> 8 * unat (vbitmap_bytes vol')"
proof -
  obtain e b x where r: "read start (card fs) = (e, b, x)"
    by (cases "read start (card fs)") auto
  obtain e1 v1 where t: "take_boot b start limit vol = (e1, v1)"
    by fastforce
  have z: "e = 0" "is_exfat_boot b" "e1 = 0"
    and f: "find_bitmap f read v1 (dir_open (vroot v1)) (fs\<lparr>dir_buf := b, card := x\<rparr>) = Some (0, vol', fs')"
    using assms by (auto simp: try_volume_def r t Let_def split: if_splits)
  show ?thesis
    using find_bitmap_ok [OF conjunct1 [OF take_boot_ok [OF t [unfolded z]]] f] take_boot_ok [OF t [unfolded z]] by auto
qed

lemma try_volumes_ok:
  "try_volumes f read ps err vol fs = Some (0, vol', fs') \<Longrightarrow> err \<noteq> 0 \<Longrightarrow>
     \<exists>(start, limit)\<in>set ps. vol_ok vol' \<and> vstart vol' = start \<and> (limit \<noteq> 0 \<longrightarrow> vsectors vol' \<le> limit) \<and>
       exfat_cluster_sector vol' (vbitmap vol') \<noteq> 0 \<and> unat (vclusters vol') \<le> 8 * unat (vbitmap_bytes vol')"
proof (induction ps arbitrary: err vol fs)
  case (Cons p ps)
  obtain start len where p: "p = (start, len)" by fastforce
  obtain err1 vol1 fs1 where t: "try_volume f read start len vol fs = Some (err1, vol1, fs1)"
    using Cons.prems(1) by (auto simp: p split: option.splits)
  show ?case
  proof (cases "err1 = 0")
    case True
    then show ?thesis
      using Cons.prems(1) t try_volume_ok [of f read start len vol fs vol1 fs1] by (auto simp: p)
  next
    case False
    then show ?thesis
      using Cons.prems(1) t Cons.IH [of err1 vol1 fs1] by (auto simp: p)
  qed
qed simp

lemma mounted_vol_ok:
  assumes "exfat_mount f read vol fs = Some (0, vol', fs')"
  shows "vol_ok vol' \<and> exfat_cluster_sector vol' (vbitmap vol') \<noteq> 0 \<and> unat (vclusters vol') \<le> 8 * unat (vbitmap_bytes vol')"
proof -
  obtain e b x where r: "read 0 (card fs) = (e, b, x)"
    by (cases "read 0 (card fs)") auto
  show ?thesis
    using assms
    by (auto simp: exfat_mount_def r Let_def split: if_splits dest!: try_volume_ok try_volumes_ok)
qed

section \<open>Files\<close>

text \<open>A file without clusters is empty, and another one's clusters lie in the volume.\<close>

definition file_ok :: "exfat_vol \<Rightarrow> exfat_file \<Rightarrow> bool" where
  "file_ok vol f \<longleftrightarrow> fvalid f \<le> flength f \<and>
     (if first_cluster f = 0 then flength f = 0
      else unat (vheap vol) \<le> unat (first_sector f) \<and> first_sector f = exfat_cluster_sector vol (first_cluster f) \<and>
        512 * unat (first_sector f) + unat (flength f) \<le> 512 * (unat (vheap vol) + heap_sectors vol))"

text \<open>A count of clusters that is not 0 has not wrapped.\<close>

lemma clusters_of_enough:
  assumes "unat (spc_shift vol) \<le> 16" "clusters_of vol len \<noteq> 0"
  shows "unat len \<le> unat (clusters_of vol len) * 2 ^ (9 + unat (spc_shift vol))"
proof -
  let ?s = "9 + unat (spc_shift vol)"
  let ?p = "2 ^ ?s :: nat"
  have p: "0 < ?p" "?p \<le> 2 ^ 25"
    using assms(1) power_increasing [of ?s 25 "2 :: nat"] by simp_all
  have one: "unat (push_bit ?s 1 :: u64) = ?p"
    using p by (subst unat_shl) simp_all
  have le: "(1 :: u64) \<le> push_bit ?s 1"
    unfolding word_le_nat_alt one using p by simp
  have m: "unat (push_bit ?s 1 - 1 :: u64) = ?p - 1"
    using unat_sub [OF le] one by simp
  have "len + push_bit ?s 1 - 1 = len + (push_bit ?s 1 - 1)"
    by (rule add_diff_eq [symmetric])
  then have sum: "unat (len + push_bit ?s 1 - 1) = (unat len + (?p - 1)) mod 2 ^ 64"
    using m by (simp only: unat_word_ariths(1)) simp
  have n: "unat (clusters_of vol len) = (unat len + (?p - 1)) mod 2 ^ 64 div ?p"
    unfolding clusters_of_def Let_def unat_div_exp sum ..
  have small: "unat len < 2 ^ 64"
    using unsigned_less [of len] by simp
  have nowrap: "unat len + (?p - 1) < 2 ^ 64"
  proof (rule ccontr)
    assume "\<not> ?thesis"
    then have "(unat len + (?p - 1)) mod 2 ^ 64 = unat len + (?p - 1) - 2 ^ 64"
      using small p by (intro mod_if [THEN trans]) (simp add: mod_if le_mod_geq)
    then have "(unat len + (?p - 1)) mod 2 ^ 64 < ?p"
      using small p(1) by linarith
    then have "unat (clusters_of vol len) = 0"
      by (simp add: n)
    then show False
      using assms(2) by (simp add: unat_eq_0)
  qed
  have "unat len + (?p - 1) = (unat len + (?p - 1)) div ?p * ?p + (unat len + (?p - 1)) mod ?p"
    by (rule div_mult_mod_eq [symmetric])
  moreover have "(unat len + (?p - 1)) mod ?p \<le> ?p - 1"
    using mod_less_divisor [OF p(1), of "unat len + (?p - 1)"] by linarith
  ultimately have "unat len \<le> (unat len + (?p - 1)) div ?p * ?p"
    using p(1) by linarith
  then show ?thesis
    unfolding n using mod_less [OF nowrap] by simp
qed

lemma file_extent_ok:
  assumes vol: "vol_ok vol" and r: "file_extent read vol sf f fs = (0, f', fs')"
  shows "file_ok vol f' \<and> flength f' = flength f \<and> first_cluster f' = first_cluster f"
proof (cases "first_cluster f = 0")
  case True
  then show ?thesis
    using r by (auto simp: file_extent_def file_ok_def not_less split: if_splits)
next
  case False
  let ?c = "first_cluster f" and ?n = "clusters_of vol (flength f)"
  have v: "fvalid f \<le> flength f" and n: "?n \<noteq> 0" "2 \<le> ?c" "?c - 2 < vclusters vol" "?n \<le> ucast (vclusters vol - (?c - 2))"
    using r False by (auto simp: file_extent_def Let_def not_less not_le split: if_splits)
  have f': "first_sector f' = exfat_cluster_sector vol ?c" "flength f' = flength f" "fvalid f' = fvalid f"
      "first_cluster f' = ?c"
    using r False n by (auto simp: file_extent_def Let_def not_less not_le split: if_splits prod.splits)
  let ?p = "2 ^ unat (spc_shift vol) :: nat"
  have c: "unat (?c - 2) = unat ?c - 2"
    using n(2) by (simp add: unat_sub)
  have sec: "unat (first_sector f') = unat (vheap vol) + (unat ?c - 2) * ?p"
    using cluster_sector_nat [OF vol n(2,3)] f' by simp
  have "unat ?n \<le> unat (vclusters vol) - (unat ?c - 2)"
    using n(3,4) c by (simp add: word_le_nat_alt unat_ucast_wide unat_sub word_less_nat_alt)
  then have fit: "(unat ?c - 2) + unat ?n \<le> unat (vclusters vol)"
    using n(3) c by (simp add: word_less_nat_alt)
  have "unat (flength f) \<le> unat ?n * (512 * ?p)"
    using clusters_of_enough [OF _ n(1)] vol by (simp add: vol_ok_def power_add)
  then have "512 * ((unat ?c - 2) * ?p) + unat (flength f) \<le> 512 * (((unat ?c - 2) + unat ?n) * ?p)"
    by (simp add: algebra_simps)
  also have "\<dots> \<le> 512 * heap_sectors vol"
    using fit by (simp add: heap_sectors_def)
  finally show ?thesis
    using v f' sec False by (simp add: file_ok_def)
qed

lemma read_set_error: "fst (read_set read vol k count s d fs) \<noteq> Inl 0"
proof (induction read vol k count s d fs rule: read_set.induct)
  case (1 read vol k count s d fs)
  obtain err1 d1 fs1 where a: "dir_advance read vol d fs = (err1, d1, fs1)"
    by (cases "dir_advance read vol d fs") auto
  obtain e err2 d2 fs2 where e: "dir_entry read vol d1 fs1 = (e, err2, d2, fs2)"
    by (cases "dir_entry read vol d1 fs1") auto
  show ?case
    using 1 a e by (subst read_set.simps) (auto simp: Let_def split: option.splits)
qed

lemma find_loop_ok:
  "\<lbrakk>vol_ok vol; find_loop f read vol name out d fs = Some (0, file, fs')\<rbrakk> \<Longrightarrow> file_ok vol file"
proof (induction f arbitrary: d fs)
  case (Suc f)
  obtain e err1 d1 fs1 where e: "dir_entry read vol d fs = (e, err1, d1, fs1)"
    by (cases "dir_entry read vol d fs") auto
  show ?case
  proof (cases e)
    case None
    then show ?thesis using Suc.prems e by (auto split: if_splits)
  next
    case (Some en)
    obtain err2 d2 fs2 where a: "dir_advance read vol d1 fs1 = (err2, d2, fs2)"
      by (cases "dir_advance read vol d1 fs1") auto
    obtain r s d3 fs3 where rs: "read_set read vol 1 (unat (en ! 1)) (set_start en d1) d1 fs1 = (r, s, d3, fs3)"
      by (cases "read_set read vol 1 (unat (en ! 1)) (set_start en d1) d1 fs1") auto
    have r0: "r \<noteq> Inl 0"
      using read_set_error [of read vol 1 "unat (en ! 1)" "set_start en d1" d1 fs1] unfolding rs by simp
    obtain err4 d4 fs4 where b: "dir_advance read vol d3 fs3 = (err4, d4, fs4)"
      by (cases "dir_advance read vol d3 fs3") auto
    obtain err5 f5 fs5 where x: "file_extent read vol (es_flags s) (with_directory en (es_file s)) fs3 = (err5, f5, fs5)"
      by (cases "file_extent read vol (es_flags s) (with_directory en (es_file s)) fs3") auto
    note ih = Suc.IH [OF Suc.prems(1)]
    show ?thesis
      using r0 Suc.prems file_extent_ok [OF Suc.prems(1), of read "es_flags s" "with_directory en (es_file s)" fs3 f5 fs5]
        ih [of d2 fs2] ih [of d3 fs3] ih [of d4 fs4]
      by (auto simp: e Some a rs [simplified] b x Let_def split: if_splits sum.splits)
  qed
qed simp

section \<open>A walk ends\<close>

text \<open>How many entries a walk can still visit.\<close>

definition most_clusters :: "exfat_vol \<Rightarrow> nat" where
  "most_clusters vol = max 1 (unat (drop_bit (9 + unat (spc_shift vol)) MAX_DIR_BYTES))"

definition walk_rank :: "exfat_vol \<Rightarrow> dir_cursor \<Rightarrow> nat" where
  "walk_rank vol d =
     (if dend d then 0
      else 16 * 2 ^ unat (spc_shift vol) * most_clusters vol -
        (16 * (2 ^ unat (spc_shift vol) * (unat (dvisited d) - 1) + unat (dsector d)) + unat (dindex d)))"

definition walk_ok :: "exfat_vol \<Rightarrow> dir_cursor \<Rightarrow> bool" where
  "walk_ok vol d \<longleftrightarrow> 1 \<le> unat (dvisited d) \<and> unat (dvisited d) \<le> most_clusters vol \<and>
     unat (dsector d) < 2 ^ unat (spc_shift vol) \<and> unat (dindex d) < 16"

lemma shift_one: "unat (spc_shift vol) \<le> 16 \<Longrightarrow> unat (push_bit (unat (spc_shift vol)) 1 :: u32) = 2 ^ unat (spc_shift vol)"
  using power_increasing [of "unat (spc_shift vol)" 16 "2 :: nat"] by (subst unat_shl) simp_all

lemma unat_inc: "unat (x :: u32) < 2 ^ 31 \<Longrightarrow> unat (x + 1) = Suc (unat x)"
  by (simp add: unat_word_ariths)

lemma most_bound:
  assumes "unat (spc_shift vol) \<le> 16"
  shows "16 * 2 ^ unat (spc_shift vol) * most_clusters vol \<le> 2 ^ 20"
proof -
  let ?s = "unat (spc_shift vol)"
  have m: "unat (drop_bit (9 + ?s) MAX_DIR_BYTES) = 2 ^ 21 div 2 ^ (9 + ?s)"
    by (simp add: unat_div_exp MAX_DIR_BYTES_def)
  have "16 * 2 ^ ?s * (2 ^ 21 div 2 ^ (9 + ?s)) \<le> (2 :: nat) ^ 16"
  proof -
    have "(2 :: nat) ^ 21 div 2 ^ (9 + ?s) = 2 ^ 21 div (2 ^ 9 * 2 ^ ?s)"
      by (simp add: power_add)
    also have "\<dots> = 2 ^ 12 div 2 ^ ?s"
      by (simp add: div_mult2_eq)
    finally show ?thesis
      using div_times_less_eq_dividend [of "2 ^ 12" "2 ^ ?s :: nat"] by (simp add: mult.commute mult.left_commute)
  qed
  moreover have "16 * 2 ^ ?s \<le> (2 :: nat) ^ 20"
    using assms power_increasing [of ?s 16 "2 :: nat"] by simp
  ultimately show ?thesis
    by (simp add: most_clusters_def m max_def)
qed

lemma dir_entry_walk:
  assumes "dir_entry read vol d fs = (e, err, d', fs')"
  shows "walk_ok vol d' = walk_ok vol d \<and> walk_rank vol d' = walk_rank vol d \<and> dend d' = dend d \<and> (e \<noteq> None \<longrightarrow> \<not> dend d)"
  using assms
  by (auto simp: dir_entry_def Let_def walk_ok_def walk_rank_def split: if_splits prod.splits)

lemma times_pred: "1 \<le> (v :: nat) \<Longrightarrow> p * (v - 1) + p = p * v"
  by (cases v) simp_all

lemma last_entry: "\<lbrakk>a + p = b; i = 15; Suc s = p\<rbrakk> \<Longrightarrow> 16 * (a + s) + i + 1 = 16 * (b :: nat)"
  by simp

lemma dir_advance_walk:
  assumes spc: "unat (spc_shift vol) \<le> 16" and d: "walk_ok vol d" "\<not> dend d"
    and a: "dir_advance read vol d fs = (0, d', fs')"
  shows "walk_ok vol d' \<and> walk_rank vol d' < walk_rank vol d"
proof -
  let ?p = "2 ^ unat (spc_shift vol) :: nat" and ?M = "most_clusters vol"
  let ?pos = "\<lambda>d. 16 * (?p * (unat (dvisited d) - 1) + unat (dsector d)) + unat (dindex d)"
  have p16: "?p \<le> 2 ^ 16"
    using spc power_increasing [of "unat (spc_shift vol)" 16 "2 :: nat"] by simp
  have i1: "unat (dindex d + 1) = Suc (unat (dindex d))" and s1: "unat (dsector d + 1) = Suc (unat (dsector d))"
    using d(1) p16 by (auto intro!: unat_inc simp: walk_ok_def)
  have below: "?pos d < 16 * ?p * ?M"
  proof -
    have "?p * (unat (dvisited d) - 1) + ?p = ?p * unat (dvisited d)"
      using d(1) by (intro times_pred) (simp add: walk_ok_def)
    also have "\<dots> \<le> ?p * ?M"
      using d(1) by (intro mult_le_mono2) (simp add: walk_ok_def)
    finally have "?p * (unat (dvisited d) - 1) + ?p \<le> ?p * ?M" .
    then show ?thesis
      using d(1) by (simp add: walk_ok_def)
  qed
  consider (index) "unat (dindex d) < 15" "d' = d\<lparr>dindex := dindex d + 1\<rparr>"
    | (sector) "unat (dindex d) = 15" "Suc (unat (dsector d)) < ?p" "d' = d\<lparr>dindex := 0, dsector := dsector d + 1\<rparr>"
    | (ended) "dend d'" "walk_ok vol d'"
    | (cluster) n where "unat (dindex d) = 15" "Suc (unat (dsector d)) = ?p" "d' = d\<lparr>dindex := 0, dsector := 0,
        dvisited := dvisited d + 1, dcluster := n\<rparr>" "dvisited d + 1 \<le> drop_bit (9 + unat (spc_shift vol)) MAX_DIR_BYTES"
  proof -
    have idx: "(dindex d + 1 < ENTRIES_PER_SECTOR) = (unat (dindex d) < 15)"
      by (simp add: word_less_nat_alt const_defs i1)
    have sec: "(dsector d + 1 < push_bit (unat (spc_shift vol)) 1) = (Suc (unat (dsector d)) < ?p)"
      by (simp only: word_less_nat_alt s1 shift_one [OF spc])
    obtain e n fs1 where n: "fat_next read vol (dcluster d) fs = (e, n, fs1)"
      by (cases "fat_next read vol (dcluster d) fs") auto
    have i15: "\<not> unat (dindex d) < 15 \<Longrightarrow> unat (dindex d) = 15" and sp: "\<not> Suc (unat (dsector d)) < ?p \<Longrightarrow> Suc (unat (dsector d)) = ?p"
      using d(1) by (auto simp: walk_ok_def)
    show ?thesis
      using a idx sec i15 sp d(1) that
      by (auto simp: dir_advance_def Let_def n walk_ok_def not_less split: if_splits)
  qed
  then show ?thesis
  proof cases
    case cluster
    have "?M \<le> 16 * ?p * ?M"
      by simp
    then have "?M \<le> 2 ^ 20"
      using most_bound [OF spc] by (rule order_trans)
    then have "unat (dvisited d) < 2 ^ 31"
      using d(1) unfolding walk_ok_def by simp
    then have v: "unat (dvisited d + 1) = Suc (unat (dvisited d))"
      by (rule unat_inc)
    have "unat (dvisited d + 1) \<le> ?M"
      using cluster(4) by (simp add: most_clusters_def word_le_nat_alt)
    then have ok: "walk_ok vol d'"
      using v by (simp add: cluster(3) walk_ok_def)
    have "?p * (unat (dvisited d) - 1) + ?p = ?p * unat (dvisited d)"
      using d(1) by (intro times_pred) (simp add: walk_ok_def)
    then have "?pos d + 1 = 16 * (?p * unat (dvisited d))"
      using cluster(1,2) by (intro last_entry) simp_all
    then show ?thesis
      using ok below d(2) v by (simp add: walk_rank_def cluster(3))
  qed (use d below i1 s1 in \<open>auto simp: walk_ok_def walk_rank_def\<close>)
qed

lemma read_set_walk:
  "\<lbrakk>unat (spc_shift vol) \<le> 16; walk_ok vol d; k \<le> count; \<not> dend d; read_set read vol k count s d fs = (Inr whole, s', d', fs')\<rbrakk>
     \<Longrightarrow> walk_ok vol d' \<and> \<not> dend d' \<and> walk_rank vol d' < walk_rank vol d"
proof (induction read vol k count s d fs rule: read_set.induct)
  case (1 read vol k count s d fs)
  obtain err1 d1 fs1 where a: "dir_advance read vol d fs = (err1, d1, fs1)"
    by (cases "dir_advance read vol d fs") auto
  obtain e err2 d2 fs2 where e: "dir_entry read vol d1 fs1 = (e, err2, d2, fs2)"
    by (cases "dir_entry read vol d1 fs1") auto
  have z: "err1 = 0" and "e \<noteq> None"
    using "1.prems" a e by (auto simp: read_set.simps [of read vol k] Let_def split: if_splits option.splits)
  then obtain en where en: "e = Some en"
    by blast
  note w1 = dir_advance_walk [OF "1.prems"(1,2,4) a [unfolded z]] and w2 = dir_entry_walk [OF e]
  have live: "\<not> dend d2"
    using w2 en by simp
  show ?case
  proof (cases "not_in_set k en")
    case True
    then have "d' = d2"
      using "1.prems"(3,5) a e z en by (simp add: read_set.simps [of read vol k] Let_def)
    then show ?thesis
      using w1 w2 live by simp
  next
    case False
    then have r: "read_set read vol (k + 1) count (set_entry k en s) d2 fs2 = (Inr whole, s', d', fs')"
      using "1.prems"(3,5) a e z en by (simp add: read_set.simps [of read vol k] Let_def)
    show ?thesis
    proof (cases "k + 1 \<le> count")
      case True
      have "walk_ok vol d' \<and> \<not> dend d' \<and> walk_rank vol d' < walk_rank vol d2"
        using "1.IH" [OF "1.prems"(3) a [symmetric] refl refl _ e [symmetric] refl refl refl en False "1.prems"(1) _ True live r] z w1 w2
        by simp
      then show ?thesis using w1 w2 by simp
    next
      case False
      then have "d' = d2"
        using r by (simp add: read_set.simps [of read vol "k + 1"] read_set.simps [of read vol "Suc k"])
      then show ?thesis using w1 w2 live by simp
    qed
  qed
qed

lemma find_loop_ends:
  "\<lbrakk>unat (spc_shift vol) \<le> 16; walk_ok vol d; walk_rank vol d < f\<rbrakk> \<Longrightarrow> find_loop f read vol name out d fs \<noteq> None"
proof (induction f arbitrary: d fs)
  case (Suc f)
  obtain e err1 d1 fs1 where e: "dir_entry read vol d fs = (e, err1, d1, fs1)"
    by (cases "dir_entry read vol d fs") auto
  note w1 = dir_entry_walk [OF e]
  show ?case
  proof (cases e)
    case None
    then show ?thesis using e by simp
  next
    case (Some en)
    have d1: "walk_ok vol d1" "\<not> dend d1" "walk_rank vol d1 < Suc f"
      using w1 Suc.prems Some by simp_all
    obtain err2 d2 fs2 where a: "dir_advance read vol d1 fs1 = (err2, d2, fs2)"
      by (cases "dir_advance read vol d1 fs1") auto
    obtain r s d3 fs3 where rs: "read_set read vol 1 (unat (en ! 1)) (set_start en d1) d1 fs1 = (r, s, d3, fs3)"
      by (cases "read_set read vol 1 (unat (en ! 1)) (set_start en d1) d1 fs1") auto
    obtain err4 d4 fs4 where b: "dir_advance read vol d3 fs3 = (err4, d4, fs4)"
      by (cases "dir_advance read vol d3 fs3") auto
    obtain err5 f5 fs5 where x: "file_extent read vol (es_flags s) (with_directory en (es_file s)) fs3 = (err5, f5, fs5)"
      by (cases "file_extent read vol (es_flags s) (with_directory en (es_file s)) fs3") auto
    have ih2: "find_loop f read vol name out d2 fs2 \<noteq> None" if "err2 = 0"
      using dir_advance_walk [OF Suc.prems(1) d1(1,2) a [unfolded that]] d1(3) by (intro Suc.IH [OF Suc.prems(1)]) auto
    have w3: "walk_ok vol d3 \<and> \<not> dend d3 \<and> walk_rank vol d3 < walk_rank vol d1" if "r = Inr w" "is_set en" for w
      using that d1 by (intro read_set_walk [OF Suc.prems(1) d1(1) _ d1(2) rs [unfolded that(1)]])
        (simp add: is_set_def word_le_nat_alt)
    have ih3: "find_loop f read vol name out d3 fs3 \<noteq> None" if "r = Inr w" "is_set en" for w
      using w3 [OF that] d1(3) by (intro Suc.IH [OF Suc.prems(1)]) auto
    have ih4: "find_loop f read vol name out d4 fs4 \<noteq> None" if "r = Inr w" "is_set en" "err4 = 0" for w
      using w3 [OF that(1,2)] dir_advance_walk [OF Suc.prems(1) _ _ b [unfolded that(3)]] d1(3)
      by (intro Suc.IH [OF Suc.prems(1)]) auto
    show ?thesis
    proof (cases "en ! 0 = T_END \<or> \<not> is_set en")
      case True
      then show ?thesis using ih2 by (auto simp: e Some a)
    next
      case False
      show ?thesis
      proof (cases r)
        case (Inl err)
        then show ?thesis using False by (simp add: e Some rs [simplified])
      next
        case (Inr w)
        then show ?thesis using False ih3 [OF Inr] ih4 [OF Inr] by (simp add: e Some rs [simplified] b x)
      qed
    qed
  qed
qed simp

lemma open_walk: "unat (spc_shift vol) \<le> 16 \<Longrightarrow> walk_ok vol (dir_open c) \<and> walk_rank vol (dir_open c) \<le> 2 ^ 20"
  using most_bound [of vol] by (simp add: walk_ok_def dir_open_def walk_rank_def most_clusters_def)

section \<open>What a walk and a file promise\<close>

lemma list_loop_ends:
  "\<lbrakk>unat (spc_shift vol) \<le> 16; walk_ok vol d; walk_rank vol d < f\<rbrakk> \<Longrightarrow> list_loop f read vol g ctx d fs \<noteq> None"
proof (induction f arbitrary: d fs ctx)
  case (Suc f)
  obtain e err1 d1 fs1 where e: "dir_entry read vol d fs = (e, err1, d1, fs1)"
    by (cases "dir_entry read vol d fs") auto
  note w1 = dir_entry_walk [OF e]
  show ?case
  proof (cases e)
    case None
    then show ?thesis using e by simp
  next
    case (Some en)
    have d1: "walk_ok vol d1" "\<not> dend d1" "walk_rank vol d1 < Suc f"
      using w1 Suc.prems Some by simp_all
    obtain err2 d2 fs2 where a: "dir_advance read vol d1 fs1 = (err2, d2, fs2)"
      by (cases "dir_advance read vol d1 fs1") auto
    obtain r s d3 fs3 where rs: "read_set read vol 1 (unat (en ! 1)) (set_start en d1) d1 fs1 = (r, s, d3, fs3)"
      by (cases "read_set read vol 1 (unat (en ! 1)) (set_start en d1) d1 fs1") auto
    obtain err4 d4 fs4 where b: "dir_advance read vol d3 fs3 = (err4, d4, fs4)"
      by (cases "dir_advance read vol d3 fs3") auto
    obtain st c2 where st: "g (list_name (es_chars s)) (listed_file en s) ctx = (st, c2)"
      by fastforce
    have ih2: "list_loop f read vol g ctx d2 fs2 \<noteq> None" if "err2 = 0"
      using dir_advance_walk [OF Suc.prems(1) d1(1,2) a [unfolded that]] d1(3) by (intro Suc.IH [OF Suc.prems(1)]) auto
    have w3: "walk_ok vol d3 \<and> \<not> dend d3 \<and> walk_rank vol d3 < walk_rank vol d1" if "r = Inr w" "is_set en" for w
      using that d1 by (intro read_set_walk [OF Suc.prems(1) d1(1) _ d1(2) rs [unfolded that(1)]])
        (simp add: is_set_def word_le_nat_alt)
    have ih3: "list_loop f read vol g c d3 fs3 \<noteq> None" if "r = Inr w" "is_set en" for w c
      using w3 [OF that] d1(3) by (intro Suc.IH [OF Suc.prems(1)]) auto
    have ih4: "list_loop f read vol g c d4 fs4 \<noteq> None" if "r = Inr w" "is_set en" "err4 = 0" for w c
      using w3 [OF that(1,2)] dir_advance_walk [OF Suc.prems(1) _ _ b [unfolded that(3)]] d1(3)
      by (intro Suc.IH [OF Suc.prems(1)]) auto
    show ?thesis
    proof (cases "en ! 0 = T_END \<or> \<not> is_set en")
      case True
      then show ?thesis using ih2 by (auto simp: e Some a)
    next
      case False
      show ?thesis
      proof (cases r)
        case (Inl err)
        then show ?thesis using False by (simp add: e Some rs [simplified])
      next
        case (Inr w)
        then show ?thesis using False ih3 [OF Inr] ih4 [OF Inr] by (simp add: e Some rs [simplified] b st)
      qed
    qed
  qed
qed simp

lemma find_bitmap_ends:
  "\<lbrakk>unat (spc_shift vol) \<le> 16; walk_ok vol d; walk_rank vol d < f\<rbrakk> \<Longrightarrow> find_bitmap f read vol d fs \<noteq> None"
proof (induction f arbitrary: d fs)
  case (Suc f)
  obtain e err1 d1 fs1 where e: "dir_entry read vol d fs = (e, err1, d1, fs1)"
    by (cases "dir_entry read vol d fs") auto
  note w1 = dir_entry_walk [OF e]
  show ?case
  proof (cases e)
    case None
    then show ?thesis using e by simp
  next
    case (Some en)
    have d1: "walk_ok vol d1" "\<not> dend d1" "walk_rank vol d1 < Suc f"
      using w1 Suc.prems Some by simp_all
    obtain err2 d2 fs2 where a: "dir_advance read vol d1 fs1 = (err2, d2, fs2)"
      by (cases "dir_advance read vol d1 fs1") auto
    have ih2: "find_bitmap f read vol d2 fs2 \<noteq> None" if "err2 = 0"
      using dir_advance_walk [OF Suc.prems(1) d1(1,2) a [unfolded that]] d1(3) by (intro Suc.IH [OF Suc.prems(1)]) auto
    then show ?thesis by (auto simp: e Some a Let_def split: prod.splits)
  qed
qed simp

lemma try_volume_ends: "try_volume (Suc (2 ^ 20)) read start limit vol fs \<noteq> None"
proof -
  obtain e b x where r: "read start (card fs) = (e, b, x)"
    by (cases "read start (card fs)") auto
  obtain e1 v1 where t: "take_boot b start limit vol = (e1, v1)"
    by fastforce
  have "find_bitmap (Suc (2 ^ 20)) read v1 (dir_open (vroot v1)) (fs\<lparr>dir_buf := b, card := x\<rparr>) \<noteq> None" if "e1 = 0"
    using take_boot_ok [OF t [unfolded that]] open_walk [of v1 "vroot v1"]
    by (intro find_bitmap_ends) (auto simp: vol_ok_def le_imp_less_Suc)
  then show ?thesis
    by (auto simp del: find_bitmap.simps power_Suc simp: try_volume_def r t Let_def)
qed

lemma try_volumes_ends: "try_volumes (Suc (2 ^ 20)) read ps err vol fs \<noteq> None"
proof (induction ps arbitrary: err vol fs)
  case (Cons p ps)
  obtain start len where p: "p = (start, len)" by fastforce
  obtain v where "try_volume (Suc (2 ^ 20)) read start len vol fs = Some v"
    using try_volume_ends by fastforce
  then show ?case
    using Cons.IH by (cases v) (simp add: p)
qed simp

text \<open>C36: Mounting a volume ends, whatever is on the card, and finding or listing a file in a mounted volume ends,
  whatever its FAT and its directories say: 1048577 entries are enough fuel for each walk.\<close>

theorem walks_end:
  "exfat_mount 1048577 read v s \<noteq> None \<and>
   (exfat_mount fuel read v s = Some (0, vol, fs1) \<longrightarrow>
      exfat_find 1048577 read vol dir name out fs \<noteq> None \<and> exfat_list 1048577 read vol dir g ctx fs \<noteq> None)"
proof -
  have n: "1048577 = Suc (2 ^ 20)" by simp
  have "exfat_mount 1048577 read v s \<noteq> None"
    using try_volume_ends try_volumes_ends unfolding n
    by (auto simp: exfat_mount_def Let_def simp del: power_Suc split: prod.splits)
  moreover have "exfat_find 1048577 read vol dir name out fs \<noteq> None \<and> exfat_list 1048577 read vol dir g ctx fs \<noteq> None"
    if "exfat_mount fuel read v s = Some (0, vol, fs1)"
  proof -
    have spc: "unat (spc_shift vol) \<le> 16"
      using mounted_vol_ok [OF that] by (simp add: vol_ok_def)
    then show ?thesis
      using find_loop_ends [OF spc, of "dir_open dir" "Suc (2 ^ 20)"] list_loop_ends [OF spc, of "dir_open dir" "Suc (2 ^ 20)"]
        open_walk [OF spc, of dir] unfolding n by (auto simp: exfat_find_def exfat_list_def less_Suc_eq_le simp del: power_Suc find_loop.simps list_loop.simps)
  qed
  ultimately show ?thesis by blast
qed

text \<open>A file found in a mounted volume lies in the volume: its sectors are past the volume's FAT and before its end,
  whatever its directory entry says, and no more of it is valid than it is long.\<close>

theorem file_in_volume:
  assumes "exfat_mount f read v s = Some (0, vol, fs1)"
    and "exfat_find g read vol dir name out fs2 = Some (0, file, fs3)" and "first_cluster file \<noteq> 0"
  shows "unat (vstart vol) + 24 < unat (first_sector file) \<and>
    512 * unat (first_sector file) + unat (flength file) \<le> 512 * (unat (vstart vol) + unat (vsectors vol)) \<and>
    unat (vstart vol) + unat (vsectors vol) < 2 ^ 32 \<and> fvalid file \<le> flength file"
proof -
  have ok: "vol_ok vol"
    using mounted_vol_ok [OF assms(1)] by simp
  have "file_ok vol file"
    using assms(2) find_loop_ok [OF ok] by (auto simp: exfat_find_def split: if_splits)
  then show ?thesis
    using ok assms(3) by (auto simp: file_ok_def vol_ok_def word_less_nat_alt)
qed

text \<open>A small volume: a boot sector at 0, the FAT at 24, and from 32 on the bitmap, the root directory and an
  empty place for a package, \<^verbatim>\<open>lfstage.bin\<close>, of one block.\<close>

definition demo_boot_sector :: "u8 list" where
  "demo_boot_sector =
     [0xEB, 0x76, 0x90, 0x45, 0x58, 0x46, 0x41, 0x54, 0x20, 0x20, 0x20] @ replicate 53 0 @ replicate 8 0 @
     [48, 0, 0, 0, 0, 0, 0, 0, 24, 0, 0, 0, 1, 0, 0, 0, 32, 0, 0, 0, 12, 0, 0, 0, 3, 0, 0, 0] @ replicate 8 0 @
     [9, 0, 1] @ replicate 399 0 @ [0x55, 0xAA]"

definition lfstage :: "u8 list" where
  "lfstage = [0x6c, 0x66, 0x73, 0x74, 0x61, 0x67, 0x65, 0x2e, 0x62, 0x69, 0x6e]"

definition demo_root_sector :: "u8 list" where
  "demo_root_sector =
     ([0x81] @ replicate 19 0 @ [2, 0, 0, 0, 2, 0, 0, 0, 0, 0, 0, 0]) @
     ([0x85, 2, 0x56, 0x8f] @ replicate 28 0) @
     ([0xC0, 3, 0, 11, 0x77, 0x5a, 0, 0, 0, 0x10] @ replicate 10 0 @ [4, 0, 0, 0, 0, 0x10, 0, 0, 0, 0, 0, 0]) @
     ([0xC1, 0] @ concat (map (\<lambda>c. [c, 0]) lfstage) @ replicate 8 0) @ replicate 384 0"

definition demo_sectors :: "unit exfat_read" where
  "demo_sectors s x = (0, if s = 0 then demo_boot_sector else if s = 33 then demo_root_sector else replicate 512 0, x)"

definition demo_fs :: "unit fs" where
  "demo_fs = \<lparr>dir_buf = [], fat_buf = [], fat_cached = 0, card = ()\<rparr>"

definition blank_vol :: exfat_vol where
  "blank_vol = \<lparr>vstart = 0, vsectors = 0, vfat = 0, vheap = 0, vclusters = 0, vroot = 0, vbitmap = 0, vbitmap_bytes = 0,
     spc_shift = 0, vdirty = False\<rparr>"

definition demo_vol :: exfat_vol where
  "demo_vol = \<lparr>vstart = 0, vsectors = 48, vfat = 24, vheap = 32, vclusters = 12, vroot = 3, vbitmap = 2, vbitmap_bytes = 2,
     spc_shift = 0, vdirty = False\<rparr>"

lemma demo_exfat_mount:
  "exfat_mount 2 demo_sectors blank_vol demo_fs = Some (0, demo_vol, demo_fs\<lparr>dir_buf := demo_root_sector\<rparr>)"
  by code_simp

lemma demo_find:
  "map_option (\<lambda>(e, f, s). (e, f)) (exfat_find 3 demo_sectors demo_vol 3 lfstage no_file demo_fs) =
     Some (0, \<lparr>flength = 4096, fvalid = 4096, first_cluster = 4, first_sector = 34, entry_sector = 33, entry_offset = 32, fflags = 3\<rparr>)"
  by code_simp

text \<open>C37: A volume that mounts is well formed, whatever its boot sector says: its FAT lies between the boot region and the
  heap and the heap in the volume, all of it below \<open>2^32\<close> sectors; the root directory and the bitmap are clusters of
  the heap, the bitmap has a bit for every cluster, and the sectors of every cluster are in the heap, so that
  \<open>exfat_cluster_sector\<close> never wraps.\<close>

theorem volume_well_formed:
  assumes "exfat_mount f read v s = Some (0, vol, s')"
  shows "vol_ok vol \<and> exfat_cluster_sector vol (vbitmap vol) \<noteq> 0 \<and> unat (vclusters vol) \<le> 8 * unat (vbitmap_bytes vol) \<and>
    (\<forall>c. 2 \<le> c \<and> c - 2 < vclusters vol \<longrightarrow>
      unat (vheap vol) \<le> unat (exfat_cluster_sector vol c) \<and>
      unat (exfat_cluster_sector vol c) + 2 ^ unat (spc_shift vol) \<le> unat (vheap vol) + heap_sectors vol)"
proof -
  note ok = mounted_vol_ok [OF assms]
  have "unat (vheap vol) \<le> unat (exfat_cluster_sector vol c) \<and>
      unat (exfat_cluster_sector vol c) + 2 ^ unat (spc_shift vol) \<le> unat (vheap vol) + heap_sectors vol"
    if c: "2 \<le> c" "c - 2 < vclusters vol" for c
  proof -
    have "Suc (unat c - 2) \<le> unat (vclusters vol)"
      using c by (simp add: word_less_nat_alt unat_sub)
    then have "Suc (unat c - 2) * 2 ^ unat (spc_shift vol) \<le> heap_sectors vol"
      unfolding heap_sectors_def by (rule mult_le_mono1)
    then show ?thesis
      using ok cluster_sector_nat [OF _ c] by simp
  qed
  then show ?thesis
    using ok by blast
qed

lemma volume_well_formed_witness:
  "vol_ok demo_vol \<and> unat (vheap demo_vol) \<le> unat (exfat_cluster_sector demo_vol 3)"
proof -
  have "2 \<le> (3 :: u32)" "3 - 2 < vclusters demo_vol"
    by (simp_all add: demo_vol_def)
  then show ?thesis
    using volume_well_formed [OF demo_exfat_mount] by blast
qed

lemma walks_end_witness:
  "exfat_find 1048577 demo_sectors demo_vol 3 lfstage no_file demo_fs \<noteq> None \<and>
   exfat_list 1048577 demo_sectors demo_vol 3 (\<lambda>n f (c :: nat). (0, c + 1)) 0 demo_fs \<noteq> None"
  using walks_end [where read = demo_sectors and fuel = 2 and dir = 3 and name = "lfstage" and out = no_file and fs = demo_fs
      and g = "\<lambda>n f (c :: nat). (0, c + 1)" and ctx = 0, THEN conjunct2, THEN mp, OF demo_exfat_mount] .

lemma file_in_volume_witness:
  "0 + 24 < unat (34 :: u32) \<and> 512 * unat (34 :: u32) + unat (4096 :: u64) \<le> 512 * (unat (vstart demo_vol) + unat (vsectors demo_vol)) \<and>
   unat (vstart demo_vol) + unat (vsectors demo_vol) < 2 ^ 32 \<and> (4096 :: u64) \<le> 4096"
proof -
  obtain s where "exfat_find 3 demo_sectors demo_vol 3 lfstage no_file demo_fs =
      Some (0, \<lparr>flength = 4096, fvalid = 4096, first_cluster = 4, first_sector = 34, entry_sector = 33, entry_offset = 32,
        fflags = 3\<rparr>, s)"
    using demo_find by auto
  from file_in_volume [OF demo_exfat_mount this] show ?thesis
    by (simp add: demo_vol_def)
qed

end
