(* ===== verification/LF_Card.thy ===== *)
theory LF_Card
  imports LF_Exfat
begin

text \<open>
  Where the block space and the other files are on a card, \<^verbatim>\<open>src/src/card.c\<close>, over the exFAT reader. The text
  of the message is a datatype of reasons. The theorem: whatever the card says, the sectors of a file found lie
  in its volume and on the card.
\<close>

definition SECTORS_PER_BLOCK :: u32 where [const_defs]: "SECTORS_PER_BLOCK = 8"
definition CARD_NONE :: int where [const_defs]: "CARD_NONE = 0"
definition CARD_EXFAT_FILE :: int where [const_defs]: "CARD_EXFAT_FILE = 1"

text \<open>The names as bytes: \<^verbatim>\<open>lfblocks.fb4\<close>, \<^verbatim>\<open>lfstage.bin\<close>, \<^verbatim>\<open>lfbackup.bin\<close>, \<^verbatim>\<open>update.lfu\<close> and \<^verbatim>\<open>LITEFORTH\<close>.\<close>

definition CARD_BLOCKS_FILE :: "u8 list" where
  "CARD_BLOCKS_FILE = [0x6C, 0x66, 0x62, 0x6C, 0x6F, 0x63, 0x6B, 0x73, 0x2E, 0x66, 0x62, 0x34]"

definition CARD_STAGE_FILE :: "u8 list" where
  "CARD_STAGE_FILE = [0x6C, 0x66, 0x73, 0x74, 0x61, 0x67, 0x65, 0x2E, 0x62, 0x69, 0x6E]"

definition CARD_BACKUP_FILE :: "u8 list" where
  "CARD_BACKUP_FILE = [0x6C, 0x66, 0x62, 0x61, 0x63, 0x6B, 0x75, 0x70, 0x2E, 0x62, 0x69, 0x6E]"

definition CARD_UPDATE_FILE :: "u8 list" where
  "CARD_UPDATE_FILE = [0x75, 0x70, 0x64, 0x61, 0x74, 0x65, 0x2E, 0x6C, 0x66, 0x75]"

definition BLK_SIGNATURE :: "u8 list" where
  "BLK_SIGNATURE = [0x4C, 0x49, 0x54, 0x45, 0x46, 0x4F, 0x52, 0x54, 0x48]"

record card_map =
  mkind :: int
  mbase :: u32
  mblocks :: u32
  mspace :: u32
  mwritable :: bool
  mmounted :: bool
  mvol :: exfat_vol
  mfile :: exfat_file

datatype card_msg =
  BlocksAt u32 u32 bool | BlocksDirectory | BlocksFragmented | BlocksShort | BlocksPastEnd | RootUnreadable
| NoBlocksFile | NoVolume

definition no_vol :: exfat_vol where
  "no_vol = \<lparr>vstart = 0, vsectors = 0, vfat = 0, vheap = 0, vclusters = 0, vroot = 0, vbitmap = 0, vbitmap_bytes = 0,
     spc_shift = 0, vdirty = False\<rparr>"

text \<open>\<open>memset (m, 0, sizeof *m)\<close>.\<close>

definition no_map :: card_map where
  "no_map = \<lparr>mkind = 0, mbase = 0, mblocks = 0, mspace = 0, mwritable = False, mmounted = False, mvol = no_vol, mfile = no_file\<rparr>"

definition check_signature_block :: "'x exfat_read \<Rightarrow> card_map \<Rightarrow> u32 \<Rightarrow> 'x fs \<Rightarrow> int \<times> card_map \<times> 'x fs" where
  "check_signature_block read m blocks fs =
     (let (err, b, x) = read (mbase m) (card fs); fs = fs\<lparr>card := x\<rparr> in
      if err \<noteq> 0 then (err, m, fs)
      else if take 9 b = BLK_SIGNATURE then (0, m\<lparr>mblocks := blocks, mwritable := True\<rparr>, fs)
      else (0, m\<lparr>mblocks := 1, mwritable := False\<rparr>, fs))"

definition fits :: "u32 \<Rightarrow> u32 \<Rightarrow> u32 \<Rightarrow> bool" where
  "fits card_sectors base blocks \<longleftrightarrow>
     card_sectors = 0 \<or> (ucast base :: u64) + ucast blocks * ucast SECTORS_PER_BLOCK \<le> ucast card_sectors"

text \<open>The whole blocks of a file, as many as sectors can be counted for.\<close>

definition file_blocks :: "exfat_file \<Rightarrow> u64" where
  "file_blocks f =
     (let n = fvalid f div 4096; most = 0xFFFFFFFF div ucast SECTORS_PER_BLOCK in if n > most then most else n)"

text \<open>Why the blocks file can't be used.\<close>

definition blocks_refused :: "u32 \<Rightarrow> exfat_file \<Rightarrow> card_msg option" where
  "blocks_refused card_sectors f =
     (let n = file_blocks f in
      if fflags f AND EXFAT_DIRECTORY \<noteq> 0 then Some BlocksDirectory
      else if fflags f AND EXFAT_CONTIGUOUS = 0 then Some BlocksFragmented
      else if n = 0 then Some BlocksShort
      else if \<not> fits card_sectors (first_sector f) (ucast n) then Some BlocksPastEnd
      else None)"

definition card_find_blocks ::
  "nat \<Rightarrow> 'x exfat_read \<Rightarrow> u32 \<Rightarrow> 'x fs \<Rightarrow> (int \<times> card_map \<times> card_msg option \<times> 'x fs) option" where
  "card_find_blocks f read card_sectors fs =
     (case exfat_mount f read no_vol fs of
        None \<Rightarrow> None
      | Some (err, vol, fs) \<Rightarrow>
          let m = no_map\<lparr>mvol := vol\<rparr> in
          if err \<noteq> 0 then Some (0, m, Some NoVolume, fs)
          else
            let m = m\<lparr>mmounted := True\<rparr> in
            (case exfat_find f read vol (vroot vol) CARD_BLOCKS_FILE no_file fs of
               None \<Rightarrow> None
             | Some (err, file, fs) \<Rightarrow>
                 let m = m\<lparr>mfile := file\<rparr> in
                 if err = ERR_FILE_NOT_FOUND then Some (0, m, Some NoBlocksFile, fs)
                 else if err \<noteq> 0 then Some (0, m, Some RootUnreadable, fs)
                 else
                   (case blocks_refused card_sectors file of
                      Some why \<Rightarrow> Some (0, m, Some why, fs)
                    | None \<Rightarrow>
                        let n = ucast (file_blocks file);
                            (err, m, fs) = check_signature_block read
                              (m\<lparr>mkind := CARD_EXFAT_FILE, mbase := first_sector file, mspace := n\<rparr>) n fs
                        in if err \<noteq> 0 then Some (err, m, None, fs)
                           else Some (0, m, Some (BlocksAt (mblocks m) (mbase m) (mwritable m)), fs))))"

text \<open>The error, and the file's first sector and blocks.\<close>

definition card_find_file ::
  "nat \<Rightarrow> 'x exfat_read \<Rightarrow> u32 \<Rightarrow> card_map \<Rightarrow> u8 list \<Rightarrow> 'x fs \<Rightarrow> (int \<times> u32 \<times> u32 \<times> 'x fs) option" where
  "card_find_file f read card_sectors m name fs =
     (if \<not> mmounted m then Some (ERR_FILE_NOT_FOUND, 0, 0, fs)
      else
        (case exfat_find f read (mvol m) (vroot (mvol m)) name no_file fs of
           None \<Rightarrow> None
         | Some (err, file, fs) \<Rightarrow>
             if err \<noteq> 0 then Some (err, 0, 0, fs)
             else
               let n = file_blocks file in
               if fflags file AND EXFAT_DIRECTORY \<noteq> 0 \<or> fflags file AND EXFAT_CONTIGUOUS = 0 \<or> n = 0 \<or>
                  \<not> fits card_sectors (first_sector file) (ucast n) then Some (ERR_BLK_PARSE_FAIL, 0, 0, fs)
               else Some (0, first_sector file, ucast n, fs)))"

definition card_list ::
  "nat \<Rightarrow> 'x exfat_read \<Rightarrow> card_map \<Rightarrow> (u8 list \<Rightarrow> exfat_file \<Rightarrow> 'c \<Rightarrow> int \<times> 'c) \<Rightarrow> 'c \<Rightarrow> 'x fs \<Rightarrow>
    (int \<times> 'c \<times> 'x fs) option" where
  "card_list f read m g ctx fs =
     (if \<not> mmounted m then Some (ERR_FILE_NOT_FOUND, ctx, fs)
      else exfat_list f read (mvol m) (vroot (mvol m)) g ctx fs)"

section \<open>A file's sectors are on the card\<close>

lemma file_blocks_nat: "unat (ucast (file_blocks f) :: u32) = unat (file_blocks f)"
  "unat (file_blocks f) \<le> unat (fvalid f) div 4096" "unat (file_blocks f) \<le> 536870911"
proof -
  have le: "unat (file_blocks f) \<le> unat (fvalid f) div 4096 \<and> unat (file_blocks f) \<le> 536870911"
    by (auto simp: file_blocks_def Let_def SECTORS_PER_BLOCK_def word_le_nat_alt word_less_nat_alt unat_div not_less)
  then show "unat (file_blocks f) \<le> unat (fvalid f) div 4096" "unat (file_blocks f) \<le> 536870911"
    by blast+
  show "unat (ucast (file_blocks f) :: u32) = unat (file_blocks f)"
    using le by (simp add: unsigned_ucast_eq take_bit_nat_eq_self)
qed

lemma fits_nat:
  assumes "fits cs base n" "cs \<noteq> 0"
  shows "unat base + 8 * unat n \<le> unat cs"
proof -
  have w: "unat (ucast x :: u64) = unat x" for x :: u32
    by (rule unat_ucast_wide) simp
  have "unat (ucast base + ucast n * 8 :: u64) = unat base + 8 * unat n"
    using unat_bounds(3) [of base] unat_bounds(3) [of n] by (simp add: unat_word_ariths w)
  then show ?thesis
    using assms by (simp add: fits_def SECTORS_PER_BLOCK_def word_le_nat_alt w)
qed

lemma find_blocks_mounted:
  assumes "card_find_blocks f read cs fs = Some (err, m, msg, fs')" "mmounted m"
  shows "vol_ok (mvol m)"
proof -
  obtain e vol fs1 where e: "exfat_mount f read no_vol fs = Some (e, vol, fs1)"
    using assms(1) by (auto simp: card_find_blocks_def split: option.splits)
  have z: "e = 0"
    using assms e by (auto simp: card_find_blocks_def no_map_def Let_def split: if_splits)
  have "mvol m = vol"
    using assms(1) e z
    by (auto simp: card_find_blocks_def check_signature_block_def Let_def split: option.splits if_splits prod.splits)
  then show ?thesis
    using mounted_vol_ok [OF e [unfolded z]] by simp
qed

lemma found_file_fits:
  assumes vol: "vol_ok vol" and f: "exfat_find f read vol dir name out fs = Some (0, fi, fs')"
    and n: "file_blocks fi \<noteq> 0" and fit: "fits cs (first_sector fi) (ucast (file_blocks fi))"
  defines "k \<equiv> unat (ucast (file_blocks fi) :: u32)"
  shows "0 < k \<and> unat (vstart vol) + 24 < unat (first_sector fi) \<and>
    unat (first_sector fi) + 8 * k \<le> unat (vstart vol) + unat (vsectors vol) \<and>
    (cs \<noteq> 0 \<longrightarrow> unat (first_sector fi) + 8 * k \<le> unat cs)"
proof -
  have ok: "file_ok vol fi"
    using f find_loop_ok [OF vol] by (auto simp: exfat_find_def split: if_splits)
  have k: "k = unat (file_blocks fi)" "0 < k"
    using n file_blocks_nat by (simp_all add: k_def unat_gt_0)
  then have len: "4096 * k \<le> unat (flength fi)"
    using file_blocks_nat(2) [of fi] ok unfolding file_ok_def word_le_nat_alt by linarith
  then have "first_cluster fi \<noteq> 0"
    using ok k by (auto simp: file_ok_def)
  then have "unat (vheap vol) \<le> unat (first_sector fi) \<and>
      512 * unat (first_sector fi) + unat (flength fi) \<le> 512 * (unat (vheap vol) + heap_sectors vol)"
    using ok by (auto simp only: file_ok_def split: if_splits)
  then show ?thesis
    using vol len k fits_nat [OF fit] unfolding k_def by (auto simp: vol_ok_def word_less_nat_alt)
qed

text \<open>C38: A file that is found on a card is whole blocks between the start of the volume and its end, and on a card whose
  size is known it ends on the card, whatever the boot sector, the FAT and the directory say: so what is written to
  its blocks is written to no other part of the card.\<close>

theorem card_file_on_volume:
  assumes "card_find_blocks f read cs fs1 = Some (0, m, msg, fs2)"
    and "card_find_file g read cs m name fs3 = Some (0, base, n, fs4)"
  shows "0 < unat n \<and> unat (vstart (mvol m)) + 24 < unat base \<and>
    unat base + 8 * unat n \<le> unat (vstart (mvol m)) + unat (vsectors (mvol m)) \<and>
    (cs \<noteq> 0 \<longrightarrow> unat base + 8 * unat n \<le> unat cs)"
proof -
  have m: "mmounted m"
    using assms(2) by (auto simp: card_find_file_def split: if_splits)
  obtain e fi fs where x: "exfat_find g read (mvol m) (vroot (mvol m)) name no_file fs3 = Some (e, fi, fs)"
    using assms(2) m by (cases "exfat_find g read (mvol m) (vroot (mvol m)) name no_file fs3") (auto simp: card_find_file_def)
  have f: "exfat_find g read (mvol m) (vroot (mvol m)) name no_file fs3 = Some (0, fi, fs4)"
      "file_blocks fi \<noteq> 0" "fits cs (first_sector fi) (ucast (file_blocks fi))"
      "base = first_sector fi" "n = ucast (file_blocks fi)"
    using assms(2) m x by (simp_all add: card_find_file_def Let_def split: if_splits)
  show ?thesis
    using found_file_fits [OF find_blocks_mounted [OF assms(1) m] f(1-3)] unfolding f(4,5) .
qed

definition demo_map :: card_map where
  "demo_map = no_map\<lparr>mmounted := True, mvol := demo_vol\<rparr>"

lemma demo_card_mount:
  "exfat_mount 4 demo_sectors no_vol demo_fs = Some (0, demo_vol, demo_fs\<lparr>dir_buf := demo_root_sector\<rparr>)"
  by code_simp

lemma demo_card_find:
  "map_option (\<lambda>(e, f, s). (e, f)) (exfat_find 4 demo_sectors demo_vol 3 CARD_STAGE_FILE no_file demo_fs) =
     Some (0, \<lparr>flength = 4096, fvalid = 4096, first_cluster = 4, first_sector = 34, entry_sector = 33, entry_offset = 32, fflags = 3\<rparr>)"
  by code_simp

lemma demo_card_none:
  "map_option (\<lambda>(e, f, s). (e, f)) (exfat_find 4 demo_sectors demo_vol 3 CARD_BLOCKS_FILE no_file (demo_fs\<lparr>dir_buf := demo_root_sector\<rparr>)) =
     Some (ERR_FILE_NOT_FOUND, no_file)"
  by code_simp

lemma demo_stage_blocks:
  "file_blocks \<lparr>flength = 4096, fvalid = 4096, first_cluster = 4, first_sector = 34, entry_sector = 33, entry_offset = 32, fflags = 3\<rparr> = 1"
  "fits 48 34 1" "(3 :: u8) AND EXFAT_DIRECTORY = 0" "(3 :: u8) AND EXFAT_CONTIGUOUS \<noteq> 0"
  by code_simp+

lemma demo_card:
  "\<exists>s. card_find_blocks 4 demo_sectors 48 demo_fs = Some (0, demo_map, Some NoBlocksFile, s)"
  "\<exists>s. card_find_file 4 demo_sectors 48 demo_map CARD_STAGE_FILE demo_fs = Some (0, 34, 1, s)"
proof -
  obtain s where n: "exfat_find 4 demo_sectors demo_vol 3 CARD_BLOCKS_FILE no_file (demo_fs\<lparr>dir_buf := demo_root_sector\<rparr>) =
      Some (ERR_FILE_NOT_FOUND, no_file, s)"
    using demo_card_none by auto
  then show "\<exists>s. card_find_blocks 4 demo_sectors 48 demo_fs = Some (0, demo_map, Some NoBlocksFile, s)"
    by (simp add: card_find_blocks_def demo_card_mount demo_map_def no_map_def) (simp add: demo_vol_def)
  obtain s2 where "exfat_find 4 demo_sectors demo_vol 3 CARD_STAGE_FILE no_file demo_fs =
      Some (0, \<lparr>flength = 4096, fvalid = 4096, first_cluster = 4, first_sector = 34, entry_sector = 33, entry_offset = 32, fflags = 3\<rparr>, s2)"
    using demo_card_find by auto
  moreover have "vroot demo_vol = 3"
    by (simp add: demo_vol_def)
  ultimately show "\<exists>s. card_find_file 4 demo_sectors 48 demo_map CARD_STAGE_FILE demo_fs = Some (0, 34, 1, s)"
    by (simp add: card_find_file_def demo_map_def demo_stage_blocks Let_def)
qed

lemma card_file_on_volume_witness:
  "0 < unat (1 :: u32) \<and> unat (vstart demo_vol) + 24 < unat (34 :: u32) \<and>
   unat (34 :: u32) + 8 * unat (1 :: u32) \<le> unat (vstart demo_vol) + unat (vsectors demo_vol) \<and>
   unat (34 :: u32) + 8 * unat (1 :: u32) \<le> unat (48 :: u32)"
proof -
  obtain s1 s2 where "card_find_blocks 4 demo_sectors 48 demo_fs = Some (0, demo_map, Some NoBlocksFile, s1)"
    and "card_find_file 4 demo_sectors 48 demo_map CARD_STAGE_FILE demo_fs = Some (0, 34, 1, s2)"
    using demo_card by blast
  from card_file_on_volume [OF this] show ?thesis
    by (simp add: demo_map_def)
qed

end
