(* ===== verification/LF_Fence.thy ===== *)
theory LF_Fence
  imports LF_Update
begin

text \<open>
  What the update code can't change. Everything it does to the board goes through \<open>upd_io\<close>, and what it writes
  to flash is at most 4 KB at a multiple of 4 KB: so a property of the board that each of those operations keeps
  is kept by a whole update. The locale states this once; stage 1 uses it for its flags and for its own image.
\<close>

locale update_port =
  fixes io :: "'x upd_io" and P :: "'x \<Rightarrow> bool"
  assumes keeps_read: "P x \<Longrightarrow> P (snd (snd (flash_read io a n x)))"
    and keeps_erase: "P x \<Longrightarrow> P (snd (flash_erase io a x))"
    and keeps_write: "\<lbrakk>P x; a mod 4096 = 0; length bs \<le> 4096\<rbrakk> \<Longrightarrow> P (snd (flash_write io a bs x))"
    and keeps_stage: "P x \<Longrightarrow> P (snd (snd (stage_read io k x)))"
    and keeps_backup: "P x \<Longrightarrow> P (snd (snd (the (backup_read io) k x)))"
    and keeps_backup_write: "P x \<Longrightarrow> P (snd (the (backup_write io) k bs x))"
    and keeps_random: "P x \<Longrightarrow> P (snd (snd (random io n' x)))"
begin

lemmas port_keeps = keeps_read keeps_erase keeps_stage keeps_backup keeps_backup_write keeps_random

lemma write_checked_kept: "\<lbrakk>P x; a mod 4096 = 0; n \<le> 4096\<rbrakk> \<Longrightarrow> P (snd (write_checked io e a n bs x))"
  by (simp add: write_checked_def Let_def case_prod_unfold port_keeps keeps_write word_le_nat_alt min_le_iff_disj)

lemma record_store_kept: "P x \<Longrightarrow> P (snd (snd (record_store io r x)))"
proof -
  have "record_at k mod 4096 = 0" for k
    by (simp add: record_at_def const_defs)
  then show "P x \<Longrightarrow> P (snd (snd (record_store io r x)))"
    by (simp add: record_store_def Let_def case_prod_unfold write_checked_kept RECORD_SIZE_def)
qed

lemma program_block_kept: "P x \<Longrightarrow> P (snd (program_block io blk bs x))"
proof -
  have "(UPD_V5F_ADDR + blk * UPD_BLOCK) mod 4096 = 0"
  proof -
    have m: "x mod 4096 = take_bit 12 x" for x :: u32
      by (simp add: take_bit_eq_mod)
    have "blk * UPD_BLOCK = push_bit 12 blk" "UPD_V5F_ADDR = push_bit 12 0x24"
      by (simp_all add: push_bit_eq_mult const_defs)
    then have "UPD_V5F_ADDR + blk * UPD_BLOCK = push_bit 12 (0x24 + blk)"
      by (simp add: push_bit_add)
    then show ?thesis
      by (simp add: m take_bit_push_bit)
  qed
  then show "P x \<Longrightarrow> P (snd (program_block io blk bs x))"
    by (simp add: program_block_def Let_def write_checked_kept UPD_BLOCK_def)
qed

lemma header_store_kept: "P x \<Longrightarrow> P (snd (header_store io bs x))"
  by (simp add: header_store_def write_checked_kept UPD_HEADER_def UPD_BLOCK_def)

lemma flash_puts_kept: "P x \<Longrightarrow> P (snd (snd (flash_puts io a len ats S x)))"
  by (induction ats arbitrary: S x) (simp_all add: Let_def case_prod_unfold port_keeps)

lemma record_load_kept: "P x \<Longrightarrow> P (snd (snd (upd_record_load io r x)))"
  by (simp add: upd_record_load_def Let_def case_prod_unfold port_keeps)

lemma installed_mac_kept: "P x \<Longrightarrow> P (snd (snd (installed_mac io r x)))"
  by (simp add: installed_mac_def image_mac_def Let_def case_prod_unfold flash_puts_kept)

lemma region_hash_kept: "P x \<Longrightarrow> P (snd (snd (region_hash io a len p x)))"
  by (simp add: region_hash_def Let_def case_prod_unfold flash_puts_kept)

lemma flash_image_hash_kept: "P x \<Longrightarrow> P (snd (snd (flash_image_hash io a len x)))"
  by (simp add: flash_image_hash_def region_hash_kept)

lemma mmode_ok_kept: "P x \<Longrightarrow> P (snd (mmode_ok io pkg x))"
  by (simp add: mmode_ok_def Let_def case_prod_unfold region_hash_kept)

lemma signed_ok_kept: "P x \<Longrightarrow> P (snd (snd (signed_ok env io keys r ver len s x)))"
  by (simp add: signed_ok_def Let_def case_prod_unfold port_keeps flash_image_hash_kept mmode_ok_kept)

lemma installed_ok_kept: "P x \<Longrightarrow> P (snd (snd (installed_ok env io keys r s x)))"
  by (simp add: installed_ok_def Let_def case_prod_unfold installed_mac_kept signed_ok_kept)

text \<open>Reading the package: its tables are read with the function it was mounted with.\<close>

definition stage_mounted :: "'x sealed_state \<Rightarrow> bool" where
  "stage_mounted s \<longleftrightarrow> content_end s = 0 \<or> read_raw s = Some (stage_read io)"

lemma load_table_kept:
  assumes "read_raw s = Some (stage_read io)" "P x" "load_table t s x = (e, k, s', x')"
  shows "P x' \<and> read_raw s' = read_raw s \<and> content_end s' = content_end s"
  using assms keeps_stage [OF assms(2), of "content_end s + t"] by (auto simp: load_table_def Let_def split: if_splits prod.splits)

lemma open_block_kept:
  assumes "stage_mounted s" "P x" "sealed_open_block env n buf s x = (e, out, s', x')"
  shows "P x' \<and> stage_mounted s'"
proof (cases "n = 0 \<or> content_end s \<le> n")
  case True
  then show ?thesis
    using assms by (auto simp: sealed_open_block_def split: if_splits)
next
  case False
  then have r: "read_raw s = Some (stage_read io)"
    using assms(1) by (auto simp: stage_mounted_def)
  obtain e1 k s1 x1 where t: "load_table (n div PER_TABLE) s x = (e1, k, s1, x1)"
    by (cases "load_table (n div PER_TABLE) s x") auto
  have "x' = x1 \<and> s' = s1"
    using assms(3) False by (auto simp: sealed_open_block_def t Let_def split: if_splits prod.splits)
  then show ?thesis
    using load_table_kept [OF r assms(2) t] r by (simp add: stage_mounted_def)
qed

lemma check_blocks_kept:
  "\<lbrakk>stage_mounted s; P x; check_blocks env (stage_read io) pkg d ns S s x = (e, m, S', s', x')\<rbrakk> \<Longrightarrow> P x' \<and> stage_mounted s'"
proof (induction ns arbitrary: S s x)
  case (Cons n ns)
  obtain e1 buf x1 where r: "stage_read io n x = (e1, buf, x1)"
    by (cases "stage_read io n x") auto
  have p1: "P x1"
    using keeps_stage [OF Cons.prems(2), of n] by (simp add: r)
  obtain e2 out s2 x2 where o: "sealed_open_block env n buf s x1 = (e2, out, s2, x2)"
    by (cases "sealed_open_block env n buf s x1") auto
  note k = open_block_kept [OF Cons.prems(1) p1 o]
  show ?case
  proof (cases "e1 = 0 \<and> e2 = 0")
    case True
    then show ?thesis
      using Cons.prems(3) k Cons.IH [of s2 x2] by (auto simp: r o Let_def split: if_splits)
  next
    case False
    then show ?thesis
      using Cons.prems k p1 by (auto simp: r o Let_def split: if_splits)
  qed
qed simp

lemma unmounted: "stage_mounted (sealed_unmount s)"
  by (simp add: stage_mounted_def sealed_unmount_def)

lemma mount_mounted: "stage_mounted (snd (snd (snd (mount env b0 n board (Some (stage_read io)) pkg u s))))"
proof -
  have k: "stage_mounted (snd (snd (mount_key env board (Some (stage_read io)) u q)))" for q
    by (simp add: mount_key_def Let_def fail_def unmounted split: option.splits sum.splits)
      (simp add: mounted_def stage_mounted_def Let_def)
  show ?thesis
    using k by (simp add: mount_def Let_def fail_def case_prod_unfold unmounted split: option.splits)
qed

lemma mount_package_kept:
  assumes "P x" "mount_package env io keys r c s x = (e, m, pkg, s', x')"
  shows "P x' \<and> (e = 0 \<longrightarrow> stage_mounted s')"
proof -
  obtain e1 buf x1 where r: "stage_read io 0 x = (e1, buf, x1)"
    by (cases "stage_read io 0 x") auto
  have p1: "P x1"
    using keeps_stage [OF assms(1), of 0] by (simp add: r)
  obtain e2 m2 pkg2 s2 where mt:
    "sealed_mount_package env buf (stage_blocks io) (board_of keys r) (stage_read io) no_package s = (e2, m2, pkg2, s2)"
    by (cases "sealed_mount_package env buf (stage_blocks io) (board_of keys r) (stage_read io) no_package s") auto
  have s2: "stage_mounted s2"
    using mount_mounted [of env buf "stage_blocks io" "board_of keys r" no_package UNWRAP s] mt
    by (simp add: sealed_mount_package_def)
  obtain e3 m3 S3 s3 x3 where c:
    "check_blocks env (stage_read io) pkg2 True (content_blocks s2) (b2s_start 32 [] ''LFimage'') s2 x1 = (e3, m3, S3, s3, x3)"
    by (cases "check_blocks env (stage_read io) pkg2 True (content_blocks s2) (b2s_start 32 [] ''LFimage'') s2 x1") auto
  have "x' = x1 \<and> (e = 0 \<longrightarrow> s' = s2) \<or> x' = x3 \<and> s' = s3"
    using assms(2) by (auto simp: mount_package_def r mt c Let_def split: if_splits option.splits)
  then show ?thesis
    using p1 s2 check_blocks_kept [OF s2 p1 c] by auto
qed

text \<open>The backup.\<close>

lemma backup_puts_kept: "P x \<Longrightarrow> P (snd (snd (backup_puts (the (backup_read io)) ns S x)))"
  by (induction ns arbitrary: S x) (simp_all add: Let_def case_prod_unfold port_keeps)

lemma backup_mac_kept: "P x \<Longrightarrow> P (snd (snd (backup_mac io r len hb x)))"
  by (simp add: backup_mac_def Let_def case_prod_unfold backup_puts_kept)

lemma backup_image_kept: "P x \<Longrightarrow> P (snd (backup_image env io k non len ns x))"
  by (induction ns arbitrary: x) (simp_all add: Let_def case_prod_unfold port_keeps)

lemma backup_verify_kept: "P x \<Longrightarrow> P (snd (backup_verify env io k non len ns x))"
  by (induction ns arbitrary: x) (simp_all add: Let_def case_prod_unfold port_keeps)

lemma backup_block0_kept: "P x \<Longrightarrow> P (snd (backup_block0 io blocks x))"
  by (simp add: backup_block0_def Let_def case_prod_unfold port_keeps)

lemma make_backup_kept: "P x \<Longrightarrow> P (snd (snd (make_backup env io r x)))"
  by (simp add: make_backup_def Let_def case_prod_unfold port_keeps backup_image_kept backup_block0_kept
      backup_mac_kept backup_verify_kept)

lemma backup_good_kept: "P x \<Longrightarrow> P (snd (snd (backup_good io r x)))"
  by (simp add: backup_good_def Let_def case_prod_unfold port_keeps backup_mac_kept)

lemma note_progress_kept: "P x \<Longrightarrow> P (snd (snd (note_progress io blk blocks r x)))"
  by (simp add: note_progress_def record_store_kept)

lemma restore_blocks_kept: "P x \<Longrightarrow> P (snd (snd (restore_blocks env io k non blocks blks r x)))"
  by (induction blks arbitrary: r x)
    (simp_all add: Let_def case_prod_unfold port_keeps program_block_kept note_progress_kept)

lemma restored_kept: "P x \<Longrightarrow> P (snd (snd (snd (restored io r msg x))))"
  by (simp add: restored_def Let_def case_prod_unfold installed_mac_kept record_store_kept)

lemma restore_header_kept: "P x \<Longrightarrow> P (snd (restore_header io blocks x))"
  by (simp add: restore_header_def Let_def case_prod_unfold port_keeps header_store_kept)

lemma roll_back_kept: "P x \<Longrightarrow> P (snd (snd (snd (roll_back env io r msg x))))"
  by (simp add: roll_back_def Let_def case_prod_unfold backup_good_kept record_store_kept restore_blocks_kept
      restore_header_kept restored_kept)

lemma start_rollback_kept: "P x \<Longrightarrow> P (snd (snd (snd (start_rollback env io r msg x))))"
  by (simp add: start_rollback_def Let_def case_prod_unfold record_store_kept roll_back_kept)

text \<open>The install.\<close>

lemma install_blocks_kept:
  "\<lbrakk>stage_mounted s; P x; install_blocks env io blocks blks r s x = (e, r', s', x')\<rbrakk> \<Longrightarrow> P x' \<and> stage_mounted s'"
proof (induction blks arbitrary: r s x)
  case (Cons blk blks)
  obtain e1 buf x1 where r: "stage_read io (blk + 1) x = (e1, buf, x1)"
    by (cases "stage_read io (blk + 1) x") auto
  have p1: "P x1"
    using keeps_stage [OF Cons.prems(2), of "blk + 1"] by (simp add: r)
  obtain e2 out s2 x2 where o: "sealed_open_block env (blk + 1) buf s x1 = (e2, out, s2, x2)"
    by (cases "sealed_open_block env (blk + 1) buf s x1") auto
  note k = open_block_kept [OF Cons.prems(1) p1 o]
  obtain e3 x3 where b: "program_block io blk out x2 = (e3, x3)"
    by (cases "program_block io blk out x2") auto
  have p3: "P x3"
    using program_block_kept [of x2 blk out] k by (simp add: b)
  obtain e4 r4 x4 where n: "note_progress io blk blocks r x3 = (e4, r4, x4)"
    by (cases "note_progress io blk blocks r x3") auto
  have p4: "P x4"
    using note_progress_kept [OF p3, of blk blocks r] by (simp add: n)
  show ?case
    using Cons.prems(1,3) k p1 p3 p4 Cons.IH [of s2 x4 r4]
    by (simp add: r o b n split: if_splits)
qed simp

lemma installed_check_kept: "P x \<Longrightarrow> P (snd (snd (installed_check env io keys r pkg s x)))"
  by (simp add: installed_check_def Let_def case_prod_unfold flash_image_hash_kept port_keeps header_store_kept signed_ok_kept)

lemma on_trial_kept: "P x \<Longrightarrow> P (snd (snd (snd (on_trial io r pkg msg x))))"
  by (simp add: on_trial_def Let_def case_prod_unfold installed_mac_kept record_store_kept)

lemma install_kept:
  assumes "P x"
  shows "P (snd (snd (snd (snd (install env io keys r msg s x)))))"
proof -
  obtain e m pkg s1 x1 where m: "mount_package env io keys r False s x = (e, m, pkg, s1, x1)"
    by (cases "mount_package env io keys r False s x") auto
  have p1: "P x1" "e = 0 \<longrightarrow> stage_mounted s1"
    using mount_package_kept [OF assms m] by blast+
  define blocks where "blocks = blocks_of (pkg_len pkg)"
  obtain e2 r2 s2 x2 where i: "install_blocks env io blocks (blocks_from (progress r) blocks) r s1 x1 = (e2, r2, s2, x2)"
    by (cases "install_blocks env io blocks (blocks_from (progress r) blocks) r s1 x1") auto
  obtain e3 s3 x3 where c: "installed_check env io keys r2 pkg (sealed_unmount s2) x2 = (e3, s3, x3)"
    by (cases "installed_check env io keys r2 pkg (sealed_unmount s2) x2") auto
  show ?thesis
  proof (cases "e \<noteq> 0 \<or> version pkg \<noteq> pkg_version r \<or> pkg_len pkg \<noteq> pkg_length r \<or> image_hash pkg \<noteq> pkg_hash r")
    case True
    then show ?thesis
      using p1 by (simp only: install_def m Let_def case_prod_unfold fst_conv snd_conv if_True start_rollback_kept)
  next
    case False
    then have p2: "P x2"
      using install_blocks_kept [OF _ p1(1) i] p1(2) by blast
    then have "P x3"
      using installed_check_kept [of x2 env keys r2 pkg "sealed_unmount s2"] by (simp add: c)
    with p2 False show ?thesis
      unfolding install_def m Let_def prod.case blocks_def [symmetric] i c
      by (simp add: case_prod_unfold start_rollback_kept on_trial_kept c)
  qed
qed

lemma worth_keeping_kept: "P x \<Longrightarrow> P (snd (snd (worth_keeping env io keys r s x)))"
  by (simp add: worth_keeping_def installed_ok_kept)

lemma start_update_kept:
  assumes "P x"
  shows "P (snd (snd (snd (snd (start_update env io keys r s x)))))"
proof -
  obtain e m pkg s1 x1 where m: "mount_package env io keys r True s x = (e, m, pkg, s1, x1)"
    by (cases "mount_package env io keys r True s x") auto
  have p: "P x1"
    using mount_package_kept [OF assms m] by blast
  then show ?thesis
    by (simp add: start_update_def m Let_def case_prod_unfold worth_keeping_kept record_store_kept make_backup_kept install_kept)
qed

text \<open>Booting and the other operations.\<close>

lemma new_record_kept: "P x \<Longrightarrow> P (snd (snd (new_record io x)))"
  by (simp add: new_record_def Let_def case_prod_unfold port_keeps installed_mac_kept record_store_kept)

lemma boot_record_kept: "P x \<Longrightarrow> P (snd (snd (snd (boot_record io r x))))"
  by (simp add: boot_record_def Let_def case_prod_unfold record_load_kept new_record_kept)

lemma trial_boot_kept: "P x \<Longrightarrow> P (snd (snd (snd (trial_boot env io r msg x))))"
  by (simp add: trial_boot_def Let_def case_prod_unfold record_store_kept start_rollback_kept)

lemma boot_step_kept: "P x \<Longrightarrow> P (snd (snd (snd (snd (boot_step env io keys w r msg s x)))))"
  by (simp add: boot_step_def Let_def case_prod_unfold start_update_kept install_kept trial_boot_kept roll_back_kept)

lemma boot_image_kept: "P x \<Longrightarrow> P (snd (snd (snd (snd (boot_image env io keys r msg s x)))))"
  by (simp add: boot_image_def broken_def adopt_changed_def Let_def case_prod_unfold installed_ok_kept
      installed_mac_kept record_store_kept start_rollback_kept)

theorem boot_kept: "P x \<Longrightarrow> P (snd (snd (snd (snd (upd_boot env io keys w r s x)))))"
  by (simp add: upd_boot_def Let_def case_prod_unfold boot_record_kept boot_step_kept boot_image_kept)

lemma confirm_kept: "P x \<Longrightarrow> P (snd (upd_confirm io x))"
  by (simp add: upd_confirm_def Let_def case_prod_unfold record_load_kept record_store_kept)

lemma adopt_kept: "P x \<Longrightarrow> P (snd (snd (upd_adopt io x)))"
  by (simp add: upd_adopt_def Let_def case_prod_unfold record_load_kept record_store_kept installed_mac_kept)

lemma mark_broken_kept: "P x \<Longrightarrow> P (snd (snd (upd_mark_broken io x)))"
  by (simp add: upd_mark_broken_def Let_def case_prod_unfold record_load_kept record_store_kept)

end

end
