(* ===== verification/LF_Stage1.thy ===== *)
theory LF_Stage1
  imports LF_Fence LF_Card LF_Cdc LF_Ymrecv "HOL-Library.Monad_Syntax"
begin

text \<open>
  Stage 1 of the CH32H417, \<^verbatim>\<open>V3F/User/stage1.c\<close>: what the V3F does before it wakes the V5F. It gives the update
  code the flash, the card and the random numbers, holds the board's keys, checks that the chip is locked down,
  decides whether the V5F starts, and otherwise is the other end of the terminal itself (recovery). The chip and
  WCH's drivers are the record \<open>vendor\<close>; \<open>build\<close> has the settings of \<^verbatim>\<open>Common/security.h\<close> and
  \<^verbatim>\<open>sealed_root.h\<close>. Messages are datatypes, and their text is a parameter. Nothing runs after a reset: once
  \<open>power\<close> isn't \<open>Running\<close> the state only says so.

  The theorems: at level 2 the V5F starts only on a board that is locked down and with an image that has been
  checked, unless the update code stopped by an error; and no write to the flash by the update code touches the V3F's own
  image.
\<close>

section \<open>The build and the chip\<close>

definition RAM_STAGE_BLOCKS :: u32 where [const_defs]: "RAM_STAGE_BLOCKS = 2 + UPD_V5F_SLOT div UPD_BLOCK + 2"
definition PROGRAM_PAGE :: u32 where [const_defs]: "PROGRAM_PAGE = 256"
definition BLOCK_IO_TRIES :: nat where [const_defs]: "BLOCK_IO_TRIES = 8"
definition BLOCK_IO_SETTLE_MS :: nat where [const_defs]: "BLOCK_IO_SETTLE_MS = 2"
definition STAGE1_V3F_END :: u32 where [const_defs]: "STAGE1_V3F_END = 0x20000"
definition STAGE1_WRP_PROTECT :: u32 where [const_defs]: "STAGE1_WRP_PROTECT = push_bit (unat (STAGE1_V3F_END div UPD_SECTOR)) 1 - 1"
definition STAGE1_WRP_WRITABLE :: u32 where [const_defs]: "STAGE1_WRP_WRITABLE = NOT STAGE1_WRP_PROTECT"
definition STAGE1_V5F_START_MS :: nat where [const_defs]: "STAGE1_V5F_START_MS = 3000"
definition STAGE1_START_TRIES :: u32 where [const_defs]: "STAGE1_START_TRIES = 3"
definition STAGE1_START :: int where [const_defs]: "STAGE1_START = 0"
definition STAGE1_RECOVERY :: int where [const_defs]: "STAGE1_RECOVERY = 1"
definition FLASH_OBR_RDPRT :: u32 where [const_defs]: "FLASH_OBR_RDPRT = 2"
definition OB_USBFSDL_EN :: u32 where [const_defs]: "OB_USBFSDL_EN = 0x40"
definition OB_USARTDL_EN :: u32 where [const_defs]: "OB_USARTDL_EN = 0x80"

record build =
  SECURITY_LEVEL :: nat
  SEALED_ROOT_KEY :: "u8 list option"
  SEALED_PRODUCT :: u32

definition SEC_UID_KEY :: "build \<Rightarrow> bool" where "SEC_UID_KEY b \<longleftrightarrow> SECURITY_LEVEL b \<le> 1"
definition SEC_STRICT_RDP :: "build \<Rightarrow> bool" where "SEC_STRICT_RDP b \<longleftrightarrow> SECURITY_LEVEL b \<ge> 2"
definition SEC_ADOPT :: "build \<Rightarrow> bool" where "SEC_ADOPT b \<longleftrightarrow> SECURITY_LEVEL b \<le> 1"
definition SEC_LOCKED_PAGES :: "build \<Rightarrow> bool" where "SEC_LOCKED_PAGES b \<longleftrightarrow> SECURITY_LEVEL b \<ge> 2"
definition SEC_SIGNED_BOOT :: "build \<Rightarrow> bool" where "SEC_SIGNED_BOOT b \<longleftrightarrow> SECURITY_LEVEL b \<ge> 2"

lemmas sec_defs = SEC_UID_KEY_def SEC_STRICT_RDP_def SEC_ADOPT_def SEC_LOCKED_PAGES_def SEC_SIGNED_BOOT_def

text \<open>What's wrong with the option bytes, why a board has no keys, why the V5F stays off, and what \<open>say\<close> says.\<close>

datatype insecure = ReadProtectionOff | V3FNotProtected | UpdatesProtected | UsbDownload | UsartDownload

datatype key_why = NoRootKey | NoKeyYet

datatype recovery_why =
  NotLockedDown | OnRequest | NeverStarted u32 | NoImage | RecordUnreadable | NoKeys key_why | PartWay int | Update upd_msg

datatype said =
  SayUpdate upd_msg | SayWhy recovery_why | SayKeys key_why | SayInsecure "insecure list" | SayReceived why
| ModeLine | LockdownLine | PackageLine | EnrollLine | AdoptLine | ResetLine | LockdownFirst | LockdownOnly
| LockdownWrote bool | LockdownRestart | LockedAlready | IntoRam | Installed | StoppedByError | OnlyPackages
| EnrollUnreadable | EnrollNoRecord | EnrollMade | EnrollUid | EnrollCsv | EnrollKey "u8 list" "u8 list"

text \<open>The flash as memory and as FLASH_ROM_ERASE and FLASH_ROM_WRITE work on it (True when they complete), the card's
  driver, a draw from the RNG (None when its flags say it failed), the UID, FLASH->OBR and FLASH->WPR, the option bytes,
  HSEM0, and time: the interrupts in some microseconds.\<close>

record 'c vendor =
  flash_bytes :: "'c \<Rightarrow> u32 \<Rightarrow> nat \<Rightarrow> u8 list"
  rom_erase :: "u32 \<Rightarrow> u32 \<Rightarrow> 'c \<Rightarrow> bool \<times> 'c"
  rom_write :: "u32 \<Rightarrow> u8 list \<Rightarrow> 'c \<Rightarrow> bool \<times> 'c"
  sd_init :: "'c \<Rightarrow> bool \<times> 'c"
  sd_capacity :: "'c \<Rightarrow> u64"
  sd_read :: "u32 \<Rightarrow> nat \<Rightarrow> 'c \<Rightarrow> (bool \<times> u8 list) \<times> 'c"
  sd_write :: "u32 \<Rightarrow> u8 list \<Rightarrow> 'c \<Rightarrow> (bool \<times> unit) \<times> 'c"
  rng_draw :: "'c \<Rightarrow> u32 option \<times> 'c"
  uid_bytes :: "'c \<Rightarrow> u8 list"
  flash_OBR :: "'c \<Rightarrow> u32"
  flash_WPR :: "'c \<Rightarrow> u32"
  option_bytes :: "'c \<Rightarrow> u16 list"
  ob_program :: "u16 list \<Rightarrow> 'c \<Rightarrow> 'c"
  hsem0 :: "'c \<Rightarrow> bool"
  elapse :: "nat \<Rightarrow> bridge \<times> 'c \<Rightarrow> bridge \<times> 'c"
  msg_text :: "said \<Rightarrow> u8 list"

text \<open>The statics of the file, with the USB bridge, the exFAT reader's buffers (which hold the chip) and the
  receiver's buffers.\<close>

record 'c stage1 =
  sfs :: "'c fs"
  usb :: bridge
  cmap :: card_map
  card_sectors :: u32
  stage_base :: u32
  backup_base :: u32
  update_base :: u32
  update_blocks :: u32
  io_stage_blocks :: u32
  io_backup_blocks :: u32
  use_ram :: bool
  ram_stage :: "u8 list"
  card_opened :: bool
  insecure :: "insecure list"
  recovering :: bool
  forced :: bool
  locked_out :: bool
  why_recovery :: "recovery_why option"
  ymr_bufs :: "u8 list \<times> u8 list \<times> u8 list \<times> u8 list"
  cmd_line :: "u8 list"
  opened :: bool

abbreviation chip :: "'c stage1 \<Rightarrow> 'c" where "chip s \<equiv> card (sfs s)"

definition on_chip :: "('c \<Rightarrow> 'a \<times> 'c) \<Rightarrow> 'c stage1 \<Rightarrow> 'a \<times> 'c stage1" where
  "on_chip f s = (let (r, c) = f (chip s) in (r, s\<lparr>sfs := (sfs s)\<lparr>card := c\<rparr>\<rparr>))"

definition upd_shared :: "(cdc_shared \<Rightarrow> cdc_shared) \<Rightarrow> 'c stage1 \<Rightarrow> 'c stage1" where
  "upd_shared f s = s\<lparr>usb := (usb s)\<lparr>shared := f (shared (usb s))\<rparr>\<rparr>"

definition delay_us :: "'c vendor \<Rightarrow> nat \<Rightarrow> 'c stage1 \<Rightarrow> 'c stage1" where
  "delay_us v us s = (let (u, c) = elapse v us (usb s, chip s) in s\<lparr>usb := u, sfs := (sfs s)\<lparr>card := c\<rparr>\<rparr>)"

section \<open>The callbacks\<close>

definition in_range :: "u32 \<Rightarrow> u32 \<Rightarrow> bool" where
  "in_range addr len =
     (let e = addr + len in
      (addr \<ge> UPD_V5F_ADDR \<and> e \<le> UPD_V5F_ADDR + UPD_APP_SPAN \<and> e > addr) \<or>
      (addr \<ge> UPD_RECORD_A \<and> e \<le> UPD_RECORD_A + UPD_SECTOR) \<or>
      (addr \<ge> UPD_RECORD_B \<and> e \<le> UPD_RECORD_B + UPD_SECTOR) \<or>
      (addr \<ge> UPD_HEADER \<and> e \<le> UPD_HEADER + UPD_SECTOR))"

definition f_read :: "'c vendor \<Rightarrow> u32 \<Rightarrow> u32 \<Rightarrow> 'c stage1 \<Rightarrow> int \<times> u8 list \<times> 'c stage1" where
  "f_read v addr len s =
     (if addr + len > 0xF0000 then (ERR_BLK_BOUNDS, [], s)
      else (0, flash_bytes v (chip s) (STAGE1_FLASH_BASE + addr) (unat len), s))"

definition f_erase :: "'c vendor \<Rightarrow> u32 \<Rightarrow> 'c stage1 \<Rightarrow> int \<times> 'c stage1" where
  "f_erase v addr s =
     (if addr mod UPD_SECTOR \<noteq> 0 \<or> \<not> in_range addr UPD_SECTOR then (ERR_BLK_BOUNDS, s)
      else
        let (ok, s) = on_chip (rom_erase v (STAGE1_FLASH_BASE + addr) UPD_SECTOR) s
        in (if ok then 0 else ERR_FLASH_WRITE_SECTOR, s))"

text \<open>The pages of the loop, each padded with 0xFF.\<close>

definition program_pages :: "u8 list \<Rightarrow> u8 list list" where
  "program_pages bs =
     map (\<lambda>i. let p = take 256 (drop (256 * i) bs) in p @ replicate (256 - length p) 0xFF) [0..<(length bs + 255) div 256]"

primrec write_pages :: "'c vendor \<Rightarrow> u32 \<Rightarrow> u8 list list \<Rightarrow> 'c stage1 \<Rightarrow> int \<times> 'c stage1" where
  "write_pages v addr [] s = (0, s)"
| "write_pages v addr (p # ps) s =
     (let (ok, s) = on_chip (rom_write v addr p) s in
      if ok then write_pages v (addr + PROGRAM_PAGE) ps s else (ERR_FLASH_WRITE_SECTOR, s))"

definition f_write :: "'c vendor \<Rightarrow> u32 \<Rightarrow> u8 list \<Rightarrow> 'c stage1 \<Rightarrow> int \<times> 'c stage1" where
  "f_write v addr bs s =
     (let len = word_of_nat (length bs) in
      if addr mod PROGRAM_PAGE \<noteq> 0 \<or> \<not> in_range addr ((len + PROGRAM_PAGE - 1) AND NOT (PROGRAM_PAGE - 1))
      then (ERR_BLK_BOUNDS, s)
      else write_pages v (STAGE1_FLASH_BASE + addr) (program_pages bs) s)"

definition card_read :: "'c vendor \<Rightarrow> 'c exfat_read" where
  "card_read v sector c = (let ((ok, bs), c) = sd_read v sector 1 c in (if ok then 0 else ERR_BLK_READ_FAIL, bs, c))"

text \<open>A card operation is tried again after 2, 4, 8 ... ms; \<open>n\<close> is how many tries are left after this one.\<close>

primrec sd_tries ::
  "'c vendor \<Rightarrow> ('c \<Rightarrow> (bool \<times> 'a) \<times> 'c) \<Rightarrow> nat \<Rightarrow> 'c stage1 \<Rightarrow> (bool \<times> 'a) \<times> 'c stage1" where
  "sd_tries v op 0 s =
     (let ((ok, r), s) = on_chip op s in
      ((ok, r), if ok then s else delay_us v (1000 * BLOCK_IO_SETTLE_MS * 2 ^ (BLOCK_IO_TRIES - 1)) s))"
| "sd_tries v op (Suc n) s =
     (let ((ok, r), s) = on_chip op s in
      if ok then ((ok, r), s)
      else sd_tries v op n (delay_us v (1000 * BLOCK_IO_SETTLE_MS * 2 ^ (BLOCK_IO_TRIES - 2 - n)) s))"

definition block_read :: "'c vendor \<Rightarrow> u32 \<Rightarrow> u32 \<Rightarrow> u32 \<Rightarrow> 'c stage1 \<Rightarrow> int \<times> u8 list \<times> 'c stage1" where
  "block_read v base blocks blk s =
     (if blk \<ge> blocks then (ERR_BLK_BOUNDS, [], s)
      else
        let ((ok, bs), s) = sd_tries v (sd_read v (base + blk * SECTORS_PER_BLOCK) 8) (BLOCK_IO_TRIES - 1) s
        in (if ok then 0 else ERR_BLK_READ_FAIL, bs, s))"

definition block_write :: "'c vendor \<Rightarrow> u32 \<Rightarrow> u32 \<Rightarrow> u32 \<Rightarrow> u8 list \<Rightarrow> 'c stage1 \<Rightarrow> int \<times> 'c stage1" where
  "block_write v base blocks blk bs s =
     (if blk \<ge> blocks then (ERR_BLK_BOUNDS, s)
      else
        let ((ok, _), s) = sd_tries v (sd_write v (base + blk * SECTORS_PER_BLOCK) bs) (BLOCK_IO_TRIES - 1) s
        in (if ok then 0 else ERR_BLK_WRITE_FAIL, s))"

definition s_read :: "'c vendor \<Rightarrow> 'c stage1 sealed_read" where
  "s_read v blk s =
     (if use_ram s then
        if blk \<ge> RAM_STAGE_BLOCKS then (ERR_BLK_BOUNDS, [], s) else (0, bytes_at (ram_stage s) (4096 * unat blk) 4096, s)
      else block_read v (stage_base s) (io_stage_blocks s) blk s)"

definition b_read :: "'c vendor \<Rightarrow> 'c stage1 sealed_read" where
  "b_read v blk s = block_read v (backup_base s) (io_backup_blocks s) blk s"

definition u_read :: "'c vendor \<Rightarrow> 'c stage1 sealed_read" where
  "u_read v blk s = block_read v (update_base s) (update_blocks s) blk s"

definition s_write :: "'c vendor \<Rightarrow> u32 \<Rightarrow> u8 list \<Rightarrow> 'c stage1 \<Rightarrow> int \<times> 'c stage1" where
  "s_write v blk bs s =
     (if use_ram s then
        if blk \<ge> RAM_STAGE_BLOCKS then (ERR_BLK_BOUNDS, s)
        else (0, s\<lparr>ram_stage := copy_at (4096 * unat blk) bs (ram_stage s)\<rparr>)
      else block_write v (stage_base s) (io_stage_blocks s) blk bs s)"

definition b_write :: "'c vendor \<Rightarrow> u32 \<Rightarrow> u8 list \<Rightarrow> 'c stage1 \<Rightarrow> int \<times> 'c stage1" where
  "b_write v blk bs s = block_write v (backup_base s) (io_backup_blocks s) blk bs s"

text \<open>64 draws, none of them the one before.\<close>

primrec rng_loop ::
  "'c vendor \<Rightarrow> nat \<Rightarrow> u32 option \<Rightarrow> blake2s_state \<Rightarrow> 'c stage1 \<Rightarrow> int \<times> blake2s_state \<times> 'c stage1" where
  "rng_loop v 0 prev S s = (0, S, s)"
| "rng_loop v (Suc n) prev S s =
     (let (d, s) = on_chip (rng_draw v) s in
      case d of
        None \<Rightarrow> (ERR_UNSUPPORTED_OPERATION, S, s)
      | Some w \<Rightarrow>
          if prev = Some w then (ERR_UNSUPPORTED_OPERATION, S, s)
          else rng_loop v n (Some w) (b2s_hmac_puts (store32 w) S) s)"

definition rng :: "'c vendor \<Rightarrow> nat \<Rightarrow> 'c stage1 \<Rightarrow> int \<times> u8 list \<times> 'c stage1" where
  "rng v len s =
     (let (err, S, s) = rng_loop v 64 None (b2s_start 32 [] ''LFstage1'') s in
      if err \<noteq> 0 then (err, [], s) else (0, take (min len 32) (b2s_done S), s))"

definition no_board :: sealed_board where
  "no_board = \<lparr>board_uid = replicate 8 0, private_key = replicate 32 0, root = replicate 32 0, product = 0,
     min_revision = 0, min_serial = 0\<rparr>"

definition keys_get :: "build \<Rightarrow> 'c vendor \<Rightarrow> upd_record option \<Rightarrow> 'c stage1 \<Rightarrow> key_why + sealed_board" where
  "keys_get b v rec s =
     (case SEALED_ROOT_KEY b of
        None \<Rightarrow> Inl NoRootKey
      | Some k \<Rightarrow>
          let board = no_board\<lparr>board_uid := uid_bytes v (chip s), root := k, product := SEALED_PRODUCT b\<rparr> in
          if SEC_UID_KEY b
          then Inr (board\<lparr>private_key := b2s_done (b2s_hmac_puts (board_uid board) (b2s_start 32 [] ''LFinsec1''))\<rparr>)
          else
            (case rec of
               None \<Rightarrow> Inl NoKeyYet
             | Some r \<Rightarrow> Inr (board\<lparr>private_key := upd_board_key r\<rparr>)))"

definition board_public ::
  "seal_env \<Rightarrow> build \<Rightarrow> 'c vendor \<Rightarrow> upd_record option \<Rightarrow> 'c stage1 \<Rightarrow> key_why + u8 list" where
  "board_public env b v rec s =
     (case keys_get b v rec s of Inl w \<Rightarrow> Inl w | Inr keys \<Rightarrow> Inr (seal_x25519_public_key env (private_key keys)))"

definition stage1_io :: "build \<Rightarrow> 'c vendor \<Rightarrow> 'c stage1 \<Rightarrow> 'c stage1 upd_io" where
  "stage1_io b v s =
     \<lparr>flash_read = f_read v, flash_erase = f_erase v, flash_write = f_write v, stage_read = s_read v,
      stage_blocks = io_stage_blocks s, backup_read = Some (b_read v), backup_write = Some (b_write v),
      backup_blocks = io_backup_blocks s, random = rng v, io_hw_rev = 0, adopt_blank = SEC_ADOPT b,
      check_pages = SEC_LOCKED_PAGES b, check_signature = SEC_SIGNED_BOOT b\<rparr>"

text \<open>Reading this flash changes nothing, which is what the checks of an image at boot rely on.\<close>

interpretation stage1: flash_port "stage1_io b v s" for b and v :: "'c vendor" and s
  by unfold_locales (simp_all add: stage1_io_def f_read_def)

section \<open>The card and the lock-down check\<close>

definition open_file :: "nat \<Rightarrow> 'c vendor \<Rightarrow> u8 list \<Rightarrow> 'c stage1 \<Rightarrow> (u32 \<times> u32 \<times> 'c stage1) option" where
  "open_file f v name s =
     map_option (\<lambda>(err, base, n, fs). (base, if err \<noteq> 0 then 0 else n, s\<lparr>sfs := fs\<rparr>))
       (card_find_file f (card_read v) (card_sectors s) (cmap s) name (sfs s))"

definition open_files :: "nat \<Rightarrow> 'c vendor \<Rightarrow> 'c stage1 \<Rightarrow> 'c stage1 option" where
  "open_files f v s =
     do {
       (base, n, s) \<leftarrow> open_file f v CARD_STAGE_FILE s;
       let s = s\<lparr>stage_base := base, io_stage_blocks := n\<rparr>;
       (base, n, s) \<leftarrow> open_file f v CARD_BACKUP_FILE s;
       let s = s\<lparr>backup_base := base, io_backup_blocks := n\<rparr>;
       (base, n, s) \<leftarrow> open_file f v CARD_UPDATE_FILE s;
       Some (s\<lparr>update_base := base, update_blocks := n\<rparr>)
     }"

definition card_open :: "nat \<Rightarrow> 'c vendor \<Rightarrow> 'c stage1 \<Rightarrow> 'c stage1 option" where
  "card_open f v s =
     (let s = s\<lparr>card_opened := True, io_stage_blocks := 0, io_backup_blocks := 0\<rparr>; (ok, s) = on_chip (sd_init v) s in
      if \<not> ok then Some s
      else
        let n = sd_capacity v (chip s) div 512; s = s\<lparr>card_sectors := if n > 0xFFFFFFFF then 0xFFFFFFFF else ucast n\<rparr> in
        (case card_find_blocks f (card_read v) (card_sectors s) (sfs s) of
           None \<Rightarrow> None
         | Some (err, m, _, fs) \<Rightarrow>
             let s = s\<lparr>cmap := m, sfs := fs\<rparr> in if err \<noteq> 0 \<or> \<not> mmounted m then Some s else open_files f v s))"

definition security_check :: "'c vendor \<Rightarrow> 'c stage1 \<Rightarrow> insecure list" where
  "security_check v s =
     (let obr = flash_OBR v (chip s); wpr = flash_WPR v (chip s); user = drop_bit 2 obr in
      (if obr AND FLASH_OBR_RDPRT = 0 then [ReadProtectionOff] else []) @
      (if wpr AND STAGE1_WRP_PROTECT \<noteq> 0 then [V3FNotProtected] else []) @
      (if NOT wpr AND STAGE1_WRP_WRITABLE \<noteq> 0 then [UpdatesProtected] else []) @
      (if user AND OB_USBFSDL_EN \<noteq> 0 then [UsbDownload] else []) @
      (if user AND OB_USARTDL_EN \<noteq> 0 then [UsartDownload] else []))"

section \<open>Whether the V5F starts\<close>

definition enter_recovery :: "nat \<Rightarrow> 'c vendor \<Rightarrow> recovery_why \<Rightarrow> 'c stage1 \<Rightarrow> (int \<times> 'c stage1) option" where
  "enter_recovery f v why s =
     (let s = s\<lparr>why_recovery := Some why\<rparr> in
      do {
        s \<leftarrow> (if card_opened s then Some s else card_open f v s);
        Some (STAGE1_RECOVERY, upd_shared (\<lambda>sh. sh\<lparr>sh_binary := CDC_BINARY_MAGIC\<rparr>) (s\<lparr>recovering := True\<rparr>))
      })"

definition nostart_count :: "cdc_shared \<Rightarrow> u32" where
  "nostart_count sh = (let n = sh_nostart sh in if n AND 0xFFFF0000 = CDC_NOSTART_MAGIC then n AND 0xFFFF else 0)"

definition nostart_set :: "u32 \<Rightarrow> cdc_shared \<Rightarrow> cdc_shared" where
  "nostart_set n sh = sh\<lparr>sh_nostart := if n \<noteq> 0 then CDC_NOSTART_MAGIC OR n else 0\<rparr>"

definition publish_revision :: "u32 \<Rightarrow> cdc_shared \<Rightarrow> cdc_shared" where
  "publish_revision ver sh = sh\<lparr>sh_revision := ver, sh_rev_magic := CDC_REVISION_MAGIC\<rparr>"

definition start_or_not :: "nat \<Rightarrow> 'c vendor \<Rightarrow> bool \<Rightarrow> 'c stage1 \<Rightarrow> (int \<times> 'c stage1) option" where
  "start_or_not f v updating s =
     (if locked_out s then enter_recovery f v NotLockedDown s
      else if forced s then enter_recovery f v OnRequest s
      else if updating then Some (STAGE1_START, upd_shared (nostart_set 0) s)
      else
        let n = nostart_count (shared (usb s)) in
        if n \<ge> STAGE1_START_TRIES
        then enter_recovery f v (NeverStarted n) ((upd_shared (nostart_set 0) s)\<lparr>forced := True\<rparr>)
        else Some (STAGE1_START, s))"

definition no_check :: "nat \<Rightarrow> build \<Rightarrow> 'c vendor \<Rightarrow> recovery_why \<Rightarrow> bool \<Rightarrow> 'c stage1 \<Rightarrow> (int \<times> 'c stage1) option" where
  "no_check f b v why waits s =
     (if SEC_SIGNED_BOOT b \<and> \<not> locked_out s then enter_recovery f v why s else start_or_not f v waits s)"

primrec wait_hsem :: "'c vendor \<Rightarrow> nat \<Rightarrow> 'c stage1 \<Rightarrow> bool \<times> 'c stage1" where
  "wait_hsem v 0 s = (False, s)"
| "wait_hsem v (Suc n) s = (if hsem0 v (chip s) then (True, s) else wait_hsem v n (delay_us v 1000 s))"

definition stage1_wait_v5f :: "'c vendor \<Rightarrow> 'c stage1 \<Rightarrow> 'c stage1" where
  "stage1_wait_v5f v s =
     (let (up, s) = wait_hsem v STAGE1_V5F_START_MS s in
      if up then upd_shared (nostart_set 0) s
      else
        let s = upd_shared (\<lambda>sh. nostart_set (nostart_count sh + 1) sh) s
        in s\<lparr>usb := (usb s)\<lparr>power := Reset\<rparr>\<rparr>)"

section \<open>The terminal\<close>

text \<open>A look for a byte, \<open>n\<close> more after it, 100 microseconds apart.\<close>

definition bridge_turn :: "'c stage1 \<Rightarrow> 'c stage1" where
  "bridge_turn s = s\<lparr>usb := cdc_bridge_poll (usb s)\<rparr>"

definition rx_byte :: "'c stage1 \<Rightarrow> int \<times> 'c stage1" where
  "rx_byte s =
     (let (c, r) = ring_get (sh_rx (shared (usb s))) in (uint c, upd_shared (\<lambda>sh. sh\<lparr>sh_rx := r\<rparr>) s))"

primrec t_get_loop :: "'c vendor \<Rightarrow> nat \<Rightarrow> 'c stage1 \<Rightarrow> int \<times> 'c stage1" where
  "t_get_loop v 0 s =
     (let s = bridge_turn s in if cdc_ring_count (sh_rx (shared (usb s))) \<noteq> 0 then rx_byte s else (- 1, s))"
| "t_get_loop v (Suc n) s =
     (let s = bridge_turn s in
      if cdc_ring_count (sh_rx (shared (usb s))) \<noteq> 0 then rx_byte s else t_get_loop v n (delay_us v 100 s))"

definition t_get :: "'c vendor \<Rightarrow> int \<Rightarrow> 'c stage1 \<Rightarrow> int \<times> 'c stage1" where
  "t_get v ms = t_get_loop v (nat (ms * 10))"

definition tx_byte :: "u8 \<Rightarrow> 'c stage1 \<Rightarrow> 'c stage1" where
  "tx_byte c = upd_shared (\<lambda>sh. sh\<lparr>sh_tx := ring_put c (sh_tx sh)\<rparr>)"

primrec t_put_loop :: "'c vendor \<Rightarrow> nat \<Rightarrow> u8 \<Rightarrow> 'c stage1 \<Rightarrow> 'c stage1" where
  "t_put_loop v 0 c s = (if cdc_ring_space (sh_tx (shared (usb s))) = 0 then s else tx_byte c s)"
| "t_put_loop v (Suc n) c s =
     (if cdc_ring_space (sh_tx (shared (usb s))) = 0 then
        if sh_host_open (shared (usb s)) = 0 then s else t_put_loop v n c (delay_us v 100 (bridge_turn s))
      else tx_byte c s)"

definition t_put :: "'c vendor \<Rightarrow> int \<Rightarrow> 'c stage1 \<Rightarrow> 'c stage1" where
  "t_put v c = t_put_loop v 20001 (word_of_int c)"

definition say :: "'c vendor \<Rightarrow> said \<Rightarrow> 'c stage1 \<Rightarrow> 'c stage1" where
  "say v m s = fold (\<lambda>c. t_put v (uint c)) (msg_text v m @ [13, 10]) s"

definition prompt :: "'c vendor \<Rightarrow> 'c stage1 \<Rightarrow> 'c stage1" where
  "prompt v s = fold (\<lambda>c. t_put v (uint c)) (ascii ''recovery ok> '') s"

primrec drain :: "'c vendor \<Rightarrow> nat \<Rightarrow> 'c stage1 \<Rightarrow> 'c stage1" where
  "drain v 0 s = s"
| "drain v (Suc n) s =
     (if cdc_ring_count (sh_tx (shared (usb s))) = 0 then s else drain v n (delay_us v 100 (bridge_turn s)))"

definition restart :: "'c vendor \<Rightarrow> 'c stage1 \<Rightarrow> 'c stage1" where
  "restart v s = (let s = delay_us v 50000 (drain v 10000 s) in s\<lparr>usb := (usb s)\<lparr>power := Reset\<rparr>\<rparr>)"

section \<open>Boot\<close>

text \<open>A package on the card that is newer than the installed one becomes the one to install.\<close>

definition newer_floor :: "upd_record \<Rightarrow> u32" where
  "newer_floor r =
     (if uresult r = UPD_R_ROLLED_BACK \<and> pkg_version r > v5f_version r then pkg_version r else v5f_version r)"

definition card_update ::
  "seal_env \<Rightarrow> 'c vendor \<Rightarrow> sealed_board \<Rightarrow> upd_record \<Rightarrow> 'c stage1 sealed_state \<Rightarrow> 'c stage1 \<Rightarrow>
    bool \<times> 'c stage1 sealed_state \<times> 'c stage1" where
  "card_update env v keys r ss s =
     (let (err, buf, s) = u_read v 0 s in
      if err \<noteq> 0 then (False, ss, s)
      else
        let (err, _, pkg, ss) = sealed_mount_package env buf (update_blocks s) keys (u_read v) no_package ss in
        if err = 0 \<and> version pkg > newer_floor r
        then (True, ss, s\<lparr>stage_base := update_base s, io_stage_blocks := update_blocks s\<rparr>)
        else (False, ss, s))"

text \<open>The end of \<open>boot\<close>, with what \<open>upd_boot\<close> returned.\<close>

definition boot_result ::
  "nat \<Rightarrow> 'c vendor \<Rightarrow> bool \<Rightarrow> bool \<Rightarrow> int \<Rightarrow> upd_msg \<Rightarrow> upd_record \<Rightarrow> 'c stage1 \<Rightarrow> (int \<times> 'c stage1) option" where
  "boot_result f v waits busy res msg r s =
     (let s = upd_shared (\<lambda>sh. (publish_revision (v5f_version r) sh)\<lparr>sh_update := 0\<rparr>) s in
      if res < 0 then
        if ustate r \<noteq> UPD_INSTALLING \<and> ustate r \<noteq> UPD_ROLLING_BACK then start_or_not f v (waits \<or> busy) s
        else enter_recovery f v (PartWay res) s
      else
        let s = (if waits then say v (SayUpdate msg) s else s) in
        if res = UPD_START then start_or_not f v (waits \<or> busy \<or> ustate r \<noteq> UPD_IDLE) s
        else enter_recovery f v (Update msg) s)"

text \<open>The first part: the lock-down check and what the reset left in the shared block.\<close>

definition boot_flags :: "build \<Rightarrow> 'c vendor \<Rightarrow> 'c stage1 \<Rightarrow> 'c stage1" where
  "boot_flags b v s =
     (let bad = security_check v s; s = s\<lparr>insecure := bad\<rparr>;
          s = (if bad \<noteq> [] then s\<lparr>locked_out := SEC_STRICT_RDP b\<rparr> else s);
          s = s\<lparr>forced := sh_recover (shared (usb s)) = CDC_RECOVER_MAGIC\<rparr>
      in if forced s then upd_shared (\<lambda>sh. sh\<lparr>sh_recover := 0, sh_safe_boot := 0\<rparr>) s else s)"

definition boot ::
  "nat \<Rightarrow> build \<Rightarrow> seal_env \<Rightarrow> 'c vendor \<Rightarrow> 'c stage1 sealed_state \<Rightarrow> 'c stage1 \<Rightarrow>
    (int \<times> upd_record \<times> 'c stage1 sealed_state \<times> 'c stage1) option" where
  "boot f b env v ss s =
     (let s = boot_flags b v s; waits = sh_update (shared (usb s)) = CDC_UPDATE_MAGIC;
          (r, rec, s) = upd_record_load (stage1_io b v s) zero_record s;
          s = upd_shared (publish_revision (if r = 0 then v5f_version rec else 0)) s
      in
        if r = 1 \<and> \<not> waits then map_option (\<lambda>(q, s). (q, rec, ss, s)) (no_check f b v NoImage waits s)
        else if r < 0 then map_option (\<lambda>(q, s). (q, rec, ss, s)) (no_check f b v RecordUnreadable waits s)
        else
          (case keys_get b v (if r = 0 then Some rec else None) s of
             Inl why \<Rightarrow>
               map_option (\<lambda>(q, s). (q, rec, ss, s))
                 (no_check f b v (NoKeys why) waits (upd_shared (\<lambda>sh. sh\<lparr>sh_update := 0\<rparr>) s))
           | Inr keys \<Rightarrow>
               let busy = r = 0 \<and> ustate rec \<noteq> UPD_IDLE in
               do {
                 s \<leftarrow> card_open f v s;
                 let (newer, ss, s) =
                   (if \<not> waits \<and> \<not> busy \<and> update_blocks s \<noteq> 0 then card_update env v keys rec ss s else (False, ss, s));
                 let waits = waits \<or> newer;
                 let (res, msg, rec, ss, s) = upd_boot env (stage1_io b v s) keys waits rec ss s;
                 (q, s) \<leftarrow> boot_result f v waits busy res msg rec s;
                 Some (q, rec, ss, s)
               }))"

definition stage1_boot ::
  "nat \<Rightarrow> build \<Rightarrow> seal_env \<Rightarrow> 'c vendor \<Rightarrow> 'c stage1 sealed_state \<Rightarrow> 'c stage1 \<Rightarrow>
    (int \<times> 'c stage1 sealed_state \<times> 'c stage1) option" where
  "stage1_boot f b env v ss s = map_option (\<lambda>(q, rec, ss, s). (q, ss, s)) (boot f b env v ss s)"

section \<open>Recovery\<close>

text \<open>The option bytes that \<open>lockdown\<close> programs.\<close>

definition lock_bytes :: "u16 list \<Rightarrow> u16 list" where
  "lock_bytes ob =
     (let keep = NOT STAGE1_WRP_PROTECT;
          ob = take 4 ob @ map (\<lambda>i. ucast (drop_bit (8 * i) keep AND 0xFF)) [0..<4]
      in ob[1 := ob ! 1 AND NOT (ucast (OB_USBFSDL_EN OR OB_USARTDL_EN)), 0 := 0x00FF])"

definition same_low :: "u16 list \<Rightarrow> u16 list \<Rightarrow> bool" where
  "same_low src ob = list_all (\<lambda>i. (src ! i XOR ob ! i) AND 0xFF = 0) [0..<8]"

definition lock_down :: "'c vendor \<Rightarrow> bool \<Rightarrow> 'c stage1 \<Rightarrow> 'c stage1" where
  "lock_down v really s =
     (if \<not> really then say v LockdownOnly (say v LockdownFirst s)
      else
        let ob = lock_bytes (option_bytes v (chip s)); (_, s) = on_chip (\<lambda>c. ((), ob_program v ob c)) s;
            ok = same_low (option_bytes v (chip s)) ob; s = say v (LockdownWrote ok) s
        in if ok then restart v (say v LockdownRestart s) else s)"

definition show_help :: "build \<Rightarrow> 'c vendor \<Rightarrow> 'c stage1 \<Rightarrow> 'c stage1" where
  "show_help b v s =
     (let s = say v ModeLine s; s = (case why_recovery s of None \<Rightarrow> s | Some w \<Rightarrow> say v (SayWhy w) s) in
      if locked_out s then
        let s = say v (SayInsecure (insecure s)) s; s = (if SEC_STRICT_RDP b then say v LockdownLine s else s)
        in say v ResetLine s
      else
        let s = say v EnrollLine (say v PackageLine s); s = (if SEC_ADOPT b then say v AdoptLine s else s)
        in say v ResetLine s)"

definition stage1_ymr :: "'c vendor \<Rightarrow> u32 \<Rightarrow> 'c stage1 ymr_io" where
  "stage1_ymr v blocks =
     \<lparr>ymr_get = t_get v, ymr_put = t_put v, ymr_write_block = s_write v, ymr_blocks = blocks,
      ymr_magic = Some (ascii ''LITEFORTHF''), ymr_start_ms = 60000\<rparr>"

text \<open>\<open>ymr_receive\<close> over the receiver's buffers.\<close>

definition receive_file :: "nat \<Rightarrow> 'c vendor \<Rightarrow> 'c stage1 \<Rightarrow> (int \<times> why \<times> 'c stage1) option" where
  "receive_file f v s =
     (let (p, n, b0, w) = ymr_bufs s in
      map_option
        (\<lambda>(err, _, reason, y). (err, reason, (line y)\<lparr>ymr_bufs := (pkt y, ymr_name y, block0 y, work y)\<rparr>))
        (ymr_receive f (stage1_ymr v (io_stage_blocks s))
          \<lparr>pkt = p, ymr_name = n, block0 = b0, work = w, line = s\<rparr>))"

text \<open>The installed image got stuck: it is marked broken, and the record made first if there is none.\<close>

definition drop_image ::
  "build \<Rightarrow> seal_env \<Rightarrow> 'c vendor \<Rightarrow> sealed_board \<Rightarrow> bool \<Rightarrow> upd_record \<Rightarrow> 'c stage1 sealed_state \<Rightarrow> 'c stage1 \<Rightarrow>
    upd_record \<times> 'c stage1 sealed_state \<times> 'c stage1" where
  "drop_image b env v keys blank rec ss s =
     (let (rec, ss, s) =
        (if blank then let (_, _, rec, ss, s) = upd_boot env (stage1_io b v s) keys False rec ss s in (rec, ss, s)
         else (rec, ss, s));
          (_, msg, s) = upd_mark_broken (stage1_io b v s) s
      in (rec, ss, (say v (SayUpdate msg) s)\<lparr>forced := False\<rparr>))"

definition install_received ::
  "build \<Rightarrow> seal_env \<Rightarrow> 'c vendor \<Rightarrow> 'c stage1 sealed_state \<Rightarrow> 'c stage1 \<Rightarrow> 'c stage1 sealed_state \<times> 'c stage1" where
  "install_received b env v ss s =
     (let (r, rec, s) = upd_record_load (stage1_io b v s) zero_record s in
      case keys_get b v (if r = 0 then Some rec else None) s of
        Inl why \<Rightarrow> (ss, say v (SayKeys why) s)
      | Inr keys \<Rightarrow>
          let (rec, ss, s) = (if forced s then drop_image b env v keys (r = 1) rec ss s else (rec, ss, s));
              (res, msg, rec, ss, s) = upd_boot env (stage1_io b v s) keys True rec ss s;
              s = say v (SayUpdate msg) s
          in if res = UPD_START then (ss, restart v (say v Installed s))
             else if res < 0 then (ss, say v StoppedByError s)
             else (ss, s\<lparr>why_recovery := Some (Update msg)\<rparr>))"

definition receive ::
  "nat \<Rightarrow> build \<Rightarrow> seal_env \<Rightarrow> 'c vendor \<Rightarrow> 'c stage1 sealed_state \<Rightarrow> 'c stage1 \<Rightarrow>
    ('c stage1 sealed_state \<times> 'c stage1) option" where
  "receive f b env v ss s =
     (let s = (if io_stage_blocks s = 0 \<or> use_ram s
               then (if use_ram s then s else say v IntoRam s)\<lparr>use_ram := True, io_stage_blocks := RAM_STAGE_BLOCKS\<rparr> else s)
      in do {
        (err, reason, s) \<leftarrow> receive_file f v s;
        let s = say v (SayReceived reason) s;
        Some (if err \<noteq> 0 then (ss, s) else install_received b env v ss s)
      })"

text \<open>At level 2 a blank record is made first, and with it the board's key.\<close>

definition enroll ::
  "build \<Rightarrow> seal_env \<Rightarrow> 'c vendor \<Rightarrow> 'c stage1 sealed_state \<Rightarrow> 'c stage1 \<Rightarrow> 'c stage1 sealed_state \<times> 'c stage1" where
  "enroll b env v ss s =
     (let (r, rec, s) = upd_record_load (stage1_io b v s) zero_record s in
      if r < 0 then (ss, say v EnrollUnreadable s)
      else
        let (made, r, rec, ss, s) =
          (if \<not> SEC_UID_KEY b \<and> r = 1 then
             let (err, _, rec, ss, s) = upd_boot env (stage1_io b v s) no_board False rec ss s;
                 (r, rec, s) = (if err < 0 then (err, rec, s) else upd_record_load (stage1_io b v s) rec s)
             in if r \<noteq> 0 then (False, r, rec, ss, say v EnrollNoRecord s) else (True, 0, rec, ss, say v EnrollMade s)
           else (True, r, rec, ss, s))
        in if \<not> made then (ss, s)
           else
             (case board_public env b v (if r = 0 then Some rec else None) s of
                Inl why \<Rightarrow> (ss, say v (SayKeys why) s)
              | Inr pub \<Rightarrow>
                  let s = (if SEC_UID_KEY b then say v EnrollUid s else s)
                  in (ss, say v (EnrollKey (uid_bytes v (chip s)) pub) (say v EnrollCsv s))))"

definition contains :: "u8 list \<Rightarrow> u8 list \<Rightarrow> bool" where
  "contains p l = list_ex (\<lambda>i. take (length p) (drop i l) = p) [0..<Suc (length l)]"

text \<open>CAN CAN: the sender stops waiting.\<close>

definition cancel_sender :: "'c vendor \<Rightarrow> 'c stage1 \<Rightarrow> 'c stage1" where
  "cancel_sender v s = t_put v 0x18 (t_put v 0x18 s)"

definition command ::
  "nat \<Rightarrow> build \<Rightarrow> seal_env \<Rightarrow> 'c vendor \<Rightarrow> u8 list \<Rightarrow> 'c stage1 sealed_state \<Rightarrow> 'c stage1 \<Rightarrow>
    ('c stage1 sealed_state \<times> 'c stage1) option" where
  "command f b env v l ss s =
     (if SEC_STRICT_RDP b \<and> (l = ascii ''lockdown'' \<or> l = ascii ''lockdown yes'') then
        let bad = security_check v s; s = s\<lparr>insecure := bad\<rparr>
        in Some (ss, if bad = [] then say v LockedAlready s else lock_down v (length l > 8) s)
      else if locked_out s \<and> l \<noteq> ascii ''reset'' then
        let s = (if contains (ascii ''ymodem'') l then cancel_sender v s else s)
        in Some (ss, if l \<noteq> [] then show_help b v s else s)
      else if l = ascii ''-2 ymodem'' then receive f b env v ss s
      else if contains (ascii ''ymodem'') l then Some (ss, cancel_sender v (say v OnlyPackages s))
      else if SEC_ADOPT b \<and> l = ascii ''adopt'' then
        let (err, msg, s) = upd_adopt (stage1_io b v s) s; s = say v (SayUpdate msg) s
        in Some (ss, if err = 0 then restart v s else s)
      else if l = ascii ''enroll'' then Some (enroll b env v ss s)
      else if l = ascii ''reset'' then Some (ss, restart v s)
      else Some (ss, if l \<noteq> [] then show_help b v s else s))"

definition trim :: "u8 list \<Rightarrow> u8 list" where
  "trim l = dropWhile (\<lambda>c. c = 32) (rev (dropWhile (\<lambda>c. c = 32) (rev l)))"

definition greet :: "build \<Rightarrow> 'c vendor \<Rightarrow> 'c stage1 \<Rightarrow> 'c stage1" where
  "greet b v s =
     (if sh_host_open (shared (usb s)) \<noteq> 0 \<and> \<not> opened s then prompt v (show_help b v (s\<lparr>opened := True\<rparr>))
      else if sh_host_open (shared (usb s)) = 0 then s\<lparr>opened := False\<rparr> else s)"

definition recovery_poll ::
  "nat \<Rightarrow> build \<Rightarrow> seal_env \<Rightarrow> 'c vendor \<Rightarrow> 'c stage1 sealed_state \<Rightarrow> 'c stage1 \<Rightarrow>
    ('c stage1 sealed_state \<times> 'c stage1) option" where
  "recovery_poll f b env v ss s =
     (let (c, s) = t_get v 0 (greet b v s) in
      if c < 0 then Some (ss, s)
      else if c = 13 \<or> c = 10 then
        let s = t_put v 10 (t_put v 13 s) in
        do {
          (ss, s) \<leftarrow> command f b env v (trim (cmd_line s)) ss s;
          Some (ss, prompt v (s\<lparr>cmd_line := []\<rparr>))
        }
      else if (c = 8 \<or> c = 127) \<and> cmd_line s \<noteq> []
      then Some (ss, t_put v 8 (t_put v 32 (t_put v 8 (s\<lparr>cmd_line := butlast (cmd_line s)\<rparr>))))
      else if 32 \<le> c \<and> c < 127 \<and> length (cmd_line s) < 63
      then Some (ss, t_put v c (s\<lparr>cmd_line := cmd_line s @ [word_of_int c]\<rparr>))
      else Some (ss, s))"

section \<open>The main loop\<close>

definition serve_enroll :: "seal_env \<Rightarrow> build \<Rightarrow> 'c vendor \<Rightarrow> 'c stage1 \<Rightarrow> 'c stage1" where
  "serve_enroll env b v s =
     (let (r, rec, s) = upd_record_load (stage1_io b v s) zero_record s;
          (pub, ok) = (case board_public env b v (if r = 0 then Some rec else None) s of
                         Inl _ \<Rightarrow> (replicate 32 0, CDC_ENROLL_NONE) | Inr p \<Rightarrow> (p, CDC_ENROLL_DONE))
      in upd_shared (\<lambda>sh. sh\<lparr>sh_board_pub := pub, sh_enroll := ok\<rparr>) s)"

definition stage1_poll ::
  "nat \<Rightarrow> build \<Rightarrow> seal_env \<Rightarrow> 'c vendor \<Rightarrow> 'c stage1 sealed_state \<Rightarrow> 'c stage1 \<Rightarrow>
    ('c stage1 sealed_state \<times> 'c stage1) option" where
  "stage1_poll f b env v ss s =
     (if recovering s then recovery_poll f b env v ss s
      else
        let s = (if sh_enroll (shared (usb s)) = CDC_ENROLL_ASK then serve_enroll env b v s else s) in
        if sh_update (shared (usb s)) \<noteq> CDC_CONFIRM_MAGIC then Some (ss, s)
        else
          let s = upd_shared (\<lambda>sh. sh\<lparr>sh_update := 0\<rparr>) s;
              (r, rec, s) = upd_record_load (stage1_io b v s) zero_record s
          in if r = 0 \<and> ustate rec = UPD_TRIAL
             then let (_, s) = upd_confirm (stage1_io b v s) s in Some (ss, s) else Some (ss, s))"

section \<open>What a step leaves alone\<close>

text \<open>Whether the board is locked out and whether recovery was asked for.\<close>

definition flags :: "'c stage1 \<Rightarrow> bool \<times> bool" where
  "flags s = (locked_out s, forced s)"

lemma flags_simps [simp]:
  "flags (snd (on_chip g s)) = flags s" "flags (upd_shared h s) = flags s" "flags (delay_us v us s) = flags s"
  "flags (s\<lparr>ram_stage := m\<rparr>) = flags s" "flags (bridge_turn s) = flags s" "flags (tx_byte c s) = flags s"
  by (simp_all add: flags_def on_chip_def upd_shared_def delay_us_def bridge_turn_def tx_byte_def Let_def case_prod_unfold)

lemma flags_tries [simp]: "flags (snd (sd_tries v op n s)) = flags s"
  by (induction n arbitrary: s) (simp_all add: Let_def case_prod_unfold)

lemma flags_block [simp]:
  "flags (snd (snd (block_read v base n k s))) = flags s" "flags (snd (block_write v base n k bs s)) = flags s"
  by (simp_all add: block_read_def block_write_def Let_def case_prod_unfold)

lemma flags_pages [simp]: "flags (snd (write_pages v a ps s)) = flags s"
  by (induction ps arbitrary: a s) (simp_all add: Let_def case_prod_unfold)

lemma flags_draws [simp]: "flags (snd (snd (rng_loop v n prev S s))) = flags s"
  by (induction n arbitrary: prev S s) (simp_all add: Let_def case_prod_unfold split: option.splits)

lemma stage1_io_sel [simp]:
  "flash_read (stage1_io b v s) = f_read v" "flash_erase (stage1_io b v s) = f_erase v"
  "flash_write (stage1_io b v s) = f_write v" "stage_read (stage1_io b v s) = s_read v"
  "stage_blocks (stage1_io b v s) = io_stage_blocks s" "backup_read (stage1_io b v s) = Some (b_read v)"
  "backup_write (stage1_io b v s) = Some (b_write v)" "backup_blocks (stage1_io b v s) = io_backup_blocks s"
  "random (stage1_io b v s) = rng v" "io_hw_rev (stage1_io b v s) = 0" "adopt_blank (stage1_io b v s) = SEC_ADOPT b"
  "check_pages (stage1_io b v s) = SEC_LOCKED_PAGES b" "check_signature (stage1_io b v s) = SEC_SIGNED_BOOT b"
  by (simp_all add: stage1_io_def)

interpretation flag_port: update_port "stage1_io b v t" "\<lambda>x. flags x = g" for b and v :: "'c vendor" and t g
  by unfold_locales
    (auto simp: f_read_def f_erase_def f_write_def s_read_def b_read_def b_write_def rng_def Let_def case_prod_unfold)

lemma flags_put [simp]: "flags (t_put v c s) = flags s"
proof -
  have "flags (t_put_loop v n d s) = flags s" for n d
    by (induction n arbitrary: s) simp_all
  then show ?thesis
    by (simp add: t_put_def)
qed

lemma flags_said [simp]: "flags (say v m s) = flags s"
proof -
  have "flags (fold (\<lambda>c. t_put v (uint c)) cs s) = flags s" for cs
    by (induction cs arbitrary: s) simp_all
  then show ?thesis
    by (simp add: say_def)
qed

lemma flags_fields [simp]:
  "flags (s\<lparr>sfs := fs\<rparr>) = flags s" "flags (s\<lparr>card_opened := o1\<rparr>) = flags s" "flags (s\<lparr>card_sectors := n\<rparr>) = flags s"
  "flags (s\<lparr>cmap := m\<rparr>) = flags s" "flags (s\<lparr>stage_base := n\<rparr>) = flags s" "flags (s\<lparr>io_stage_blocks := n\<rparr>) = flags s"
  "flags (s\<lparr>backup_base := n\<rparr>) = flags s" "flags (s\<lparr>io_backup_blocks := n\<rparr>) = flags s"
  "flags (s\<lparr>update_base := n\<rparr>) = flags s" "flags (s\<lparr>update_blocks := n\<rparr>) = flags s"
  by (simp_all add: flags_def)

lemma flags_open_file: "open_file f v name s = Some (base, n, s') \<Longrightarrow> flags s' = flags s"
  by (auto simp: open_file_def)

lemma flags_card_open: "card_open f v s = Some s' \<Longrightarrow> flags s' = flags s"
proof -
  have files: "open_files f v t = Some t' \<Longrightarrow> flags t' = flags t" for t t'
    by (auto simp: open_files_def Let_def bind_eq_Some_conv dest!: flags_open_file)
  define t where "t = on_chip (sd_init v) (s\<lparr>card_opened := True, io_stage_blocks := 0, io_backup_blocks := 0\<rparr>)"
  have t: "flags (snd t) = flags s"
    by (simp add: t_def)
  show "card_open f v s = Some s' \<Longrightarrow> flags s' = flags s"
    unfolding card_open_def Let_def t_def [symmetric] using t
    by (cases t) (auto simp del: fun_upd_apply split: option.splits if_splits dest!: files)
qed

lemma flags_card_update: "flags (snd (snd (card_update env v keys r ss s))) = flags s"
proof -
  have u: "flags (snd (snd (u_read v 0 s))) = flags s"
    by (simp add: u_read_def)
  then show ?thesis
    by (simp add: card_update_def Let_def case_prod_unfold)
qed

section \<open>What starts has been checked\<close>

lemma recovery_stays: "enter_recovery f v why s = Some (q, s') \<Longrightarrow> q = STAGE1_RECOVERY"
  by (auto simp: enter_recovery_def Let_def bind_eq_Some_conv split: if_splits)

lemma starts_only: "start_or_not f v u s = Some (STAGE1_START, s') \<Longrightarrow> flags s = (False, False)"
  by (auto simp: start_or_not_def Let_def flags_def STAGE1_START_def STAGE1_RECOVERY_def split: if_splits dest!: recovery_stays)

lemma no_check_stays: "\<lbrakk>no_check f b v why w s = Some (STAGE1_START, s'); 2 \<le> SECURITY_LEVEL b\<rbrakk> \<Longrightarrow> False"
  by (auto simp: no_check_def sec_defs flags_def STAGE1_START_def STAGE1_RECOVERY_def split: if_splits
      dest!: recovery_stays starts_only [unfolded STAGE1_START_def])

lemma result_starts:
  assumes "boot_result f v w busy res msg r s = Some (STAGE1_START, s')"
  shows "flags s = (False, False) \<and> (res = UPD_START \<or> res < 0 \<and> ustate r \<noteq> UPD_INSTALLING \<and> ustate r \<noteq> UPD_ROLLING_BACK)"
proof -
  have ne: "STAGE1_START \<noteq> STAGE1_RECOVERY"
    by (simp add: const_defs)
  show ?thesis
    using assms ne starts_only recovery_stays
    by (fastforce simp: boot_result_def Let_def split: if_splits)
qed

lemma boot_flags_free:
  assumes "flags (boot_flags b v s) = (False, False)" "2 \<le> SECURITY_LEVEL b"
  shows "security_check v s = []" "sh_recover (shared (usb s)) \<noteq> CDC_RECOVER_MAGIC"
  using assms by (auto simp: boot_flags_def flags_def sec_defs upd_shared_def Let_def split: if_splits)

text \<open>C39: At level 2 the V5F starts only from a board whose option bytes are locked down, with no recovery asked for,
  and only with an image that has been checked: \<open>upd_boot\<close> said so of the record it ended with, the keys were made
  for the root key built in, and the image in flash has the MAC of the record and the signature of a release key. The one
  exception is written out: \<open>upd_boot\<close> stopped by an error, and not in the middle of programming.\<close>

theorem boot_starts_checked:
  assumes "boot f b env v ss s = Some (STAGE1_START, rec, ss', s')" and "2 \<le> SECURITY_LEVEL b"
  shows "security_check v s = [] \<and> sh_recover (shared (usb s)) \<noteq> CDC_RECOVER_MAGIC \<and>
    (\<exists>keys w r0 ss1 x1 res msg x2.
       SEALED_ROOT_KEY b = Some (root keys) \<and>
       upd_boot env (stage1_io b v x1) keys w r0 ss1 x1 = (res, msg, rec, ss', x2) \<and>
       (res = UPD_START \<and> v5f_length rec \<noteq> 0 \<and> image_checked env (stage1_io b v x1) keys rec x2 \<or>
        res < 0 \<and> ustate rec \<noteq> UPD_INSTALLING \<and> ustate rec \<noteq> UPD_ROLLING_BACK))"
proof -
  define s0 where "s0 = boot_flags b v s"
  define w0 where "w0 = (sh_update (shared (usb s0)) = CDC_UPDATE_MAGIC)"
  obtain r r1 s1 where l: "upd_record_load (stage1_io b v s0) zero_record s0 = (r, r1, s1)"
    by (cases "upd_record_load (stage1_io b v s0) zero_record s0") auto
  define s2 where "s2 = upd_shared (publish_revision (if r = 0 then v5f_version r1 else 0)) s1"
  have f2: "flags s2 = flags s0"
    using flag_port.record_load_kept [where x = s0 and g = "flags s0" and b = b and v = v and t = s0 and r = zero_record]
    by (simp add: s2_def l)
  note boot = assms(1) [unfolded boot_def Let_def, folded s0_def, folded w0_def, unfolded l prod.case, folded s2_def]
  have go: "\<not> (r = 1 \<and> \<not> w0)" "\<not> r < 0"
    using boot by (auto split: if_splits dest: no_check_stays [OF _ assms(2)])
  obtain keys where k: "keys_get b v (if r = 0 then Some r1 else None) s2 = Inr keys"
    using boot go by (auto split: sum.splits dest: no_check_stays [OF _ assms(2)])
  have rk: "SEALED_ROOT_KEY b = Some (root keys)"
    using k by (auto simp: keys_get_def Let_def split: option.splits if_splits)
  define busy where "busy = (r = 0 \<and> ustate r1 \<noteq> UPD_IDLE)"
  obtain s3 where o: "card_open f v s2 = Some s3"
    using boot go k by (auto simp: bind_eq_Some_conv)
  obtain nw ss3 x1 where c: "(if \<not> w0 \<and> \<not> busy \<and> update_blocks s3 \<noteq> 0 then card_update env v keys r1 ss s3
      else (False, ss, s3)) = (nw, ss3, x1)"
    by (cases "if \<not> w0 \<and> \<not> busy \<and> update_blocks s3 \<noteq> 0 then card_update env v keys r1 ss s3 else (False, ss, s3)") auto
  have f1: "flags x1 = flags s0"
    using c flags_card_open [OF o] f2 flags_card_update [of env v keys r1 ss s3] by (auto split: if_splits)
  obtain res msg r4 ss4 x2 where u: "upd_boot env (stage1_io b v x1) keys (w0 \<or> nw) r1 ss3 x1 = (res, msg, r4, ss4, x2)"
    by (cases "upd_boot env (stage1_io b v x1) keys (w0 \<or> nw) r1 ss3 x1") auto
  have fu: "flags x2 = flags s0"
    using flag_port.boot_kept [where x = x1 and g = "flags x1" and b = b and v = v and t = x1 and r = r1 and w = "w0 \<or> nw"
        and env = env and keys = keys and s = ss3] f1
    by (simp add: u)
  have "(do { (q, x) \<leftarrow> boot_result f v (w0 \<or> nw) busy res msg r4 x2; Some (q, r4, ss4, x) }) =
      Some (STAGE1_START, rec, ss', s')"
    using boot go k o c u by (simp add: busy_def)
  then have e: "r4 = rec" "ss4 = ss'" "boot_result f v (w0 \<or> nw) busy res msg rec x2 = Some (STAGE1_START, s')"
    by (auto simp: bind_eq_Some_conv)
  note st = result_starts [OF e(3)]
  have "security_check v s = []" "sh_recover (shared (usb s)) \<noteq> CDC_RECOVER_MAGIC"
    using boot_flags_free [of b v s, OF _ assms(2)] st fu by (simp_all add: s0_def)
  moreover have "v5f_length rec \<noteq> 0 \<and> image_checked env (stage1_io b v x1) keys rec x2" if "res = UPD_START"
    using stage1.boot_checked [OF u [unfolded that]] e assms(2) by (simp add: sec_defs)
  ultimately show ?thesis
    using rk u e st by blast
qed

text \<open>That exception happens: a locked down board at level 2 whose flash can no longer be erased, with an image on
  trial. Its start starts the V5F, and nothing of the image has been read.\<close>

definition worn_out :: "unit vendor" where
  "worn_out =
     \<lparr>flash_bytes = (\<lambda>_ a n. if a = STAGE1_FLASH_BASE + UPD_RECORD_A then record_bytes trial_record else replicate n 0),
      rom_erase = (\<lambda>_ _ c. (False, c)), rom_write = (\<lambda>_ _ c. (False, c)), sd_init = (\<lambda>c. (False, c)), sd_capacity = (\<lambda>_. 0),
      sd_read = (\<lambda>_ _ c. ((False, []), c)), sd_write = (\<lambda>_ _ c. ((False, ()), c)), rng_draw = (\<lambda>c. (None, c)),
      uid_bytes = (\<lambda>_. replicate 8 1), flash_OBR = (\<lambda>_. 2), flash_WPR = (\<lambda>_. 0xFFFF0000), option_bytes = (\<lambda>_. []),
      ob_program = (\<lambda>_ c. c), hsem0 = (\<lambda>_. True), elapse = (\<lambda>_ x. x), msg_text = (\<lambda>_. [])\<rparr>"

definition level2 :: build where
  "level2 = \<lparr>SECURITY_LEVEL = 2, SEALED_ROOT_KEY = Some (replicate 32 7), SEALED_PRODUCT = 1\<rparr>"

definition reset_with :: "'c \<Rightarrow> 'c stage1" where
  "reset_with c =
     \<lparr>sfs = \<lparr>dir_buf = [], fat_buf = [], fat_cached = 0, card = c\<rparr>, usb = fresh_bridge, cmap = no_map, card_sectors = 0,
      stage_base = 0, backup_base = 0, update_base = 0, update_blocks = 0, io_stage_blocks = 0, io_backup_blocks = 0,
      use_ram = False, ram_stage = [], card_opened = False, insecure = [], recovering = False, forced = False,
      locked_out = False, why_recovery = None, ymr_bufs = ([], [], [], []), cmd_line = [], opened = False\<rparr>"

lemma worn_load: "upd_record_load (stage1_io b worn_out t) r0 x = (0, trial_record, x)"
proof -
  have "f_read worn_out UPD_RECORD_A RECORD_SIZE x = (0, record_bytes trial_record, x)"
    "f_read worn_out UPD_RECORD_B RECORD_SIZE x = (0, replicate 220 0, x)"
    by (simp_all add: f_read_def worn_out_def const_defs word_less_nat_alt)
  then show ?thesis
    using record_round(1) [OF trial_record_facts(1)] trial_record_facts(3) zeros_invalid
    by (simp add: upd_record_load_def Let_def)
qed

lemma worn_boot:
  "upd_boot demo_env (stage1_io b worn_out t) keys w r0 ss x =
     (ERR_FLASH_WRITE_SECTOR, TrialBoot (v5f_version trial_record) 1, next_record (trial_record\<lparr>progress := 1\<rparr>), ss, x)"
proof -
  have ne: "UPD_TRIAL \<noteq> UPD_IDLE" "UPD_TRIAL \<noteq> UPD_BACKING_UP" "UPD_TRIAL \<noteq> UPD_INSTALLING" "\<not> UPD_TRIAL_BOOTS < 1"
    by (simp_all add: const_defs word_less_nat)
  have e: "f_erase worn_out (record_at k) x = (ERR_FLASH_WRITE_SECTOR, x)" for k
    by (simp add: f_erase_def record_at_def in_range_def on_chip_def worn_out_def const_defs)
  have st: "record_store (stage1_io b worn_out t) q x = (ERR_FLASH_WRITE_SECTOR, next_record q, x)" for q
    by (simp add: record_store_def write_checked_def e Let_def)
  show ?thesis
    using trial_record_facts(5,6) ne
    by (simp add: upd_boot_def boot_record_def worn_load boot_step_def trial_boot_def st Let_def)
qed

lemma worn_flags: "boot_flags level2 worn_out (reset_with ()) = reset_with ()"
  by (simp add: boot_flags_def security_check_def worn_out_def reset_with_def fresh_bridge_def fresh_shared_def level2_def
      const_defs Let_def)

lemma starts_unchecked:
  "\<exists>rec s. boot 1 level2 demo_env worn_out fresh_sealed (reset_with ()) = Some (STAGE1_START, rec, fresh_sealed, s)"
proof -
  have st: "ustate trial_record = UPD_TRIAL"
    by (rule trial_record_facts(5))
  have ne: "UPD_TRIAL \<noteq> UPD_IDLE" "UPD_TRIAL \<noteq> UPD_INSTALLING" "UPD_TRIAL \<noteq> UPD_ROLLING_BACK"
    by (simp_all add: const_defs)
  have free: "flags (reset_with ()) = (False, False)"
    by (simp add: reset_with_def flags_def)
  have w: "sh_update (shared (usb (reset_with ()))) \<noteq> CDC_UPDATE_MAGIC"
    by (simp add: reset_with_def fresh_bridge_def fresh_shared_def const_defs)
  have k: "\<exists>keys. keys_get level2 worn_out (Some r) s = Inr keys" for r s
    by (simp add: keys_get_def level2_def sec_defs)
  obtain keys where keys: "keys_get level2 worn_out (Some trial_record)
      (upd_shared (publish_revision (v5f_version trial_record)) (reset_with ())) = Inr keys"
    using k by blast
  have o: "\<exists>t. card_open 1 worn_out s = Some t \<and> flags t = flags s" for s
    by (simp add: card_open_def on_chip_def worn_out_def Let_def)
  obtain t where t: "card_open 1 worn_out (upd_shared (publish_revision (v5f_version trial_record)) (reset_with ())) = Some t"
      "flags t = (False, False)"
    using o [of "upd_shared (publish_revision (v5f_version trial_record)) (reset_with ())"] free by auto
  have "start_or_not 1 worn_out True s = Some (STAGE1_START, upd_shared (nostart_set 0) s)" if "flags s = (False, False)" for s
    using that by (simp add: start_or_not_def flags_def)
  then have "\<exists>s. boot_result 1 worn_out False True ERR_FLASH_WRITE_SECTOR m (next_record (trial_record\<lparr>progress := 1\<rparr>)) t =
      Some (STAGE1_START, s)" for m
    using t(2) ne st by (simp add: boot_result_def next_record_def Let_def)
  then show ?thesis
    using st ne w keys t
    by (auto simp: boot_def worn_flags worn_load worn_boot Let_def bind_eq_Some_conv)
qed

lemma boot_starts_checked_witness:
  "\<exists>keys w r0 ss1 x1 res msg x2 rec.
     SEALED_ROOT_KEY level2 = Some (root keys) \<and>
     upd_boot demo_env (stage1_io level2 worn_out x1) keys w r0 ss1 x1 = (res, msg, rec, fresh_sealed, x2)"
proof -
  obtain rec s where "boot 1 level2 demo_env worn_out fresh_sealed (reset_with ()) = Some (STAGE1_START, rec, fresh_sealed, s)"
    using starts_unchecked by blast
  from boot_starts_checked [OF this] show ?thesis
    by (simp add: level2_def) blast
qed

section \<open>The V3F's own image\<close>

definition v3f_image :: "'c vendor \<Rightarrow> 'c \<Rightarrow> u8 list" where
  "v3f_image v c = flash_bytes v c STAGE1_FLASH_BASE (unat STAGE1_V3F_END)"

text \<open>None of the \<open>n\<close> bytes at an address is the V3F's.\<close>

definition beside_v3f :: "u32 \<Rightarrow> nat \<Rightarrow> bool" where
  "beside_v3f a n \<longleftrightarrow>
     (\<forall>i < n. \<not> (STAGE1_FLASH_BASE \<le> a + word_of_nat i \<and> a + word_of_nat i < STAGE1_FLASH_BASE + STAGE1_V3F_END))"

text \<open>What is relied on of the chip: erasing and programming change only the bytes they name, and nothing else writes
  to the flash.\<close>

definition flash_apart :: "'c vendor \<Rightarrow> bool" where
  "flash_apart v \<longleftrightarrow>
     (\<forall>c. (\<forall>a n. beside_v3f a (unat n) \<longrightarrow> v3f_image v (snd (rom_erase v a n c)) = v3f_image v c) \<and>
          (\<forall>a bs. beside_v3f a (length bs) \<longrightarrow> v3f_image v (snd (rom_write v a bs c)) = v3f_image v c) \<and>
          (\<forall>a n. v3f_image v (snd (sd_read v a n c)) = v3f_image v c) \<and>
          (\<forall>a bs. v3f_image v (snd (sd_write v a bs c)) = v3f_image v c) \<and>
          v3f_image v (snd (rng_draw v c)) = v3f_image v c \<and>
          (\<forall>us u. v3f_image v (snd (elapse v us (u, c))) = v3f_image v c))"

lemma above_v3f:
  assumes "0x20000 \<le> (y :: u32)"
  shows "\<not> (STAGE1_FLASH_BASE \<le> STAGE1_FLASH_BASE + y \<and> STAGE1_FLASH_BASE + y < STAGE1_FLASH_BASE + STAGE1_V3F_END)"
proof -
  have "unat (STAGE1_FLASH_BASE + y) = (0x8000000 + unat y) mod 2 ^ 32"
    by (simp add: unat_word_ariths const_defs)
  then show ?thesis
    using assms unat_bounds(3) [of y]
    by (cases "0x8000000 + unat y < 2 ^ 32") (auto simp: word_le_nat_alt word_less_nat_alt const_defs mod_if)
qed

lemma beside_range:
  assumes "0x20000 \<le> addr" "unat addr + n \<le> 2 ^ 32"
  shows "beside_v3f (STAGE1_FLASH_BASE + addr) n"
proof -
  have "0x20000 \<le> addr + word_of_nat i" if "i < n" for i
  proof -
    have "unat (addr + word_of_nat i) = unat addr + i"
      using assms(2) that by (simp add: unat_word_ariths unsigned_of_nat take_bit_nat_eq_self)
    then show ?thesis
      using assms(1) by (simp add: word_le_nat_alt)
  qed
  then show ?thesis
    using above_v3f by (simp add: beside_v3f_def add.assoc)
qed

lemma in_range_above: "in_range addr n \<Longrightarrow> 0x20000 \<le> addr"
  by (auto simp: in_range_def Let_def const_defs intro: order_trans [rotated])

lemma image_on_chip [simp]:
  "chip (snd (on_chip g s)) = snd (g (chip s))" "chip (upd_shared h s) = chip s"
  "chip (delay_us v us s) = snd (elapse v us (usb s, chip s))"
  by (simp_all add: on_chip_def upd_shared_def delay_us_def Let_def case_prod_unfold)

lemma image_kept:
  assumes "flash_apart v"
  shows "v3f_image v (snd (sd_read v a n c)) = v3f_image v c" "v3f_image v (snd (sd_write v a bs c)) = v3f_image v c"
    "v3f_image v (snd (rng_draw v c)) = v3f_image v c" "v3f_image v (snd (elapse v us (u, c))) = v3f_image v c"
  using assms by (simp_all add: flash_apart_def)

lemma image_tries:
  assumes "flash_apart v" "\<And>c. v3f_image v (snd (op c)) = v3f_image v c"
  shows "v3f_image v (chip (snd (sd_tries v op n s))) = v3f_image v (chip s)"
  by (induction n arbitrary: s) (simp_all add: Let_def case_prod_unfold assms(2) image_kept(4) [OF assms(1)])

lemma image_blocks:
  assumes "flash_apart v"
  shows "v3f_image v (chip (snd (snd (block_read v base n k s)))) = v3f_image v (chip s)"
    "v3f_image v (chip (snd (block_write v base n k bs s))) = v3f_image v (chip s)"
  by (simp_all add: block_read_def block_write_def Let_def case_prod_unfold image_tries [OF assms] image_kept [OF assms])

lemma image_draws:
  "flash_apart v \<Longrightarrow> v3f_image v (chip (snd (snd (rng_loop v n prev S s)))) = v3f_image v (chip s)"
  by (induction n arbitrary: prev S s) (simp_all add: Let_def case_prod_unfold image_kept split: option.splits)

lemma unat_mod_0: "x mod k = 0 \<Longrightarrow> unat x mod unat k = 0" for x k :: u32
  by (metis unat_0 unat_mod)

lemma aligned_end:
  fixes x k :: u32
  assumes "x mod k = 0" "unat k dvd 2 ^ 32"
  shows "unat x + unat k \<le> 2 ^ 32"
proof -
  have "unat k dvd unat x"
    using unat_mod_0 [OF assms(1)] by (simp add: dvd_eq_mod_eq_0)
  then obtain p where p: "unat x = unat k * p"
    by (elim dvdE)
  obtain q where q: "2 ^ 32 = unat k * q"
    using assms(2) by (elim dvdE)
  have "unat k * p < unat k * q"
    using unat_bounds(3) [of x] by (simp only: p q)
  then have "p < q"
    by (simp only: nat_mult_less_cancel_disj)
  then have "unat k * Suc p \<le> unat k * q"
    by (intro mult_le_mono2) simp
  then show ?thesis
    by (simp only: p q mult_Suc_right add.commute)
qed

lemma image_erased:
  assumes "flash_apart v"
  shows "v3f_image v (chip (snd (f_erase v addr s))) = v3f_image v (chip s)"
proof (cases "addr mod UPD_SECTOR = 0 \<and> in_range addr UPD_SECTOR")
  case True
  have "unat addr + 8192 \<le> 2 ^ 32"
    using aligned_end [of addr UPD_SECTOR] True by (simp add: UPD_SECTOR_def)
  then have "beside_v3f (STAGE1_FLASH_BASE + addr) (unat UPD_SECTOR)"
    using beside_range [of addr "unat UPD_SECTOR"] in_range_above [of addr UPD_SECTOR] True by (simp add: UPD_SECTOR_def)
  then show ?thesis
    using assms True by (simp add: f_erase_def flash_apart_def Let_def case_prod_unfold)
qed (simp add: f_erase_def)

lemma image_pages:
  assumes "flash_apart v" "0x20000 \<le> addr" "unat addr + 256 * length ps \<le> 2 ^ 32" "list_all (\<lambda>p. length p = 256) ps"
  shows "v3f_image v (chip (snd (write_pages v (STAGE1_FLASH_BASE + addr) ps s))) = v3f_image v (chip s)"
  using assms(2-)
proof (induction ps arbitrary: addr s)
  case (Cons p ps)
  have b: "beside_v3f (STAGE1_FLASH_BASE + addr) (length p)"
    using Cons.prems by (intro beside_range) simp_all
  obtain ok s1 where w: "on_chip (rom_write v (STAGE1_FLASH_BASE + addr) p) s = (ok, s1)"
    by (cases "on_chip (rom_write v (STAGE1_FLASH_BASE + addr) p) s") auto
  have i: "v3f_image v (chip s1) = v3f_image v (chip s)"
    using image_on_chip(1) [of "rom_write v (STAGE1_FLASH_BASE + addr) p" s] assms(1) b by (simp add: w flash_apart_def)
  show ?case
  proof (cases "ps = [] \<or> \<not> ok")
    case True
    then show ?thesis
      using i by (auto simp: w Let_def)
  next
    case False
    then have "unat addr + 256 < 2 ^ 32"
      using Cons.prems(2) by (cases ps) auto
    then have "unat (addr + 256) = unat addr + 256"
      by (simp add: unat_word_ariths)
    then have "v3f_image v (chip (snd (write_pages v (STAGE1_FLASH_BASE + (addr + 256)) ps s1))) = v3f_image v (chip s1)"
      using Cons.prems by (intro Cons.IH) (simp_all add: word_le_nat_alt)
    then show ?thesis
      using i False by (simp add: w PROGRAM_PAGE_def add.assoc Let_def)
  qed
qed simp

lemma image_written:
  assumes "flash_apart v" "addr mod 4096 = 0" "length bs \<le> 4096"
  shows "v3f_image v (chip (snd (f_write v addr bs s))) = v3f_image v (chip s)"
proof -
  have "unat addr + 4096 \<le> 2 ^ 32"
    using aligned_end [OF assms(2)] by simp
  moreover have "length (program_pages bs) \<le> 16"
    using assms(3) by (simp add: program_pages_def)
  ultimately have "unat addr + 256 * length (program_pages bs) \<le> 2 ^ 32"
    by linarith
  moreover have "list_all (\<lambda>p. length p = 256) (program_pages bs)"
    by (simp add: program_pages_def list_all_iff Let_def)
  ultimately show ?thesis
    using image_pages [OF assms(1), of addr "program_pages bs" s] by (auto simp: f_write_def Let_def dest: in_range_above)
qed

interpretation v3f: update_port "stage1_io b v t" "\<lambda>x. flash_apart v \<longrightarrow> v3f_image v (chip x) = img"
  for b and v :: "'c vendor" and t img
  by unfold_locales
    (auto simp: f_read_def s_read_def b_read_def b_write_def rng_def Let_def case_prod_unfold image_blocks image_draws
      image_erased image_written)

text \<open>C40: No update changes the V3F's own image. Whatever is in the record, in the package, in the backup and on the
  card, and wherever it stops, \<open>upd_boot\<close> and the other operations leave the 128 KB of stage 1 as they are, on a
  chip where erasing and programming change only what they name.\<close>

theorem v3f_image_safe:
  assumes "flash_apart v"
  shows "v3f_image v (chip (snd (snd (snd (snd (upd_boot env (stage1_io b v t) keys w r ss s)))))) = v3f_image v (chip s) \<and>
    v3f_image v (chip (snd (upd_confirm (stage1_io b v t) s))) = v3f_image v (chip s) \<and>
    v3f_image v (chip (snd (snd (upd_adopt (stage1_io b v t) s)))) = v3f_image v (chip s) \<and>
    v3f_image v (chip (snd (snd (upd_mark_broken (stage1_io b v t) s)))) = v3f_image v (chip s)"
  using assms v3f.boot_kept [where x = s and v = v and img = "v3f_image v (chip s)"]
    v3f.confirm_kept [where x = s and v = v and img = "v3f_image v (chip s)"]
    v3f.adopt_kept [where x = s and v = v and img = "v3f_image v (chip s)"]
    v3f.mark_broken_kept [where x = s and v = v and img = "v3f_image v (chip s)"] by blast

text \<open>A flash that works, as a function.\<close>

definition mem_chip :: "(u32 \<Rightarrow> u8) vendor" where
  "mem_chip =
     \<lparr>flash_bytes = (\<lambda>c a n. map (\<lambda>i. c (a + word_of_nat i)) [0..<n]),
      rom_erase = (\<lambda>a n c. (True, \<lambda>x. if unat (x - a) < unat n then 0xFF else c x)),
      rom_write = (\<lambda>a bs c. (True, \<lambda>x. if unat (x - a) < length bs then bs ! unat (x - a) else c x)),
      sd_init = (\<lambda>c. (False, c)), sd_capacity = (\<lambda>_. 0), sd_read = (\<lambda>_ _ c. ((False, []), c)),
      sd_write = (\<lambda>_ _ c. ((False, ()), c)), rng_draw = (\<lambda>c. (None, c)), uid_bytes = (\<lambda>_. replicate 8 1),
      flash_OBR = (\<lambda>_. 2), flash_WPR = (\<lambda>_. 0xFFFF0000), option_bytes = (\<lambda>_. []), ob_program = (\<lambda>_ c. c),
      hsem0 = (\<lambda>_. True), elapse = (\<lambda>_ x. x), msg_text = (\<lambda>_. [])\<rparr>"

lemma mem_chip_apart: "flash_apart mem_chip"
proof -
  have out: "\<not> unat (STAGE1_FLASH_BASE + word_of_nat i - a) < n" if b: "beside_v3f a n" and i: "i < unat STAGE1_V3F_END" for i a n
  proof
    let ?x = "STAGE1_FLASH_BASE + word_of_nat i"
    assume l: "unat (?x - a) < n"
    have "a + word_of_nat (unat (?x - a)) = ?x"
      by simp
    then have "\<not> (STAGE1_FLASH_BASE \<le> ?x \<and> ?x < STAGE1_FLASH_BASE + STAGE1_V3F_END)"
      using b l unfolding beside_v3f_def by metis
    moreover have "unat ?x = 0x8000000 + i"
      using i by (simp add: unat_word_ariths unsigned_of_nat take_bit_nat_eq_self const_defs)
    ultimately show False
      using i by (simp add: word_le_nat_alt word_less_nat_alt const_defs)
  qed
  have image: "v3f_image mem_chip c = map (\<lambda>i. c (STAGE1_FLASH_BASE + word_of_nat i)) [0..<unat STAGE1_V3F_END]" for c
    by (simp add: v3f_image_def mem_chip_def)
  have "v3f_image mem_chip (snd (rom_erase mem_chip a n c)) = v3f_image mem_chip c" if "beside_v3f a (unat n)" for a n c
    unfolding image by (rule map_cong [OF refl]) (use out [OF that] in \<open>simp add: mem_chip_def\<close>)
  moreover have "v3f_image mem_chip (snd (rom_write mem_chip a bs c)) = v3f_image mem_chip c" if "beside_v3f a (length bs)" for a bs c
    unfolding image by (rule map_cong [OF refl]) (use out [OF that] in \<open>simp add: mem_chip_def\<close>)
  ultimately show ?thesis
    by (simp add: flash_apart_def) (simp add: mem_chip_def)
qed

lemma v3f_image_safe_witness:
  "v3f_image mem_chip (chip (snd (upd_confirm (stage1_io level2 mem_chip (reset_with (\<lambda>_. 0x5A))) (reset_with (\<lambda>_. 0x5A))))) =
   v3f_image mem_chip (chip (reset_with (\<lambda>_. 0x5A)))"
  using v3f_image_safe [OF mem_chip_apart] by blast

text \<open>The fence itself is weaker: \<open>in_range\<close> takes a length that wraps for the ranges that don't ask for \<open>end > addr\<close>,
  and its pages then run from the top of memory into the V3F's image.\<close>

lemma fence_wraps: "in_range 0xFFFFFF00 0x1000" "STAGE1_FLASH_BASE + (0xFFFFFF00 + PROGRAM_PAGE) = STAGE1_FLASH_BASE"
  by (simp_all add: in_range_def const_defs Let_def)

end
