(* ===== verification/Spec2Isabelle.thy ===== *)
theory Spec2Isabelle
  imports VM_Props VM_Cache VM_Stack VM_Safety LF_Pool LF_Errors LF_Device LF_Ctr LF_Blake2s LF_Tools LF_Comp LF_Ymrecv LF_Datalog LF_Source LF_Dict LF_Update LF_Cdc LF_Exfat LF_Card LF_Stage1
begin

text \<open>
  LiteForth is a Forth system for microcontrollers: a small virtual machine (VM) in C, a compiler that emits its
  code, a dictionary, block buffers over a file or an SD card, data logs, and on the CH32H417, which has two cores,
  signed firmware updates. This development models its C code, part by part, and proves what makes the parts
  correct. It follows the C sources: a definition has the name of the function it translates (or of a piece of it),
  structs are records, the machine's integers are words that wrap, errors (iors) are integers as in
  \<^verbatim>\<open>src/src/errcodes.h\<close>, and whatever is not in the sources (the console, the host's files, the chip and its vendor's
  drivers, Monocypher's Ed25519 and X25519) is a parameter: a record of functions on a state of the outside world.

  \<^bold>\<open>The virtual machine\<close> (\<^verbatim>\<open>src/src/vm.c\<close>, \<^verbatim>\<open>vm.h\<close>, \<^verbatim>\<open>vm_labels.h\<close>, \<^verbatim>\<open>iomap.c\<close>, the arithmetic of \<^verbatim>\<open>tools.c\<close>).
  \<^item> \<^verbatim>\<open>VM_Memory\<close>: the paged memory, slice addresses, write protection and guarded I/O ranges. A store is read
    back by a fetch, other slices stay, and no access leaves its page.
  \<^item> \<^verbatim>\<open>VM_Math\<close>: 64 by 32 bit division bit by bit, and the math unit. The division is \<open>div\<close> and \<open>mod\<close>, multiplication
    and symmetric division are exact.
  \<^item> \<^verbatim>\<open>VM_State\<close>, \<^verbatim>\<open>VM_Stack\<close>: \<open>vm_state_t\<close> with the two stacks as rings of 128 cells (the locale \<open>ring_stack\<close>,
    interpreted for both stacks and the calls from C): they are lists, newest first.
  \<^item> \<^verbatim>\<open>VM_Ports\<close>, \<^verbatim>\<open>VM_Exec\<close>: the I/O space, and \<open>vmExec\<close>: groups of micro-ops, immediates, jumps and calls, API
    calls, the sandbox of \<open>vmRun\<close> and \<open>vmCall\<close>. The loop of an instruction is bounded by fuel: a group without
    \<open>unext\<close> ends after its three slots (\<open>group_terminates\<close>); with it, it may never end
    (\<open>unext_ignores_step_limit\<close>).
  \<^item> \<^verbatim>\<open>VM_Safety\<close>, \<^verbatim>\<open>VM_Cache\<close>, \<^verbatim>\<open>VM_Props\<close>: whatever code runs, the VM keeps to the limits of its pages and protected cells stay;
    running with the cached code page is running without it, across word calls, steps and API calls that may move
    the limits; an app's errors reach its handler; calls and the multiply step.

  \<^bold>\<open>Data and storage.\<close>
  \<^item> \<^verbatim>\<open>LF_Pool\<close> (\<^verbatim>\<open>memalloc.c\<close>): the pool refines a stack of blocks, and no owner of a block
    disturbs another.
  \<^item> \<^verbatim>\<open>LF_Errors\<close> (\<^verbatim>\<open>utils.c\<close>): the error messages.
  \<^item> \<^verbatim>\<open>LF_Blocks\<close> (\<^verbatim>\<open>lfblocks.c\<close>) and \<^verbatim>\<open>LF_Device\<close> (the desktop's \<^verbatim>\<open>blocks.c\<close>): the block buffers as a
    write-back cache, proved in the locale of a block store and interpreted on the device: a read gives what was
    last written, an edit is in the file after a flush, and a write stays inside the mounted volume.
  \<^item> \<^verbatim>\<open>LF_Bytes\<close>, \<^verbatim>\<open>LF_Ctr\<close> (\<^verbatim>\<open>ctr.c\<close>), \<^verbatim>\<open>LF_Blake2s\<close> (\<^verbatim>\<open>blake2s.c\<close>): words as bytes; AES-128 and SM4 in counter mode,
    which is its own inverse and never uses a part of the keystream twice (both ciphers are shown injective); BLAKE2s, equal to RFC 7693 stated as a function of
    the whole message, however the message is cut.
  \<^item> \<^verbatim>\<open>LF_Datalog\<close> (\<^verbatim>\<open>datalog.c\<close>): the encrypted log; records are found again after a power cut.
  \<^item> \<^verbatim>\<open>LF_Exfat\<close> (the reading half of \<^verbatim>\<open>exfat.c\<close>), \<^verbatim>\<open>LF_Card\<close> (\<^verbatim>\<open>card.c\<close>): mounting, finding and listing on any
    contents of a card. The walks end, with 1048577 turns of fuel enough for each; a volume that mounts is well formed, and a
    file that is found lies in its volume and on the card.

  \<^bold>\<open>The language\<close> (\<^verbatim>\<open>tools.c\<close>, \<^verbatim>\<open>comp.c\<close>, \<^verbatim>\<open>forth.c\<close>).
  \<^item> \<^verbatim>\<open>LF_Tools\<close>: numbers, output and the RAM page: a printed number is parsed back. Where C's signed
    \<open>int32_t\<close> arithmetic in \<open>lfParseNumber\<close> would overflow (undefined in C), the model wraps.
  \<^item> \<^verbatim>\<open>LF_Comp\<close>: code space, literals, packed micro-ops, jumps. What is compiled runs on the VM of \<^verbatim>\<open>VM_Exec\<close>: a literal
    pushes its value, and a jump lands where it should.
  \<^item> \<^verbatim>\<open>LF_Source\<close>, \<^verbatim>\<open>LF_Dict\<close>: the input source and parsing (a parsed word is the next one of the text); headers as chains in memory,
    wordlists and the built-in tables.

  \<^bold>\<open>Updates of the CH32H417\<close> (\<^verbatim>\<open>sealed.c\<close>, \<^verbatim>\<open>update.c\<close>, \<^verbatim>\<open>ymrecv.c\<close>, \<^verbatim>\<open>Common/cdc_bridge.c\<close>, the two
  \<^verbatim>\<open>serial_io.c\<close> and \<^verbatim>\<open>V3F/User/stage1.c\<close>). The V3F starts first, runs stage 1, and wakes the V5F, which runs the VM.
  \<^item> \<^verbatim>\<open>LF_Ymrecv\<close>: the YMODEM receiver, which writes block 0 last and only after all the others.
  \<^item> \<^verbatim>\<open>LF_Cdc\<close>: the rings between the cores and USB (the locale \<open>byte_fifo\<close>, interpreted on the ring): however the
    stores of the two cores (\<open>v3f_step\<close> and \<open>v5f_step\<close>, shown to make up \<open>host_to_ring\<close> and \<open>serial_getc\<close>) and the USB
    interrupt interleave, the bytes of the host come in order; only a bus reset or SET_LINE_CODING drops what is in the slots.
  \<^item> \<^verbatim>\<open>LF_Sealed\<close>: packages. A mounted one is signed for this board, an opened block is the one that was signed.
  \<^item> \<^verbatim>\<open>LF_Update\<close>: the record with its two copies, backup, install, trial, rollback. A power cut in a store leaves one of two records
    (\<open>record_port\<close> has what is asked of the flash: only what is erased or written changes; \<open>torn\<close>, what a cut may leave),
    minimums are kept, and a trial ends, boot after boot, by what the one before stored. The locale \<open>flash_port\<close> has what a boot's check relies on.
  \<^item> \<^verbatim>\<open>LF_Fence\<close>: the locale \<open>update_port\<close>: what each callback keeps, a whole update keeps.
  \<^item> \<^verbatim>\<open>LF_Stage1\<close>: stage 1 itself, which interprets both: at level 2 the V5F starts only a checked image on a locked
    down board (but for one case, written out in the theorem and shown to happen), and no update changes the V3F's own
    flash. The recovery console works over the rings of \<^verbatim>\<open>LF_Cdc\<close> and the receiver of \<^verbatim>\<open>LF_Ymrecv\<close>.

  \<^verbatim>\<open>LF_Prelude\<close> has the integer types, the error codes, the collections \<open>const_defs\<close> and others, and lemmas
  on lists and words that all theories share. This theory imports them all.

  \<^bold>\<open>Fuel.\<close> Loops that end when a line or a device does (the receiver, the directory walks, the VM's run) take fuel and give
  None when it is used up. Where the code guarantees an end, a theorem says how much is enough: \<open>group_terminates\<close> for a
  group of micro-ops, \<open>walks_end\<close> for exFAT. A receiver whose line never falls silent does not end, in the code as in the model.

  \<^bold>\<open>Not modelled.\<close> The rest of \<^verbatim>\<open>forth.c\<close> (new headers, the boot record, LOAD and the interpreter loop) and of \<^verbatim>\<open>comp.c\<close> (what
  uses them), the API wrappers of \<^verbatim>\<open>api0.c\<close>, the dump and disassembly tools of \<^verbatim>\<open>utils.c\<close>: not reached yet. Creating,
  trimming and deleting files in \<^verbatim>\<open>exfat.c\<close> and the log files of \<^verbatim>\<open>logfile.c\<close> that use them. The VM in RISC-V assembly, the vendor's SDK and
  register level drivers, the consoles, displays and clocks of the targets: other languages or plain I/O. Monocypher and Unity are vendored.
  The optional build of \<^verbatim>\<open>sealed.c\<close> with \<^verbatim>\<open>SEALED_POOL\<close>, and message texts, which are datatypes here.
\<close>

end
